(* ===== verification/Prelude.thy ===== *)
theory Prelude
  imports Main "HOL-Library.Word" "HOL-Library.AList"
begin

text \<open>
  Shared vocabulary of the development: the Rust result and panic types, the widths of the
  machine integers the crates use, and the generic facts on lists and association lists that
  the component theories rely on. Facts that unfold the elementary operations of the
  \<open>HashMap\<close> model are collected in \<open>hm_simps\<close>, facts that describe how an operation acts on an
  abstraction are collected in \<open>refine\<close>, and facts that keep an invariant in \<open>inv_intros\<close>.
\<close>

named_theorems hm_simps \<open>elementary facts of the HashMap and HashSet models\<close>
named_theorems refine \<open>operations seen through an abstraction function\<close>
named_theorems inv_intros \<open>operations that keep an invariant\<close>

type_synonym u8 = "8 word"
type_synonym u32 = "32 word"
type_synonym u64 = "64 word"
type_synonym bytes = "8 word list"

text \<open>Rust's \<open>Result<T, E>\<close>.\<close>

datatype ('a, 'e) result = Ok 'a | Err 'e

text \<open>
  A computation that may unwind: \<open>Ret\<close> is a normal return, \<open>Panic\<close> carries the message of
  \<open>panic!\<close>, \<open>expect\<close> or \<open>unreachable!\<close>.
\<close>

datatype 'a outcome = Ret 'a | Panic string

fun is_ok :: "('a, 'e) result \<Rightarrow> bool" where
  "is_ok (Ok _) = True"
| "is_ok (Err _) = False"

fun map_ok :: "('a \<Rightarrow> 'b) \<Rightarrow> ('a, 'e) result \<Rightarrow> ('b, 'e) result" where
  "map_ok f (Ok a) = Ok (f a)"
| "map_ok f (Err e) = Err e"

fun map_err :: "('e \<Rightarrow> 'f) \<Rightarrow> ('a, 'e) result \<Rightarrow> ('a, 'f) result" where
  "map_err f (Ok a) = Ok a"
| "map_err f (Err e) = Err (f e)"

fun ok_or :: "'e \<Rightarrow> 'a option \<Rightarrow> ('a, 'e) result" where
  "ok_or e None = Err e"
| "ok_or e (Some a) = Ok a"

lemma ok_or_eq_Ok [simp]: "ok_or e x = Ok a \<longleftrightarrow> x = Some a"
  by (cases x) auto

lemma ok_or_eq_Err [simp]: "ok_or e x = Err e' \<longleftrightarrow> x = None \<and> e' = e"
  by (cases x) auto

lemma map_ok_eq_Ok [simp]: "map_ok f r = Ok b \<longleftrightarrow> (\<exists>a. r = Ok a \<and> b = f a)"
  by (cases r) auto

lemma map_err_case: "map_err f r = (case r of Ok a \<Rightarrow> Ok a | Err e \<Rightarrow> Err (f e))"
  by (cases r) simp_all

lemma map_err_eq_Ok [simp]: "map_err f r = Ok a \<longleftrightarrow> r = Ok a"
  by (cases r) auto

lemma is_ok_iff: "is_ok r \<longleftrightarrow> (\<exists>a. r = Ok a)"
  by (cases r) auto

section \<open>Association lists\<close>

lemma map_of_filter_distinct:
  assumes "distinct (map fst xs)"
  shows "map_of (filter (\<lambda>(k, v). P k v) xs) k =
    (case map_of xs k of None \<Rightarrow> None | Some v \<Rightarrow> if P k v then Some v else None)"
  using assms
proof (induction xs)
  case Nil
  then show ?case by simp
next
  case (Cons x xs)
  obtain a b where x: "x = (a, b)" by (cases x)
  with Cons.prems have "a \<notin> fst ` set xs" by simp
  then have "map_of xs a = None" by (simp add: map_of_eq_None_iff)
  with Cons x show ?case by auto
qed

lemma distinct_map_fst_filter: "distinct (map fst xs) \<Longrightarrow> distinct (map fst (filter P xs))"
  by (induction xs) auto

lemma map_of_eq_Some_distinct:
  "distinct (map fst xs) \<Longrightarrow> map_of xs k = Some v \<longleftrightarrow> (k, v) \<in> set xs"
  by (rule iffI) (auto dest: map_of_SomeD)

lemma map_of_map_snd: "map_of (map (\<lambda>(k, v). (k, f k v)) xs) k = map_option (f k) (map_of xs k)"
  by (induction xs) auto

end
