(* ===== verification/Hash_Map.thy ===== *)
theory Hash_Map
  imports Prelude
begin

text \<open>
  The operations of \<open>std::collections::HashMap\<close> and \<open>HashSet\<close> that the crates use. A map is an
  association list with distinct keys; the list order stands for the bucket order, which the
  standard library leaves unspecified, so no property of the development depends on it.
  \<open>FnMut\<close> closures passed to \<open>retain\<close> thread a state, as closures that write captured variables
  do. The locale \<open>kv_store\<close> is the contract of a key-value store; it is interpreted on this
  model and is also the named hypothesis on \<open>DashMap\<close>, whose code is outside the repository.
\<close>

section \<open>HashMap\<close>

type_synonym ('k, 'v) hash_map = "('k \<times> 'v) list"

definition hm_ok :: "('k, 'v) hash_map \<Rightarrow> bool" where
  "hm_ok m \<longleftrightarrow> distinct (map fst m)"

definition hm_new :: "('k, 'v) hash_map" where
  "hm_new = []"

definition hm_get :: "('k, 'v) hash_map \<Rightarrow> 'k \<Rightarrow> 'v option" where
  "hm_get m k = map_of m k"

definition hm_get_key_value :: "('k, 'v) hash_map \<Rightarrow> 'k \<Rightarrow> ('k \<times> 'v) option" where
  "hm_get_key_value m k = map_option (Pair k) (hm_get m k)"

definition hm_contains_key :: "('k, 'v) hash_map \<Rightarrow> 'k \<Rightarrow> bool" where
  "hm_contains_key m k \<longleftrightarrow> hm_get m k \<noteq> None"

definition hm_put :: "('k, 'v) hash_map \<Rightarrow> 'k \<Rightarrow> 'v \<Rightarrow> ('k, 'v) hash_map" where
  "hm_put m k v = AList.update k v m"

definition hm_del :: "('k, 'v) hash_map \<Rightarrow> 'k \<Rightarrow> ('k, 'v) hash_map" where
  "hm_del m k = AList.delete k m"

definition hm_insert :: "('k, 'v) hash_map \<Rightarrow> 'k \<Rightarrow> 'v \<Rightarrow> 'v option \<times> ('k, 'v) hash_map" where
  "hm_insert m k v = (hm_get m k, hm_put m k v)"

definition hm_remove :: "('k, 'v) hash_map \<Rightarrow> 'k \<Rightarrow> 'v option \<times> ('k, 'v) hash_map" where
  "hm_remove m k = (hm_get m k, hm_del m k)"

definition hm_remove_entry ::
  "('k, 'v) hash_map \<Rightarrow> 'k \<Rightarrow> ('k \<times> 'v) option \<times> ('k, 'v) hash_map" where
  "hm_remove_entry m k = (hm_get_key_value m k, hm_del m k)"

definition hm_len :: "('k, 'v) hash_map \<Rightarrow> nat" where
  "hm_len m = length m"

definition hm_filter :: "('k, 'v) hash_map \<Rightarrow> ('k \<Rightarrow> 'v \<Rightarrow> bool) \<Rightarrow> ('k, 'v) hash_map" where
  "hm_filter m p = filter (\<lambda>(k, v). p k v) m"

text \<open>
  \<open>retain\<close> with a closure \<open>FnMut(&K, &mut V) -> bool\<close>: the closure answers whether to keep the
  entry, what the value has become, and the new value of the variables it captures.
\<close>

fun hm_retain ::
  "('k \<Rightarrow> 'v \<Rightarrow> 's \<Rightarrow> bool \<times> 'v \<times> 's) \<Rightarrow> ('k, 'v) hash_map \<Rightarrow> 's \<Rightarrow> ('k, 'v) hash_map \<times> 's"
where
  "hm_retain f [] s = ([], s)"
| "hm_retain f ((k, v) # m) s =
     (let (keep, v', s') = f k v s; (m', s'') = hm_retain f m s'
      in (if keep then (k, v') # m' else m', s''))"

definition hm_eq :: "('k, 'v) hash_map \<Rightarrow> ('k, 'v) hash_map \<Rightarrow> bool" where
  "hm_eq m n \<longleftrightarrow> hm_len m = hm_len n \<and> list_all (\<lambda>(k, v). hm_get n k = Some v) m"

subsection \<open>Entries\<close>

text \<open>A handle on a present pair (\<open>hash_map::OccupiedEntry\<close>) or on an absent key
  (\<open>hash_map::VacantEntry\<close>); both hold the exclusive borrow of the map.\<close>

record ('k, 'v) hm_occupied =
  occ_map :: "('k, 'v) hash_map"
  occ_key :: 'k
  occ_val :: 'v

record ('k, 'v) hm_vacant =
  vac_map :: "('k, 'v) hash_map"
  vac_key :: 'k

datatype ('k, 'v) hm_entry =
  HOccupied "('k, 'v) hm_occupied"
| HVacant "('k, 'v) hm_vacant"

definition hm_entry_of :: "('k, 'v) hash_map \<Rightarrow> 'k \<Rightarrow> ('k, 'v) hm_entry" where
  "hm_entry_of m k =
     (case hm_get m k of
        Some v \<Rightarrow> HOccupied \<lparr>occ_map = m, occ_key = k, occ_val = v\<rparr>
      | None \<Rightarrow> HVacant \<lparr>vac_map = m, vac_key = k\<rparr>)"

definition occ_set :: "('k, 'v) hm_occupied \<Rightarrow> 'v \<Rightarrow> ('k, 'v) hm_occupied" where
  "occ_set e v = e\<lparr>occ_map := hm_put (occ_map e) (occ_key e) v, occ_val := v\<rparr>"

definition occ_remove_entry ::
  "('k, 'v) hm_occupied \<Rightarrow> ('k \<times> 'v) \<times> ('k, 'v) hash_map" where
  "occ_remove_entry e = ((occ_key e, occ_val e), hm_del (occ_map e) (occ_key e))"

definition vac_insert_entry :: "('k, 'v) hm_vacant \<Rightarrow> 'v \<Rightarrow> ('k, 'v) hm_occupied" where
  "vac_insert_entry e v =
     \<lparr>occ_map = hm_put (vac_map e) (vac_key e) v, occ_key = vac_key e, occ_val = v\<rparr>"

subsection \<open>Facts\<close>

lemma hm_ok_new [simp, inv_intros]: "hm_ok hm_new"
  by (simp add: hm_ok_def hm_new_def)

lemma hm_ok_put [simp, inv_intros]: "hm_ok m \<Longrightarrow> hm_ok (hm_put m k v)"
  by (simp add: hm_ok_def hm_put_def distinct_update)

lemma hm_ok_del [simp, inv_intros]: "hm_ok m \<Longrightarrow> hm_ok (hm_del m k)"
  by (simp add: hm_ok_def hm_del_def distinct_delete)

lemma hm_ok_filter [simp, inv_intros]: "hm_ok m \<Longrightarrow> hm_ok (hm_filter m p)"
  by (simp add: hm_ok_def hm_filter_def distinct_map_fst_filter)

lemma hm_get_new [simp, hm_simps]: "hm_get hm_new k = None"
  by (simp add: hm_get_def hm_new_def)

lemma hm_get_put [simp, hm_simps]:
  "hm_get (hm_put m k v) k' = (if k' = k then Some v else hm_get m k')"
  by (simp add: hm_get_def hm_put_def update_conv')

lemma hm_get_del [simp, hm_simps]:
  "hm_get (hm_del m k) k' = (if k' = k then None else hm_get m k')"
  by (simp add: hm_get_def hm_del_def delete_conv')

lemma hm_get_filter [hm_simps]:
  "hm_ok m \<Longrightarrow> hm_get (hm_filter m p) k =
     (case hm_get m k of None \<Rightarrow> None | Some v \<Rightarrow> if p k v then Some v else None)"
  by (simp add: hm_get_def hm_filter_def hm_ok_def map_of_filter_distinct)

lemma hm_get_filter_Some [simp, hm_simps]:
  "hm_ok m \<Longrightarrow> hm_get (hm_filter m p) k = Some v \<longleftrightarrow> hm_get m k = Some v \<and> p k v"
  by (auto simp: hm_get_filter split: option.splits if_splits)

lemma hm_get_iff_mem: "hm_ok m \<Longrightarrow> hm_get m k = Some v \<longleftrightarrow> (k, v) \<in> set m"
  by (simp add: hm_get_def hm_ok_def map_of_eq_Some_distinct)

lemma hm_get_NilD: "hm_get [] k = None"
  by (simp add: hm_get_def)

lemma hm_get_Cons [hm_simps]:
  "hm_get ((a, b) # m) k = (if k = a then Some b else hm_get m k)"
  by (simp add: hm_get_def)

lemma hm_ok_Cons [hm_simps]: "hm_ok ((a, b) # m) \<longleftrightarrow> hm_get m a = None \<and> hm_ok m"
  by (auto simp: hm_ok_def hm_get_def map_of_eq_None_iff)

lemma hm_ok_Nil [simp]: "hm_ok []"
  by (simp add: hm_ok_def)

lemma hm_dom: "{k. hm_get m k \<noteq> None} = fst ` set m"
  by (auto simp: hm_get_def map_of_eq_None_iff)

lemma hm_len_card: "hm_ok m \<Longrightarrow> hm_len m = card {k. hm_get m k \<noteq> None}"
  by (metis hm_dom hm_len_def hm_ok_def distinct_card length_map set_map)

lemma hm_eq_iff:
  assumes "hm_ok m" and "hm_ok n"
  shows "hm_eq m n \<longleftrightarrow> hm_get m = hm_get n"
proof
  assume eq: "hm_eq m n"
  then have sub: "hm_get m k = Some v \<Longrightarrow> hm_get n k = Some v" for k v
    using assms(1) by (auto simp: hm_eq_def list_all_iff hm_get_iff_mem)
  let ?d = "\<lambda>x. {k. hm_get x k \<noteq> None}"
  have "?d m \<subseteq> ?d n" using sub by auto
  moreover have "card (?d m) = card (?d n)"
    using eq hm_len_card [OF assms(1)] hm_len_card [OF assms(2)] by (simp add: hm_eq_def)
  moreover have "finite (?d n)" by (simp only: hm_dom finite_imageI finite_set)
  ultimately have "?d m = ?d n" by (simp only: card_subset_eq)
  then have none: "hm_get m k = None \<Longrightarrow> hm_get n k = None" for k by blast
  show "hm_get m = hm_get n"
  proof
    fix k
    show "hm_get m k = hm_get n k"
      using sub [of k] none [of k] by (cases "hm_get m k") auto
  qed
next
  assume eq: "hm_get m = hm_get n"
  have "hm_get n k = Some v" if "(k, v) \<in> set m" for k v
    using that assms(1) by (simp flip: eq add: hm_get_iff_mem)
  with eq assms show "hm_eq m n"
    by (auto simp: hm_eq_def hm_len_card list_all_iff)
qed

lemma hm_put_fresh: "hm_get m k = None \<Longrightarrow> hm_put m k v = m @ [(k, v)]"
  by (induction m) (auto simp: hm_get_def hm_put_def split: if_splits)

lemma hm_len_put_fresh: "hm_get m k = None \<Longrightarrow> hm_len (hm_put m k v) = Suc (hm_len m)"
  by (simp add: hm_put_fresh hm_len_def)

text \<open>A \<open>retain\<close> whose closure only reads: the state is not threaded and no value changes.\<close>

lemma hm_retain_pure:
  "hm_retain (\<lambda>k v s. (p k v, v, s)) m s = (hm_filter m p, s)"
  by (induction m) (auto simp: hm_filter_def)

lemma hm_retain_pure_unit:
  "hm_retain (\<lambda>k v u. (p k v, v, ())) m u = (hm_filter m p, ())"
  by (induction m) (auto simp: hm_filter_def)

declare hm_retain.simps(2) [simp del]

section \<open>HashSet\<close>

type_synonym 'a hash_set = "'a list"

definition hs_contains :: "'a hash_set \<Rightarrow> 'a \<Rightarrow> bool" where
  "hs_contains s x \<longleftrightarrow> x \<in> set s"

definition hs_insert :: "'a hash_set \<Rightarrow> 'a \<Rightarrow> bool \<times> 'a hash_set" where
  "hs_insert s x = (if x \<in> set s then (False, s) else (True, s @ [x]))"

definition hs_remove :: "'a hash_set \<Rightarrow> 'a \<Rightarrow> bool \<times> 'a hash_set" where
  "hs_remove s x = (x \<in> set s, removeAll x s)"

definition hs_retain :: "('a \<Rightarrow> bool) \<Rightarrow> 'a hash_set \<Rightarrow> 'a hash_set" where
  "hs_retain p s = filter p s"

lemma hs_insert_set [simp, hm_simps]: "set (snd (hs_insert s x)) = insert x (set s)"
  by (auto simp: hs_insert_def)

lemma hs_insert_distinct [simp, inv_intros]: "distinct s \<Longrightarrow> distinct (snd (hs_insert s x))"
  by (auto simp: hs_insert_def)

lemma hs_remove_set [simp, hm_simps]: "set (snd (hs_remove s x)) = set s - {x}"
  by (simp add: hs_remove_def)

lemma hs_remove_distinct [simp, inv_intros]: "distinct s \<Longrightarrow> distinct (snd (hs_remove s x))"
  by (simp add: hs_remove_def distinct_removeAll)

section \<open>The contract of a key-value store\<close>

record ('m, 'k, 'v) kv_ops =
  kv_empty :: 'm
  kv_get :: "'m \<Rightarrow> 'k \<Rightarrow> 'v option"
  kv_put :: "'m \<Rightarrow> 'k \<Rightarrow> 'v \<Rightarrow> 'm"
  kv_del :: "'m \<Rightarrow> 'k \<Rightarrow> 'm"
  kv_filter :: "'m \<Rightarrow> ('k \<Rightarrow> 'v \<Rightarrow> bool) \<Rightarrow> 'm"
  kv_len :: "'m \<Rightarrow> nat"

locale kv_store =
  fixes ops :: "('m, 'k, 'v) kv_ops"
    and invar :: "'m \<Rightarrow> bool"
  assumes get_empty: "kv_get ops (kv_empty ops) k = None"
    and get_put: "invar m \<Longrightarrow> kv_get ops (kv_put ops m k v) k' =
      (if k' = k then Some v else kv_get ops m k')"
    and get_del: "invar m \<Longrightarrow> kv_get ops (kv_del ops m k) k' =
      (if k' = k then None else kv_get ops m k')"
    and get_filter: "invar m \<Longrightarrow> kv_get ops (kv_filter ops m p) k =
      (case kv_get ops m k of None \<Rightarrow> None | Some v \<Rightarrow> if p k v then Some v else None)"
    and len_card: "invar m \<Longrightarrow> kv_len ops m = card {k. kv_get ops m k \<noteq> None}"
    and finite_keys: "invar m \<Longrightarrow> finite {k. kv_get ops m k \<noteq> None}"
    and invar_empty: "invar (kv_empty ops)"
    and invar_put: "invar m \<Longrightarrow> invar (kv_put ops m k v)"
    and invar_del: "invar m \<Longrightarrow> invar (kv_del ops m k)"
    and invar_filter: "invar m \<Longrightarrow> invar (kv_filter ops m p)"
begin

lemmas kv_simps = get_empty get_put get_del get_filter invar_empty invar_put invar_del invar_filter

lemma get_filter_Some:
  "invar m \<Longrightarrow> kv_get ops (kv_filter ops m p) k = Some v \<longleftrightarrow> kv_get ops m k = Some v \<and> p k v"
  by (auto simp: get_filter split: option.splits if_splits)

lemma del_absent: "invar m \<Longrightarrow> kv_get ops m k = None \<Longrightarrow>
  kv_get ops (kv_del ops m k) k' = kv_get ops m k'"
  by (simp add: get_del)

end

definition hm_ops :: "(('k, 'v) hash_map, 'k, 'v) kv_ops" where
  "hm_ops = \<lparr>kv_empty = hm_new, kv_get = hm_get, kv_put = hm_put, kv_del = hm_del,
     kv_filter = hm_filter, kv_len = hm_len\<rparr>"

interpretation hm: kv_store hm_ops hm_ok
  by unfold_locales (auto simp: hm_ops_def hm_get_filter hm_len_card hm_dom [simplified])

end
