(* ===== verification/Double_Map.thy ===== *)
theory Double_Map
  imports Hash_Map
begin

text \<open>
  The container \<open>DoubleMap\<close> of acktor-ipc (\<open>double_map.rs\<close>): a primary map that owns the values
  and a secondary map from the second key to the first. The abstraction \<open>dm_triples\<close> is the set
  of \<open>(key1, key2, value)\<close> triples; \<open>dm_inv\<close> is the synchronisation invariant of the two maps.
  Every operation is a function of the map that returns the result and the new map; the
  \<open>expect\<close> and \<open>unreachable!\<close> calls are \<open>Panic\<close> branches, shown unreachable under \<open>dm_inv\<close>.
  Capacity management (\<open>with_capacity\<close>, \<open>reserve\<close>, \<open>shrink_to\<close>) has no effect on the entries
  and is not modelled.
\<close>

section \<open>State\<close>

record ('k1, 'k2, 'v) double_map =
  primary :: "('k1, 'k2 \<times> 'v) hash_map"
  secondary :: "('k2, 'k1) hash_map"

datatype ('k1, 'k2, 'v) key_conflict_error =
  Key1Exists 'k1 'k2 'v
| Key2Exists 'k1 'k2 'v
| BothKeysExist 'k1 'k2 'v

definition dm_new :: "('k1, 'k2, 'v) double_map" where
  "dm_new = \<lparr>primary = hm_new, secondary = hm_new\<rparr>"

section \<open>Whole-map operations\<close>

definition dm_len :: "('k1, 'k2, 'v) double_map \<Rightarrow> nat" where
  "dm_len m = hm_len (primary m)"

definition dm_is_empty :: "('k1, 'k2, 'v) double_map \<Rightarrow> bool" where
  "dm_is_empty m \<longleftrightarrow> hm_len (primary m) = 0"

definition dm_clear :: "('k1, 'k2, 'v) double_map \<Rightarrow> ('k1, 'k2, 'v) double_map" where
  "dm_clear m = m\<lparr>primary := hm_new, secondary := hm_new\<rparr>"

text \<open>The closure of \<open>retain\<close> removes the second key from the captured \<open>secondary\<close> map.\<close>

definition retain_closure ::
  "('k1 \<Rightarrow> 'k2 \<Rightarrow> 'v \<Rightarrow> bool \<times> 'v) \<Rightarrow> 'k1 \<Rightarrow> 'k2 \<times> 'v \<Rightarrow> ('k2, 'k1) hash_map \<Rightarrow>
     bool \<times> ('k2 \<times> 'v) \<times> ('k2, 'k1) hash_map" where
  "retain_closure f k1 kv sec =
     (case kv of (k2, v) \<Rightarrow>
        case f k1 k2 v of (keep, v') \<Rightarrow>
          (keep, (k2, v'), if \<not> keep then snd (hm_remove sec k2) else sec))"

definition dm_retain ::
  "('k1 \<Rightarrow> 'k2 \<Rightarrow> 'v \<Rightarrow> bool \<times> 'v) \<Rightarrow> ('k1, 'k2, 'v) double_map \<Rightarrow> ('k1, 'k2, 'v) double_map"
where
  "dm_retain f m =
     (let (p, s) = hm_retain (retain_closure f) (primary m) (secondary m)
      in m\<lparr>primary := p, secondary := s\<rparr>)"

section \<open>Lookups\<close>

definition dm_get_by_key1 :: "('k1, 'k2, 'v) double_map \<Rightarrow> 'k1 \<Rightarrow> 'v option" where
  "dm_get_by_key1 m key = map_option (\<lambda>(_, v). v) (hm_get (primary m) key)"

definition dm_get_by_key2 :: "('k1, 'k2, 'v) double_map \<Rightarrow> 'k2 \<Rightarrow> 'v option" where
  "dm_get_by_key2 m key =
     (case hm_get (secondary m) key of
        None \<Rightarrow> None
      | Some k1 \<Rightarrow> map_option (\<lambda>(_, v). v) (hm_get (primary m) k1))"

definition dm_get_by_keys :: "('k1, 'k2, 'v) double_map \<Rightarrow> 'k1 \<Rightarrow> 'k2 \<Rightarrow> 'v option" where
  "dm_get_by_keys m key1 key2 =
     (case hm_get (primary m) key1 of
        None \<Rightarrow> None
      | Some (k2_stored, v) \<Rightarrow> if k2_stored = key2 then Some v else None)"

definition dm_get_key1_value :: "('k1, 'k2, 'v) double_map \<Rightarrow> 'k1 \<Rightarrow> ('k1 \<times> 'v) option" where
  "dm_get_key1_value m key =
     map_option (\<lambda>(k1, (_, v)). (k1, v)) (hm_get_key_value (primary m) key)"

definition dm_get_key2_value :: "('k1, 'k2, 'v) double_map \<Rightarrow> 'k2 \<Rightarrow> ('k2 \<times> 'v) option" where
  "dm_get_key2_value m key =
     (case hm_get_key_value (secondary m) key of
        None \<Rightarrow> None
      | Some (k2_stored, k1) \<Rightarrow>
          (case hm_get (primary m) k1 of None \<Rightarrow> None | Some (_, v) \<Rightarrow> Some (k2_stored, v)))"

definition dm_get_keys_value ::
  "('k1, 'k2, 'v) double_map \<Rightarrow> 'k1 \<Rightarrow> 'k2 \<Rightarrow> ('k1 \<times> 'k2 \<times> 'v) option" where
  "dm_get_keys_value m key1 key2 =
     (case hm_get_key_value (primary m) key1 of
        None \<Rightarrow> None
      | Some (k1_stored, (k2_stored, v)) \<Rightarrow>
          if k2_stored = key2 then Some (k1_stored, k2_stored, v) else None)"

definition dm_contains_key1 :: "('k1, 'k2, 'v) double_map \<Rightarrow> 'k1 \<Rightarrow> bool" where
  "dm_contains_key1 m key \<longleftrightarrow> hm_contains_key (primary m) key"

definition dm_contains_key2 :: "('k1, 'k2, 'v) double_map \<Rightarrow> 'k2 \<Rightarrow> bool" where
  "dm_contains_key2 m key \<longleftrightarrow> hm_contains_key (secondary m) key"

definition dm_contains_keys :: "('k1, 'k2, 'v) double_map \<Rightarrow> 'k1 \<Rightarrow> 'k2 \<Rightarrow> bool" where
  "dm_contains_keys m key1 key2 \<longleftrightarrow> dm_get_by_keys m key1 key2 \<noteq> None"

text \<open>
  The \<open>get_mut\<close> family hands out \<open>&mut V\<close>. The model takes the write \<open>f\<close> that the caller makes
  through that reference and returns the value found together with the written map.
\<close>

definition dm_get_mut_by_key1 ::
  "('k1, 'k2, 'v) double_map \<Rightarrow> 'k1 \<Rightarrow> ('v \<Rightarrow> 'v) \<Rightarrow> 'v option \<times> ('k1, 'k2, 'v) double_map" where
  "dm_get_mut_by_key1 m key f =
     (case hm_get (primary m) key of
        None \<Rightarrow> (None, m)
      | Some (k2, v) \<Rightarrow> (Some v, m\<lparr>primary := hm_put (primary m) key (k2, f v)\<rparr>))"

definition dm_get_mut_by_key2 ::
  "('k1, 'k2, 'v) double_map \<Rightarrow> 'k2 \<Rightarrow> ('v \<Rightarrow> 'v) \<Rightarrow> 'v option \<times> ('k1, 'k2, 'v) double_map" where
  "dm_get_mut_by_key2 m key f =
     (case hm_get (secondary m) key of
        None \<Rightarrow> (None, m)
      | Some k1 \<Rightarrow>
          (case hm_get (primary m) k1 of
             None \<Rightarrow> (None, m)
           | Some (k2, v) \<Rightarrow> (Some v, m\<lparr>primary := hm_put (primary m) k1 (k2, f v)\<rparr>)))"

definition dm_get_mut_by_keys ::
  "('k1, 'k2, 'v) double_map \<Rightarrow> 'k1 \<Rightarrow> 'k2 \<Rightarrow> ('v \<Rightarrow> 'v) \<Rightarrow>
     'v option \<times> ('k1, 'k2, 'v) double_map" where
  "dm_get_mut_by_keys m key1 key2 f =
     (case hm_get (primary m) key1 of
        None \<Rightarrow> (None, m)
      | Some (k2_stored, v) \<Rightarrow>
          if k2_stored = key2
          then (Some v, m\<lparr>primary := hm_put (primary m) key1 (k2_stored, f v)\<rparr>)
          else (None, m))"

text \<open>\<open>Index<&Q>\<close> panics on an absent key.\<close>

definition dm_index :: "('k1, 'k2, 'v) double_map \<Rightarrow> 'k1 \<Rightarrow> 'v outcome" where
  "dm_index m key =
     (case dm_get_by_key1 m key of
        Some v \<Rightarrow> Ret v
      | None \<Rightarrow> Panic ''no entry found for key'')"

section \<open>Removal\<close>

definition dm_remove_by_key1 ::
  "('k1, 'k2, 'v) double_map \<Rightarrow> 'k1 \<Rightarrow> 'v option \<times> ('k1, 'k2, 'v) double_map" where
  "dm_remove_by_key1 m key =
     (case hm_remove (primary m) key of
        (None, _) \<Rightarrow> (None, m)
      | (Some (k2, v), p) \<Rightarrow>
          (Some v, m\<lparr>primary := p, secondary := snd (hm_remove (secondary m) k2)\<rparr>))"

definition dm_remove_by_key2 ::
  "('k1, 'k2, 'v) double_map \<Rightarrow> 'k2 \<Rightarrow> ('v option \<times> ('k1, 'k2, 'v) double_map) outcome" where
  "dm_remove_by_key2 m key =
     (case hm_remove (secondary m) key of
        (None, _) \<Rightarrow> Ret (None, m)
      | (Some k1, s) \<Rightarrow>
          (case hm_remove (primary m) k1 of
             (None, _) \<Rightarrow>
               Panic ''primary map must contain key 1 whenever secondary map points to it''
           | (Some (_, v), p) \<Rightarrow> Ret (Some v, m\<lparr>primary := p, secondary := s\<rparr>)))"

definition dm_remove_by_keys ::
  "('k1, 'k2, 'v) double_map \<Rightarrow> 'k1 \<Rightarrow> 'k2 \<Rightarrow> 'v option \<times> ('k1, 'k2, 'v) double_map" where
  "dm_remove_by_keys m key1 key2 =
     (case hm_remove_entry (primary m) key1 of
        (None, _) \<Rightarrow> (None, m)
      | (Some (k1, (k2, v)), p) \<Rightarrow>
          if k2 \<noteq> key2
          then (None, m\<lparr>primary := snd (hm_insert p k1 (k2, v))\<rparr>)
          else (Some v, m\<lparr>primary := p, secondary := snd (hm_remove (secondary m) k2)\<rparr>))"

definition dm_remove_entry_by_key1 ::
  "('k1, 'k2, 'v) double_map \<Rightarrow> 'k1 \<Rightarrow>
     ('k1 \<times> 'k2 \<times> 'v) option \<times> ('k1, 'k2, 'v) double_map" where
  "dm_remove_entry_by_key1 m key =
     (case hm_remove_entry (primary m) key of
        (None, _) \<Rightarrow> (None, m)
      | (Some (k1, (k2, v)), p) \<Rightarrow>
          (Some (k1, k2, v), m\<lparr>primary := p, secondary := snd (hm_remove (secondary m) k2)\<rparr>))"

definition dm_remove_entry_by_key2 ::
  "('k1, 'k2, 'v) double_map \<Rightarrow> 'k2 \<Rightarrow>
     (('k1 \<times> 'k2 \<times> 'v) option \<times> ('k1, 'k2, 'v) double_map) outcome" where
  "dm_remove_entry_by_key2 m key =
     (case hm_remove (secondary m) key of
        (None, _) \<Rightarrow> Ret (None, m)
      | (Some k1, s) \<Rightarrow>
          (case hm_remove_entry (primary m) k1 of
             (None, _) \<Rightarrow>
               Panic ''primary map must contain key 1 whenever secondary map points to it''
           | (Some (k1', (k2, v)), p) \<Rightarrow>
               Ret (Some (k1', k2, v), m\<lparr>primary := p, secondary := s\<rparr>)))"

definition dm_remove_entry_by_keys ::
  "('k1, 'k2, 'v) double_map \<Rightarrow> 'k1 \<Rightarrow> 'k2 \<Rightarrow>
     ('k1 \<times> 'k2 \<times> 'v) option \<times> ('k1, 'k2, 'v) double_map" where
  "dm_remove_entry_by_keys m key1 key2 =
     (case hm_remove_entry (primary m) key1 of
        (None, _) \<Rightarrow> (None, m)
      | (Some (k1, (k2, v)), p) \<Rightarrow>
          if k2 \<noteq> key2
          then (None, m\<lparr>primary := snd (hm_insert p k1 (k2, v))\<rparr>)
          else (Some (k1, k2, v),
                m\<lparr>primary := p, secondary := snd (hm_remove (secondary m) k2)\<rparr>))"

section \<open>Insertion\<close>

definition dm_insert ::
  "('k1, 'k2, 'v) double_map \<Rightarrow> 'k1 \<Rightarrow> 'k2 \<Rightarrow> 'v \<Rightarrow>
     ('v option, ('k1, 'k2, 'v) key_conflict_error) result \<times> ('k1, 'k2, 'v) double_map" where
  "dm_insert m key1 key2 v =
     (case hm_get (primary m) key1 of
        Some (existing_k2, _) \<Rightarrow>
          if existing_k2 = key2
          then let (old, p) = hm_insert (primary m) key1 (key2, v)
               in (Ok (map_option (\<lambda>(_, v_old). v_old) old), m\<lparr>primary := p\<rparr>)
          else if hm_contains_key (secondary m) key2
          then (Err (BothKeysExist key1 key2 v), m)
          else (Err (Key1Exists key1 key2 v), m)
      | None \<Rightarrow>
          if hm_contains_key (secondary m) key2
          then (Err (Key2Exists key1 key2 v), m)
          else (Ok None,
                m\<lparr>secondary := snd (hm_insert (secondary m) key2 key1),
                  primary := snd (hm_insert (primary m) key1 (key2, v))\<rparr>))"

text \<open>\<open>extend\<close> inserts the triples in order and ignores the conflicts; \<open>from_iter\<close> starts from
  the empty map.\<close>

fun dm_extend ::
  "('k1, 'k2, 'v) double_map \<Rightarrow> ('k1 \<times> 'k2 \<times> 'v) list \<Rightarrow> ('k1, 'k2, 'v) double_map" where
  "dm_extend m [] = m"
| "dm_extend m ((k1, k2, v) # xs) = dm_extend (snd (dm_insert m k1 k2 v)) xs"

definition dm_from_iter :: "('k1 \<times> 'k2 \<times> 'v) list \<Rightarrow> ('k1, 'k2, 'v) double_map" where
  "dm_from_iter xs = dm_extend dm_new xs"

definition dm_clone_from ::
  "('k1, 'k2, 'v) double_map \<Rightarrow> ('k1, 'k2, 'v) double_map \<Rightarrow> ('k1, 'k2, 'v) double_map" where
  "dm_clone_from m source = m\<lparr>primary := primary source, secondary := secondary source\<rparr>"

definition dm_eq :: "('k1, 'k2, 'v) double_map \<Rightarrow> ('k1, 'k2, 'v) double_map \<Rightarrow> bool" where
  "dm_eq m n \<longleftrightarrow> hm_eq (primary m) (primary n)"

section \<open>Abstraction and invariant\<close>

definition dm_triples :: "('k1, 'k2, 'v) double_map \<Rightarrow> ('k1 \<times> 'k2 \<times> 'v) set" where
  "dm_triples m = {(k1, k2, v). hm_get (primary m) k1 = Some (k2, v)}"

definition dm_inv :: "('k1, 'k2, 'v) double_map \<Rightarrow> bool" where
  "dm_inv m \<longleftrightarrow> hm_ok (primary m) \<and> hm_ok (secondary m) \<and>
     (\<forall>k1 k2. (\<exists>v. hm_get (primary m) k1 = Some (k2, v)) \<longleftrightarrow>
        hm_get (secondary m) k2 = Some k1)"

text \<open>The specification: sets of triples in which each key determines the triple.\<close>

definition keys1 :: "('k1 \<times> 'k2 \<times> 'v) set \<Rightarrow> 'k1 set" where
  "keys1 S = fst ` S"

definition keys2 :: "('k1 \<times> 'k2 \<times> 'v) set \<Rightarrow> 'k2 set" where
  "keys2 S = (fst \<circ> snd) ` S"

definition two_keyed :: "('k1 \<times> 'k2 \<times> 'v) set \<Rightarrow> bool" where
  "two_keyed S \<longleftrightarrow> (\<forall>k1 k2 v k1' k2' v'. (k1, k2, v) \<in> S \<longrightarrow> (k1', k2', v') \<in> S \<longrightarrow>
     (k1 = k1' \<or> k2 = k2') \<longrightarrow> (k1, k2, v) = (k1', k2', v'))"

definition bk_insert_spec ::
  "('k1 \<times> 'k2 \<times> 'v) set \<Rightarrow> 'k1 \<Rightarrow> 'k2 \<Rightarrow> 'v \<Rightarrow>
   ('v option, ('k1, 'k2, 'v) key_conflict_error) result \<Rightarrow> ('k1 \<times> 'k2 \<times> 'v) set \<Rightarrow> bool" where
  "bk_insert_spec S k1 k2 v r S' \<longleftrightarrow>
     (if k1 \<notin> keys1 S \<and> k2 \<notin> keys2 S then r = Ok None \<and> S' = insert (k1, k2, v) S
      else if \<exists>old. (k1, k2, old) \<in> S
      then \<exists>old. (k1, k2, old) \<in> S \<and> r = Ok (Some old) \<and>
             S' = insert (k1, k2, v) (S - {(k1, k2, old)})
      else S' = S \<and>
           r = Err (if k1 \<in> keys1 S \<and> k2 \<in> keys2 S then BothKeysExist k1 k2 v
                    else if k1 \<in> keys1 S then Key1Exists k1 k2 v else Key2Exists k1 k2 v))"

lemmas dm_op_defs = hm_insert_def hm_remove_def hm_remove_entry_def hm_get_key_value_def
  hm_contains_key_def

lemma dm_invD:
  assumes "dm_inv m"
  shows "hm_ok (primary m)" and "hm_ok (secondary m)"
    and "hm_get (secondary m) k2 = Some k1 \<longleftrightarrow> (\<exists>v. hm_get (primary m) k1 = Some (k2, v))"
  using assms by (auto simp: dm_inv_def)

lemma dm_inv_secondary_None:
  "dm_inv m \<Longrightarrow> hm_get (secondary m) k2 = None \<longleftrightarrow> (\<forall>k1 v. hm_get (primary m) k1 \<noteq> Some (k2, v))"
  by (metis dm_invD(3) not_None_eq)

lemma dm_triples_iff [simp]: "(k1, k2, v) \<in> dm_triples m \<longleftrightarrow> hm_get (primary m) k1 = Some (k2, v)"
  by (simp add: dm_triples_def)

lemma keys1_iff: "k1 \<in> keys1 S \<longleftrightarrow> (\<exists>k2 v. (k1, k2, v) \<in> S)"
  by (force simp: keys1_def image_iff)

lemma keys2_iff: "k2 \<in> keys2 S \<longleftrightarrow> (\<exists>k1 v. (k1, k2, v) \<in> S)"
  by (force simp: keys2_def image_iff)

lemma keys1_dm [refine]: "k1 \<in> keys1 (dm_triples m) \<longleftrightarrow> hm_get (primary m) k1 \<noteq> None"
  by (auto simp: keys1_iff)

lemma keys2_dm [refine]:
  "dm_inv m \<Longrightarrow> k2 \<in> keys2 (dm_triples m) \<longleftrightarrow> hm_get (secondary m) k2 \<noteq> None"
  by (simp only: keys2_iff dm_triples_iff dm_inv_secondary_None) blast

lemma dm_inv_two_keyed: "dm_inv m \<Longrightarrow> two_keyed (dm_triples m)"
  unfolding two_keyed_def by (auto simp: dm_inv_def) (metis option.inject prod.inject)+

lemma two_keyedD2:
  "two_keyed S \<Longrightarrow> (k1, k2, v) \<in> S \<Longrightarrow> t \<in> S \<Longrightarrow> fst (snd t) = k2 \<Longrightarrow> t = (k1, k2, v)"
  unfolding two_keyed_def by (cases t) force

section \<open>Facts of the operations\<close>

lemma dm_inv_new [inv_intros]: "dm_inv dm_new"
  by (simp add: dm_inv_def dm_new_def)

lemma dm_triples_new [refine]: "dm_triples dm_new = {}"
  by (auto simp: dm_new_def)

lemma dm_inv_put_fresh:
  assumes "dm_inv m" and "hm_get (primary m) k1 = None" and "hm_get (secondary m) k2 = None"
  shows "dm_inv (m\<lparr>secondary := hm_put (secondary m) k2 k1,
    primary := hm_put (primary m) k1 (k2, v)\<rparr>)"
  using assms by (auto simp: dm_inv_def) (metis option.distinct(1))+

lemma dm_inv_put_same:
  assumes "dm_inv m" and "hm_get (primary m) k1 = Some (k2, v)"
  shows "dm_inv (m\<lparr>primary := hm_put (primary m) k1 (k2, v')\<rparr>)"
  using assms by (auto simp: dm_inv_def) (metis option.inject prod.inject)+

lemma dm_inv_del_pair:
  assumes "dm_inv m" and "hm_get (primary m) k1 = Some (k2, v)"
  shows "dm_inv (m\<lparr>primary := hm_del (primary m) k1, secondary := hm_del (secondary m) k2\<rparr>)"
  using assms by (auto simp: dm_inv_def) (metis option.inject prod.inject)+

lemma dm_triples_put:
  "dm_triples (m\<lparr>primary := hm_put (primary m) k1 (k2, v)\<rparr>) =
     insert (k1, k2, v) {t \<in> dm_triples m. fst t \<noteq> k1}"
  by (auto split: if_splits)

lemma dm_triples_del:
  "dm_triples (m\<lparr>primary := hm_del (primary m) k1, secondary := s\<rparr>) =
     {t \<in> dm_triples m. fst t \<noteq> k1}"
  by (auto split: if_splits)

lemma dm_insert_inv [inv_intros]: "dm_inv m \<Longrightarrow> dm_inv (snd (dm_insert m k1 k2 v))"
  by (auto simp: dm_insert_def dm_op_defs dm_inv_put_same dm_inv_put_fresh split: option.splits)

lemma dm_remove_by_key1_inv [inv_intros]: "dm_inv m \<Longrightarrow> dm_inv (snd (dm_remove_by_key1 m k))"
  by (auto simp: dm_remove_by_key1_def dm_op_defs dm_inv_del_pair split: option.splits)

lemma dm_remove_entry_by_key1_inv [inv_intros]:
  "dm_inv m \<Longrightarrow> dm_inv (snd (dm_remove_entry_by_key1 m k))"
  by (auto simp: dm_remove_entry_by_key1_def dm_op_defs dm_inv_del_pair split: option.splits)

text \<open>A removal followed by the insertion of the same pair leaves the lookups unchanged.\<close>

lemma hm_put_del_same: "hm_get m k = Some v \<Longrightarrow> hm_get (hm_put (hm_del m k) k v) = hm_get m"
  by (rule ext) simp

lemma dm_inv_cong:
  "dm_inv m \<Longrightarrow> hm_ok (primary n) \<Longrightarrow> hm_get (primary n) = hm_get (primary m) \<Longrightarrow>
   secondary n = secondary m \<Longrightarrow> dm_inv n"
  by (simp add: dm_inv_def)

lemma dm_inv_put_back:
  assumes "dm_inv m" and "hm_get (primary m) k1 = Some kv"
  shows "dm_inv (m\<lparr>primary := hm_put (hm_del (primary m) k1) k1 kv\<rparr>)"
  using assms by (intro dm_inv_cong [OF assms(1)]) (simp_all add: dm_invD hm_put_del_same)

lemma dm_remove_by_keys_inv [inv_intros]: "dm_inv m \<Longrightarrow> dm_inv (snd (dm_remove_by_keys m k1 k2))"
  by (auto simp: dm_remove_by_keys_def dm_op_defs dm_inv_del_pair dm_inv_put_back
      split: option.splits)

lemma dm_remove_entry_by_keys_inv [inv_intros]:
  "dm_inv m \<Longrightarrow> dm_inv (snd (dm_remove_entry_by_keys m k1 k2))"
  by (auto simp: dm_remove_entry_by_keys_def dm_op_defs dm_inv_del_pair dm_inv_put_back
      split: option.splits)

lemma dm_clear_inv [inv_intros]: "dm_inv (dm_clear m)"
  by (simp add: dm_clear_def dm_inv_def)

lemma dm_extend_inv [inv_intros]: "dm_inv m \<Longrightarrow> dm_inv (dm_extend m xs)"
  by (induction m xs rule: dm_extend.induct) (auto intro: dm_insert_inv)

lemma dm_get_mut_by_key1_inv [inv_intros]: "dm_inv m \<Longrightarrow> dm_inv (snd (dm_get_mut_by_key1 m k f))"
  by (auto simp: dm_get_mut_by_key1_def dm_inv_put_same split: option.splits)

lemma dm_get_mut_by_key2_inv [inv_intros]: "dm_inv m \<Longrightarrow> dm_inv (snd (dm_get_mut_by_key2 m k f))"
  by (auto simp: dm_get_mut_by_key2_def dm_inv_put_same split: option.splits)

lemma dm_get_mut_by_keys_inv [inv_intros]:
  "dm_inv m \<Longrightarrow> dm_inv (snd (dm_get_mut_by_keys m k1 k2 f))"
  by (auto simp: dm_get_mut_by_keys_def dm_inv_put_same split: option.splits)

subsection \<open>Removal by the second key\<close>

lemma dm_remove_by_key2_Ret:
  assumes "dm_inv m"
  obtains (absent) "dm_remove_by_key2 m k2 = Ret (None, m)"
      "dm_remove_entry_by_key2 m k2 = Ret (None, m)" "\<And>k1 v. (k1, k2, v) \<notin> dm_triples m"
  | (present) k1 v m' where "dm_remove_by_key2 m k2 = Ret (Some v, m')"
      "dm_remove_entry_by_key2 m k2 = Ret (Some (k1, k2, v), m')"
      "(k1, k2, v) \<in> dm_triples m" "dm_inv m'" "dm_triples m' = dm_triples m - {(k1, k2, v)}"
proof (cases "hm_get (secondary m) k2")
  case None
  with assms have "(k1, k2, v) \<notin> dm_triples m" for k1 v
    by (simp add: dm_inv_secondary_None)
  with None show ?thesis
    by (intro absent) (simp_all add: dm_remove_by_key2_def dm_remove_entry_by_key2_def dm_op_defs)
next
  case (Some k1)
  with assms obtain v where v: "hm_get (primary m) k1 = Some (k2, v)" by (auto simp: dm_invD(3))
  let ?m = "m\<lparr>primary := hm_del (primary m) k1, secondary := hm_del (secondary m) k2\<rparr>"
  have "dm_triples ?m = dm_triples m - {(k1, k2, v)}"
    using v by (auto split: if_splits)
  with Some v assms show ?thesis
    by (intro present [of v ?m k1]) (auto simp: dm_remove_by_key2_def
        dm_remove_entry_by_key2_def dm_op_defs dm_inv_del_pair)
qed

subsection \<open>Retain\<close>

lemma hm_retain_closure_Cons:
  "hm_retain (retain_closure f) ((k1, k2, v) # p) s =
     (let r = hm_retain (retain_closure f) p (if fst (f k1 k2 v) then s else hm_del s k2)
      in (if fst (f k1 k2 v) then (k1, k2, snd (f k1 k2 v)) # fst r else fst r, snd r))"
  by (simp add: hm_retain.simps(2) retain_closure_def hm_remove_def Let_def case_prod_beta)

text \<open>The walk over the primary map, with the secondary map as the threaded state.\<close>

lemma hm_retain_primary:
  "hm_ok p \<Longrightarrow> hm_get (fst (hm_retain (retain_closure f) p s)) k1 =
      (case hm_get p k1 of None \<Rightarrow> None
       | Some (k2, v) \<Rightarrow> if fst (f k1 k2 v) then Some (k2, snd (f k1 k2 v)) else None)"
proof (induction p arbitrary: s)
  case Nil
  then show ?case by (simp add: hm_get_NilD)
next
  case (Cons kv p)
  then show ?case
    by (cases kv) (auto simp: hm_retain_closure_Cons hm_ok_Cons hm_get_Cons Let_def
        split: option.splits)
qed

lemma hm_retain_primary_ok:
  "hm_ok p \<Longrightarrow> hm_ok (fst (hm_retain (retain_closure f) p s))"
proof (induction p arbitrary: s)
  case Nil
  then show ?case by simp
next
  case (Cons kv p)
  then show ?case
    by (cases kv) (auto simp: hm_retain_closure_Cons hm_ok_Cons hm_retain_primary Let_def)
qed

lemma hm_retain_secondary:
  "hm_ok s \<Longrightarrow> hm_ok (snd (hm_retain (retain_closure f) p s))"
  "hm_get (snd (hm_retain (retain_closure f) p s)) k2 =
     (if \<exists>k1 v. (k1, k2, v) \<in> set p \<and> \<not> fst (f k1 k2 v) then None else hm_get s k2)"
proof (induction p arbitrary: s)
  case Nil
  { case 1 then show ?case by simp }
  { case 2 then show ?case by simp }
next
  case (Cons kv p)
  obtain a b c where kv: "kv = (a, b, c)" by (cases kv)
  { case 1 with Cons.IH(1) kv show ?case
      by (auto simp: hm_retain_closure_Cons Let_def) }
  { case 2 with Cons.IH(2) kv show ?case
      by (auto simp: hm_retain_closure_Cons Let_def) }
qed

lemma dm_retain_fields:
  "primary (dm_retain f m) = fst (hm_retain (retain_closure f) (primary m) (secondary m))"
  "secondary (dm_retain f m) = snd (hm_retain (retain_closure f) (primary m) (secondary m))"
  by (simp_all add: dm_retain_def case_prod_beta Let_def)

lemma dm_retain_get:
  "dm_inv m \<Longrightarrow> hm_get (primary (dm_retain f m)) k1 = Some (k2, w) \<longleftrightarrow>
     (\<exists>v. hm_get (primary m) k1 = Some (k2, v) \<and> fst (f k1 k2 v) \<and> w = snd (f k1 k2 v))"
  by (auto simp: dm_retain_fields hm_retain_primary dm_invD split: option.splits if_splits)

lemma dm_retain_inv [inv_intros]:
  assumes "dm_inv m"
  shows "dm_inv (dm_retain f m)"
proof -
  have "hm_get (secondary (dm_retain f m)) k2 = Some k1 \<longleftrightarrow>
      (\<exists>w. hm_get (primary (dm_retain f m)) k1 = Some (k2, w))" for k1 k2
    using assms dm_invD(3) [OF assms, of k2]
    by (auto simp: dm_retain_get dm_retain_fields(2) hm_retain_secondary(2)
        simp flip: hm_get_iff_mem [OF dm_invD(1) [OF assms]]) (metis option.inject prod.inject)
  then show ?thesis
    using assms by (simp add: dm_inv_def dm_retain_fields hm_retain_primary_ok
        hm_retain_secondary(1))
qed

section \<open>Properties\<close>

text \<open>C23. \<open>DoubleMap::insert\<close> implements the two-key specification on every branch: a fresh pair is
  added, a repeated pair replaces the value and returns the old one, and each of the three
  conflicts returns its error with the rejected triple and leaves the set of entries alone.\<close>

theorem dm_insert_refines:
  assumes "dm_inv m"
  shows "bk_insert_spec (dm_triples m) k1 k2 v
    (fst (dm_insert m k1 k2 v)) (dm_triples (snd (dm_insert m k1 k2 v)))"
proof (cases "hm_get (primary m) k1")
  case None
  then have "(k1, k2, old) \<notin> dm_triples m" for old by simp
  with None assms show ?thesis
    by (auto simp: bk_insert_spec_def dm_insert_def dm_op_defs refine split: if_splits)
next
  case (Some kv)
  then obtain k2' v' where kv: "hm_get (primary m) k1 = Some (k2', v')" by (cases kv) auto
  show ?thesis
  proof (cases "k2' = k2")
    case True
    with kv have "dm_triples (m\<lparr>primary := hm_put (primary m) k1 (k2, v)\<rparr>) =
        insert (k1, k2, v) (dm_triples m - {(k1, k2, v')})"
      by (auto split: if_splits)
    with True kv assms show ?thesis
      by (simp add: bk_insert_spec_def dm_insert_def dm_op_defs refine)
  next
    case False
    with kv assms show ?thesis
      by (simp add: bk_insert_spec_def dm_insert_def dm_op_defs refine)
  qed
qed

text \<open>A concrete map for the witnesses.\<close>

definition dm_example :: "(nat, nat, bool) double_map" where
  "dm_example = dm_from_iter [(1, 10, True), (2, 20, False)]"

lemma dm_example_inv: "dm_inv dm_example"
  unfolding dm_example_def dm_from_iter_def by (intro dm_extend_inv dm_inv_new)

lemma dm_example_eval:
  "dm_example = \<lparr>primary = [(1, 10, True), (2, 20, False)], secondary = [(10, 1), (20, 2)]\<rparr>"
  by (simp add: dm_example_def dm_from_iter_def dm_insert_def dm_op_defs dm_new_def hm_new_def
      hm_get_def hm_put_def)

lemma dm_example_triples: "dm_triples dm_example = {(1, 10, True), (2, 20, False)}"
  by (auto simp: dm_example_eval hm_get_def split: if_splits)

theorem dm_insert_refines_witness:
  "bk_insert_spec (dm_triples dm_example) 1 20 True
     (fst (dm_insert dm_example 1 20 True)) (dm_triples (snd (dm_insert dm_example 1 20 True)))
   \<and> fst (dm_insert dm_example 1 20 True) = Err (BothKeysExist 1 20 True)"
  using dm_insert_refines [OF dm_example_inv, of 1 20 True]
  by (simp add: dm_example_eval dm_insert_def dm_op_defs hm_get_def)

text \<open>The lookups by either key, by both keys and the membership tests agree with the set of
  entries: \<open>get_by_key2\<close> through the index finds exactly the value stored under that key.\<close>

theorem dm_lookups_agree:
  assumes "dm_inv m"
  shows "(dm_get_by_key1 m k1 = Some v \<longleftrightarrow> (\<exists>k2. (k1, k2, v) \<in> dm_triples m)) \<and>
    (dm_get_by_key2 m k2 = Some v \<longleftrightarrow> (\<exists>k1. (k1, k2, v) \<in> dm_triples m)) \<and>
    (dm_get_by_keys m k1 k2 = Some v \<longleftrightarrow> (k1, k2, v) \<in> dm_triples m) \<and>
    (dm_get_key1_value m k1 = Some (k1', v) \<longleftrightarrow> k1' = k1 \<and> dm_get_by_key1 m k1 = Some v) \<and>
    (dm_get_key2_value m k2 = Some (k2', v) \<longleftrightarrow> k2' = k2 \<and> dm_get_by_key2 m k2 = Some v) \<and>
    (dm_get_keys_value m k1 k2 = Some t \<longleftrightarrow>
       (\<exists>w. t = (k1, k2, w) \<and> (k1, k2, w) \<in> dm_triples m)) \<and>
    (dm_contains_key1 m k1 \<longleftrightarrow> k1 \<in> keys1 (dm_triples m)) \<and>
    (dm_contains_key2 m k2 \<longleftrightarrow> k2 \<in> keys2 (dm_triples m)) \<and>
    (dm_contains_keys m k1 k2 \<longleftrightarrow> (\<exists>w. (k1, k2, w) \<in> dm_triples m))"
proof -
  have key2: "dm_get_by_key2 m k2 = Some v \<longleftrightarrow> (\<exists>k1. (k1, k2, v) \<in> dm_triples m)"
    using dm_invD(3) [OF assms, of k2]
    by (auto simp: dm_get_by_key2_def dm_inv_secondary_None [OF assms] split: option.splits)
      (metis option.inject prod.inject)+
  show ?thesis
    using key2 assms
    by (auto simp: dm_get_by_key1_def dm_get_by_keys_def dm_get_key1_value_def
        dm_get_key2_value_def dm_get_by_key2_def dm_get_keys_value_def dm_contains_key1_def
        dm_contains_key2_def dm_contains_keys_def hm_get_key_value_def hm_contains_key_def refine
        split: option.splits if_splits)
qed

theorem dm_lookups_agree_witness:
  "dm_get_by_key2 dm_example 20 = Some False \<and> (\<exists>k1. (k1, 20, False) \<in> dm_triples dm_example)"
  using dm_lookups_agree [OF dm_example_inv, of 2 False 20 2 20 "(2, 20, False)"]
  by (simp add: dm_example_eval dm_get_by_key2_def hm_get_def)

text \<open>Removal by the second key never reaches its \<open>expect\<close>: on a synchronised map
  \<open>remove_by_key2\<close> and \<open>remove_entry_by_key2\<close> return, keep the map synchronised, remove exactly the
  entry of that key and hand back its value.\<close>

theorem dm_remove_by_key2_total:
  assumes "dm_inv m"
  shows "\<exists>r e m'. dm_remove_by_key2 m k2 = Ret (r, m') \<and>
    dm_remove_entry_by_key2 m k2 = Ret (e, m') \<and> dm_inv m' \<and>
    dm_triples m' = {t \<in> dm_triples m. fst (snd t) \<noteq> k2} \<and>
    r = dm_get_by_key2 m k2 \<and> (\<forall>t. e = Some t \<longleftrightarrow> t \<in> dm_triples m \<and> fst (snd t) = k2)"
  using assms
proof (cases rule: dm_remove_by_key2_Ret [of m k2])
  case absent
  then have "dm_get_by_key2 m k2 = None"
    using dm_inv_secondary_None [OF assms, of k2] by (simp add: dm_get_by_key2_def)
  moreover have "{t \<in> dm_triples m. fst (snd t) \<noteq> k2} = dm_triples m"
      and "\<forall>t. None = Some t \<longleftrightarrow> t \<in> dm_triples m \<and> fst (snd t) = k2"
    using absent(3) by (auto simp del: dm_triples_iff)
  ultimately show ?thesis using absent(1,2) assms
    by (intro exI [of _ None] exI [of _ m] conjI) simp_all
next
  case (present k1 v m')
  have uniq: "t = (k1, k2, v)" if "t \<in> dm_triples m" "fst (snd t) = k2" for t
    using dm_inv_two_keyed [OF assms] present(3) that by (rule two_keyedD2)
  have "dm_triples m - {(k1, k2, v)} = {t \<in> dm_triples m. fst (snd t) \<noteq> k2}"
    by (auto simp del: dm_triples_iff dest: uniq)
  moreover have "dm_get_by_key2 m k2 = Some v"
    using present(3) dm_invD(3) [OF assms, of k2 k1] by (simp add: dm_get_by_key2_def)
  moreover have "\<forall>t. Some (k1, k2, v) = Some t \<longleftrightarrow> t \<in> dm_triples m \<and> fst (snd t) = k2"
    using uniq present(3) by (metis fst_conv option.inject snd_conv)
  ultimately show ?thesis using present(1,2,4,5)
    by (intro exI [of _ "Some v"] exI [of _ "Some (k1, k2, v)"] exI [of _ m'] conjI) simp_all
qed

theorem dm_remove_by_key2_total_witness:
  "\<exists>r e m'. dm_remove_by_key2 dm_example 20 = Ret (r, m') \<and> r = Some False \<and>
     dm_remove_entry_by_key2 dm_example 20 = Ret (e, m') \<and> dm_inv m'"
  using dm_remove_by_key2_total [OF dm_example_inv, of 20]
  by (auto simp: dm_example_eval dm_get_by_key2_def hm_get_def)

text \<open>\<open>remove_by_keys\<close> and \<open>remove_entry_by_keys\<close> remove an entry only when both keys name it; on a
  mismatch the entry taken out is put back and every lookup is as before.\<close>

theorem dm_remove_by_keys_refines:
  assumes "dm_inv m"
  shows "dm_triples (snd (dm_remove_by_keys m k1 k2)) = {t \<in> dm_triples m. \<not> (fst t = k1 \<and> fst (snd t) = k2)} \<and>
    fst (dm_remove_by_keys m k1 k2) = dm_get_by_keys m k1 k2 \<and>
    fst (dm_remove_entry_by_keys m k1 k2) = dm_get_keys_value m k1 k2 \<and>
    dm_triples (snd (dm_remove_entry_by_keys m k1 k2)) = dm_triples (snd (dm_remove_by_keys m k1 k2)) \<and>
    dm_inv (snd (dm_remove_by_keys m k1 k2)) \<and>
    (dm_get_by_keys m k1 k2 = None \<longrightarrow>
       hm_get (primary (snd (dm_remove_by_keys m k1 k2))) = hm_get (primary m) \<and>
       secondary (snd (dm_remove_by_keys m k1 k2)) = secondary m)"
proof (cases "hm_get (primary m) k1")
  case None
  then show ?thesis
    using assms by (auto simp: dm_remove_by_keys_def dm_remove_entry_by_keys_def
        dm_get_by_keys_def dm_get_keys_value_def dm_op_defs)
next
  case (Some kv)
  obtain a b where "kv = (a, b)" by (cases kv)
  with Some assms dm_remove_by_keys_inv [OF assms, of k1 k2] show ?thesis
    by (auto simp: dm_remove_by_keys_def dm_remove_entry_by_keys_def dm_get_by_keys_def
        dm_get_keys_value_def dm_op_defs hm_put_del_same split: if_splits)
qed

theorem dm_remove_by_keys_refines_witness:
  "dm_triples (snd (dm_remove_by_keys dm_example 1 20)) = dm_triples dm_example \<and>
   fst (dm_remove_by_keys dm_example 1 20) = None"
  using dm_remove_by_keys_refines [OF dm_example_inv, of 1 20]
  by (auto simp: dm_example_eval dm_get_by_keys_def hm_get_def)

text \<open>\<open>retain\<close> keeps exactly the entries its closure accepts, with the values the closure wrote,
  and its writes to the index made from inside the closure keep the two maps synchronised.\<close>

theorem dm_retain_refines:
  assumes "dm_inv m"
  shows "dm_inv (dm_retain f m) \<and>
    dm_triples (dm_retain f m) =
      {(k1, k2, snd (f k1 k2 v)) | k1 k2 v. (k1, k2, v) \<in> dm_triples m \<and> fst (f k1 k2 v)}"
  using assms by (auto simp: dm_retain_inv dm_retain_get)

theorem dm_retain_refines_witness:
  "dm_inv (dm_retain (\<lambda>k1 k2 v. (v, False)) dm_example) \<and>
   dm_triples (dm_retain (\<lambda>k1 k2 v. (v, False)) dm_example) = {(1, 10, False)}"
  using dm_retain_refines [OF dm_example_inv, of "\<lambda>k1 k2 v. (v, False)"]
  by (auto simp: dm_example_triples simp del: dm_triples_iff)

text \<open>\<open>PartialEq\<close> compares the primary maps only, and that is enough: on synchronised maps it
  holds exactly when the sets of entries are equal, and then the indexes agree as well.\<close>

theorem dm_eq_iff_triples:
  assumes "dm_inv m" and "dm_inv n"
  shows "(dm_eq m n \<longleftrightarrow> dm_triples m = dm_triples n) \<and>
    (dm_eq m n \<longrightarrow> hm_get (secondary m) = hm_get (secondary n))"
proof -
  have "dm_triples m = dm_triples n \<longleftrightarrow> hm_get (primary m) = hm_get (primary n)"
  proof
    assume eq: "dm_triples m = dm_triples n"
    have "hm_get (primary m) k = Some kv \<longleftrightarrow> hm_get (primary n) k = Some kv" for k kv
      using arg_cong [OF eq, of "\<lambda>S. (k, kv) \<in> S"] by (cases kv) simp
    then show "hm_get (primary m) = hm_get (primary n)"
      by (intro ext option.expand) (metis option.collapse option.distinct(1) option.sel)+
  qed (simp add: dm_triples_def)
  moreover have "hm_get (secondary m) = hm_get (secondary n)"
    if "hm_get (primary m) = hm_get (primary n)"
  proof
    fix k2
    have "hm_get (secondary m) k2 = Some k1 \<longleftrightarrow> hm_get (secondary n) k2 = Some k1" for k1
      using that by (simp add: dm_invD(3) [OF assms(1)] dm_invD(3) [OF assms(2)])
    then show "hm_get (secondary m) k2 = hm_get (secondary n) k2"
      by (metis option.exhaust)
  qed
  ultimately show ?thesis
    using assms by (simp add: dm_eq_def hm_eq_iff dm_invD)
qed

theorem dm_eq_iff_triples_witness:
  "dm_eq dm_example (dm_from_iter [(2, 20, False), (1, 10, True)]) \<and>
   dm_triples dm_example = dm_triples (dm_from_iter [(2, 20, False), (1, 10, True)])"
proof -
  have inv: "dm_inv (dm_from_iter [(2, 20, False), (1, 10, True)] :: (nat, nat, bool) double_map)"
    unfolding dm_from_iter_def by (intro dm_extend_inv dm_inv_new)
  have "dm_eq dm_example (dm_from_iter [(2, 20, False), (1, 10, True)])"
    by (simp add: dm_example_eval dm_from_iter_def dm_insert_def dm_op_defs dm_new_def hm_new_def
        hm_get_def hm_put_def dm_eq_def hm_eq_def hm_len_def)
  with dm_eq_iff_triples [OF dm_example_inv inv] show ?thesis by simp
qed

lemma dm_extend_fresh:
  assumes "dm_inv m" and "distinct (map fst xs)" and "distinct (map (fst \<circ> snd) xs)"
    and "keys1 (dm_triples m) \<inter> fst ` set xs = {}"
    and "keys2 (dm_triples m) \<inter> (fst \<circ> snd) ` set xs = {}"
  shows "dm_triples (dm_extend m xs) = dm_triples m \<union> set xs \<and>
    dm_len (dm_extend m xs) = dm_len m + length xs"
  using assms
proof (induction m xs rule: dm_extend.induct)
  case (1 m)
  then show ?case by simp
next
  case (2 m k1 k2 v xs)
  from "2.prems"(1,4,5) have fresh: "hm_get (primary m) k1 = None" "hm_get (secondary m) k2 = None"
    by (auto simp: refine)
  let ?m = "snd (dm_insert m k1 k2 v)"
  have m: "dm_triples ?m = insert (k1, k2, v) (dm_triples m)"
    using fresh by (auto simp: dm_insert_def dm_op_defs split: if_splits)
  have len: "dm_len ?m = Suc (dm_len m)"
    using fresh by (simp add: dm_len_def dm_insert_def dm_op_defs hm_len_put_fresh)
  have "dm_triples (dm_extend ?m xs) = dm_triples ?m \<union> set xs \<and>
      dm_len (dm_extend ?m xs) = dm_len ?m + length xs"
  proof (rule "2.IH")
    show "dm_inv ?m" by (rule dm_insert_inv [OF "2.prems"(1)])
    show "keys1 (dm_triples ?m) \<inter> fst ` set xs = {}" and
      "keys2 (dm_triples ?m) \<inter> (fst \<circ> snd) ` set xs = {}"
      using "2.prems"(2-5) by (auto simp: m keys1_def keys2_def)
  qed (use "2.prems" in auto)
  with m len show ?case by simp
qed

text \<open>Collecting triples whose keys do not clash loses none of them: the map built by
  \<open>from_iter\<close> (and \<open>From<[..; N]>\<close>) holds exactly these entries and has that length.\<close>

theorem dm_from_iter_exact:
  assumes "distinct (map fst xs)" and "distinct (map (fst \<circ> snd) xs)"
  shows "dm_triples (dm_from_iter xs) = set xs \<and> dm_len (dm_from_iter xs) = length xs"
proof -
  note fresh = dm_extend_fresh [OF dm_inv_new assms]
  show ?thesis
    using fresh by (simp add: dm_from_iter_def refine keys1_def keys2_def dm_len_def)
      (simp add: dm_new_def hm_new_def hm_len_def)
qed

theorem dm_from_iter_exact_witness:
  "dm_triples (dm_from_iter [(1::nat, ''a'', True), (2, ''b'', True)])
     = {(1, ''a'', True), (2, ''b'', True)} \<and>
   dm_len (dm_from_iter [(1::nat, ''a'', True), (2, ''b'', True)]) = 2"
  using dm_from_iter_exact [of "[(1::nat, ''a'', True), (2, ''b'', True)]"] by simp

end
