(* ===== verification/Double_Map_Entry.thy ===== *)
theory Double_Map_Entry
  imports Double_Map
begin

text \<open>
  The entry API of \<open>DoubleMap\<close> (\<open>double_map/entry.rs\<close> and \<open>DoubleMap::entry\<close>). An entry holds one
  entry of each internal map, and with them the exclusive borrow; \<open>oe_release\<close> and \<open>ve_release\<close> are
  the map as it is when the borrow ends. A returned \<open>&mut V\<close> is the value it points to, together
  with the map.
\<close>

section \<open>Entries\<close>

record ('k1, 'k2, 'v) occupied_entry =
  oe_primary :: "('k1, 'k2 \<times> 'v) hm_occupied"
  oe_secondary :: "('k2, 'k1) hm_occupied"

record ('k1, 'k2, 'v) vacant_entry =
  ve_primary :: "('k1, 'k2 \<times> 'v) hm_vacant"
  ve_secondary :: "('k2, 'k1) hm_vacant"

datatype ('k1, 'k2, 'v) entry =
  Occupied "('k1, 'k2, 'v) occupied_entry"
| Vacant "('k1, 'k2, 'v) vacant_entry"

definition dm_entry ::
  "('k1, 'k2, 'v) double_map \<Rightarrow> 'k1 \<Rightarrow> 'k2 \<Rightarrow>
     (('k1, 'k2, 'v) entry, ('k1, 'k2, unit) key_conflict_error) result outcome" where
  "dm_entry m key1 key2 =
     (let key1_matches_key2 =
            map_option (\<lambda>(k2_stored, _). k2_stored = key2) (hm_get (primary m) key1);
          key2_present = hm_contains_key (secondary m) key2
      in case (key1_matches_key2, key2_present) of
           (Some True, _) \<Rightarrow>
             (case hm_entry_of (primary m) key1 of
                HVacant _ \<Rightarrow> Panic ''primary.get just observed key 1 as present''
              | HOccupied e1 \<Rightarrow>
                  (case hm_entry_of (secondary m) key2 of
                     HVacant _ \<Rightarrow> Panic
                       ''key 1's stored key 2 matches the argument, so secondary must contain it''
                   | HOccupied e2 \<Rightarrow>
                       Ret (Ok (Occupied \<lparr>oe_primary = e1, oe_secondary = e2\<rparr>))))
         | (None, False) \<Rightarrow>
             (case hm_entry_of (primary m) key1 of
                HOccupied _ \<Rightarrow> Panic ''primary.get just observed key 1 as absent''
              | HVacant e1 \<Rightarrow>
                  (case hm_entry_of (secondary m) key2 of
                     HOccupied _ \<Rightarrow>
                       Panic ''secondary.contains_key just observed key 2 as absent''
                   | HVacant e2 \<Rightarrow>
                       Ret (Ok (Vacant \<lparr>ve_primary = e1, ve_secondary = e2\<rparr>))))
         | (Some False, True) \<Rightarrow> Ret (Err (BothKeysExist key1 key2 ()))
         | (Some False, False) \<Rightarrow> Ret (Err (Key1Exists key1 key2 ()))
         | (None, True) \<Rightarrow> Ret (Err (Key2Exists key1 key2 ())))"

section \<open>Occupied entries\<close>

definition oe_release :: "('k1, 'k2, 'v) occupied_entry \<Rightarrow> ('k1, 'k2, 'v) double_map" where
  "oe_release e = \<lparr>primary = occ_map (oe_primary e), secondary = occ_map (oe_secondary e)\<rparr>"

definition oe_key1 :: "('k1, 'k2, 'v) occupied_entry \<Rightarrow> 'k1" where
  "oe_key1 e = occ_key (oe_primary e)"

definition oe_key2 :: "('k1, 'k2, 'v) occupied_entry \<Rightarrow> 'k2" where
  "oe_key2 e = occ_key (oe_secondary e)"

definition oe_keys :: "('k1, 'k2, 'v) occupied_entry \<Rightarrow> 'k1 \<times> 'k2" where
  "oe_keys e = (oe_key1 e, oe_key2 e)"

definition oe_get :: "('k1, 'k2, 'v) occupied_entry \<Rightarrow> 'v" where
  "oe_get e = snd (occ_val (oe_primary e))"

text \<open>\<open>get_mut\<close> and a write \<open>f\<close> through the reference.\<close>

definition oe_get_mut ::
  "('k1, 'k2, 'v) occupied_entry \<Rightarrow> ('v \<Rightarrow> 'v) \<Rightarrow> ('k1, 'k2, 'v) occupied_entry" where
  "oe_get_mut e f =
     e\<lparr>oe_primary := occ_set (oe_primary e)
         (fst (occ_val (oe_primary e)), f (snd (occ_val (oe_primary e))))\<rparr>"

definition oe_into_mut ::
  "('k1, 'k2, 'v) occupied_entry \<Rightarrow> 'v \<times> ('k1, 'k2, 'v) double_map" where
  "oe_into_mut e = (snd (occ_val (oe_primary e)), oe_release e)"

definition oe_insert ::
  "('k1, 'k2, 'v) occupied_entry \<Rightarrow> 'v \<Rightarrow> 'v \<times> ('k1, 'k2, 'v) occupied_entry" where
  "oe_insert e v = (oe_get e, oe_get_mut e (\<lambda>_. v))"

definition oe_remove_entry ::
  "('k1, 'k2, 'v) occupied_entry \<Rightarrow> ('k1 \<times> 'k2 \<times> 'v) \<times> ('k1, 'k2, 'v) double_map" where
  "oe_remove_entry e =
     (let (_, s) = occ_remove_entry (oe_secondary e);
          ((key1, (key2, v)), p) = occ_remove_entry (oe_primary e)
      in ((key1, key2, v), \<lparr>primary = p, secondary = s\<rparr>))"

definition oe_remove :: "('k1, 'k2, 'v) occupied_entry \<Rightarrow> 'v \<times> ('k1, 'k2, 'v) double_map" where
  "oe_remove e = (let ((_, _, v), m) = oe_remove_entry e in (v, m))"

section \<open>Vacant entries\<close>

definition ve_release :: "('k1, 'k2, 'v) vacant_entry \<Rightarrow> ('k1, 'k2, 'v) double_map" where
  "ve_release e = \<lparr>primary = vac_map (ve_primary e), secondary = vac_map (ve_secondary e)\<rparr>"

definition ve_key1 :: "('k1, 'k2, 'v) vacant_entry \<Rightarrow> 'k1" where
  "ve_key1 e = vac_key (ve_primary e)"

definition ve_key2 :: "('k1, 'k2, 'v) vacant_entry \<Rightarrow> 'k2" where
  "ve_key2 e = vac_key (ve_secondary e)"

definition ve_keys :: "('k1, 'k2, 'v) vacant_entry \<Rightarrow> 'k1 \<times> 'k2" where
  "ve_keys e = (ve_key1 e, ve_key2 e)"

definition ve_insert_entry ::
  "('k1, 'k2, 'v) vacant_entry \<Rightarrow> 'v \<Rightarrow> ('k1, 'k2, 'v) occupied_entry" where
  "ve_insert_entry e v =
     (let key1 = vac_key (ve_primary e); key2 = vac_key (ve_secondary e);
          occupied_secondary = vac_insert_entry (ve_secondary e) key1;
          occupied_primary = vac_insert_entry (ve_primary e) (key2, v)
      in \<lparr>oe_primary = occupied_primary, oe_secondary = occupied_secondary\<rparr>)"

definition ve_insert ::
  "('k1, 'k2, 'v) vacant_entry \<Rightarrow> 'v \<Rightarrow> 'v \<times> ('k1, 'k2, 'v) double_map" where
  "ve_insert e v =
     (let key1 = vac_key (ve_primary e); key2 = vac_key (ve_secondary e);
          s = vac_insert_entry (ve_secondary e) key1;
          p = vac_insert_entry (ve_primary e) (key2, v)
      in (snd (occ_val p), \<lparr>primary = occ_map p, secondary = occ_map s\<rparr>))"

section \<open>Either kind\<close>

fun entry_release :: "('k1, 'k2, 'v) entry \<Rightarrow> ('k1, 'k2, 'v) double_map" where
  "entry_release (Occupied e) = oe_release e"
| "entry_release (Vacant e) = ve_release e"

fun entry_key1 :: "('k1, 'k2, 'v) entry \<Rightarrow> 'k1" where
  "entry_key1 (Occupied e) = oe_key1 e"
| "entry_key1 (Vacant e) = ve_key1 e"

fun entry_key2 :: "('k1, 'k2, 'v) entry \<Rightarrow> 'k2" where
  "entry_key2 (Occupied e) = oe_key2 e"
| "entry_key2 (Vacant e) = ve_key2 e"

fun entry_keys :: "('k1, 'k2, 'v) entry \<Rightarrow> 'k1 \<times> 'k2" where
  "entry_keys (Occupied e) = oe_keys e"
| "entry_keys (Vacant e) = ve_keys e"

fun entry_or_insert :: "('k1, 'k2, 'v) entry \<Rightarrow> 'v \<Rightarrow> 'v \<times> ('k1, 'k2, 'v) double_map" where
  "entry_or_insert (Occupied e) d = oe_into_mut e"
| "entry_or_insert (Vacant e) d = ve_insert e d"

fun entry_or_insert_with ::
  "('k1, 'k2, 'v) entry \<Rightarrow> (unit \<Rightarrow> 'v) \<Rightarrow> 'v \<times> ('k1, 'k2, 'v) double_map" where
  "entry_or_insert_with (Occupied e) d = oe_into_mut e"
| "entry_or_insert_with (Vacant e) d = ve_insert e (d ())"

text \<open>\<open>or_default\<close>: the argument is \<open>V::default\<close>.\<close>

definition entry_or_default ::
  "(unit \<Rightarrow> 'v) \<Rightarrow> ('k1, 'k2, 'v) entry \<Rightarrow> 'v \<times> ('k1, 'k2, 'v) double_map" where
  "entry_or_default dflt e = entry_or_insert_with e dflt"

fun entry_or_insert_with_keys ::
  "('k1, 'k2, 'v) entry \<Rightarrow> ('k1 \<Rightarrow> 'k2 \<Rightarrow> 'v) \<Rightarrow> 'v \<times> ('k1, 'k2, 'v) double_map" where
  "entry_or_insert_with_keys (Occupied e) d = oe_into_mut e"
| "entry_or_insert_with_keys (Vacant e) d =
     (let (key1, key2) = ve_keys e; v = d key1 key2 in ve_insert e v)"

fun entry_and_modify ::
  "('k1, 'k2, 'v) entry \<Rightarrow> ('v \<Rightarrow> 'v) \<Rightarrow> ('k1, 'k2, 'v) entry" where
  "entry_and_modify (Occupied e) f = Occupied (oe_get_mut e f)"
| "entry_and_modify (Vacant e) f = Vacant e"

fun entry_insert_entry ::
  "('k1, 'k2, 'v) entry \<Rightarrow> 'v \<Rightarrow> ('k1, 'k2, 'v) occupied_entry" where
  "entry_insert_entry (Occupied e) v = snd (oe_insert e v)"
| "entry_insert_entry (Vacant e) v = ve_insert_entry e v"

lemmas entry_defs = oe_release_def oe_key1_def oe_key2_def oe_keys_def oe_get_def oe_get_mut_def
  oe_into_mut_def oe_insert_def oe_remove_entry_def oe_remove_def ve_release_def ve_key1_def
  ve_key2_def ve_keys_def ve_insert_entry_def ve_insert_def occ_set_def occ_remove_entry_def
  vac_insert_entry_def

section \<open>Facts\<close>

lemma dm_update_eq:
  "m\<lparr>primary := p\<rparr> = \<lparr>primary = p, secondary = secondary m\<rparr>"
  "m\<lparr>secondary := s\<rparr> = \<lparr>primary = primary m, secondary = s\<rparr>"
  "\<lparr>primary = primary m, secondary = secondary m\<rparr> = m"
  by simp_all

text \<open>The three shapes a call of \<open>entry\<close> on a synchronised map can have.\<close>

lemma dm_entry_cases:
  assumes "dm_inv m"
  obtains (occupied) v where "hm_get (primary m) k1 = Some (k2, v)"
      "hm_get (secondary m) k2 = Some k1"
      "dm_entry m k1 k2 = Ret (Ok (Occupied
         \<lparr>oe_primary = \<lparr>occ_map = primary m, occ_key = k1, occ_val = (k2, v)\<rparr>,
          oe_secondary = \<lparr>occ_map = secondary m, occ_key = k2, occ_val = k1\<rparr>\<rparr>))"
  | (vacant) "hm_get (primary m) k1 = None" "hm_get (secondary m) k2 = None"
      "dm_entry m k1 k2 = Ret (Ok (Vacant
         \<lparr>ve_primary = \<lparr>vac_map = primary m, vac_key = k1\<rparr>,
          ve_secondary = \<lparr>vac_map = secondary m, vac_key = k2\<rparr>\<rparr>))"
  | (conflict) c where "dm_entry m k1 k2 = Ret (Err c)" "\<And>v. (k1, k2, v) \<notin> dm_triples m"
      "hm_get (primary m) k1 \<noteq> None \<or> hm_get (secondary m) k2 \<noteq> None"
proof (cases "hm_get (primary m) k1")
  case None
  then show ?thesis
    by (cases "hm_get (secondary m) k2")
      (auto intro: vacant conflict simp: dm_entry_def hm_contains_key_def hm_entry_of_def)
next
  case (Some kv)
  obtain k2' v where kv: "kv = (k2', v)" by (cases kv)
  show ?thesis
  proof (cases "k2' = k2")
    case True
    with Some kv assms have "hm_get (secondary m) k2 = Some k1" by (auto simp: dm_invD(3))
    with True Some kv show ?thesis
      by (intro occupied [of v]) (simp_all add: dm_entry_def hm_contains_key_def hm_entry_of_def)
  next
    case False
    with Some kv show ?thesis
      by (cases "hm_contains_key (secondary m) k2")
        (auto intro: conflict simp: dm_entry_def hm_contains_key_def)
  qed
qed

lemma entry_or_insert_inv [inv_intros]:
  assumes "dm_inv m" and "dm_entry m k1 k2 = Ret (Ok e)"
  shows "dm_inv (snd (entry_or_insert e d))" and "dm_inv (oe_release (entry_insert_entry e v))"
    and "dm_inv (entry_release (entry_and_modify e f))"
  using assms(1)
proof (atomize (full), cases rule: dm_entry_cases [of m k1 k2])
  case (occupied w)
  with assms dm_inv_put_same [OF assms(1) occupied(1)]
  show "dm_inv (snd (entry_or_insert e d)) \<and> dm_inv (oe_release (entry_insert_entry e v)) \<and>
      dm_inv (entry_release (entry_and_modify e f))"
    by (auto simp: entry_defs dm_update_eq)
next
  case vacant
  with assms dm_inv_put_fresh [OF assms(1) vacant(1,2)]
  show "dm_inv (snd (entry_or_insert e d)) \<and> dm_inv (oe_release (entry_insert_entry e v)) \<and>
      dm_inv (entry_release (entry_and_modify e f))"
    by (auto simp: entry_defs dm_update_eq)
next
  case (conflict c)
  with assms(2) show "dm_inv (snd (entry_or_insert e d)) \<and>
      dm_inv (oe_release (entry_insert_entry e v)) \<and>
      dm_inv (entry_release (entry_and_modify e f))" by simp
qed

section \<open>Properties\<close>

text \<open>C36. \<open>DoubleMap::entry\<close> never reaches an \<open>unreachable!\<close> on a synchronised map and classifies a
  pair of keys as \<open>insert\<close> does: it is occupied exactly when \<open>insert\<close> would replace (and then holds
  that old value and writes the same entries), vacant exactly when \<open>insert\<close> would add, and it
  reports the conflict that \<open>insert\<close> reports.\<close>

theorem dm_entry_matches_insert:
  assumes "dm_inv m"
  shows "(\<exists>e. dm_entry m k1 k2 = Ret (Ok (Occupied e)) \<and>
      fst (dm_insert m k1 k2 v) = Ok (Some (oe_get e)) \<and> oe_keys e = (k1, k2) \<and>
      oe_release (snd (oe_insert e v)) = snd (dm_insert m k1 k2 v)) \<or>
    (\<exists>e. dm_entry m k1 k2 = Ret (Ok (Vacant e)) \<and> ve_keys e = (k1, k2) \<and>
      fst (dm_insert m k1 k2 v) = Ok None \<and> ve_insert e v = (v, snd (dm_insert m k1 k2 v)) \<and>
      oe_release (ve_insert_entry e v) = snd (dm_insert m k1 k2 v)) \<or>
    (\<exists>c. dm_entry m k1 k2 = Ret (Err c) \<and>
      fst (dm_insert m k1 k2 v) = Err (map_key_conflict_error id id (\<lambda>_. v) c) \<and>
      snd (dm_insert m k1 k2 v) = m)"
  using assms
proof (cases rule: dm_entry_cases [of m k1 k2])
  case (occupied w)
  then show ?thesis by (auto simp: entry_defs dm_insert_def dm_op_defs intro: disjI1)
next
  case vacant
  then show ?thesis by (auto simp: entry_defs dm_insert_def dm_op_defs)
next
  case (conflict c)
  then show ?thesis
    by (auto simp: dm_entry_def dm_insert_def hm_contains_key_def
        split: option.splits if_splits bool.splits)
qed

theorem dm_entry_matches_insert_witness:
  "\<exists>c. dm_entry dm_example 1 20 = Ret (Err c) \<and>
     fst (dm_insert dm_example 1 20 True) = Err (map_key_conflict_error id id (\<lambda>_. True) c) \<and>
     snd (dm_insert dm_example 1 20 True) = dm_example"
  using dm_entry_matches_insert [OF dm_example_inv, of 1 20 True]
  by (auto simp: dm_example_eval dm_insert_def dm_op_defs hm_get_def)

text \<open>Removing through an occupied entry takes the entry out of both maps: the result is the
  stored triple and the map is the one \<open>remove_entry_by_keys\<close> leaves.\<close>

theorem oe_remove_entry_matches:
  assumes "dm_inv m" and "dm_entry m k1 k2 = Ret (Ok (Occupied e))"
  shows "oe_remove_entry e = (the (dm_get_keys_value m k1 k2), snd (dm_remove_entry_by_keys m k1 k2))
    \<and> dm_get_keys_value m k1 k2 \<noteq> None \<and> oe_remove e = (oe_get e, snd (oe_remove_entry e))
    \<and> dm_inv (snd (oe_remove_entry e))"
  using assms(1)
proof (cases rule: dm_entry_cases [of m k1 k2])
  case (occupied w)
  with assms show ?thesis
    using dm_remove_entry_by_keys_inv [OF assms(1), of k1 k2]
    by (auto simp: entry_defs dm_get_keys_value_def dm_remove_entry_by_keys_def dm_op_defs
        dm_update_eq)
qed (use assms(2) in auto)

theorem oe_remove_entry_matches_witness:
  "\<exists>e. dm_entry dm_example 2 20 = Ret (Ok (Occupied e)) \<and>
     fst (oe_remove_entry e) = (2, 20, False) \<and> dm_inv (snd (oe_remove_entry e))"
proof -
  obtain e where e: "dm_entry dm_example 2 20 = Ret (Ok (Occupied e))"
    by (simp add: dm_entry_def dm_example_eval hm_get_def hm_contains_key_def hm_entry_of_def)
  have "dm_get_keys_value dm_example 2 20 = Some (2, 20, False)"
    by (simp add: dm_get_keys_value_def dm_example_eval hm_get_key_value_def hm_get_def)
  with e show ?thesis
    using oe_remove_entry_matches [OF dm_example_inv e] by auto
qed

end
