(* ===== verification/Double_Map_Iter.thy ===== *)
theory Double_Map_Iter
  imports Double_Map_Entry
begin

text \<open>
  The iterators of \<open>DoubleMap\<close> (\<open>double_map/iter.rs\<close> and the methods that create them). The state of
  a standard map iterator is the list of the pairs still to come. Each adaptor maps the items of
  the inner iterator; the locale \<open>exact_size_iterator\<close> is the contract that \<open>Iterator\<close>,
  \<open>ExactSizeIterator\<close> and \<open>FusedIterator\<close> promise together, interpreted for every adaptor. The last
  section runs arbitrary sequences of all mutating operations of the container.
\<close>

section \<open>Iterators of the standard map\<close>

type_synonym ('k, 'v) hm_iter = "('k \<times> 'v) list"

definition hm_next :: "'a list \<Rightarrow> 'a option \<times> 'a list" where
  "hm_next it = (case it of [] \<Rightarrow> (None, []) | x # xs \<Rightarrow> (Some x, xs))"

definition hm_size_hint :: "'a list \<Rightarrow> nat \<times> nat option" where
  "hm_size_hint it = (length it, Some (length it))"

section \<open>The adaptors\<close>

definition IntoIter_next ::
  "('k1, 'k2 \<times> 'v) hm_iter \<Rightarrow> ('k1 \<times> 'k2 \<times> 'v) option \<times> ('k1, 'k2 \<times> 'v) hm_iter" where
  "IntoIter_next it =
     (let (x, it') = hm_next it in (map_option (\<lambda>(k1, (k2, v)). (k1, k2, v)) x, it'))"

definition Iter_next ::
  "('k1, 'k2 \<times> 'v) hm_iter \<Rightarrow> ('k1 \<times> 'k2 \<times> 'v) option \<times> ('k1, 'k2 \<times> 'v) hm_iter" where
  "Iter_next it =
     (let (x, it') = hm_next it in (map_option (\<lambda>(k1, (k2, v)). (k1, k2, v)) x, it'))"

definition IterMut_next ::
  "('k1, 'k2 \<times> 'v) hm_iter \<Rightarrow> ('k1 \<times> 'k2 \<times> 'v) option \<times> ('k1, 'k2 \<times> 'v) hm_iter" where
  "IterMut_next it =
     (let (x, it') = hm_next it in (map_option (\<lambda>(k1, (k2, v)). (k1, k2, v)) x, it'))"

definition Drain_next ::
  "('k1, 'k2 \<times> 'v) hm_iter \<Rightarrow> ('k1 \<times> 'k2 \<times> 'v) option \<times> ('k1, 'k2 \<times> 'v) hm_iter" where
  "Drain_next it =
     (let (x, it') = hm_next it in (map_option (\<lambda>(k1, (k2, v)). (k1, k2, v)) x, it'))"

definition Keys_next ::
  "('k1, 'k2 \<times> 'v) hm_iter \<Rightarrow> ('k1 \<times> 'k2) option \<times> ('k1, 'k2 \<times> 'v) hm_iter" where
  "Keys_next it = (let (x, it') = hm_next it in (map_option (\<lambda>(k1, (k2, _)). (k1, k2)) x, it'))"

definition IntoKeys_next ::
  "('k1, 'k2 \<times> 'v) hm_iter \<Rightarrow> ('k1 \<times> 'k2) option \<times> ('k1, 'k2 \<times> 'v) hm_iter" where
  "IntoKeys_next it =
     (let (x, it') = hm_next it in (map_option (\<lambda>(k1, (k2, _)). (k1, k2)) x, it'))"

text \<open>The value iterators wrap \<open>hash_map::Values\<close>, whose items are the stored \<open>(K2, V)\<close> pairs.\<close>

definition Values_next :: "('k2 \<times> 'v) list \<Rightarrow> 'v option \<times> ('k2 \<times> 'v) list" where
  "Values_next it = (let (x, it') = hm_next it in (map_option (\<lambda>(_, v). v) x, it'))"

definition ValuesMut_next :: "('k2 \<times> 'v) list \<Rightarrow> 'v option \<times> ('k2 \<times> 'v) list" where
  "ValuesMut_next it = (let (x, it') = hm_next it in (map_option (\<lambda>(_, v). v) x, it'))"

definition IntoValues_next :: "('k2 \<times> 'v) list \<Rightarrow> 'v option \<times> ('k2 \<times> 'v) list" where
  "IntoValues_next it = (let (x, it') = hm_next it in (map_option (\<lambda>(_, v). v) x, it'))"

text \<open>\<open>ExactSizeIterator::len\<close> and \<open>size_hint\<close> delegate to the inner iterator in every adaptor.\<close>

definition iter_len :: "'a list \<Rightarrow> nat" where
  "iter_len it = length it"

definition iter_size_hint :: "'a list \<Rightarrow> nat \<times> nat option" where
  "iter_size_hint it = hm_size_hint it"

lemmas next_defs = IntoIter_next_def Iter_next_def IterMut_next_def Drain_next_def Keys_next_def
  IntoKeys_next_def Values_next_def ValuesMut_next_def IntoValues_next_def hm_next_def

section \<open>Creating them\<close>

definition dm_iter :: "('k1, 'k2, 'v) double_map \<Rightarrow> ('k1, 'k2 \<times> 'v) hm_iter" where
  "dm_iter m = primary m"

definition dm_keys :: "('k1, 'k2, 'v) double_map \<Rightarrow> ('k1, 'k2 \<times> 'v) hm_iter" where
  "dm_keys m = primary m"

definition dm_into_keys :: "('k1, 'k2, 'v) double_map \<Rightarrow> ('k1, 'k2 \<times> 'v) hm_iter" where
  "dm_into_keys m = primary m"

definition dm_values :: "('k1, 'k2, 'v) double_map \<Rightarrow> ('k2 \<times> 'v) list" where
  "dm_values m = map snd (primary m)"

definition dm_into_values :: "('k1, 'k2, 'v) double_map \<Rightarrow> ('k2 \<times> 'v) list" where
  "dm_into_values m = map snd (primary m)"

definition dm_into_iter :: "('k1, 'k2, 'v) double_map \<Rightarrow> ('k1, 'k2 \<times> 'v) hm_iter" where
  "dm_into_iter m = primary m"

definition dm_drain ::
  "('k1, 'k2, 'v) double_map \<Rightarrow> ('k1, 'k2 \<times> 'v) hm_iter \<times> ('k1, 'k2, 'v) double_map" where
  "dm_drain m = (primary m, m\<lparr>secondary := hm_new, primary := hm_new\<rparr>)"

text \<open>Mutable iteration: the writes \<open>f\<close> a caller makes through the references of a full pass.\<close>

definition dm_iter_mut ::
  "('k1 \<Rightarrow> 'k2 \<Rightarrow> 'v \<Rightarrow> 'v) \<Rightarrow> ('k1, 'k2, 'v) double_map \<Rightarrow> ('k1, 'k2, 'v) double_map" where
  "dm_iter_mut f m = m\<lparr>primary := map (\<lambda>(k1, (k2, v)). (k1, (k2, f k1 k2 v))) (primary m)\<rparr>"

definition dm_values_mut ::
  "('v \<Rightarrow> 'v) \<Rightarrow> ('k1, 'k2, 'v) double_map \<Rightarrow> ('k1, 'k2, 'v) double_map" where
  "dm_values_mut f m = m\<lparr>primary := map (\<lambda>(k1, (k2, v)). (k1, (k2, f v))) (primary m)\<rparr>"

section \<open>The iterator contract\<close>

text \<open>Driving an iterator until it answers \<open>None\<close>, with a bound on the number of calls.\<close>

fun it_collect :: "('it \<Rightarrow> 'a option \<times> 'it) \<Rightarrow> nat \<Rightarrow> 'it \<Rightarrow> 'a list" where
  "it_collect nxt 0 it = []"
| "it_collect nxt (Suc n) it =
     (case nxt it of (None, _) \<Rightarrow> [] | (Some x, it') \<Rightarrow> x # it_collect nxt n it')"

locale exact_size_iterator =
  fixes nxt :: "'it \<Rightarrow> 'a option \<times> 'it"
    and len :: "'it \<Rightarrow> nat"
    and size_hint :: "'it \<Rightarrow> nat \<times> nat option"
  assumes next_None: "fst (nxt it) = None \<longleftrightarrow> len it = 0"
    and next_len: "len (snd (nxt it)) = len it - 1"
    and hint: "size_hint it = (len it, Some (len it))"
begin

lemma fused: "fst (nxt it) = None \<Longrightarrow> fst (nxt (snd (nxt it))) = None"
  by (simp add: next_None next_len)

lemma collect_length: "length (it_collect nxt n it) = min n (len it)"
proof (induction n arbitrary: it)
  case 0
  then show ?case by simp
next
  case (Suc n)
  show ?case
  proof (cases "nxt it")
    case (Pair x it')
    with next_None [of it] next_len [of it] Suc.IH [of it'] show ?thesis
      by (cases x) (auto split: option.splits)
  qed
qed

lemma collect_enough: "len it \<le> n \<Longrightarrow> it_collect nxt n it = it_collect nxt (len it) it"
proof (induction n arbitrary: it)
  case 0
  then show ?case by simp
next
  case (Suc n)
  show ?case
  proof (cases "nxt it")
    case (Pair x it')
    then show ?thesis
    proof (cases "len it")
      case 0
      with Pair next_None [of it] show ?thesis by simp
    next
      case (Suc l)
      with Pair next_len [of it] have "len it' = l" by simp
      with Suc Suc.prems Suc.IH [of it'] Pair show ?thesis by (auto split: option.splits)
    qed
  qed
qed

end

text \<open>Every adaptor maps the items of a standard iterator, so the contract is proved once.\<close>

lemma adaptor_contract:
  "exact_size_iterator (\<lambda>it. let (x, it') = hm_next it in (map_option f x, it'))
     iter_len iter_size_hint"
  by unfold_locales (auto simp: hm_next_def iter_len_def iter_size_hint_def hm_size_hint_def
      split: list.splits)

lemma adaptor_collect:
  "it_collect (\<lambda>it. let (x, it') = hm_next it in (map_option f x, it')) n it = take n (map f it)"
  by (induction n arbitrary: it) (auto simp: hm_next_def split: list.splits)

interpretation into_iter: exact_size_iterator IntoIter_next iter_len iter_size_hint
  unfolding IntoIter_next_def by (rule adaptor_contract)

interpretation ref_iter: exact_size_iterator Iter_next iter_len iter_size_hint
  unfolding Iter_next_def by (rule adaptor_contract)

interpretation iter_mut: exact_size_iterator IterMut_next iter_len iter_size_hint
  unfolding IterMut_next_def by (rule adaptor_contract)

interpretation drain: exact_size_iterator Drain_next iter_len iter_size_hint
  unfolding Drain_next_def by (rule adaptor_contract)

interpretation keys: exact_size_iterator Keys_next iter_len iter_size_hint
  unfolding Keys_next_def by (rule adaptor_contract)

interpretation into_keys: exact_size_iterator IntoKeys_next iter_len iter_size_hint
  unfolding IntoKeys_next_def by (rule adaptor_contract)

interpretation vals: exact_size_iterator Values_next iter_len iter_size_hint
  unfolding Values_next_def by (rule adaptor_contract)

interpretation values_mut: exact_size_iterator ValuesMut_next iter_len iter_size_hint
  unfolding ValuesMut_next_def by (rule adaptor_contract)

interpretation into_values: exact_size_iterator IntoValues_next iter_len iter_size_hint
  unfolding IntoValues_next_def by (rule adaptor_contract)

section \<open>What a full pass sees\<close>

lemma dm_triples_set: "dm_inv m \<Longrightarrow> dm_triples m = set (primary m)"
  by (auto simp: dm_triples_def hm_get_iff_mem [OF dm_invD(1)])

lemma dm_primary_distinct: "dm_inv m \<Longrightarrow> distinct (primary m)"
  using dm_invD(1) by (auto simp: hm_ok_def distinct_map)

lemma hm_get_map_values:
  "hm_get (map (\<lambda>(k, w). (k, f k w)) m) k = map_option (f k) (hm_get m k)"
  by (induction m) (auto simp: hm_get_def)

lemma dm_iter_mut_get:
  "hm_get (primary (dm_iter_mut f m)) k =
     map_option (\<lambda>(k2, v). (k2, f k k2 v)) (hm_get (primary m) k)"
proof -
  have "(\<lambda>(k1, (k2, v)). (k1, (k2, f k1 k2 v))) =
      (\<lambda>(k1, w). (k1, (\<lambda>k1 (k2, v). (k2, f k1 k2 v)) k1 w))"
    by auto
  then show ?thesis
    by (simp add: dm_iter_mut_def hm_get_map_values)
qed

lemma dm_iter_mut_inv [inv_intros]:
  assumes "dm_inv m"
  shows "dm_inv (dm_iter_mut f m)"
proof -
  have "map fst (primary (dm_iter_mut f m)) = map fst (primary m)"
    by (simp add: dm_iter_mut_def case_prod_beta comp_def)
  moreover have "secondary (dm_iter_mut f m) = secondary m" by (simp add: dm_iter_mut_def)
  ultimately show ?thesis
    using assms by (auto simp: dm_inv_def hm_ok_def dm_iter_mut_get)
qed

lemma dm_values_mut_eq: "dm_values_mut f m = dm_iter_mut (\<lambda>_ _. f) m"
  by (simp add: dm_values_mut_def dm_iter_mut_def)

lemma dm_drain_inv [inv_intros]: "dm_inv (snd (dm_drain m))"
  by (simp add: dm_drain_def dm_inv_def)

text \<open>A full pass of \<open>iter\<close>, \<open>into_iter\<close> or \<open>drain\<close> over a synchronised map yields every entry
  exactly once and then stops, after exactly \<open>len\<close> items; \<open>keys\<close> and \<open>values\<close> yield the projections
  in the same order, and \<open>drain\<close> leaves a synchronised empty map behind.\<close>

theorem dm_iter_complete:
  assumes "dm_inv m" and "dm_len m \<le> n"
  shows "set (it_collect Iter_next n (dm_iter m)) = dm_triples m \<and>
    distinct (it_collect Iter_next n (dm_iter m)) \<and>
    length (it_collect Iter_next n (dm_iter m)) = dm_len m \<and>
    it_collect IntoIter_next n (dm_into_iter m) = it_collect Iter_next n (dm_iter m) \<and>
    it_collect Drain_next n (fst (dm_drain m)) = it_collect Iter_next n (dm_iter m) \<and>
    it_collect Keys_next n (dm_keys m) =
      map (\<lambda>(k1, k2, v). (k1, k2)) (it_collect Iter_next n (dm_iter m)) \<and>
    it_collect Values_next n (dm_values m) =
      map (\<lambda>(k1, k2, v). v) (it_collect Iter_next n (dm_iter m)) \<and>
    dm_triples (snd (dm_drain m)) = {} \<and> dm_inv (snd (dm_drain m))"
proof -
  have it: "it_collect Iter_next n (dm_iter m) = primary m"
    unfolding Iter_next_def adaptor_collect
    using assms(2) by (simp add: dm_iter_def dm_len_def hm_len_def case_prod_beta)
  then show ?thesis
    using assms dm_triples_set [OF assms(1)] dm_primary_distinct [OF assms(1)]
    unfolding it IntoIter_next_def Drain_next_def Keys_next_def Values_next_def adaptor_collect
    by (simp add: dm_into_iter_def dm_drain_def dm_keys_def dm_values_def dm_len_def hm_len_def
        case_prod_beta comp_def dm_triples_def dm_inv_def)
qed

theorem dm_iter_complete_witness:
  "set (it_collect Iter_next 5 (dm_iter dm_example)) = {(1, 10, True), (2, 20, False)} \<and>
   length (it_collect Iter_next 5 (dm_iter dm_example)) = 2"
proof -
  have "dm_len dm_example = 2" by (simp add: dm_len_def hm_len_def dm_example_eval)
  then show ?thesis
    using dm_iter_complete [OF dm_example_inv, of 5] by (simp add: dm_example_triples)
qed

section \<open>Arbitrary runs of the container\<close>

text \<open>The methods that change the map, with the write a caller makes through a returned reference, and the one that may panic,
  indexing. A closure is called once for an entry, so one with a state of its own is a function of the entry here. The capacity,
  and with it \<open>with_capacity\<close>, \<open>reserve\<close> and the shrinking methods, is not part of the model.\<close>

datatype ('k1, 'k2, 'v) dm_op =
  OpInsert 'k1 'k2 'v
| OpExtend "('k1 \<times> 'k2 \<times> 'v) list"
| OpRemoveKey1 'k1
| OpRemoveKey2 'k2
| OpRemoveKeys 'k1 'k2
| OpRemoveEntryKey1 'k1
| OpRemoveEntryKey2 'k2
| OpRemoveEntryKeys 'k1 'k2
| OpGetMutKey1 'k1 "'v \<Rightarrow> 'v"
| OpGetMutKey2 'k2 "'v \<Rightarrow> 'v"
| OpGetMutKeys 'k1 'k2 "'v \<Rightarrow> 'v"
| OpRetain "'k1 \<Rightarrow> 'k2 \<Rightarrow> 'v \<Rightarrow> bool \<times> 'v"
| OpClear
| OpCloneFrom "('k1 \<times> 'k2 \<times> 'v) list"
| OpDrain
| OpIterMut "'k1 \<Rightarrow> 'k2 \<Rightarrow> 'v \<Rightarrow> 'v"
| OpValuesMut "'v \<Rightarrow> 'v"
| OpEntryOrInsert 'k1 'k2 'v
| OpEntryModify 'k1 'k2 "'v \<Rightarrow> 'v"
| OpEntryInsert 'k1 'k2 'v
| OpEntryRemove 'k1 'k2
| OpEntryOrInsertWith 'k1 'k2 "unit \<Rightarrow> 'v"
| OpEntryOrInsertWithKeys 'k1 'k2 "'k1 \<Rightarrow> 'k2 \<Rightarrow> 'v"
| OpEntryOrDefault 'k1 'k2 "unit \<Rightarrow> 'v"
| OpIndex 'k1

fun dm_with_entry ::
  "('k1, 'k2, 'v) double_map \<Rightarrow> 'k1 \<Rightarrow> 'k2 \<Rightarrow>
     (('k1, 'k2, 'v) entry \<Rightarrow> ('k1, 'k2, 'v) double_map) \<Rightarrow> ('k1, 'k2, 'v) double_map outcome"
where
  "dm_with_entry m k1 k2 g =
     (case dm_entry m k1 k2 of
        Panic s \<Rightarrow> Panic s
      | Ret (Err _) \<Rightarrow> Ret m
      | Ret (Ok e) \<Rightarrow> Ret (g e))"

fun map_outcome_snd :: "('a \<times> 'b) outcome \<Rightarrow> 'b outcome" where
  "map_outcome_snd (Ret (_, b)) = Ret b"
| "map_outcome_snd (Panic s) = Panic s"

fun dm_apply ::
  "('k1, 'k2, 'v) dm_op \<Rightarrow> ('k1, 'k2, 'v) double_map \<Rightarrow> ('k1, 'k2, 'v) double_map outcome" where
  "dm_apply (OpInsert k1 k2 v) m = Ret (snd (dm_insert m k1 k2 v))"
| "dm_apply (OpExtend xs) m = Ret (dm_extend m xs)"
| "dm_apply (OpRemoveKey1 k) m = Ret (snd (dm_remove_by_key1 m k))"
| "dm_apply (OpRemoveKey2 k) m = map_outcome_snd (dm_remove_by_key2 m k)"
| "dm_apply (OpRemoveKeys k1 k2) m = Ret (snd (dm_remove_by_keys m k1 k2))"
| "dm_apply (OpRemoveEntryKey1 k) m = Ret (snd (dm_remove_entry_by_key1 m k))"
| "dm_apply (OpRemoveEntryKey2 k) m = map_outcome_snd (dm_remove_entry_by_key2 m k)"
| "dm_apply (OpRemoveEntryKeys k1 k2) m = Ret (snd (dm_remove_entry_by_keys m k1 k2))"
| "dm_apply (OpGetMutKey1 k f) m = Ret (snd (dm_get_mut_by_key1 m k f))"
| "dm_apply (OpGetMutKey2 k f) m = Ret (snd (dm_get_mut_by_key2 m k f))"
| "dm_apply (OpGetMutKeys k1 k2 f) m = Ret (snd (dm_get_mut_by_keys m k1 k2 f))"
| "dm_apply (OpRetain f) m = Ret (dm_retain f m)"
| "dm_apply OpClear m = Ret (dm_clear m)"
| "dm_apply (OpCloneFrom xs) m = Ret (dm_clone_from m (dm_from_iter xs))"
| "dm_apply OpDrain m = Ret (snd (dm_drain m))"
| "dm_apply (OpIterMut f) m = Ret (dm_iter_mut f m)"
| "dm_apply (OpValuesMut f) m = Ret (dm_values_mut f m)"
| "dm_apply (OpEntryOrInsert k1 k2 v) m =
     dm_with_entry m k1 k2 (\<lambda>e. snd (entry_or_insert e v))"
| "dm_apply (OpEntryModify k1 k2 f) m =
     dm_with_entry m k1 k2 (\<lambda>e. entry_release (entry_and_modify e f))"
| "dm_apply (OpEntryInsert k1 k2 v) m =
     dm_with_entry m k1 k2 (\<lambda>e. oe_release (entry_insert_entry e v))"
| "dm_apply (OpEntryRemove k1 k2) m =
     dm_with_entry m k1 k2
       (\<lambda>e. case e of Occupied oe \<Rightarrow> snd (oe_remove_entry oe) | Vacant w \<Rightarrow> ve_release w)"
| "dm_apply (OpEntryOrInsertWith k1 k2 d) m =
     dm_with_entry m k1 k2 (\<lambda>e. snd (entry_or_insert_with e d))"
| "dm_apply (OpEntryOrInsertWithKeys k1 k2 d) m =
     dm_with_entry m k1 k2 (\<lambda>e. snd (entry_or_insert_with_keys e d))"
| "dm_apply (OpEntryOrDefault k1 k2 dflt) m =
     dm_with_entry m k1 k2 (\<lambda>e. snd (entry_or_default dflt e))"
| "dm_apply (OpIndex k) m = map_outcome (\<lambda>_. m) (dm_index m k)"

fun dm_run ::
  "('k1, 'k2, 'v) dm_op list \<Rightarrow> ('k1, 'k2, 'v) double_map \<Rightarrow> ('k1, 'k2, 'v) double_map outcome"
where
  "dm_run [] m = Ret m"
| "dm_run (x # xs) m = (case dm_apply x m of Ret m' \<Rightarrow> dm_run xs m' | Panic s \<Rightarrow> Panic s)"

lemma dm_with_entry_inv:
  assumes "dm_inv m"
    and "\<And>e. dm_entry m k1 k2 = Ret (Ok e) \<Longrightarrow> dm_inv (g e)"
  shows "\<exists>m'. dm_with_entry m k1 k2 g = Ret m' \<and> dm_inv m'"
  using assms(1)
  by (cases rule: dm_entry_cases [of m k1 k2]) (use assms in simp_all)

lemma entry_or_insert_alike:
  assumes "dm_inv m" and "dm_entry m k1 k2 = Ret (Ok e)"
  shows "entry_or_insert_with e d = entry_or_insert e (d ())" and "entry_or_insert_with_keys e g = entry_or_insert e (g k1 k2)"
proof -
  show "entry_or_insert_with e d = entry_or_insert e (d ())" by (cases e) simp_all
  show "entry_or_insert_with_keys e g = entry_or_insert e (g k1 k2)"
    using assms by (cases rule: dm_entry_cases [of m k1 k2]) (auto simp: entry_defs)
qed

lemma dm_apply_inv:
  assumes "dm_inv m" and "\<And>k. x = OpIndex k \<Longrightarrow> dm_contains_key1 m k"
  shows "\<exists>m'. dm_apply x m = Ret m' \<and> dm_inv m'"
proof (cases x)
  case (OpRemoveKey2 k)
  with assms(1) show ?thesis by (cases rule: dm_remove_by_key2_Ret [of m k, OF assms(1)]) simp_all
next
  case (OpRemoveEntryKey2 k)
  with assms(1) show ?thesis by (cases rule: dm_remove_by_key2_Ret [of m k, OF assms(1)]) simp_all
next
  case (OpCloneFrom xs)
  then show ?thesis
    using dm_extend_inv [OF dm_inv_new, of xs]
    by (simp add: dm_clone_from_def dm_from_iter_def dm_inv_def)
next
  case (OpEntryOrInsert k1 k2 v)
  with assms(1) show ?thesis
    by (simp only: dm_apply.simps) (rule dm_with_entry_inv, auto intro: entry_or_insert_inv)
next
  case (OpEntryModify k1 k2 f)
  with assms(1) show ?thesis
    by (simp only: dm_apply.simps) (rule dm_with_entry_inv, auto intro: entry_or_insert_inv)
next
  case (OpEntryInsert k1 k2 v)
  with assms(1) show ?thesis
    by (simp only: dm_apply.simps) (rule dm_with_entry_inv, auto intro: entry_or_insert_inv)
next
  case (OpEntryRemove k1 k2)
  have "dm_inv (case e of Occupied o' \<Rightarrow> snd (oe_remove_entry o') | Vacant w \<Rightarrow> ve_release w)"
    if "dm_entry m k1 k2 = Ret (Ok e)" for e
    using assms(1) that dm_remove_entry_by_keys_inv [OF assms(1), of k1 k2]
    by (cases rule: dm_entry_cases [of m k1 k2, OF assms(1)])
      (auto simp: entry_defs dm_remove_entry_by_keys_def dm_op_defs dm_update_eq)
  with assms(1) OpEntryRemove show ?thesis
    by (simp only: dm_apply.simps) (rule dm_with_entry_inv)
next
  case (OpEntryOrInsertWith k1 k2 d)
  with assms(1) show ?thesis
    by (simp only: dm_apply.simps) (rule dm_with_entry_inv, auto simp: entry_or_insert_alike intro: entry_or_insert_inv)
next
  case (OpEntryOrInsertWithKeys k1 k2 d)
  with assms(1) show ?thesis
    by (simp only: dm_apply.simps) (rule dm_with_entry_inv, auto simp: entry_or_insert_alike intro: entry_or_insert_inv)
next
  case (OpEntryOrDefault k1 k2 d)
  with assms(1) show ?thesis
    by (simp only: dm_apply.simps entry_or_default_def)
      (rule dm_with_entry_inv, auto simp: entry_or_insert_alike intro: entry_or_insert_inv)
next
  case (OpIndex k)
  with assms show ?thesis
    by (auto simp: dm_index_def dm_contains_key1_def dm_get_by_key1_def hm_contains_key_def split: option.split)
qed (use assms(1) in \<open>simp_all add: inv_intros dm_values_mut_eq\<close>)

lemma dm_run_append: "dm_run (xs @ ys) m = (case dm_run xs m of Ret m' \<Rightarrow> dm_run ys m' | Panic p \<Rightarrow> Panic p)"
  by (induction xs arbitrary: m) (simp_all split: outcome.split)

lemma dm_index_absent: "\<not> dm_contains_key1 m k \<Longrightarrow> \<exists>p. dm_apply (OpIndex k) m = Panic p"
  by (auto simp: dm_index_def dm_contains_key1_def dm_get_by_key1_def hm_contains_key_def split: option.split)

lemma dm_run_inv:
  assumes "dm_inv m" and "\<And>ys k zs m'. xs = ys @ OpIndex k # zs \<Longrightarrow> dm_run ys m = Ret m' \<Longrightarrow> dm_contains_key1 m' k"
  shows "\<exists>m'. dm_run xs m = Ret m' \<and> dm_inv m'"
  using assms
proof (induction xs arbitrary: m)
  case (Cons x xs)
  have "dm_contains_key1 m k" if "x = OpIndex k" for k using Cons.prems(2) [of "[]"] that by simp
  from dm_apply_inv [OF Cons.prems(1) this] obtain m' where m': "dm_apply x m = Ret m'" "dm_inv m'" by blast
  have "dm_contains_key1 m'' k" if "xs = ys @ OpIndex k # zs" and "dm_run ys m' = Ret m''" for ys k zs m''
    using Cons.prems(2) [of "x # ys" k zs m''] that m'(1) by simp
  from Cons.IH [OF m'(2) this] m'(1) show ?case by auto
qed simp


text \<open>C21. Whatever sequence of its methods a program runs on a fresh \<open>DoubleMap\<close>, through entries,
  references and iterators too, its two maps stay synchronised, and the container panics in one case only: when an absent key is
  indexed. In particular no \<open>unreachable!\<close> or \<open>expect\<close> of the implementation is ever reached.\<close>

theorem dm_run_total:
  "if \<exists>ys k zs m. xs = ys @ OpIndex k # zs \<and> dm_run ys (dm_new :: ('k1, 'k2, 'v) double_map) = Ret m \<and> \<not> dm_contains_key1 m k
   then \<exists>p. dm_run xs (dm_new :: ('k1, 'k2, 'v) double_map) = Panic p
   else \<exists>m. dm_run xs (dm_new :: ('k1, 'k2, 'v) double_map) = Ret m \<and> dm_inv m \<and>
     two_keyed (dm_triples m) \<and> dm_len m = card (dm_triples m)"
proof (cases "\<exists>ys k zs m. xs = ys @ OpIndex k # zs \<and> dm_run ys (dm_new :: ('k1, 'k2, 'v) double_map) = Ret m \<and> \<not> dm_contains_key1 m k")
  case True
  then obtain ys k zs and m :: "('k1, 'k2, 'v) double_map"
    where "xs = ys @ OpIndex k # zs" "dm_run ys dm_new = Ret m" "\<not> dm_contains_key1 m k" by blast
  then show ?thesis using dm_index_absent [of m k] True by (auto simp: dm_run_append)
next
  case False
  then obtain m where m: "dm_run xs (dm_new :: ('k1, 'k2, 'v) double_map) = Ret m" "dm_inv m"
    using dm_run_inv [OF dm_inv_new, of xs] by blast
  then have "dm_len m = card (dm_triples m)"
    using dm_primary_distinct [OF m(2)]
    by (simp add: dm_triples_set dm_len_def hm_len_def distinct_card)
  with m False show ?thesis using dm_inv_two_keyed [OF m(2)] by auto
qed

end
