(* ===== verification/Errors.thy ===== *)
theory Errors
  imports Prelude
begin

text \<open>
  The error types of the two crates (\<open>acktor/src/error.rs\<close>, \<open>error/report.rs\<close>, \<open>codec/error.rs\<close>,
  \<open>acktor-ipc/src/error.rs\<close>) and actor indices (\<open>actor/index.rs\<close>, \<open>actor_ref.rs\<close>). A boxed error is
  its \<open>Display\<close> text together with the texts of its chain of sources, which is all that the
  crates read of it. \<open>report\<close> joins the chain; \<open>display\<close> and \<open>sources\<close> of each type follow the
  \<open>thiserror\<close> attributes.
\<close>

section \<open>Decimal text\<close>

fun digits :: "nat \<Rightarrow> string" where
  "digits n = (if n < 10 then [char_of (48 + n)] else digits (n div 10) @ [char_of (48 + n mod 10)])"

declare digits.simps [simp del]

definition undigits :: "string \<Rightarrow> nat" where
  "undigits s = foldl (\<lambda>n c. 10 * n + (of_char c - 48)) 0 s"

definition is_digit :: "char \<Rightarrow> bool" where
  "is_digit c \<longleftrightarrow> 48 \<le> (of_char c :: nat) \<and> (of_char c :: nat) < 58"

definition u64_to_string :: "u64 \<Rightarrow> string" where
  "u64_to_string n = digits (unat n)"

lemma undigits_digits [simp]: "undigits (digits n) = n"
proof (induction n rule: digits.induct)
  case (1 n)
  then show ?case
    by (subst digits.simps) (simp add: undigits_def)
qed

lemma digits_inject [simp]: "digits m = digits n \<longleftrightarrow> m = n"
  by (metis undigits_digits)

lemma digits_are_digits: "c \<in> set (digits n) \<Longrightarrow> is_digit c"
proof (induction n rule: digits.induct)
  case (1 n)
  then show ?case
    by (subst (asm) (2) digits.simps) (auto simp: is_digit_def split: if_splits)
qed

lemma u64_to_string_inject [simp]: "u64_to_string a = u64_to_string b \<longleftrightarrow> a = b"
  by (simp add: u64_to_string_def word_unat_eq_iff)

section \<open>Boxed errors and reports\<close>

datatype box_error = BoxError (be_display: string) (be_sources: "string list")

definition box_str :: "string \<Rightarrow> box_error" where
  "box_str s = BoxError s []"

definition chain :: "box_error \<Rightarrow> string list" where
  "chain e = be_display e # be_sources e"

definition report :: "box_error \<Rightarrow> string" where
  "report e = be_display e @ concat (map (\<lambda>s. '': '' @ s) (be_sources e))"

section \<open>Sending and receiving\<close>

datatype 'm send_error =
  SendClosed 'm
| SendFull 'm
| SendTimeout 'm
| SendNoEncodeFn 'm
| SendOther box_error 'm

fun with_msg :: "unit send_error \<Rightarrow> 'm \<Rightarrow> 'm send_error" where
  "with_msg (SendClosed _) msg = SendClosed msg"
| "with_msg (SendFull _) msg = SendFull msg"
| "with_msg (SendTimeout _) msg = SendTimeout msg"
| "with_msg (SendNoEncodeFn _) msg = SendNoEncodeFn msg"
| "with_msg (SendOther e _) msg = SendOther e msg"

fun without_msg :: "'m send_error \<Rightarrow> unit send_error" where
  "without_msg (SendClosed _) = SendClosed ()"
| "without_msg (SendFull _) = SendFull ()"
| "without_msg (SendTimeout _) = SendTimeout ()"
| "without_msg (SendNoEncodeFn _) = SendNoEncodeFn ()"
| "without_msg (SendOther e _) = SendOther e ()"

text \<open>\<open>Display\<close> takes the short name of the message type, which \<open>NoEncodeFn\<close> prints.\<close>

fun send_error_display :: "string \<Rightarrow> 'm send_error \<Rightarrow> string" where
  "send_error_display ty (SendClosed _) = ''sending on a closed channel''"
| "send_error_display ty (SendFull _) = ''sending on a full channel''"
| "send_error_display ty (SendTimeout _) = ''timed out waiting on sending''"
| "send_error_display ty (SendNoEncodeFn _) = ''no encode function for message type '' @ ty"
| "send_error_display ty (SendOther e _) = be_display e"

fun send_error_sources :: "'m send_error \<Rightarrow> string list" where
  "send_error_sources (SendOther e _) = be_sources e"
| "send_error_sources _ = []"

definition box_send_error :: "string \<Rightarrow> 'm send_error \<Rightarrow> box_error" where
  "box_send_error ty e = BoxError (send_error_display ty e) (send_error_sources e)"

datatype 'm mpsc_try_send_error = TrySendFull 'm | TrySendClosed 'm
datatype 'm mpsc_send_timeout_error = SendTimeoutTimeout 'm | SendTimeoutClosed 'm

definition send_error_from_mpsc :: "'m \<Rightarrow> 'm send_error" where
  "send_error_from_mpsc m = SendClosed m"

fun send_error_from_try :: "'m mpsc_try_send_error \<Rightarrow> 'm send_error" where
  "send_error_from_try (TrySendClosed m) = SendClosed m"
| "send_error_from_try (TrySendFull m) = SendFull m"

fun send_error_from_timeout :: "'m mpsc_send_timeout_error \<Rightarrow> 'm send_error" where
  "send_error_from_timeout (SendTimeoutClosed m) = SendClosed m"
| "send_error_from_timeout (SendTimeoutTimeout m) = SendTimeout m"

datatype recv_error = RecvClosed | RecvEmpty | RecvTimeout | RecvOther box_error

fun recv_error_box :: "recv_error \<Rightarrow> box_error" where
  "recv_error_box RecvClosed = box_str ''receiving on a closed channel''"
| "recv_error_box RecvEmpty = box_str ''receiving on an empty channel''"
| "recv_error_box RecvTimeout = box_str ''timed out waiting on receiving''"
| "recv_error_box (RecvOther e) = e"

datatype try_recv_error = TryRecvEmpty | TryRecvDisconnected

fun recv_error_from_try :: "try_recv_error \<Rightarrow> recv_error" where
  "recv_error_from_try TryRecvDisconnected = RecvClosed"
| "recv_error_from_try TryRecvEmpty = RecvEmpty"

section \<open>Codec errors\<close>

datatype encode_error =
  MissingEncodeContext
| EncodeRemoteAddress
| NotRemoteAddressable
| EncodeOther box_error

datatype decode_error =
  MissingDecodeContext
| DecodeRemoteAddress
| UnknownMessageId u64
| MissingRemoteProxy
| DecodeOther box_error

fun encode_error_box :: "encode_error \<Rightarrow> box_error" where
  "encode_error_box MissingEncodeContext = box_str ''missing encode context''"
| "encode_error_box EncodeRemoteAddress =
     box_str ''remote address should not be encoded into a message''"
| "encode_error_box NotRemoteAddressable = box_str ''the actor is not remote addressable''"
| "encode_error_box (EncodeOther e) = BoxError ''could not encode the message'' (chain e)"

fun decode_error_box :: "decode_error \<Rightarrow> box_error" where
  "decode_error_box MissingDecodeContext = box_str ''missing decode context''"
| "decode_error_box DecodeRemoteAddress =
     box_str ''message should not contain a remote address''"
| "decode_error_box (UnknownMessageId n) =
     box_str (''unknown message id: '' @ u64_to_string n)"
| "decode_error_box MissingRemoteProxy =
     box_str ''decode context does not contain a remote proxy''"
| "decode_error_box (DecodeOther e) = BoxError ''could not decode the message'' (chain e)"

definition decode_error_from_str :: "string \<Rightarrow> decode_error" where
  "decode_error_from_str s = DecodeOther (box_str s)"

section \<open>Errors of the IPC crate\<close>

datatype io_error_kind = ConnectionReset | ConnectionAborted | BrokenPipe | OtherKind

datatype io_error = IoErr (io_kind: io_error_kind) (io_box: box_error)

datatype session_error =
  SEncodeError encode_error
| SDecodeError decode_error
| SendOutboundMessageFailed io_error
| ForwardInboundMessageFailed box_error
| InvalidMessageResTxTag u64
| ForwardMessageResFailed
| CreateActorFailed box_error
| ActorNotFound string
| HandleInboundMessageFailed box_error
| RemoteNodeError string
| ResponseTimeout
| SIoError io_error
| SSendError box_error
| SRecvError recv_error

datatype node_error =
  ConnectFailed io_error
| CreateSessionFailed box_error
| SessionNotFound string
| NSessionError session_error
| NSendError box_error
| NRecvError recv_error

fun session_error_box :: "session_error \<Rightarrow> box_error" where
  "session_error_box (SEncodeError e) =
     BoxError ''could not encode the outbound remote message'' (chain (encode_error_box e))"
| "session_error_box (SDecodeError e) =
     BoxError ''could not decode the inbound remote message'' (chain (decode_error_box e))"
| "session_error_box (SendOutboundMessageFailed e) =
     BoxError ''could not send the outbound remote message to the remote node'' (chain (io_box e))"
| "session_error_box (ForwardInboundMessageFailed e) =
     BoxError ''could not forward the inbound remote message to any actor'' (chain e)"
| "session_error_box (InvalidMessageResTxTag t) =
     box_str (''invalid message response tag: '' @ u64_to_string t)"
| "session_error_box ForwardMessageResFailed =
     box_str ''could not forward the actor message response''"
| "session_error_box (CreateActorFailed e) =
     BoxError ''could not create the actor on behalf of the remote node'' (chain e)"
| "session_error_box (ActorNotFound s) = box_str (''could not find actor '' @ s)"
| "session_error_box (HandleInboundMessageFailed e) =
     BoxError ''could not handle inbound remote message'' (chain e)"
| "session_error_box (RemoteNodeError s) =
     box_str (''remote node returned an error: '' @ s)"
| "session_error_box ResponseTimeout =
     box_str ''no response received from the remote node after 60 seconds''"
| "session_error_box (SIoError e) = io_box e"
| "session_error_box (SSendError e) = BoxError ''could not send message'' (chain e)"
| "session_error_box (SRecvError e) =
     BoxError ''could not receive message'' (chain (recv_error_box e))"

fun node_error_box :: "node_error \<Rightarrow> box_error" where
  "node_error_box (ConnectFailed e) =
     BoxError ''could not connect to the remote endpoint'' (chain (io_box e))"
| "node_error_box (CreateSessionFailed e) = BoxError ''could not create a new session'' (chain e)"
| "node_error_box (SessionNotFound s) = box_str (''could not find the session '' @ s)"
| "node_error_box (NSessionError e) = session_error_box e"
| "node_error_box (NSendError e) = BoxError ''could not send message'' (chain e)"
| "node_error_box (NRecvError e) =
     BoxError ''could not receive message'' (chain (recv_error_box e))"

section \<open>Actor indices\<close>

datatype actor_id = ActorId (id_index: u64) (id_session: u64)

definition actor_id_new :: "u64 \<Rightarrow> actor_id" where
  "actor_id_new index = ActorId index 0"

definition as_local :: "actor_id \<Rightarrow> u64" where
  "as_local a = id_index a"

text \<open>The session argument is a \<open>NonZeroU64\<close>.\<close>

definition actor_id_new_remote :: "u64 \<Rightarrow> u64 \<Rightarrow> actor_id" where
  "actor_id_new_remote index session = ActorId index session"

definition is_remote :: "actor_id \<Rightarrow> bool" where
  "is_remote a \<longleftrightarrow> id_session a \<noteq> 0"

definition actor_id_debug :: "actor_id \<Rightarrow> string" where
  "actor_id_debug a =
     (if id_session a = 0 then u64_to_string (id_index a)
      else u64_to_string (id_index a) @ ''@'' @ u64_to_string (id_session a))"

text \<open>\<open>derive(PartialOrd, Ord)\<close> compares the index first and the session second.\<close>

instantiation actor_id :: linorder
begin

definition less_eq_actor_id :: "actor_id \<Rightarrow> actor_id \<Rightarrow> bool" where
  "less_eq_actor_id a b \<longleftrightarrow>
     id_index a < id_index b \<or> id_index a = id_index b \<and> id_session a \<le> id_session b"

definition less_actor_id :: "actor_id \<Rightarrow> actor_id \<Rightarrow> bool" where
  "less_actor_id a b \<longleftrightarrow>
     id_index a < id_index b \<or> id_index a = id_index b \<and> id_session a < id_session b"

instance
  by standard (auto simp: less_eq_actor_id_def less_actor_id_def actor_id.expand)

end

datatype actor_ref = RefIndex actor_id | RefLabel string

definition actor_ref_from_index :: "u64 \<Rightarrow> actor_ref" where
  "actor_ref_from_index index = RefIndex (actor_id_new index)"

section \<open>Properties\<close>

lemma as_local_new [simp]: "as_local (actor_id_new i) = i" "\<not> is_remote (actor_id_new i)"
  by (simp_all add: as_local_def actor_id_new_def is_remote_def)

lemma split_at_separator:
  assumes "x \<notin> set xs" and "x \<notin> set ys" and "xs @ x # zs = ys @ x # ws"
  shows "xs = ys \<and> zs = ws"
  using assms
proof (induction xs arbitrary: ys)
  case Nil
  then show ?case by (cases ys) auto
next
  case (Cons a xs)
  then show ?case by (cases ys) auto
qed

lemma at_not_digit: "CHR ''@'' \<notin> set (u64_to_string n)"
  using digits_are_digits [of "CHR ''@''" "unat n"] by (auto simp: u64_to_string_def is_digit_def)

text \<open>The text of an actor index identifies it: \<open>Display\<close> of local and of remote indices is
  injective, so a session label or log line built from it names exactly one actor.\<close>

theorem actor_id_debug_inject: "actor_id_debug a = actor_id_debug b \<longleftrightarrow> a = b"
proof
  assume eq: "actor_id_debug a = actor_id_debug b"
  show "a = b"
  proof (cases "id_session a = 0"; cases "id_session b = 0")
    assume "id_session a \<noteq> 0" and "id_session b \<noteq> 0"
    with eq have "u64_to_string (id_index a) @ CHR ''@'' # u64_to_string (id_session a) =
        u64_to_string (id_index b) @ CHR ''@'' # u64_to_string (id_session b)"
      by (simp add: actor_id_debug_def)
    from split_at_separator [OF at_not_digit at_not_digit this] show "a = b"
      by (simp add: actor_id.expand)
  qed (use eq at_not_digit [of "id_index a"] at_not_digit [of "id_index b"] in
      \<open>auto simp: actor_id_debug_def actor_id.expand
        dest: arg_cong [where f = "\<lambda>s. CHR ''@'' \<in> set s"]\<close>)
qed simp

text \<open>Handing a message back through the type-erased path loses nothing: stripping the message
  from a send error and re-attaching it gives the error back, and the report of the error is the
  same with and without its message.\<close>

theorem send_error_msg_roundtrip:
  "with_msg (without_msg e) m = map_send_error (\<lambda>_. m) e \<and>
   without_msg (with_msg u m) = u \<and>
   box_send_error ty (without_msg e) = box_send_error ty e"
  by (cases e; cases u) (simp_all add: box_send_error_def)

end
