(* ===== verification/Registry.thy ===== *)
theory Registry
  imports Hash_Map Errors
begin

text \<open>
  \<open>RemoteMailboxRegistry\<close> (\<open>acktor-ipc/src/remote/registry.rs\<close>): the concurrent map from local actor
  indices to mailboxes that a node shares with its actor manager and all its sessions. The
  \<open>DashMap\<close> below it is a parameter \<open>ops\<close> under the contract \<open>kv_store\<close>; each method is one
  entry-locked access of it and so one atomic step. A mailbox is a parameter type: \<open>closed\<close> is what
  \<open>is_closed\<close> answers during the call and \<open>index_of\<close> is \<open>SenderInfo::index\<close>.
\<close>

section \<open>Operations\<close>

definition reg_new :: "('m, u64, 'mb) kv_ops \<Rightarrow> 'm" where
  "reg_new ops = kv_empty ops"

definition reg_len :: "('m, u64, 'mb) kv_ops \<Rightarrow> 'm \<Rightarrow> nat" where
  "reg_len ops m = kv_len ops m"

definition reg_is_empty :: "('m, u64, 'mb) kv_ops \<Rightarrow> 'm \<Rightarrow> bool" where
  "reg_is_empty ops m \<longleftrightarrow> kv_len ops m = 0"

definition reg_retain :: "('m, u64, 'mb) kv_ops \<Rightarrow> (u64 \<Rightarrow> 'mb \<Rightarrow> bool) \<Rightarrow> 'm \<Rightarrow> 'm" where
  "reg_retain ops predicate m = kv_filter ops m (\<lambda>index recipient. predicate index recipient)"

definition reg_get ::
  "('m, u64, 'mb) kv_ops \<Rightarrow> ('mb \<Rightarrow> bool) \<Rightarrow> 'm \<Rightarrow> u64 \<Rightarrow> 'mb option \<times> 'm" where
  "reg_get ops closed m index =
     (case kv_get ops m index of
        Some recipient \<Rightarrow>
          if closed recipient then (None, kv_del ops m index) else (Some recipient, m)
      | None \<Rightarrow> (None, m))"

definition reg_contains_index ::
  "('m, u64, 'mb) kv_ops \<Rightarrow> ('mb \<Rightarrow> bool) \<Rightarrow> 'm \<Rightarrow> u64 \<Rightarrow> bool \<times> 'm" where
  "reg_contains_index ops closed m index =
     (case kv_get ops m index of
        Some recipient \<Rightarrow> if closed recipient then (False, kv_del ops m index) else (True, m)
      | None \<Rightarrow> (False, m))"

definition reg_remove :: "('m, u64, 'mb) kv_ops \<Rightarrow> 'm \<Rightarrow> u64 \<Rightarrow> 'mb option \<times> 'm" where
  "reg_remove ops m index = (kv_get ops m index, kv_del ops m index)"

definition reg_insert ::
  "('m, u64, 'mb) kv_ops \<Rightarrow> ('mb \<Rightarrow> actor_id) \<Rightarrow> 'm \<Rightarrow> 'mb \<Rightarrow> bool \<times> 'm" where
  "reg_insert ops index_of m actor =
     (let index = as_local (index_of actor)
      in case kv_get ops m index of
           Some _ \<Rightarrow> (False, m)
         | None \<Rightarrow> (True, kv_put ops m index actor))"

section \<open>Facts\<close>

text \<open>What a caller can see: the mailboxes that are present and open, by index.\<close>

definition reg_live :: "('m, u64, 'mb) kv_ops \<Rightarrow> ('mb \<Rightarrow> bool) \<Rightarrow> 'm \<Rightarrow> u64 \<Rightarrow> 'mb option" where
  "reg_live ops closed m i =
     (case kv_get ops m i of
        None \<Rightarrow> None
      | Some mb \<Rightarrow> if closed mb then None else Some mb)"

text \<open>Every mailbox is filed under its own local index.\<close>

definition reg_filed :: "('m, u64, 'mb) kv_ops \<Rightarrow> ('mb \<Rightarrow> actor_id) \<Rightarrow> 'm \<Rightarrow> bool" where
  "reg_filed ops index_of m \<longleftrightarrow> (\<forall>i mb. kv_get ops m i = Some mb \<longrightarrow> as_local (index_of mb) = i)"

lemmas reg_defs = reg_new_def reg_len_def reg_is_empty_def reg_retain_def reg_get_def
  reg_contains_index_def reg_remove_def reg_insert_def Let_def

text \<open>The registry over any store that keeps the contract, with indices as keys.\<close>

locale mailbox_store = kv_store ops invar
  for ops :: "('m, u64, 'mb) kv_ops" and invar :: "'m \<Rightarrow> bool"
begin

lemma reg_invar:
  "invar (reg_new ops)"
  "invar m \<Longrightarrow> invar (reg_retain ops p m)"
  "invar m \<Longrightarrow> invar (snd (reg_get ops c m i))"
  "invar m \<Longrightarrow> invar (snd (reg_contains_index ops c m i))"
  "invar m \<Longrightarrow> invar (snd (reg_remove ops m i))"
  "invar m \<Longrightarrow> invar (snd (reg_insert ops ix m a))"
  by (simp_all add: reg_defs kv_simps split: option.splits)

lemma reg_get_result: "fst (reg_get ops c m i) = reg_live ops c m i"
  by (simp add: reg_defs reg_live_def split: option.splits)

lemma reg_contains_result: "fst (reg_contains_index ops c m i) \<longleftrightarrow> reg_live ops c m i \<noteq> None"
  by (simp add: reg_defs reg_live_def split: option.splits)

lemma reg_get_same: "snd (reg_get ops c m i) = snd (reg_contains_index ops c m i)"
  by (simp add: reg_defs split: option.splits)

lemma reg_get_view:
  "invar m \<Longrightarrow> kv_get ops (snd (reg_get ops c m i)) j =
     (if j = i then reg_live ops c m i else kv_get ops m j)"
  by (auto simp: reg_defs reg_live_def get_del split: option.splits)

lemma reg_get_live: "invar m \<Longrightarrow> reg_live ops c (snd (reg_get ops c m i)) = reg_live ops c m"
  by (auto simp: reg_live_def reg_defs get_del fun_eq_iff split: option.splits)

lemma reg_retain_live:
  "invar m \<Longrightarrow> kv_get ops (reg_retain ops (\<lambda>_ mb. \<not> c mb) m) i = reg_live ops c m i"
  by (auto simp: reg_live_def reg_defs get_filter split: option.splits)

lemma reg_remove_view:
  "invar m \<Longrightarrow> kv_get ops (snd (reg_remove ops m i)) j = (if j = i then None else kv_get ops m j)"
  by (simp add: reg_defs get_del)

lemma reg_insert_view:
  "invar m \<Longrightarrow> kv_get ops (snd (reg_insert ops ix m a)) j =
     (if j = as_local (ix a) \<and> kv_get ops m j = None then Some a else kv_get ops m j)"
  by (auto simp: reg_defs get_put split: option.splits)

lemma reg_insert_result:
  "fst (reg_insert ops ix m a) \<longleftrightarrow> kv_get ops m (as_local (ix a)) = None"
  by (simp add: reg_defs split: option.splits)

lemma reg_filed_ops:
  assumes "invar m" and "reg_filed ops ix m"
  shows "reg_filed ops ix (snd (reg_insert ops ix m a))" and "reg_filed ops ix (snd (reg_get ops c m i))"
    and "reg_filed ops ix (snd (reg_remove ops m i))" and "reg_filed ops ix (reg_retain ops p m)"
  using assms
  by (auto simp: reg_filed_def reg_insert_view reg_get_view reg_remove_view reg_live_def
      reg_retain_def get_filter_Some split: if_splits option.splits)

lemma reg_len_insert:
  assumes "invar m" and "fst (reg_insert ops ix m a)"
  shows "reg_len ops (snd (reg_insert ops ix m a)) = Suc (reg_len ops m)"
proof -
  let ?i = "as_local (ix a)"
  have "{k. kv_get ops (snd (reg_insert ops ix m a)) k \<noteq> None} = insert ?i {k. kv_get ops m k \<noteq> None}"
    using assms by (auto simp: reg_insert_view reg_insert_result)
  moreover have "?i \<notin> {k. kv_get ops m k \<noteq> None}" using assms(2) by (simp add: reg_insert_result)
  ultimately show ?thesis
    using assms(1) finite_keys by (simp add: reg_len_def len_card reg_invar)
qed

end

interpretation hm_registry: mailbox_store hm_ops hm_ok
  by (rule mailbox_store.intro) (rule hm.kv_store_axioms)

section \<open>Properties\<close>

text \<open>The registry refines a map of live mailboxes: \<open>get\<close> and \<open>contains_index\<close> answer exactly the
  mailboxes that are present and open, and evict what they find closed without changing what any
  other index, or any later open lookup, sees.\<close>

theorem reg_get_evicts:
  assumes "kv_store ops invar" and "invar m"
  shows "fst (reg_get ops closed m i) = reg_live ops closed m i \<and>
    fst (reg_contains_index ops closed m i) = (reg_live ops closed m i \<noteq> None) \<and>
    reg_live ops closed (snd (reg_get ops closed m i)) = reg_live ops closed m \<and>
    snd (reg_contains_index ops closed m i) = snd (reg_get ops closed m i) \<and>
    kv_get ops (snd (reg_get ops closed m i)) j =
      (if j = i then reg_live ops closed m i else kv_get ops m j)"
proof -
  note store = mailbox_store.intro [OF assms(1)]
  show ?thesis
    using mailbox_store.reg_get_result [OF store] mailbox_store.reg_contains_result [OF store]
      mailbox_store.reg_get_same [OF store] mailbox_store.reg_get_view [OF store assms(2)]
      mailbox_store.reg_get_live [OF store assms(2)]
    by simp
qed

theorem reg_get_evicts_witness:
  "fst (reg_get hm_ops (\<lambda>mb. mb = (0::nat)) [(7, 0), (8, 1)] 7) = None \<and>
   kv_get hm_ops (snd (reg_get hm_ops (\<lambda>mb. mb = (0::nat)) [(7, 0), (8, 1)] 7)) 8 = Some 1"
  using reg_get_evicts [OF hm.kv_store_axioms, of "[(7, 0), (8, 1)]" "\<lambda>mb. mb = (0::nat)" 7 8]
  by (simp add: hm_ok_def hm_ops_def reg_live_def hm_get_def)

text \<open>Registering is idempotent and never replaces: \<open>insert\<close> succeeds exactly on an absent index,
  files the mailbox under its own local index, adds one entry, and a second \<open>insert\<close> with the same
  index is refused and changes nothing, even when the first mailbox has closed since.\<close>

theorem reg_insert_once:
  assumes "kv_store ops invar" and "invar m" and "reg_filed ops index_of m"
    and "as_local (index_of a') = as_local (index_of a)"
  shows "reg_filed ops index_of (snd (reg_insert ops index_of m a)) \<and>
    (fst (reg_insert ops index_of m a) \<longleftrightarrow> kv_get ops m (as_local (index_of a)) = None) \<and>
    (fst (reg_insert ops index_of m a) \<longrightarrow>
       kv_get ops (snd (reg_insert ops index_of m a)) (as_local (index_of a)) = Some a \<and>
       reg_len ops (snd (reg_insert ops index_of m a)) = Suc (reg_len ops m)) \<and>
    reg_insert ops index_of (snd (reg_insert ops index_of m a)) a' =
      (False, snd (reg_insert ops index_of m a))"
proof -
  let ?m = "snd (reg_insert ops index_of m a)"
  note store = mailbox_store.intro [OF assms(1)]
  have present: "kv_get ops ?m (as_local (index_of a')) \<noteq> None"
    using mailbox_store.reg_insert_view [OF store assms(2), of index_of a "as_local (index_of a')"] assms(4)
    by auto
  then have "reg_insert ops index_of ?m a' = (False, ?m)"
    by (auto simp: reg_insert_def Let_def)
  then show ?thesis
    using mailbox_store.reg_filed_ops(1) [OF store assms(2,3)]
      mailbox_store.reg_insert_result [OF store] mailbox_store.reg_insert_view [OF store assms(2)]
      mailbox_store.reg_len_insert [OF store assms(2)]
    by simp
qed

theorem reg_insert_once_witness:
  "reg_insert hm_ops (\<lambda>n. actor_id_new (of_nat (n mod 10))) [(7, 7)] (17::nat) = (False, [(7, 7)]) \<and>
   fst (reg_insert hm_ops (\<lambda>n. actor_id_new (of_nat (n mod 10))) hm_new (7::nat))"
proof -
  let ?ix = "\<lambda>n::nat. actor_id_new (of_nat (n mod 10)) :: actor_id"
  have "reg_filed hm_ops ?ix hm_new" by (simp add: reg_filed_def hm_ops_def)
  then show ?thesis
    using reg_insert_once [OF hm.kv_store_axioms, of hm_new ?ix 17 7]
    by (simp add: hm_ops_def reg_insert_def hm_put_fresh hm_new_def hm_get_def hm_put_def)
qed

end
