(* ===== verification/Actor_Mgr.thy ===== *)
theory Actor_Mgr
  imports Registry
begin

text \<open>
  The actor manager of a node (\<open>acktor-ipc/src/node/actor_mgr.rs\<close>): labels, factories and the shared
  registry. A handler runs to completion before the next message, so each is one function of the
  state; the registry may change between handlers because sessions look up and register mailboxes
  in it, which the runs of the last section interleave. User code reached through a factory is the
  parameter \<open>create_remote\<close>; it may return, fail or panic, and a panic arrives as the \<open>JoinError\<close>
  of the spawned task.
\<close>

section \<open>State\<close>

record ('m, 'f) actor_mgr =
  mgr_registry :: 'm
  actor_labels :: "(string, u64) hash_map"
  factories :: "(u64, 'f) hash_map"

definition mgr_new :: "'m \<Rightarrow> (string, u64) hash_map \<Rightarrow> (u64, 'f) hash_map \<Rightarrow> ('m, 'f) actor_mgr"
where
  "mgr_new reg labels facs = \<lparr>mgr_registry = reg, actor_labels = labels, factories = facs\<rparr>"

section \<open>Handlers\<close>

text \<open>
  \<open>CronActor::task\<close>. The two passes run one after the other; \<open>closed1\<close> and \<open>closed2\<close> are what
  \<open>is_closed\<close> answers during each. The result is the delay to the next sweep, in seconds.
\<close>

definition mgr_task ::
  "('m, u64, 'mb) kv_ops \<Rightarrow> ('mb \<Rightarrow> bool) \<Rightarrow> ('mb \<Rightarrow> bool) \<Rightarrow> ('m, 'f) actor_mgr \<Rightarrow>
     (nat, node_error) result \<times> ('m, 'f) actor_mgr" where
  "mgr_task ops closed1 closed2 s =
     (let reg = reg_retain ops (\<lambda>_ mailbox. \<not> closed1 mailbox) (mgr_registry s);
          (labels, reg') = hm_retain
            (\<lambda>_ actor_id r. let (present, r') = reg_contains_index ops closed2 r actor_id
                            in (present, actor_id, r'))
            (actor_labels s) reg
      in (Ok 60, s\<lparr>mgr_registry := reg', actor_labels := labels\<rparr>))"

definition mgr_create_actor ::
  "('m, u64, 'mb) kv_ops \<Rightarrow> ('mb \<Rightarrow> actor_id) \<Rightarrow>
   ('f \<Rightarrow> string \<Rightarrow> string \<Rightarrow> ('mb, box_error) result outcome) \<Rightarrow> (string \<Rightarrow> box_error) \<Rightarrow>
   u64 \<Rightarrow> string \<Rightarrow> string \<Rightarrow> ('m, 'f) actor_mgr \<Rightarrow>
     (actor_id, session_error) result \<times> ('m, 'f) actor_mgr" where
  "mgr_create_actor ops index_of create_remote join_error type_id label config s =
     (case hm_get (factories s) type_id of
        None \<Rightarrow>
          (Err (CreateActorFailed (box_str
             (''no factory registered for actor type '' @ u64_to_string type_id))), s)
      | Some factory \<Rightarrow>
          (case hm_get (actor_labels s) label of
             Some actor_id \<Rightarrow>
               (Err (CreateActorFailed (box_str
                  (''actor with label '' @ label @ '' already existed with id '' @
                   u64_to_string actor_id))), s)
           | None \<Rightarrow>
               (case create_remote factory label config of
                  Panic e \<Rightarrow> (Err (CreateActorFailed (join_error e)), s)
                | Ret (Err e) \<Rightarrow> (Err (CreateActorFailed e), s)
                | Ret (Ok address) \<Rightarrow>
                    let actor_id = index_of address;
                        (_, reg) = reg_insert ops index_of (mgr_registry s) address;
                        (_, labels) = hm_insert (actor_labels s) label (as_local actor_id)
                    in (Ok actor_id, s\<lparr>mgr_registry := reg, actor_labels := labels\<rparr>))))"

definition mgr_get_actor ::
  "('m, u64, 'mb) kv_ops \<Rightarrow> ('mb \<Rightarrow> bool) \<Rightarrow> string \<Rightarrow> ('m, 'f) actor_mgr \<Rightarrow>
     ('mb, session_error) result \<times> ('m, 'f) actor_mgr" where
  "mgr_get_actor ops closed label s =
     (case hm_get (actor_labels s) label of
        None \<Rightarrow> (Err (ActorNotFound label), s)
      | Some actor_id \<Rightarrow>
          let (r, reg) = reg_get ops closed (mgr_registry s) actor_id
          in (ok_or (ActorNotFound label) r, s\<lparr>mgr_registry := reg\<rparr>))"

definition mgr_add_actor ::
  "('m, u64, 'mb) kv_ops \<Rightarrow> ('mb \<Rightarrow> actor_id) \<Rightarrow> string \<Rightarrow> 'mb \<Rightarrow> ('m, 'f) actor_mgr \<Rightarrow>
     bool \<times> ('m, 'f) actor_mgr" where
  "mgr_add_actor ops index_of label address s =
     (if hm_contains_key (actor_labels s) label then (False, s)
      else let actor_id = as_local (index_of address);
               (inserted, reg) = reg_insert ops index_of (mgr_registry s) address
           in if \<not> inserted then (False, s\<lparr>mgr_registry := reg\<rparr>)
              else (True, s\<lparr>mgr_registry := reg,
                             actor_labels := snd (hm_insert (actor_labels s) label actor_id)\<rparr>))"

definition mgr_remove_actor ::
  "('m, u64, 'mb) kv_ops \<Rightarrow> actor_ref \<Rightarrow> ('m, 'f) actor_mgr \<Rightarrow> bool \<times> ('m, 'f) actor_mgr" where
  "mgr_remove_actor ops ref s =
     (case ref of
        RefIndex aid \<Rightarrow>
          let actor_id = as_local aid;
              labels = fst (hm_retain (\<lambda>_ i u. (i \<noteq> actor_id, i, u)) (actor_labels s) ());
              (removed, reg) = reg_remove ops (mgr_registry s) actor_id
          in (removed \<noteq> None, s\<lparr>actor_labels := labels, mgr_registry := reg\<rparr>)
      | RefLabel label \<Rightarrow>
          (case hm_remove (actor_labels s) label of
             (Some actor_id, labels) \<Rightarrow>
               let (removed, reg) = reg_remove ops (mgr_registry s) actor_id
               in (removed \<noteq> None, s\<lparr>actor_labels := labels, mgr_registry := reg\<rparr>)
           | (None, _) \<Rightarrow> (False, s)))"

section \<open>Invariant and resolution of labels\<close>

definition mgr_inv ::
  "('m, u64, 'mb) kv_ops \<Rightarrow> ('m \<Rightarrow> bool) \<Rightarrow> ('mb \<Rightarrow> actor_id) \<Rightarrow> ('m, 'f) actor_mgr \<Rightarrow> bool" where
  "mgr_inv ops invar index_of s \<longleftrightarrow>
     invar (mgr_registry s) \<and> hm_ok (actor_labels s) \<and> reg_filed ops index_of (mgr_registry s)"

text \<open>What a label resolves to: the specification of \<open>GetActor\<close>.\<close>

definition mgr_resolve ::
  "('m, u64, 'mb) kv_ops \<Rightarrow> ('mb \<Rightarrow> bool) \<Rightarrow> ('m, 'f) actor_mgr \<Rightarrow> string \<Rightarrow> 'mb option" where
  "mgr_resolve ops closed s label =
     (case hm_get (actor_labels s) label of
        None \<Rightarrow> None
      | Some i \<Rightarrow> reg_live ops closed (mgr_registry s) i)"

lemmas mgr_defs = mgr_create_actor_def mgr_get_actor_def mgr_add_actor_def mgr_remove_actor_def

lemma reg_live_del [simp]:
  assumes "mailbox_store ops invar" "invar m"
  shows "reg_live ops c (kv_del ops m i) j = (if j = i then None else reg_live ops c m j)"
  using assms by (simp add: reg_live_def kv_store.get_del [OF mailbox_store.axioms])

context mailbox_store
begin

text \<open>The label sweep: each label is kept when its actor is live, and the registry loses only what
  was closed.\<close>

lemma sweep_labels:
  assumes "invar r"
  shows "(case hm_retain (\<lambda>_ i r. let (b, r') = reg_contains_index ops c r i in (b, i, r')) ls r of
      (ls', r') \<Rightarrow> ls' = hm_filter ls (\<lambda>_ i. reg_live ops c r i \<noteq> None) \<and> invar r' \<and>
        reg_live ops c r' = reg_live ops c r \<and> (reg_filed ops ix r \<longrightarrow> reg_filed ops ix r'))"
  using assms
proof (induction ls arbitrary: r)
  case Nil
  then show ?case by (simp add: hm_filter_def)
next
  case (Cons l ls)
  obtain k i where l: "l = (k, i)" by (cases l)
  obtain b r' where br: "reg_contains_index ops c r i = (b, r')" by (cases "reg_contains_index ops c r i")
  have r': "r' = snd (reg_get ops c r i)" and b: "b \<longleftrightarrow> reg_live ops c r i \<noteq> None"
    using br reg_get_same [of c r i] reg_contains_result [of c r i] by simp_all
  have live: "invar r'" "reg_live ops c r' = reg_live ops c r"
      "reg_filed ops ix r \<longrightarrow> reg_filed ops ix r'"
    using Cons.prems by (simp_all add: r' reg_invar reg_get_live reg_filed_ops)
  show ?case
    using Cons.IH [OF live(1)] live b
    by (auto simp: l br hm_retain.simps hm_filter_def split: prod.splits)
qed

lemma reg_live_retain:
  assumes "invar m" and "\<And>mb. c1 mb \<Longrightarrow> c2 mb"
  shows "reg_live ops c2 (reg_retain ops (\<lambda>_ mb. \<not> c1 mb) m) = reg_live ops c2 m"
  using assms by (auto simp: reg_live_def reg_retain_def get_filter fun_eq_iff split: option.splits)

lemma mgr_inv_ops:
  assumes "mgr_inv ops invar ix s"
  shows "mgr_inv ops invar ix (snd (mgr_create_actor ops ix cr je t l cfg s))"
    and "mgr_inv ops invar ix (snd (mgr_get_actor ops c l s))"
    and "mgr_inv ops invar ix (snd (mgr_add_actor ops ix l a s))"
    and "mgr_inv ops invar ix (snd (mgr_remove_actor ops ref s))"
    and "mgr_inv ops invar ix (snd (mgr_task ops c1 c2 s))"
proof -
  show "mgr_inv ops invar ix (snd (mgr_create_actor ops ix cr je t l cfg s))"
    using assms by (simp add: mgr_inv_def mgr_create_actor_def hm_insert_def reg_invar
        reg_filed_ops case_prod_beta Let_def split: option.split result.split outcome.split)
  show "mgr_inv ops invar ix (snd (mgr_get_actor ops c l s))"
    using assms by (simp add: mgr_inv_def mgr_get_actor_def reg_invar reg_filed_ops
        case_prod_beta Let_def split: option.split)
  show "mgr_inv ops invar ix (snd (mgr_add_actor ops ix l a s))"
    using assms by (simp add: mgr_inv_def mgr_add_actor_def hm_insert_def reg_invar
        reg_filed_ops case_prod_beta Let_def)
  show "mgr_inv ops invar ix (snd (mgr_remove_actor ops ref s))"
    using assms by (simp add: mgr_inv_def mgr_remove_actor_def hm_remove_def hm_retain_pure_unit
        reg_invar reg_filed_ops case_prod_beta Let_def split: actor_ref.split option.split)
  show "mgr_inv ops invar ix (snd (mgr_task ops c1 c2 s))"
    using assms sweep_labels [where ls = "actor_labels s" and c = c2 and ix = ix
        and r = "reg_retain ops (\<lambda>_ mb. \<not> c1 mb) (mgr_registry s)"]
    by (simp add: mgr_inv_def mgr_task_def Let_def reg_invar reg_filed_ops case_prod_beta)
qed

lemma mgr_resolve_add:
  assumes "mgr_inv ops invar ix s" and "fst (mgr_add_actor ops ix l a s)"
  shows "mgr_resolve ops c (snd (mgr_add_actor ops ix l a s)) l' =
    (if l' = l then (if c a then None else Some a)
     else if hm_get (actor_labels s) l' = Some (as_local (ix a)) then (if c a then None else Some a)
     else mgr_resolve ops c s l')"
  using assms reg_insert_result [of ix "mgr_registry s" a]
  by (auto simp: mgr_resolve_def mgr_inv_def mgr_add_actor_def hm_insert_def reg_live_def
      reg_insert_view case_prod_beta Let_def split: if_splits option.splits)

lemma mgr_remove_resolve:
  assumes "mgr_inv ops invar ix s"
  shows "mgr_resolve ops c (snd (mgr_remove_actor ops (RefIndex aid) s)) l =
    (if hm_get (actor_labels s) l = Some (as_local aid) then None else mgr_resolve ops c s l)"
  using assms
  by (auto simp: mgr_resolve_def mgr_inv_def mgr_remove_actor_def hm_retain_pure_unit reg_live_def
      reg_remove_view hm_get_filter case_prod_beta Let_def split: option.splits)

end

section \<open>Properties\<close>

text \<open>\<open>AddActor\<close> answers true exactly when both the label and the index are free. Then the label
  resolves to the added mailbox as long as it is open, and labels of other actors resolve as before;
  otherwise no label resolves differently.\<close>

theorem mgr_add_actor_correct:
  assumes "kv_store ops invar" and "mgr_inv ops invar index_of s"
  shows "mgr_inv ops invar index_of (snd (mgr_add_actor ops index_of label a s)) \<and>
    (fst (mgr_add_actor ops index_of label a s) \<longleftrightarrow>
       hm_get (actor_labels s) label = None \<and>
       kv_get ops (mgr_registry s) (as_local (index_of a)) = None) \<and>
    (fst (mgr_add_actor ops index_of label a s) \<longrightarrow>
       mgr_resolve ops closed (snd (mgr_add_actor ops index_of label a s)) label =
         (if closed a then None else Some a)) \<and>
    (label' \<noteq> label \<and> hm_get (actor_labels s) label' \<noteq> Some (as_local (index_of a)) \<longrightarrow>
       mgr_resolve ops closed (snd (mgr_add_actor ops index_of label a s)) label' =
         mgr_resolve ops closed s label') \<and>
    (\<not> fst (mgr_add_actor ops index_of label a s) \<longrightarrow>
       snd (mgr_add_actor ops index_of label a s) = s)"
proof -
  note store = mailbox_store.intro [OF assms(1)]
  have res: "fst (mgr_add_actor ops index_of label a s) \<longleftrightarrow>
      hm_get (actor_labels s) label = None \<and>
      kv_get ops (mgr_registry s) (as_local (index_of a)) = None"
    by (auto simp: mgr_add_actor_def hm_contains_key_def reg_insert_def Let_def
        split: option.splits)
  have same: "snd (mgr_add_actor ops index_of label a s) = s"
    if "\<not> fst (mgr_add_actor ops index_of label a s)"
    using that by (auto simp: mgr_add_actor_def reg_insert_def Let_def split: option.splits if_splits)
  show ?thesis
    using res same mailbox_store.mgr_inv_ops(3) [OF store assms(2)]
      mailbox_store.mgr_resolve_add [OF store assms(2), of label a closed]
    by (cases "fst (mgr_add_actor ops index_of label a s)") (simp_all add: assms(2))
qed

text \<open>A concrete manager for the witnesses: mailboxes are numbers, index \<open>n mod 10\<close>, closed below 100.\<close>

definition mgr_example :: "((u64, nat) hash_map, nat) actor_mgr" where
  "mgr_example = \<lparr>mgr_registry = [(7, 107), (8, 8)],
     actor_labels = [(''a'', 7), (''b'', 8)], factories = [(1, 5)]\<rparr>"

definition ex_index :: "nat \<Rightarrow> actor_id" where
  "ex_index n = actor_id_new (of_nat (n mod 10))"

definition ex_closed :: "nat \<Rightarrow> bool" where
  "ex_closed n \<longleftrightarrow> n < 100"

lemma mgr_example_inv: "mgr_inv hm_ops hm_ok ex_index mgr_example"
  by (simp add: mgr_inv_def mgr_example_def hm_ok_def reg_filed_def hm_ops_def hm_get_def
      ex_index_def)

lemmas ex_defs = mgr_example_def ex_index_def ex_closed_def hm_ops_def hm_get_def hm_put_def
  hm_del_def hm_insert_def hm_remove_def hm_contains_key_def reg_live_def reg_insert_def reg_get_def
  mgr_resolve_def Let_def

theorem mgr_add_actor_correct_witness:
  "fst (mgr_add_actor hm_ops ex_index ''c'' 109 mgr_example) \<and>
   mgr_resolve hm_ops ex_closed (snd (mgr_add_actor hm_ops ex_index ''c'' 109 mgr_example)) ''c''
     = Some 109"
  using mgr_add_actor_correct [OF hm.kv_store_axioms mgr_example_inv, of "''c''" 109 ex_closed "''a''"]
  by (simp add: ex_defs)

text \<open>\<open>CreateActor\<close> runs the factory only for a registered type and a free label; every failure,
  a panic of the factory included, leaves the manager unchanged and is reported as
  \<open>CreateActorFailed\<close>. On success with a fresh index the label resolves to the new actor.\<close>

theorem mgr_create_actor_correct:
  assumes "kv_store ops invar" and "mgr_inv ops invar index_of s"
    and "r = mgr_create_actor ops index_of create_remote join_error type_id label config s"
  shows "mgr_inv ops invar index_of (snd r) \<and>
    (\<forall>i. fst r = Ok i \<longleftrightarrow>
       (\<exists>f a. hm_get (factories s) type_id = Some f \<and> hm_get (actor_labels s) label = None \<and>
          create_remote f label config = Ret (Ok a) \<and> i = index_of a)) \<and>
    (\<not> is_ok (fst r) \<longrightarrow> snd r = s \<and> (\<exists>e. fst r = Err (CreateActorFailed e))) \<and>
    (\<forall>f a. hm_get (factories s) type_id = Some f \<and> hm_get (actor_labels s) label = None \<and>
       create_remote f label config = Ret (Ok a) \<and>
       kv_get ops (mgr_registry s) (as_local (index_of a)) = None \<longrightarrow>
       mgr_resolve ops closed (snd r) label = (if closed a then None else Some a))"
proof -
  note store = mailbox_store.intro [OF assms(1)]
  have inv: "invar (mgr_registry s)" using assms(2) by (simp add: mgr_inv_def)
  have res: "(\<forall>i. fst r = Ok i \<longleftrightarrow>
       (\<exists>f a. hm_get (factories s) type_id = Some f \<and> hm_get (actor_labels s) label = None \<and>
          create_remote f label config = Ret (Ok a) \<and> i = index_of a)) \<and>
      (\<not> is_ok (fst r) \<longrightarrow> snd r = s \<and> (\<exists>e. fst r = Err (CreateActorFailed e)))"
    unfolding assms(3)
    by (auto simp: mgr_create_actor_def case_prod_beta Let_def
        split: option.splits result.splits outcome.splits)
  have resolve: "mgr_resolve ops closed (snd r) label = (if closed a then None else Some a)"
    if "hm_get (factories s) type_id = Some f" "hm_get (actor_labels s) label = None"
      "create_remote f label config = Ret (Ok a)"
      "kv_get ops (mgr_registry s) (as_local (index_of a)) = None" for f a
    using that mailbox_store.reg_insert_view [OF store inv, of index_of a "as_local (index_of a)"]
    unfolding assms(3)
    by (simp add: mgr_create_actor_def case_prod_beta Let_def hm_insert_def mgr_resolve_def
        reg_live_def)
  have "mgr_inv ops invar index_of (snd r)"
    unfolding assms(3) by (rule mailbox_store.mgr_inv_ops(1) [OF store assms(2)])
  then show ?thesis using res resolve by blast
qed

theorem mgr_create_actor_correct_witness:
  "fst (mgr_create_actor hm_ops ex_index (\<lambda>f l c. Ret (Ok 102)) box_str 1 ''n'' ''{}'' mgr_example)
     = Ok (actor_id_new 2) \<and>
   mgr_resolve hm_ops ex_closed
     (snd (mgr_create_actor hm_ops ex_index (\<lambda>f l c. Ret (Ok 102)) box_str 1 ''n'' ''{}''
        mgr_example)) ''n'' = Some 102"
  using mgr_create_actor_correct [OF hm.kv_store_axioms mgr_example_inv refl, of
      "\<lambda>f l c. Ret (Ok 102)" box_str 1 "''n''" "''{}''" ex_closed]
  by (simp add: ex_defs mgr_create_actor_def)

text \<open>\<open>RemoveActor\<close> by index forgets the actor under every label it had and answers whether the
  registry knew it; labels of other actors resolve as before. Removal by label forgets that label
  and unregisters its actor.\<close>

theorem mgr_remove_actor_correct:
  assumes "kv_store ops invar" and "mgr_inv ops invar index_of s"
  shows "fst (mgr_remove_actor ops (RefIndex aid) s) =
      (kv_get ops (mgr_registry s) (as_local aid) \<noteq> None) \<and>
    mgr_resolve ops closed (snd (mgr_remove_actor ops (RefIndex aid) s)) label =
      (if hm_get (actor_labels s) label = Some (as_local aid) then None
       else mgr_resolve ops closed s label) \<and>
    hm_get (actor_labels (snd (mgr_remove_actor ops (RefIndex aid) s))) label \<noteq> Some (as_local aid) \<and>
    hm_get (actor_labels (snd (mgr_remove_actor ops (RefLabel label) s))) label = None \<and>
    (\<forall>i. hm_get (actor_labels s) label = Some i \<longrightarrow>
       fst (mgr_remove_actor ops (RefLabel label) s) = (kv_get ops (mgr_registry s) i \<noteq> None) \<and>
       kv_get ops (mgr_registry (snd (mgr_remove_actor ops (RefLabel label) s))) i = None) \<and>
    (hm_get (actor_labels s) label = None \<longrightarrow>
       mgr_remove_actor ops (RefLabel label) s = (False, s))"
proof -
  note store = mailbox_store.intro [OF assms(1)]
  have inv: "invar (mgr_registry s)" "hm_ok (actor_labels s)"
    using assms(2) by (simp_all add: mgr_inv_def)
  have "fst (mgr_remove_actor ops (RefIndex aid) s) =
      (kv_get ops (mgr_registry s) (as_local aid) \<noteq> None)"
    by (simp add: mgr_remove_actor_def reg_remove_def Let_def)
  moreover have "hm_get (actor_labels (snd (mgr_remove_actor ops (RefIndex aid) s))) label
      \<noteq> Some (as_local aid)"
    using inv(2) by (simp add: mgr_remove_actor_def reg_remove_def Let_def hm_retain_pure_unit)
  moreover have "hm_get (actor_labels (snd (mgr_remove_actor ops (RefLabel label) s))) label = None"
    by (simp add: mgr_remove_actor_def hm_remove_def case_prod_beta Let_def split: option.split)
  moreover have "fst (mgr_remove_actor ops (RefLabel label) s) = (kv_get ops (mgr_registry s) i \<noteq> None)"
      "kv_get ops (mgr_registry (snd (mgr_remove_actor ops (RefLabel label) s))) i = None"
    if "hm_get (actor_labels s) label = Some i" for i
    using that kv_store.get_del [OF assms(1) inv(1)]
    by (simp_all add: mgr_remove_actor_def hm_remove_def reg_remove_def)
  moreover have "mgr_remove_actor ops (RefLabel label) s = (False, s)"
    if "hm_get (actor_labels s) label = None"
    using that by (simp add: mgr_remove_actor_def hm_remove_def)
  ultimately show ?thesis
    using mailbox_store.mgr_remove_resolve [OF store assms(2), of closed aid label] by simp
qed

theorem mgr_remove_actor_correct_witness:
  "fst (mgr_remove_actor hm_ops (RefIndex (actor_id_new 7)) mgr_example) \<and>
   mgr_resolve hm_ops ex_closed (snd (mgr_remove_actor hm_ops (RefIndex (actor_id_new 7)) mgr_example))
     ''a'' = None"
  using mgr_remove_actor_correct [OF hm.kv_store_axioms mgr_example_inv, of "actor_id_new 7"
      ex_closed "''a''"]
  by (simp add: ex_defs)

text \<open>The periodic sweep is exact: afterwards the labels that remain are precisely those whose
  actor is registered and open, each of them resolves to the same mailbox as before, no open mailbox
  has left the registry, and the next sweep is due in 60 seconds. A mailbox that is closed in the
  first pass is still closed in the second.\<close>

theorem mgr_task_sweeps:
  assumes "kv_store ops invar" and "mgr_inv ops invar index_of s"
    and "\<And>mb. closed1 mb \<Longrightarrow> closed2 mb"
    and "s' = snd (mgr_task ops closed1 closed2 s)"
  shows "fst (mgr_task ops closed1 closed2 s) = Ok 60 \<and> mgr_inv ops invar index_of s' \<and>
    (hm_get (actor_labels s') label \<noteq> None \<longleftrightarrow> mgr_resolve ops closed2 s label \<noteq> None) \<and>
    mgr_resolve ops closed2 s' label = mgr_resolve ops closed2 s label \<and>
    reg_live ops closed2 (mgr_registry s') = reg_live ops closed2 (mgr_registry s)"
proof -
  note store = mailbox_store.intro [OF assms(1)]
  let ?r = "reg_retain ops (\<lambda>_ mb. \<not> closed1 mb) (mgr_registry s)"
  have inv: "invar (mgr_registry s)" "hm_ok (actor_labels s)"
    using assms(2) by (simp_all add: mgr_inv_def)
  have live: "reg_live ops closed2 ?r = reg_live ops closed2 (mgr_registry s)"
    using mailbox_store.reg_live_retain [OF store inv(1)] assms(3) by blast
  have sweep: "actor_labels s' = hm_filter (actor_labels s)
      (\<lambda>_ i. reg_live ops closed2 (mgr_registry s) i \<noteq> None)"
    "reg_live ops closed2 (mgr_registry s') = reg_live ops closed2 (mgr_registry s)"
    using mailbox_store.sweep_labels [OF store mailbox_store.reg_invar(2) [OF store inv(1)],
        where c = closed2 and ls = "actor_labels s"]
    by (simp_all add: assms(4) mgr_task_def Let_def case_prod_beta live)
  have "mgr_inv ops invar index_of s'"
    unfolding assms(4) by (rule mailbox_store.mgr_inv_ops(5) [OF store assms(2)])
  moreover have "fst (mgr_task ops closed1 closed2 s) = Ok 60"
    by (simp add: mgr_task_def Let_def case_prod_beta)
  ultimately show ?thesis
    using inv(2) sweep
    by (simp add: mgr_resolve_def hm_get_filter split: option.split)
qed

theorem mgr_task_sweeps_witness:
  "hm_get (actor_labels (snd (mgr_task hm_ops ex_closed ex_closed mgr_example))) ''b'' = None \<and>
   mgr_resolve hm_ops ex_closed (snd (mgr_task hm_ops ex_closed ex_closed mgr_example)) ''a''
     = Some 107"
proof -
  let ?s = "snd (mgr_task hm_ops ex_closed ex_closed mgr_example)"
  have "(hm_get (actor_labels ?s) ''b'' \<noteq> None) = (mgr_resolve hm_ops ex_closed mgr_example ''b'' \<noteq> None)"
    using mgr_task_sweeps [OF hm.kv_store_axioms mgr_example_inv _ refl, of ex_closed ex_closed "''b''"]
    by simp
  moreover have "mgr_resolve hm_ops ex_closed ?s ''a'' = mgr_resolve hm_ops ex_closed mgr_example ''a''"
    using mgr_task_sweeps [OF hm.kv_store_axioms mgr_example_inv _ refl, of ex_closed ex_closed "''a''"]
    by simp
  ultimately show ?thesis by (simp add: ex_defs)
qed

section \<open>Interleaved runs\<close>

text \<open>
  The steps that touch the shared state: the handlers of the manager, and from the sessions the
  lookups of \<open>find_mailbox\<close> and the registrations of \<open>Proxy::register\<close>. Each step sees its own
  answers of \<open>is_closed\<close>, and a create step the outcome of its factory.
\<close>

datatype ('mb, 'f) mgr_event =
  EvCreate u64 string string "'f \<Rightarrow> string \<Rightarrow> string \<Rightarrow> ('mb, box_error) result outcome"
| EvGet string
| EvAdd string 'mb
| EvRemove actor_ref
| EvTask
| EvSessionLookup u64
| EvSessionRegister 'mb

fun mgr_step ::
  "('m, u64, 'mb) kv_ops \<Rightarrow> ('mb \<Rightarrow> actor_id) \<Rightarrow> (string \<Rightarrow> box_error) \<Rightarrow>
   ('mb \<Rightarrow> bool) \<Rightarrow> ('mb, 'f) mgr_event \<Rightarrow> ('m, 'f) actor_mgr \<Rightarrow> ('m, 'f) actor_mgr" where
  "mgr_step ops ix je closed (EvCreate t l cfg cr) s = snd (mgr_create_actor ops ix cr je t l cfg s)"
| "mgr_step ops ix je closed (EvGet l) s = snd (mgr_get_actor ops closed l s)"
| "mgr_step ops ix je closed (EvAdd l a) s = snd (mgr_add_actor ops ix l a s)"
| "mgr_step ops ix je closed (EvRemove ref) s = snd (mgr_remove_actor ops ref s)"
| "mgr_step ops ix je closed EvTask s = snd (mgr_task ops closed closed s)"
| "mgr_step ops ix je closed (EvSessionLookup i) s =
     s\<lparr>mgr_registry := snd (reg_get ops closed (mgr_registry s) i)\<rparr>"
| "mgr_step ops ix je closed (EvSessionRegister a) s =
     s\<lparr>mgr_registry := snd (reg_insert ops ix (mgr_registry s) a)\<rparr>"

fun mgr_steps ::
  "('m, u64, 'mb) kv_ops \<Rightarrow> ('mb \<Rightarrow> actor_id) \<Rightarrow> (string \<Rightarrow> box_error) \<Rightarrow>
   (('mb \<Rightarrow> bool) \<times> ('mb, 'f) mgr_event) list \<Rightarrow> ('m, 'f) actor_mgr \<Rightarrow> ('m, 'f) actor_mgr" where
  "mgr_steps ops ix je [] s = s"
| "mgr_steps ops ix je ((c, e) # es) s = mgr_steps ops ix je es (mgr_step ops ix je c e s)"

text \<open>An event that may unregister the actor \<open>i\<close>: a removal that names it.\<close>

fun removes :: "(string, u64) hash_map \<Rightarrow> u64 \<Rightarrow> ('mb, 'f) mgr_event \<Rightarrow> bool" where
  "removes labels i (EvRemove (RefIndex aid)) \<longleftrightarrow> as_local aid = i"
| "removes labels i (EvRemove (RefLabel l)) \<longleftrightarrow> hm_get labels l = Some i"
| "removes labels i _ \<longleftrightarrow> False"

fun undisturbed ::
  "('m, u64, 'mb) kv_ops \<Rightarrow> ('mb \<Rightarrow> actor_id) \<Rightarrow> (string \<Rightarrow> box_error) \<Rightarrow> 'mb \<Rightarrow>
   (('mb \<Rightarrow> bool) \<times> ('mb, 'f) mgr_event) list \<Rightarrow> ('m, 'f) actor_mgr \<Rightarrow> bool" where
  "undisturbed ops ix je mb [] s \<longleftrightarrow> True"
| "undisturbed ops ix je mb ((c, e) # es) s \<longleftrightarrow>
     \<not> c mb \<and> \<not> removes (actor_labels s) (as_local (ix mb)) e \<and>
     undisturbed ops ix je mb es (mgr_step ops ix je c e s)"

context mailbox_store
begin

lemma mgr_step_inv:
  "mgr_inv ops invar ix s \<Longrightarrow> mgr_inv ops invar ix (mgr_step ops ix je c e s)"
  using mgr_inv_ops [of ix s]
  by (cases e) (simp_all add: mgr_inv_def reg_invar reg_filed_ops)

lemma mgr_step_keeps:
  assumes inv: "mgr_inv ops invar ix s"
    and at: "hm_get (actor_labels s) l = Some i" "kv_get ops (mgr_registry s) i = Some mb"
    and "\<not> c mb" and "\<not> removes (actor_labels s) i e"
  shows "hm_get (actor_labels (mgr_step ops ix je c e s)) l = Some i \<and>
    kv_get ops (mgr_registry (mgr_step ops ix je c e s)) i = Some mb"
proof -
  have iv: "invar (mgr_registry s)" "hm_ok (actor_labels s)" using inv by (simp_all add: mgr_inv_def)
  have live: "reg_live ops c (mgr_registry s) i = Some mb"
    using at assms(4) by (simp add: reg_live_def)
  note views = reg_insert_view [OF iv(1)] reg_get_view [OF iv(1)] reg_remove_view [OF iv(1)]
  show ?thesis
  proof (cases e)
    case (EvCreate t l' cfg cr)
    with at show ?thesis
      by (auto simp: mgr_create_actor_def case_prod_beta Let_def hm_insert_def views
          split: option.split result.split outcome.split)
  next
    case (EvRemove ref)
    with at iv assms(5) show ?thesis
      by (cases ref) (auto simp: mgr_remove_actor_def case_prod_beta Let_def hm_remove_def views
          hm_retain_pure_unit hm_get_filter split: option.split)
  next
    case EvTask
    have r: "invar (reg_retain ops (\<lambda>_ mb. \<not> c mb) (mgr_registry s))"
      using iv(1) by (rule reg_invar)
    have "reg_live ops c (mgr_registry (mgr_step ops ix je c e s)) i = Some mb"
      and "hm_get (actor_labels (mgr_step ops ix je c e s)) l = Some i"
      using sweep_labels [OF r, where c = c and ls = "actor_labels s"] EvTask at iv live
        reg_live_retain [OF iv(1), of c c]
      by (simp_all add: mgr_task_def case_prod_beta Let_def)
    then show ?thesis by (simp add: reg_live_def split: option.splits if_splits)
  qed (use at live iv in \<open>auto simp: mgr_get_actor_def mgr_add_actor_def case_prod_beta Let_def
      hm_insert_def hm_contains_key_def views split: option.split\<close>)
qed

lemma mgr_steps_keep:
  assumes "mgr_inv ops invar ix s"
    and "hm_get (actor_labels s) l = Some (as_local (ix mb))"
    and "kv_get ops (mgr_registry s) (as_local (ix mb)) = Some mb"
    and "undisturbed ops ix je mb es s"
  shows "mgr_inv ops invar ix (mgr_steps ops ix je es s) \<and>
    hm_get (actor_labels (mgr_steps ops ix je es s)) l = Some (as_local (ix mb)) \<and>
    kv_get ops (mgr_registry (mgr_steps ops ix je es s)) (as_local (ix mb)) = Some mb"
  using assms
proof (induction es arbitrary: s)
  case (Cons ce es)
  obtain c e where "ce = (c, e)" by (cases ce)
  with Cons.prems mgr_step_keeps [OF Cons.prems(1-3), of c e je] mgr_step_inv [OF Cons.prems(1)]
    Cons.IH [of "mgr_step ops ix je c e s"]
  show ?case by simp
qed simp

end

lemma mgr_get_kept:
  assumes "kv_store ops invar" and "mgr_inv ops invar ix s" and "mgr_resolve ops closed s label = Some mb"
    and "undisturbed ops ix je mb es s" and "\<not> closed' mb"
  shows "fst (mgr_get_actor ops closed' label (mgr_steps ops ix je es s)) = Ok mb"
proof -
  note store = mailbox_store.intro [OF assms(1)]
  from assms(3) obtain i where i: "hm_get (actor_labels s) label = Some i" "kv_get ops (mgr_registry s) i = Some mb"
    by (auto simp: mgr_resolve_def reg_live_def split: option.splits if_splits)
  have "as_local (ix mb) = i" using assms(2) i(2) by (auto simp: mgr_inv_def reg_filed_def)
  with i mailbox_store.mgr_steps_keep [OF store assms(2), of label mb je es] assms(4,5) show ?thesis
    by (auto simp: mgr_get_actor_def case_prod_beta Let_def mailbox_store.reg_get_result [OF store] reg_live_def)
qed

text \<open>C12. Labels are stable: however the handlers of the manager and the lookups and registrations of
  all sessions interleave, a label keeps resolving to the mailbox it was registered for, as long as
  that mailbox is open and no removal names its actor.\<close>

theorem label_stable:
  assumes "kv_store ops invar" and "mgr_inv ops invar index_of s"
    and "mgr_resolve ops closed s label = Some mb"
    and "undisturbed ops index_of join_error mb es s" and "\<not> closed' mb"
  shows "fst (mgr_get_actor ops closed' label (mgr_steps ops index_of join_error es s)) = Ok mb"
  using assms by (rule mgr_get_kept)

theorem label_stable_witness:
  "fst (mgr_get_actor hm_ops ex_closed ''a'' (mgr_steps hm_ops ex_index box_str
     [(ex_closed, EvTask), (ex_closed, EvSessionLookup 8), (ex_closed, EvAdd ''z'' 203),
      (ex_closed, EvRemove (RefLabel ''b''))] mgr_example)) = Ok 107"
proof (rule label_stable [OF hm.kv_store_axioms mgr_example_inv, of ex_closed])
  show "undisturbed hm_ops ex_index box_str 107
     [(ex_closed, EvTask), (ex_closed, EvSessionLookup 8), (ex_closed, EvAdd ''z'' 203),
      (ex_closed, EvRemove (RefLabel ''b''))] mgr_example"
    by (simp add: ex_defs mgr_task_def mgr_add_actor_def reg_retain_def hm_filter_def
        hm_retain.simps reg_contains_index_def)
qed (simp_all add: ex_defs)

end
