(* ===== verification/Proto.thy ===== *)
theory Proto
  imports Errors
begin

text \<open>
  The messages two nodes exchange (\<open>acktor-ipc-proto/src/message.rs\<close>, \<open>utils.rs\<close> and the structures
  that \<open>prost\<close> generated for them) and \<open>BinaryMessage\<close> (\<open>acktor/src/message/remote.rs\<close>). A field that
  the wire format may leave out is an \<open>option\<close>. The wire codec itself is \<open>prost\<close> and a parameter.
\<close>

datatype actor_ref_type = PRefIndex u64 | PRefLabel string

record proto_actor_ref =
  pref :: "actor_ref_type option"

record create_actor_msg =
  ca_type_id :: u64
  ca_label :: string
  ca_config :: string
  ca_tag :: u64

record get_actor_msg =
  ga_actor :: "proto_actor_ref option"
  ga_tag :: u64

datatype node_message_type = NMCreateActor create_actor_msg | NMGetActor get_actor_msg

record node_message =
  nm_message :: "node_message_type option"

record actor_message =
  am_actor_id :: u64
  am_message_id :: u64
  am_message :: bytes
  am_tag :: "u64 option"

datatype response_type = ResponseOk bytes | ResponseErr string

record message_response =
  mr_tag :: u64
  mr_response :: "response_type option"

datatype ipc_message_type =
  ITActorMessage actor_message
| ITNodeMessage node_message
| ITMessageResponse message_response

record ipc_message =
  im_message :: "ipc_message_type option"

datatype result_address_type = AddressOk u64 | AddressErr string

record result_address =
  ra_result :: "result_address_type option"

section \<open>Constructors\<close>

definition ipc_actor_message :: "actor_message \<Rightarrow> ipc_message" where
  "ipc_actor_message m = \<lparr>im_message = Some (ITActorMessage m)\<rparr>"

definition ipc_node_message :: "node_message \<Rightarrow> ipc_message" where
  "ipc_node_message m = \<lparr>im_message = Some (ITNodeMessage m)\<rparr>"

definition ipc_message_response :: "message_response \<Rightarrow> ipc_message" where
  "ipc_message_response r = \<lparr>im_message = Some (ITMessageResponse r)\<rparr>"

definition actor_message_send :: "u64 \<Rightarrow> u64 \<Rightarrow> bytes \<Rightarrow> u64 \<Rightarrow> actor_message" where
  "actor_message_send actor_id message_id message tag =
     \<lparr>am_actor_id = actor_id, am_message_id = message_id, am_message = message,
      am_tag = Some tag\<rparr>"

definition actor_message_do_send :: "u64 \<Rightarrow> u64 \<Rightarrow> bytes \<Rightarrow> actor_message" where
  "actor_message_do_send actor_id message_id message =
     \<lparr>am_actor_id = actor_id, am_message_id = message_id, am_message = message, am_tag = None\<rparr>"

definition actor_ref_index :: "u64 \<Rightarrow> proto_actor_ref" where
  "actor_ref_index actor_id = \<lparr>pref = Some (PRefIndex actor_id)\<rparr>"

definition actor_ref_label :: "string \<Rightarrow> proto_actor_ref" where
  "actor_ref_label label = \<lparr>pref = Some (PRefLabel label)\<rparr>"

definition node_message_create_actor ::
  "u64 \<Rightarrow> string \<Rightarrow> string \<Rightarrow> u64 \<Rightarrow> node_message" where
  "node_message_create_actor type_id label config tag =
     \<lparr>nm_message = Some (NMCreateActor
        \<lparr>ca_type_id = type_id, ca_label = label, ca_config = config, ca_tag = tag\<rparr>)\<rparr>"

definition node_message_get_actor_by_index :: "u64 \<Rightarrow> u64 \<Rightarrow> node_message" where
  "node_message_get_actor_by_index actor_id tag =
     \<lparr>nm_message = Some (NMGetActor \<lparr>ga_actor = Some (actor_ref_index actor_id), ga_tag = tag\<rparr>)\<rparr>"

definition node_message_get_actor_by_label :: "string \<Rightarrow> u64 \<Rightarrow> node_message" where
  "node_message_get_actor_by_label label tag =
     \<lparr>nm_message = Some (NMGetActor \<lparr>ga_actor = Some (actor_ref_label label), ga_tag = tag\<rparr>)\<rparr>"

definition message_response_new :: "u64 \<Rightarrow> (bytes, string) result \<Rightarrow> message_response" where
  "message_response_new tag result =
     \<lparr>mr_tag = tag,
      mr_response = Some (case result of Ok b \<Rightarrow> ResponseOk b | Err e \<Rightarrow> ResponseErr e)\<rparr>"

definition result_address_ok :: "u64 \<Rightarrow> result_address" where
  "result_address_ok actor_id = \<lparr>ra_result = Some (AddressOk actor_id)\<rparr>"

definition result_address_err :: "string \<Rightarrow> result_address" where
  "result_address_err e = \<lparr>ra_result = Some (AddressErr e)\<rparr>"

lemmas proto_defs = ipc_actor_message_def ipc_node_message_def ipc_message_response_def
  actor_message_send_def actor_message_do_send_def actor_ref_index_def actor_ref_label_def
  node_message_create_actor_def node_message_get_actor_by_index_def
  node_message_get_actor_by_label_def message_response_new_def result_address_ok_def
  result_address_err_def

section \<open>Binary messages\<close>

record ('tx, 'ctx) binary_message =
  bm_actor_id :: u64
  bm_message_id :: u64
  bm_bytes :: bytes
  bm_result_tx :: "'tx option"
  bm_decode_msg_ctx :: "'ctx option"
  bm_encode_res_ctx :: "'ctx option"

definition binary_do_send :: "u64 \<Rightarrow> u64 \<Rightarrow> bytes \<Rightarrow> ('tx, 'ctx) binary_message" where
  "binary_do_send actor_id message_id b =
     \<lparr>bm_actor_id = actor_id, bm_message_id = message_id, bm_bytes = b, bm_result_tx = None,
      bm_decode_msg_ctx = None, bm_encode_res_ctx = None\<rparr>"

definition binary_send :: "u64 \<Rightarrow> u64 \<Rightarrow> bytes \<Rightarrow> 'tx \<Rightarrow> ('tx, 'ctx) binary_message" where
  "binary_send actor_id message_id b tx =
     \<lparr>bm_actor_id = actor_id, bm_message_id = message_id, bm_bytes = b, bm_result_tx = Some tx,
      bm_decode_msg_ctx = None, bm_encode_res_ctx = None\<rparr>"

definition with_decode_context ::
  "('tx, 'ctx) binary_message \<Rightarrow> 'ctx \<Rightarrow> ('tx, 'ctx) binary_message" where
  "with_decode_context m context = m\<lparr>bm_decode_msg_ctx := Some context\<rparr>"

definition with_encode_context ::
  "('tx, 'ctx) binary_message \<Rightarrow> 'ctx \<Rightarrow> ('tx, 'ctx) binary_message" where
  "with_encode_context m context = m\<lparr>bm_encode_res_ctx := Some context\<rparr>"

end
