(* ===== verification/Lifecycle.thy ===== *)
theory Lifecycle
  imports Errors
begin

text \<open>
  The lifecycle of an actor (\<open>acktor/src/actor.rs\<close>, \<open>signal.rs\<close>, \<open>supervisor.rs\<close>): its states, the
  signals that change them, and the provided methods \<open>spawn\<close> and \<open>run\<close> of \<open>ActorContext\<close>, which call
  the user's hooks and a context's message loop. A context is any record of operations \<open>cx\<close>; the
  locale \<open>actor_context\<close> is what \<open>spawn\<close> and \<open>run\<close> rely on, and every context of the crates
  interprets it. User hooks may return, fail or panic and may change the actor and the context;
  the hooks that await and the loop are \<open>option\<close>s, \<open>None\<close> when they never end.
\<close>

section \<open>States and signals\<close>

datatype actor_state = Unstarted | Starting | Running | Stopping | Stopped

definition actor_state_try_from :: "u8 \<Rightarrow> (actor_state, unit) result" where
  "actor_state_try_from v =
     (if v = 0 then Ok Unstarted else if v = 1 then Ok Starting else if v = 2 then Ok Running
      else if v = 3 then Ok Stopping else if v = 4 then Ok Stopped else Err ())"

fun actor_state_as_u8 :: "actor_state \<Rightarrow> u8" where
  "actor_state_as_u8 Unstarted = 0"
| "actor_state_as_u8 Starting = 1"
| "actor_state_as_u8 Running = 2"
| "actor_state_as_u8 Stopping = 3"
| "actor_state_as_u8 Stopped = 4"

datatype stopping = Stop | Continue

datatype signal = SignalStop | SignalTerminate

definition signal_try_from :: "u8 \<Rightarrow> (signal, unit) result" where
  "signal_try_from v =
     (if v = 0 then Ok SignalStop else if v = 1 then Ok SignalTerminate else Err ())"

fun signal_as_u8 :: "signal \<Rightarrow> u8" where
  "signal_as_u8 SignalStop = 0"
| "signal_as_u8 SignalTerminate = 1"

datatype ('addr, 'e) supervision_event =
  Warn 'addr 'e
| Terminated 'addr "'e option"
| Panicked 'addr string
| State 'addr actor_state

section \<open>Contexts\<close>

record ('c, 'addr, 'e, 'mb) cx_ops =
  cx_state :: "'c \<Rightarrow> actor_state"
  cx_set_state :: "actor_state \<Rightarrow> 'c \<Rightarrow> 'c"
  cx_address :: "'c \<Rightarrow> 'addr"
  cx_take_mailbox :: "'c \<Rightarrow> 'mb option \<times> 'c"
  cx_try_notify :: "('addr, 'e) supervision_event \<Rightarrow> 'c \<Rightarrow> 'c"

definition cx_stop :: "('c, 'addr, 'e, 'mb) cx_ops \<Rightarrow> 'c \<Rightarrow> 'c" where
  "cx_stop cx c = cx_set_state cx Stopping c"

definition cx_terminate :: "('c, 'addr, 'e, 'mb) cx_ops \<Rightarrow> 'c \<Rightarrow> 'c" where
  "cx_terminate cx c = cx_set_state cx Stopped c"

fun signal_handle :: "('c, 'addr, 'e, 'mb) cx_ops \<Rightarrow> signal \<Rightarrow> 'c \<Rightarrow> 'c" where
  "signal_handle cx SignalStop c = cx_stop cx c"
| "signal_handle cx SignalTerminate c = cx_terminate cx c"

text \<open>
  \<open>try_notify_supervisor\<close>, the provided method: a present supervisor gets a non-blocking send, whose
  failure (its mailbox is full or closed) drops the event, and an absent one a log line for the two kinds
  that carry an error. \<open>accepted\<close> is the answer of the supervisor's mailbox.
\<close>

datatype ('r, 'addr, 'e) notification =
  ToSupervisor 'r "('addr, 'e) supervision_event"
| Dropped 'r "('addr, 'e) supervision_event"
| LogWarn 'addr 'e
| LogError 'addr 'e

fun notify_log ::
  "bool \<Rightarrow> 'r option \<Rightarrow> ('addr, 'e) supervision_event \<Rightarrow> ('r, 'addr, 'e) notification list" where
  "notify_log accepted (Some r) ev = [if accepted then ToSupervisor r ev else Dropped r ev]"
| "notify_log accepted None (Warn a e) = [LogWarn a e]"
| "notify_log accepted None (Terminated a (Some e)) = [LogError a e]"
| "notify_log accepted None _ = []"

text \<open>What a supervisor finds in its mailbox.\<close>

fun delivered :: "'r \<Rightarrow> ('r, 'addr, 'e) notification list \<Rightarrow> ('addr, 'e) supervision_event list" where
  "delivered r [] = []"
| "delivered r (ToSupervisor r' ev # log) = (if r' = r then ev # delivered r log else delivered r log)"
| "delivered r (_ # log) = delivered r log"

lemma delivered_append [simp]: "delivered r (xs @ ys) = delivered r xs @ delivered r ys"
  by (induction r xs rule: delivered.induct) simp_all

text \<open>\<open>set_supervisor\<close> as the contexts implement it: an actor cannot supervise itself.\<close>

definition set_supervisor :: "('r \<Rightarrow> actor_id) \<Rightarrow> actor_id \<Rightarrow> 'r option \<Rightarrow> 'r option \<Rightarrow> 'r option"
where
  "set_supervisor index_of self new old =
     (case new of
        Some supervisor \<Rightarrow> if index_of supervisor = self then old else Some supervisor
      | None \<Rightarrow> None)"

datatype 'r supervisor_cmd = SupervisorSet 'r | SupervisorUnset

fun supervisor_handle ::
  "('r \<Rightarrow> actor_id) \<Rightarrow> actor_id \<Rightarrow> 'r supervisor_cmd \<Rightarrow> 'r option \<Rightarrow> 'r option" where
  "supervisor_handle index_of self (SupervisorSet r) old = set_supervisor index_of self (Some r) old"
| "supervisor_handle index_of self SupervisorUnset old = set_supervisor index_of self None old"

section \<open>Hooks, run and spawn\<close>

text \<open>A hook returns its result or panics; the actor and the context are as it left them. An asynchronous
  hook may also wait forever.\<close>

type_synonym ('a, 'c, 'r, 'e) hook = "'a \<Rightarrow> 'c \<Rightarrow> ('r, 'e) result outcome \<times> 'a \<times> 'c"
type_synonym ('a, 'c, 'r, 'e) async_hook = "'a \<Rightarrow> 'c \<Rightarrow> (('r, 'e) result outcome \<times> 'a \<times> 'c) option"

record ('a, 'c, 'e) hooks =
  pre_start :: "('a, 'c, unit, 'e) hook"
  post_start :: "('a, 'c, unit, 'e) async_hook"
  post_stop :: "('a, 'c, unit, 'e) async_hook"

type_synonym ('a, 'c, 'e, 'mb) msg_loop =
  "'a \<Rightarrow> 'c \<Rightarrow> 'mb \<Rightarrow> ((unit, 'e) result outcome \<times> 'a \<times> 'c) option"

definition merge_results :: "(unit, 'e) result \<Rightarrow> (unit, 'e) result \<Rightarrow> (unit, 'e) result" where
  "merge_results r ps =
     (case (r, ps) of
        (Err e, Err _) \<Rightarrow> Err e
      | (Err e, Ok _) \<Rightarrow> Err e
      | (Ok _, q) \<Rightarrow> q)"

text \<open>The part of \<open>run\<close> after the loop has returned: the mailbox is dropped, and \<open>post_stop\<close> runs
  unless the loop panicked.\<close>

definition cx_finish ::
  "('c, 'addr, 'e, 'mb) cx_ops \<Rightarrow> ('a, 'c, 'e) hooks \<Rightarrow> (unit, 'e) result outcome \<Rightarrow> 'a \<Rightarrow> 'c \<Rightarrow>
   ((unit, 'e) result outcome \<times> 'c) option" where
  "cx_finish cx h res actor ctx =
     (let ctx' = if cx_state cx ctx \<noteq> Stopped then cx_set_state cx Stopped ctx else ctx
      in case res of
           Panic p \<Rightarrow> Some (Panic p, ctx')
         | Ret result \<Rightarrow>
             (case post_stop h actor ctx' of
                None \<Rightarrow> None
              | Some (Panic p, _, ctx'') \<Rightarrow> Some (Panic p, ctx'')
              | Some (Ret result_post_stop, _, ctx'') \<Rightarrow>
                  Some (Ret (merge_results result result_post_stop), ctx'')))"

definition cx_run ::
  "('c, 'addr, 'e, 'mb) cx_ops \<Rightarrow> ('a, 'c, 'e) hooks \<Rightarrow> ('a, 'c, 'e, 'mb) msg_loop \<Rightarrow>
   'a \<Rightarrow> 'c \<Rightarrow> 'mb \<Rightarrow> ((unit, 'e) result outcome \<times> 'c) option" where
  "cx_run cx h loop actor ctx mailbox =
     (case post_start h actor ctx of
        None \<Rightarrow> None
      | Some (result, actor1, ctx1) \<Rightarrow>
          if result \<noteq> Ret (Ok ()) then Some (result, cx_set_state cx Stopped ctx1)
          else (case loop actor1 (cx_set_state cx Running ctx1) mailbox of
                  None \<Rightarrow> None
                | Some (res, actor2, ctx2) \<Rightarrow> cx_finish cx h res actor2 ctx2))"

fun final_event :: "'addr \<Rightarrow> (unit, 'e) result outcome \<Rightarrow> ('addr, 'e) supervision_event" where
  "final_event a (Ret (Ok _)) = Terminated a None"
| "final_event a (Ret (Err e)) = Terminated a (Some e)"
| "final_event a (Panic msg) = Panicked a msg"

text \<open>
  \<open>spawn\<close>: the synchronous part fails or panics at once; otherwise it gives the address and the
  task, here the context the task leaves behind with the supervisor notified (\<open>None\<close> when the task
  never ends).
\<close>

definition cx_spawn ::
  "('c, 'addr, 'e, 'mb) cx_ops \<Rightarrow> ('a, 'c, 'e) hooks \<Rightarrow> ('a, 'c, 'e, 'mb) msg_loop \<Rightarrow>
   'a \<Rightarrow> 'c \<Rightarrow> ('addr \<times> 'c option, 'e) result outcome" where
  "cx_spawn cx h loop actor ctx =
     (let address = cx_address cx ctx
      in case cx_take_mailbox cx ctx of
           (None, _) \<Rightarrow> Panic ''ActorContext::take_mailbox() returned None on first call to spawn()''
         | (Some mailbox, ctx0) \<Rightarrow>
             (case pre_start h actor ctx0 of
                (Panic p, _, _) \<Rightarrow> Panic p
              | (Ret (Err e), _, _) \<Rightarrow> Ret (Err e)
              | (Ret (Ok _), actor1, ctx1) \<Rightarrow>
                  Ret (Ok (address,
                    map_option (\<lambda>(res, c). cx_try_notify cx (final_event (cx_address cx c) res) c)
                      (cx_run cx h loop actor1 (cx_set_state cx Starting ctx1) mailbox)))))"

text \<open>\<open>Actor::create\<close> builds the actor from its context first; an error there is returned before
  anything is spawned.\<close>

definition cx_create ::
  "('c, 'addr, 'e, 'mb) cx_ops \<Rightarrow> ('a, 'c, 'e) hooks \<Rightarrow> ('a, 'c, 'e, 'mb) msg_loop \<Rightarrow>
   (string \<Rightarrow> 'c) \<Rightarrow> string \<Rightarrow> ('c \<Rightarrow> ('a, 'e) result outcome \<times> 'c) \<Rightarrow>
   ('addr \<times> 'c option, 'e) result outcome" where
  "cx_create cx h loop new label f =
     (case f (new label) of
        (Panic p, _) \<Rightarrow> Panic p
      | (Ret (Err e), _) \<Rightarrow> Ret (Err e)
      | (Ret (Ok actor), ctx) \<Rightarrow> cx_spawn cx h loop actor ctx)"

definition cx_start ::
  "('c, 'addr, 'e, 'mb) cx_ops \<Rightarrow> ('a, 'c, 'e) hooks \<Rightarrow> ('a, 'c, 'e, 'mb) msg_loop \<Rightarrow>
   (string \<Rightarrow> 'c) \<Rightarrow> 'a \<Rightarrow> string \<Rightarrow> ('addr \<times> 'c option, 'e) result outcome" where
  "cx_start cx h loop new actor label = cx_spawn cx h loop actor (new label)"

section \<open>The context contract\<close>

locale actor_context =
  fixes cx :: "('c, 'addr, 'e, 'mb) cx_ops"
  assumes state_set: "cx_state cx (cx_set_state cx s c) = s"
    and state_take: "cx_state cx (snd (cx_take_mailbox cx c)) = cx_state cx c"
    and take_once: "fst (cx_take_mailbox cx (snd (cx_take_mailbox cx c))) = None"
    and state_notify: "cx_state cx (cx_try_notify cx ev c) = cx_state cx c"
begin

lemma signal_state:
  "cx_state cx (signal_handle cx s c) = (case s of SignalStop \<Rightarrow> Stopping | SignalTerminate \<Rightarrow> Stopped)"
  by (cases s) (simp_all add: cx_stop_def cx_terminate_def state_set)

text \<open>Hooks that agree on contexts in the documented states are interchangeable: \<open>run\<close> calls
  \<open>post_start\<close> where the caller left it, the loop in \<open>Running\<close>, \<open>post_stop\<close> in \<open>Stopped\<close>.\<close>

lemma finish_cong:
  assumes "\<And>a c. cx_state cx c = Stopped \<Longrightarrow> post_stop h a c = post_stop h' a c"
  shows "cx_finish cx h res actor ctx = cx_finish cx h' res actor ctx"
proof -
  have "cx_state cx (if cx_state cx ctx \<noteq> Stopped then cx_set_state cx Stopped ctx else ctx) = Stopped"
    by (simp add: state_set)
  from assms [OF this] show ?thesis by (simp only: cx_finish_def Let_def)
qed

lemma run_cong:
  assumes "post_start h actor ctx = post_start h' actor ctx"
    and "\<And>a c. cx_state cx c = Running \<Longrightarrow> loop a c mailbox = loop' a c mailbox"
    and "\<And>a c. cx_state cx c = Stopped \<Longrightarrow> post_stop h a c = post_stop h' a c"
  shows "cx_run cx h loop actor ctx mailbox = cx_run cx h' loop' actor ctx mailbox"
proof -
  have "cx_finish cx h = cx_finish cx h'" by (intro ext finish_cong assms(3))
  then show ?thesis by (simp add: cx_run_def assms(1,2) state_set split: prod.split option.split)
qed

lemma spawn_cong:
  assumes "\<And>a c. cx_state cx c = cx_state cx ctx \<Longrightarrow> pre_start h a c = pre_start h' a c"
    and "\<And>a c. cx_state cx c = Starting \<Longrightarrow> post_start h a c = post_start h' a c"
    and "\<And>a c m. cx_state cx c = Running \<Longrightarrow> loop a c m = loop' a c m"
    and "\<And>a c. cx_state cx c = Stopped \<Longrightarrow> post_stop h a c = post_stop h' a c"
  shows "cx_spawn cx h loop actor ctx = cx_spawn cx h' loop' actor ctx"
proof -
  have run: "cx_run cx h loop a (cx_set_state cx Starting c) m =
      cx_run cx h' loop' a (cx_set_state cx Starting c) m" for a c m
    by (rule run_cong) (simp_all add: assms state_set)
  obtain mb c0 where take: "cx_take_mailbox cx ctx = (mb, c0)" by (cases "cx_take_mailbox cx ctx")
  with state_take [of ctx] have "pre_start h actor c0 = pre_start h' actor c0"
    by (intro assms(1)) simp
  with take show ?thesis
    by (cases mb) (simp_all only: cx_spawn_def run Let_def prod.case option.case)
qed

lemma finish_state:
  assumes "\<And>a c r a' c'. post_stop h a c = Some (r, a', c') \<Longrightarrow> cx_state cx c' = cx_state cx c"
    and "cx_finish cx h res actor ctx = Some (res', c)"
  shows "cx_state cx c = Stopped"
proof -
  let ?c = "if cx_state cx ctx \<noteq> Stopped then cx_set_state cx Stopped ctx else ctx"
  have st: "cx_state cx ?c = Stopped" by (simp add: state_set)
  have "cx_state cx c' = Stopped" if "post_stop h actor ?c = Some (r, a', c')" for r a' c'
    using assms(1) [OF that] st by simp
  then show ?thesis
    using st assms(2) by (cases "post_stop h actor ?c")
      (auto simp: cx_finish_def Let_def split: outcome.splits)
qed

lemma run_final_state:
  assumes "cx_run cx h loop actor ctx mailbox = Some (res, c)"
    and "\<And>a c r a' c'. post_stop h a c = Some (r, a', c') \<Longrightarrow> cx_state cx c' = cx_state cx c"
  shows "cx_state cx c = Stopped"
  using assms(1) finish_state [OF assms(2)]
  by (auto simp: cx_run_def state_set split: option.splits prod.splits if_splits)

text \<open>A successful \<open>spawn\<close> is \<open>run\<close> and then the report.\<close>

lemma spawn_run:
  assumes "cx_take_mailbox cx ctx = (Some mb, c0)"
    and "pre_start h actor c0 = (Ret (Ok ()), a1, c1)"
  shows "cx_spawn cx h loop actor ctx =
    Ret (Ok (cx_address cx ctx, map_option (\<lambda>(res, c). cx_try_notify cx (final_event (cx_address cx c) res) c)
      (cx_run cx h loop a1 (cx_set_state cx Starting c1) mb)))"
  using assms by (simp add: cx_spawn_def)

end

end
