(* ===== verification/Session.thy ===== *)
theory Session
  imports Registry Proto Lifecycle
begin

text \<open>
  The session actor (\<open>acktor-ipc/src/session.rs\<close>, \<open>session/proxy.rs\<close>): requests get a tag and a pending
  entry, responses are matched by tag, inbound requests are routed to local mailboxes, and a
  periodic sweep resolves requests that got no answer. The environment of a handler call is the
  record \<open>sess_env\<close>: what the connection, the wire codec, the mailboxes, the response channels and
  the actor manager answer during the call, and the time. A handler returns its result, the new
  state and the list of effects in the order the code makes them; a frame is recorded with the
  message it encodes. A response channel is named by
  its sender half \<open>'tx\<close>; sending on it succeeds exactly when its receiver is open.
\<close>

section \<open>State\<close>

text \<open>\<open>Proxy\<close>: the session's address, handed out as encode and decode context; its registry is the
  shared one.\<close>

record session_proxy =
  px_session :: actor_id

record ('m, 'tx) session =
  sess_registry :: 'm
  sess_tag :: u64
  sess_proxy :: "session_proxy option"
  message_res_tx_map :: "(u64, 'tx \<times> nat) hash_map"

definition sess_new :: "'m \<Rightarrow> ('m, 'tx) session" where
  "sess_new reg = \<lparr>sess_registry = reg, sess_tag = 0, sess_proxy = None, message_res_tx_map = hm_new\<rparr>"

text \<open>Instants and durations are in nanoseconds.\<close>

definition RESPONSE_TIMEOUT :: nat where
  "RESPONSE_TIMEOUT = 60 * 1000000000"

definition CLEANUP_INTERVAL :: nat where
  "CLEANUP_INTERVAL = 15 * 1000000000"

text \<open>Asking another actor: the send or the receive may fail, or the answer arrives.\<close>

datatype 'a asked = AskSendFailed box_error | AskRecvFailed recv_error | Answered 'a

record ('m, 'mb, 'tx) sess_env =
  e_ops :: "('m, u64, 'mb) kv_ops"
  e_closed :: "'mb \<Rightarrow> bool"
  e_index_of :: "'mb \<Rightarrow> actor_id"
  e_tx_closed :: "'tx \<Rightarrow> bool"
  e_new_tx :: 'tx
  e_encode :: "ipc_message \<Rightarrow> (bytes, encode_error) result"
  e_decode :: "bytes \<Rightarrow> (ipc_message, decode_error) result"
  e_encode_address :: "result_address \<Rightarrow> bytes"
  e_conn_send :: "bytes \<Rightarrow> (unit, io_error) result"
  e_ask_get_actor :: "string \<Rightarrow> ('mb, session_error) result asked"
  e_mb_send :: "'mb \<Rightarrow> ('tx, session_proxy) binary_message \<Rightarrow> (unit, box_error) result"
  e_now :: nat

datatype ('mb, 'tx) sess_out =
  OutFrame ipc_message bytes
| OutResolve 'tx "(bytes, box_error) result"
| OutForward 'mb "('tx, session_proxy) binary_message"
| OutSpawnCreate u64 string string u64
| OutSpawnForward "('mb, session_error) result" "('tx, session_proxy) binary_message" u64
| OutScheduleCleanup nat
| OutClose

section \<open>Helpers of the source\<close>

text \<open>\<open>oneshot::Sender::send\<close> and \<open>send_err\<close>: true when the receiver was open and got the payload.\<close>

definition tx_send ::
  "('m, 'mb, 'tx) sess_env \<Rightarrow> 'tx \<Rightarrow> (bytes, box_error) result \<Rightarrow> bool \<times> ('mb, 'tx) sess_out list" where
  "tx_send env tx payload =
     (if e_tx_closed env tx then (False, []) else (True, [OutResolve tx payload]))"

definition cleanup_expired ::
  "('m, 'mb, 'tx) sess_env \<Rightarrow> 'tx \<times> nat \<Rightarrow> bool" where
  "cleanup_expired env e =
     (case e of (tx, timestamp) \<Rightarrow>
        e_tx_closed env tx \<or> e_now env - timestamp \<ge> RESPONSE_TIMEOUT)"

definition cleanup_message_res_tx_map ::
  "('m, 'mb, 'tx) sess_env \<Rightarrow> ('m, 'tx) session \<Rightarrow> ('m, 'tx) session \<times> ('mb, 'tx) sess_out list" where
  "cleanup_message_res_tx_map env s =
     (let expired = hm_filter (message_res_tx_map s) (\<lambda>_ e. cleanup_expired env e);
          kept = hm_filter (message_res_tx_map s) (\<lambda>_ e. \<not> cleanup_expired env e)
      in (s\<lparr>message_res_tx_map := kept\<rparr>,
          concat (map (\<lambda>(tag, (tx, _)).
            if e_tx_closed env tx then []
            else snd (tx_send env tx (Err (session_error_box ResponseTimeout)))) expired)))"

definition next_tag :: "('m, 'tx) session \<Rightarrow> u64 \<times> ('m, 'tx) session" where
  "next_tag s = (sess_tag s, s\<lparr>sess_tag := sess_tag s + 1\<rparr>)"

definition send_ipc_message ::
  "('m, 'mb, 'tx) sess_env \<Rightarrow> ipc_message \<Rightarrow>
   (unit, session_error) result \<times> ('mb, 'tx) sess_out list" where
  "send_ipc_message env ipc_msg =
     (case e_encode env ipc_msg of
        Err e \<Rightarrow> (Err (SEncodeError e), [])
      | Ok encoded \<Rightarrow>
          (case e_conn_send env encoded of
             Err e \<Rightarrow> (Err (SendOutboundMessageFailed e), [])
           | Ok _ \<Rightarrow> (Ok (), [OutFrame ipc_msg encoded])))"

definition sess_context :: "('m, 'tx) session \<Rightarrow> session_proxy outcome" where
  "sess_context s =
     (case sess_proxy s of
        Some px \<Rightarrow> Ret px
      | None \<Rightarrow> Panic ''proxy is always available after session is started'')"

definition find_mailbox ::
  "('m, 'mb, 'tx) sess_env \<Rightarrow> u64 \<Rightarrow> ('m, 'tx) session \<Rightarrow>
   ('mb, session_error) result \<times> ('m, 'tx) session" where
  "find_mailbox env actor_id s =
     (let (r, reg) = reg_get (e_ops env) (e_closed env) (sess_registry s) actor_id
      in (ok_or (ActorNotFound (u64_to_string actor_id)) r, s\<lparr>sess_registry := reg\<rparr>))"

fun asked_result :: "('a, session_error) result asked \<Rightarrow> ('a, session_error) result" where
  "asked_result (AskSendFailed e) = Err (SSendError e)"
| "asked_result (AskRecvFailed e) = Err (SRecvError e)"
| "asked_result (Answered r) = r"

definition find_mailbox_by_label ::
  "('m, 'mb, 'tx) sess_env \<Rightarrow> string \<Rightarrow> ('mb, session_error) result" where
  "find_mailbox_by_label env label = asked_result (e_ask_get_actor env label)"

section \<open>Inbound messages\<close>

type_synonym ('m, 'mb, 'tx) handled =
  "((unit, session_error) result \<times> ('m, 'tx) session \<times> ('mb, 'tx) sess_out list) outcome"

definition get_actor_result ::
  "('m, 'mb, 'tx) sess_env \<Rightarrow> proto_actor_ref option \<Rightarrow> ('m, 'tx) session \<Rightarrow>
   ('mb, session_error) result \<times> ('m, 'tx) session" where
  "get_actor_result env actor s =
     (case actor of
        Some r \<Rightarrow>
          (case pref r of
             Some (PRefIndex actor_id) \<Rightarrow> find_mailbox env actor_id s
           | Some (PRefLabel label) \<Rightarrow> (find_mailbox_by_label env label, s)
           | None \<Rightarrow>
               (Err (SDecodeError (decode_error_from_str ''missing field `ref` in `ActorRef`'')), s))
      | None \<Rightarrow>
          (Err (SDecodeError (decode_error_from_str
             ''missing field `actor` in `NodeMessage::GetActor`'')), s))"

definition handle_node_message ::
  "('m, 'mb, 'tx) sess_env \<Rightarrow> node_message \<Rightarrow> ('m, 'tx) session \<Rightarrow> ('m, 'mb, 'tx) handled" where
  "handle_node_message env message s =
     (case nm_message message of
        Some (NMCreateActor m) \<Rightarrow>
          Ret (Ok (), s, [OutSpawnCreate (ca_type_id m) (ca_label m) (ca_config m) (ca_tag m)])
      | Some (NMGetActor m) \<Rightarrow>
          let (r, s') = get_actor_result env (ga_actor m) s;
              result = (case r of
                          Ok mailbox \<Rightarrow> result_address_ok (as_local (e_index_of env mailbox))
                        | Err e \<Rightarrow> result_address_err (report (session_error_box e)));
              ipc_msg = ipc_message_response
                (message_response_new (ga_tag m) (Ok (e_encode_address env result)));
              (sent, out) = send_ipc_message env ipc_msg
          in Ret (sent, s', out)
      | None \<Rightarrow>
          Ret (Err (SDecodeError (decode_error_from_str
            ''missing field `message` in `NodeMessage`'')), s, []))"

definition handle_actor_message ::
  "('m, 'mb, 'tx) sess_env \<Rightarrow> actor_message \<Rightarrow> ('m, 'tx) session \<Rightarrow> ('m, 'mb, 'tx) handled" where
  "handle_actor_message env m s =
     (case am_tag m of
        Some tag \<Rightarrow>
          let (recipient, s') = find_mailbox env (am_actor_id m) s
          in (case sess_context s' of
                Panic p \<Rightarrow> Panic p
              | Ret px \<Rightarrow>
                  let message = with_decode_context (with_encode_context
                        (binary_send (am_actor_id m) (am_message_id m) (am_message m) (e_new_tx env))
                        px) px
                  in Ret (Ok (), s', [OutSpawnForward recipient message tag]))
      | None \<Rightarrow>
          let (recipient, s') = find_mailbox env (am_actor_id m) s
          in (case recipient of
                Err e \<Rightarrow> Ret (Err e, s', [])
              | Ok mailbox \<Rightarrow>
                  (case sess_context s' of
                     Panic p \<Rightarrow> Panic p
                   | Ret px \<Rightarrow>
                       let message = with_decode_context
                             (binary_do_send (am_actor_id m) (am_message_id m) (am_message m)) px
                       in (case e_mb_send env mailbox message of
                             Err e \<Rightarrow> Ret (Err (ForwardInboundMessageFailed e), s', [])
                           | Ok _ \<Rightarrow> Ret (Ok (), s', [OutForward mailbox message])))))"

definition response_result :: "response_type option \<Rightarrow> (bytes, session_error) result" where
  "response_result r =
     (case r of
        Some (ResponseOk b) \<Rightarrow> Ok b
      | Some (ResponseErr e) \<Rightarrow> Err (RemoteNodeError e)
      | None \<Rightarrow> Err (SDecodeError (decode_error_from_str
          ''missing field `response` in `MessageResponse`'')))"

definition handle_message_response ::
  "('m, 'mb, 'tx) sess_env \<Rightarrow> message_response \<Rightarrow> ('m, 'tx) session \<Rightarrow>
   (unit, session_error) result \<times> ('m, 'tx) session \<times> ('mb, 'tx) sess_out list" where
  "handle_message_response env response s =
     (case hm_remove (message_res_tx_map s) (mr_tag response) of
        (None, _) \<Rightarrow> (Err (InvalidMessageResTxTag (mr_tag response)), s, [])
      | (Some (sender, _), m) \<Rightarrow>
          let s' = s\<lparr>message_res_tx_map := m\<rparr>;
              (ok, out) = tx_send env sender
                (map_err session_error_box (response_result (mr_response response)))
          in (if ok then Ok () else Err ForwardMessageResFailed, s', out))"

definition handle_ipc_message ::
  "('m, 'mb, 'tx) sess_env \<Rightarrow> bytes \<Rightarrow> ('m, 'tx) session \<Rightarrow> ('m, 'mb, 'tx) handled" where
  "handle_ipc_message env frame s =
     (case e_decode env frame of
        Err e \<Rightarrow> Ret (Err (SDecodeError e), s, [])
      | Ok ipc_message \<Rightarrow>
          (case im_message ipc_message of
             Some (ITNodeMessage m) \<Rightarrow> handle_node_message env m s
           | Some (ITActorMessage m) \<Rightarrow> handle_actor_message env m s
           | Some (ITMessageResponse r) \<Rightarrow> Ret (handle_message_response env r s)
           | None \<Rightarrow> Ret (Err (SDecodeError (decode_error_from_str
               ''missing field `message` in `IpcMessage`'')), s, [])))"

section \<open>The tasks spawned for inbound requests\<close>

text \<open>Both end by sending this session a \<open>MessageResponse\<close> with the tag of the request.\<close>

definition create_actor_task ::
  "('m, 'mb, 'tx) sess_env \<Rightarrow> (actor_id, session_error) result asked \<Rightarrow> u64 \<Rightarrow>
   u64 \<times> (bytes, string) result" where
  "create_actor_task env answer tag =
     (let result = (case asked_result answer of
                      Ok actor_id \<Rightarrow> result_address_ok (as_local actor_id)
                    | Err e \<Rightarrow> result_address_err (report (session_error_box e)))
      in (tag, Ok (e_encode_address env result)))"

definition forward_task ::
  "('mb, session_error) result \<Rightarrow> ('mb \<Rightarrow> (unit, box_error) result) \<Rightarrow>
   (bytes, recv_error) result \<Rightarrow> u64 \<Rightarrow> u64 \<times> (bytes, string) result" where
  "forward_task recipient do_send rx tag =
     (let result =
        (case recipient of
           Err e \<Rightarrow> Err e
         | Ok mailbox \<Rightarrow>
             (case do_send mailbox of
                Err e \<Rightarrow> Err (ForwardInboundMessageFailed e)
              | Ok _ \<Rightarrow> map_err (\<lambda>e. HandleInboundMessageFailed (recv_error_box e)) rx))
      in (tag, map_err (\<lambda>e. report (session_error_box e)) result))"

section \<open>Outbound requests\<close>

text \<open>
  The core of the three request handlers: the message with a fresh tag is sent; when that fails the
  waiter gets the error at once, otherwise it is filed under the tag with the current time.
\<close>

definition send_tracked ::
  "('m, 'mb, 'tx) sess_env \<Rightarrow> 'tx \<Rightarrow> (u64 \<Rightarrow> ipc_message) \<Rightarrow> ('m, 'tx) session \<Rightarrow>
   ('m, 'tx) session \<times> ('mb, 'tx) sess_out list" where
  "send_tracked env tx mk s =
     (let (tag, s1) = next_tag s;
          (sent, out) = send_ipc_message env (mk tag)
      in case sent of
           Err e \<Rightarrow> (s1, out @ snd (tx_send env tx (Err (session_error_box e))))
         | Ok _ \<Rightarrow>
             (s1\<lparr>message_res_tx_map :=
                 snd (hm_insert (message_res_tx_map s1) tag (tx, e_now env))\<rparr>, out))"

definition handle_remote_create_actor ::
  "('m, 'mb, 'tx) sess_env \<Rightarrow> u64 \<Rightarrow> string \<Rightarrow> string option \<Rightarrow> ('m, 'tx) session \<Rightarrow>
   (session_proxy \<times> ('m, 'tx) session \<times> ('mb, 'tx) sess_out list) outcome" where
  "handle_remote_create_actor env type_id label config s =
     (let (s', out) = send_tracked env (e_new_tx env)
            (\<lambda>tag. ipc_node_message (node_message_create_actor type_id label
               (case config of Some c \<Rightarrow> c | None \<Rightarrow> '''') tag)) s
      in case sess_context s' of
           Panic p \<Rightarrow> Panic p
         | Ret decode_context \<Rightarrow> Ret (decode_context, s', out))"

definition handle_remote_get_actor ::
  "('m, 'mb, 'tx) sess_env \<Rightarrow> actor_ref \<Rightarrow> ('m, 'tx) session \<Rightarrow>
   (session_proxy \<times> ('m, 'tx) session \<times> ('mb, 'tx) sess_out list) outcome" where
  "handle_remote_get_actor env actor s =
     (let (s', out) = send_tracked env (e_new_tx env)
            (\<lambda>tag. ipc_node_message
               (case actor of
                  RefIndex actor_id \<Rightarrow> node_message_get_actor_by_index (as_local actor_id) tag
                | RefLabel label \<Rightarrow> node_message_get_actor_by_label label tag)) s
      in case sess_context s' of
           Panic p \<Rightarrow> Panic p
         | Ret decode_context \<Rightarrow> Ret (decode_context, s', out))"

definition handle_binary_message ::
  "('m, 'mb, 'tx) sess_env \<Rightarrow> ('tx, session_proxy) binary_message \<Rightarrow> ('m, 'tx) session \<Rightarrow>
   ('m, 'tx) session \<times> ('mb, 'tx) sess_out list" where
  "handle_binary_message env msg s =
     (case bm_result_tx msg of
        Some tx \<Rightarrow>
          send_tracked env tx
            (\<lambda>tag. ipc_actor_message
               (actor_message_send (bm_actor_id msg) (bm_message_id msg) (bm_bytes msg) tag)) s
      | None \<Rightarrow>
          (s, snd (send_ipc_message env (ipc_actor_message
             (actor_message_do_send (bm_actor_id msg) (bm_message_id msg) (bm_bytes msg))))))"

definition handle_response_command ::
  "('m, 'mb, 'tx) sess_env \<Rightarrow> u64 \<Rightarrow> (bytes, string) result \<Rightarrow> ('m, 'tx) session \<Rightarrow>
   ('m, 'tx) session \<times> ('mb, 'tx) sess_out list" where
  "handle_response_command env tag result s =
     (s, snd (send_ipc_message env (ipc_message_response (message_response_new tag result))))"

text \<open>What the waiter of a request makes of its channel: \<open>None\<close> is a dropped sender.\<close>

definition oneshot_recv :: "('t, box_error) result option \<Rightarrow> ('t, recv_error) result" where
  "oneshot_recv r = (case r of None \<Rightarrow> Err RecvClosed | Some x \<Rightarrow> map_err RecvOther x)"

text \<open>The future of an address request: \<open>new_address\<close> is \<open>Address::new_with_decode_context\<close>.\<close>

definition await_address ::
  "(bytes \<Rightarrow> (result_address, box_error) result) \<Rightarrow> (u64 \<Rightarrow> ('addr, decode_error) result) \<Rightarrow>
   (bytes, recv_error) result \<Rightarrow> ('addr, session_error) result" where
  "await_address decode_address new_address rx =
     (case rx of
        Err e \<Rightarrow> Err (SRecvError e)
      | Ok b \<Rightarrow>
          (case decode_address b of
             Err e \<Rightarrow> Err (SDecodeError (DecodeOther e))
           | Ok result \<Rightarrow>
               (case ra_result result of
                  Some (AddressOk actor_id) \<Rightarrow> map_err SDecodeError (new_address actor_id)
                | Some (AddressErr e) \<Rightarrow> Err (RemoteNodeError e)
                | None \<Rightarrow> Err (SDecodeError (DecodeOther (box_str
                    ''missing field `result` in `ResultAddress`''))))))"

section \<open>Lifecycle hooks and the proxy\<close>

definition sess_post_start :: "actor_id \<Rightarrow> ('m, 'tx) session \<Rightarrow> ('m, 'tx) session" where
  "sess_post_start self s = s\<lparr>sess_proxy := Some \<lparr>px_session = self\<rparr>\<rparr>"

definition sess_post_stop ::
  "(unit, io_error) result \<Rightarrow> (unit, session_error) result \<times> ('mb, 'tx) sess_out list" where
  "sess_post_stop close = (map_err SIoError close, [OutClose])"

text \<open>\<open>Proxy::index\<close> is a \<open>NonZeroU64\<close>.\<close>

definition proxy_index :: "session_proxy \<Rightarrow> u64 outcome" where
  "proxy_index px =
     (let i = as_local (px_session px)
      in if i = 0
         then Panic ''session index is always non-zero since it can only be created by a node''
         else Ret i)"

definition proxy_register ::
  "('m, 'mb, 'tx) sess_env \<Rightarrow> 'mb \<Rightarrow> 'm \<Rightarrow> (unit, encode_error) result \<times> 'm" where
  "proxy_register env actor reg = (Ok (), snd (reg_insert (e_ops env) (e_index_of env) reg actor))"

end
