(* ===== verification/Session_Run.thy ===== *)
theory Session_Run
  imports Session
begin

text \<open>
  The message loop of a session (\<open>acktor-ipc/src/session/context.rs\<close>) and what holds over its runs.
  A run is the list of events the loop selects, each with its environment; \<open>acct\<close> accounts for every
  waiter: it is pending, has been resolved once, or its receiver was closed. Tags are 64-bit and
  wrap, so the accounting is stated for fewer than \<open>2^64\<close> requests in the life of a session.
\<close>

section \<open>The context\<close>

text \<open>The mailbox is only taken once; its messages are the events of a run. Recipients are known by their
  index; \<open>sc_sent\<close> records the attempts to notify the supervisor, and \<open>sc_accepts c n\<close> is the answer of the
  supervisor's mailbox to the attempt after \<open>n\<close> others.\<close>

record session_ctx =
  sc_label :: string
  sc_state :: actor_state
  sc_doorplate :: actor_id
  sc_mailbox :: "unit option"
  sc_supervisor :: "actor_id option"
  require_cleanup :: bool
  sc_accepts :: "nat \<Rightarrow> bool"
  sc_sent :: "(actor_id, actor_id, session_error) notification list"

definition session_ctx_new :: "(nat \<Rightarrow> bool) \<Rightarrow> actor_id \<Rightarrow> string \<Rightarrow> session_ctx" where
  "session_ctx_new accepts index label =
     \<lparr>sc_label = label, sc_state = Unstarted, sc_doorplate = index, sc_mailbox = Some (), sc_supervisor = None,
      require_cleanup = True, sc_accepts = accepts, sc_sent = []\<rparr>"

definition sc_set_state :: "actor_state \<Rightarrow> session_ctx \<Rightarrow> session_ctx" where
  "sc_set_state st c = c\<lparr>sc_state := st\<rparr>"

definition sc_take_mailbox :: "session_ctx \<Rightarrow> unit option \<times> session_ctx" where
  "sc_take_mailbox c = (sc_mailbox c, c\<lparr>sc_mailbox := None\<rparr>)"

definition sc_set_supervisor :: "actor_id option \<Rightarrow> session_ctx \<Rightarrow> session_ctx" where
  "sc_set_supervisor supervisor c =
     (case supervisor of
        Some r \<Rightarrow> if r = sc_doorplate c then c else c\<lparr>sc_supervisor := Some r\<rparr>
      | None \<Rightarrow> c\<lparr>sc_supervisor := None\<rparr>)"

definition sc_try_notify :: "(actor_id, session_error) supervision_event \<Rightarrow> session_ctx \<Rightarrow> session_ctx" where
  "sc_try_notify ev c =
     c\<lparr>sc_sent := sc_sent c @ notify_log (sc_accepts c (length (sc_sent c))) (sc_supervisor c) ev\<rparr>"

definition sc_require_cleanup :: "session_ctx \<Rightarrow> session_ctx" where
  "sc_require_cleanup c = c\<lparr>require_cleanup := True\<rparr>"

text \<open>The messages a session's mailbox delivers.\<close>

datatype 'tx sess_cmd =
  CmdCreateActor u64 string "string option"
| CmdGetActor actor_ref
| CmdBinary "('tx, session_proxy) binary_message"
| CmdResponse u64 "(bytes, string) result"
| CmdRequireCleanup
| CmdSignal signal
| CmdSupervisor "actor_id supervisor_cmd"

fun sess_handle_cmd ::
  "('m, 'mb, 'tx) sess_env \<Rightarrow> 'tx sess_cmd \<Rightarrow> ('m, 'tx) session \<Rightarrow> session_ctx \<Rightarrow>
   (('m, 'tx) session \<times> session_ctx \<times> ('mb, 'tx) sess_out list) outcome" where
  "sess_handle_cmd env (CmdCreateActor t l cfg) s c =
     (case handle_remote_create_actor env t l cfg s of
        Panic p \<Rightarrow> Panic p | Ret (_, s', out) \<Rightarrow> Ret (s', c, out))"
| "sess_handle_cmd env (CmdGetActor r) s c =
     (case handle_remote_get_actor env r s of
        Panic p \<Rightarrow> Panic p | Ret (_, s', out) \<Rightarrow> Ret (s', c, out))"
| "sess_handle_cmd env (CmdBinary m) s c =
     (let (s', out) = handle_binary_message env m s in Ret (s', c, out))"
| "sess_handle_cmd env (CmdResponse tag r) s c =
     (let (s', out) = handle_response_command env tag r s in Ret (s', c, out))"
| "sess_handle_cmd env CmdRequireCleanup s c = Ret (s, sc_require_cleanup c, [])"
| "sess_handle_cmd env (CmdSignal SignalStop) s c = Ret (s, sc_set_state Stopping c, [])"
| "sess_handle_cmd env (CmdSignal SignalTerminate) s c = Ret (s, sc_set_state Stopped c, [])"
| "sess_handle_cmd env (CmdSupervisor (SupervisorSet r)) s c = Ret (s, sc_set_supervisor (Some r) c, [])"
| "sess_handle_cmd env (CmdSupervisor SupervisorUnset) s c = Ret (s, sc_set_supervisor None c, [])"

datatype 'tx sess_input =
  InEnvelope "'tx sess_cmd"
| InMailboxDropped
| InReceived bytes
| InRecvFailed io_error

definition sess_cleanup_phase ::
  "('m, 'mb, 'tx) sess_env \<Rightarrow> ('m, 'tx) session \<Rightarrow> session_ctx \<Rightarrow>
   ('m, 'tx) session \<times> session_ctx \<times> ('mb, 'tx) sess_out list" where
  "sess_cleanup_phase env s c =
     (if require_cleanup c
      then let (s', out) = cleanup_message_res_tx_map env s
           in (s', c\<lparr>require_cleanup := False\<rparr>, out @ [OutScheduleCleanup CLEANUP_INTERVAL])
      else (s, c, []))"

text \<open>The \<open>select!\<close> arm of an event: \<open>Some r\<close> leaves the loop with \<open>r\<close>.\<close>

fun sess_select ::
  "('m, 'mb, 'tx) sess_env \<Rightarrow> 'tx sess_input \<Rightarrow> ('m, 'tx) session \<Rightarrow> session_ctx \<Rightarrow>
   (unit, session_error) result outcome option \<times> ('m, 'tx) session \<times> session_ctx \<times>
     ('mb, 'tx) sess_out list" where
  "sess_select env (InEnvelope cmd) s c =
     (case sess_handle_cmd env cmd s c of
        Panic p \<Rightarrow> (Some (Panic p), s, c, [])
      | Ret (s', c', out) \<Rightarrow> (None, s', c', out))"
| "sess_select env InMailboxDropped s c = (None, s, sc_set_state Stopped c, [])"
| "sess_select env (InReceived frame) s c =
     (case handle_ipc_message env frame s of
        Panic p \<Rightarrow> (Some (Panic p), s, c, [])
      | Ret (_, s', out) \<Rightarrow> (None, s', c, out))"
| "sess_select env (InRecvFailed e) s c =
     (let c' = sc_set_state Stopped c
      in if io_kind e \<in> {ConnectionReset, ConnectionAborted, BrokenPipe} then (None, s, c', [])
         else (Some (Ret (Err (SIoError e))), s, c', []))"

text \<open>
  The loop on the events it selects. An event carries the environment of the sweep at the head of
  the iteration and that of its own handling; a list that ends while the session is running is a
  session still waiting, with no result yet.
\<close>

fun sess_run_loop ::
  "(('m, 'mb, 'tx) sess_env \<times> ('m, 'mb, 'tx) sess_env \<times> 'tx sess_input) list \<Rightarrow>
   ('m, 'tx) session \<Rightarrow> session_ctx \<Rightarrow>
   (unit, session_error) result outcome option \<times> ('m, 'tx) session \<times> session_ctx \<times>
     ('mb, 'tx) sess_out list" where
  "sess_run_loop [] s c = (if sc_state c \<noteq> Running then Some (Ret (Ok ())) else None, s, c, [])"
| "sess_run_loop ((env1, env2, i) # evs) s c =
     (if sc_state c \<noteq> Running then (Some (Ret (Ok ())), s, c, [])
      else let (s1, c1, out1) = sess_cleanup_phase env1 s c;
               (r, s2, c2, out2) = sess_select env2 i s1 c1
           in case r of
                Some res \<Rightarrow> (Some res, s2, c2, out1 @ out2)
              | None \<Rightarrow>
                  let (r', s3, c3, out3) = sess_run_loop evs s2 c2
                  in (r', s3, c3, out1 @ out2 @ out3))"

section \<open>Accounting\<close>

fun resolved :: "('mb, 'tx) sess_out list \<Rightarrow> 'tx list" where
  "resolved [] = []"
| "resolved (OutResolve tx p # os) = tx # resolved os"
| "resolved (x # os) = resolved os"

definition pending :: "('m, 'tx) session \<Rightarrow> 'tx list" where
  "pending s = map (\<lambda>(k, (tx, t)). tx) (message_res_tx_map s)"

text \<open>\<open>used\<close> lists the waiters of all requests so far; the request with tag \<open>k\<close> is number \<open>k\<close>.\<close>

definition acct ::
  "('m, 'tx) session \<Rightarrow> 'tx list \<Rightarrow> ('mb, 'tx) sess_out list \<Rightarrow> ('tx \<Rightarrow> bool) \<Rightarrow> bool" where
  "acct s used outs closed_once \<longleftrightarrow>
     hm_ok (message_res_tx_map s) \<and> sess_tag s = of_nat (length used) \<and>
     distinct (resolved outs @ pending s) \<and>
     (\<forall>tx \<in> set (resolved outs). tx \<in> set used) \<and>
     (\<forall>k tx t. (k, (tx, t)) \<in> set (message_res_tx_map s) \<longrightarrow>
        unat k < length used \<and> used ! unat k = tx) \<and>
     (\<forall>tx \<in> set used. tx \<in> set (resolved outs) \<or> tx \<in> set (pending s) \<or> closed_once tx)"

lemma resolved_append [simp]: "resolved (xs @ ys) = resolved xs @ resolved ys"
proof (induction xs)
  case (Cons x xs)
  then show ?case by (cases x) simp_all
qed simp

lemma resolved_tx_send [simp]:
  "resolved (snd (tx_send env tx p)) = (if e_tx_closed env tx then [] else [tx])"
  by (simp add: tx_send_def)

lemma resolved_send_ipc [simp]: "resolved (snd (send_ipc_message env m)) = []"
  by (simp add: send_ipc_message_def split: result.split)

lemma acct_new: "acct (sess_new reg) [] [] c"
  by (simp add: acct_def sess_new_def pending_def hm_new_def)

lemma acct_weaken:
  assumes "acct s used outs c" and "resolved out = []"
    and "message_res_tx_map s' = message_res_tx_map s" and "sess_tag s' = sess_tag s"
    and "\<forall>tx. c tx \<longrightarrow> c' tx"
  shows "acct s' used (outs @ out) c'"
  using assms by (auto simp: acct_def pending_def)

lemma pending_put_fresh:
  "hm_get (message_res_tx_map s) k = None \<Longrightarrow>
     pending (s\<lparr>message_res_tx_map := hm_put (message_res_tx_map s) k (tx, t)\<rparr>) = pending s @ [tx]"
  by (simp add: pending_def hm_put_fresh)

lemma acct_pending_used: "acct s used outs c \<Longrightarrow> tx \<in> set (pending s) \<Longrightarrow> tx \<in> set used"
  by (fastforce simp: acct_def pending_def)

lemma acct_entry:
  assumes "acct s used outs c" and "(k, tx, t) \<in> set (message_res_tx_map s)"
  shows "unat k < length used \<and> used ! unat k = tx"
  using assms unfolding acct_def by blast

lemma acct_fresh_tag:
  assumes "acct s used outs c" and "length used < 2 ^ 64"
  shows "hm_get (message_res_tx_map s) (sess_tag s) = None"
proof (rule ccontr)
  assume "hm_get (message_res_tx_map s) (sess_tag s) \<noteq> None"
  then obtain tx t where "hm_get (message_res_tx_map s) (sess_tag s) = Some (tx, t)" by auto
  then have "(sess_tag s, tx, t) \<in> set (message_res_tx_map s)"
    using assms(1) by (simp add: acct_def hm_get_iff_mem)
  then have "unat (sess_tag s) < length used" using acct_entry [OF assms(1)] by blast
  moreover have "unat (sess_tag s) = length used"
    using assms by (simp add: acct_def unat_of_nat)
  ultimately show False by simp
qed

text \<open>A request: its waiter is filed, or resolved at once, or found closed.\<close>

lemma acct_send_tracked:
  assumes "acct s used outs c" and "length used < 2 ^ 64" and "tx \<notin> set used"
    and "\<forall>x. c x \<or> e_tx_closed env x \<longrightarrow> c' x"
  shows "acct (fst (send_tracked env tx mk s)) (used @ [tx]) (outs @ snd (send_tracked env tx mk s)) c'"
proof -
  let ?s1 = "s\<lparr>sess_tag := sess_tag s + 1\<rparr>"
  note A = assms(1) [unfolded acct_def]
  have nores: "tx \<notin> set (resolved outs)" "tx \<notin> set (pending s)"
    using A assms(3) acct_pending_used [OF assms(1)] by auto
  have tag: "unat (sess_tag s) = length used" using A assms(2) by (simp add: unat_of_nat)
  have old: "(used @ [tx]) ! unat k = tx' \<and> unat k < length (used @ [tx])"
    if "(k, tx', t) \<in> set (message_res_tx_map s)" for k tx' t
    using acct_entry [OF assms(1) that] by (simp add: nth_append)
  obtain r out where snt: "send_ipc_message env (mk (sess_tag s)) = (r, out)"
    by (cases "send_ipc_message env (mk (sess_tag s))")
  then have out: "resolved out = []" using resolved_send_ipc [of env "mk (sess_tag s)"] by simp
  show ?thesis
  proof (cases r)
    case (Err e)
    have "fst (send_tracked env tx mk s) = ?s1"
      and "resolved (snd (send_tracked env tx mk s)) = (if e_tx_closed env tx then [] else [tx])"
      using snt Err out by (simp_all add: send_tracked_def next_tag_def)
    then show ?thesis
      using A nores old assms(4) by (auto simp: acct_def pending_def)
  next
    case (Ok u)
    let ?m = "message_res_tx_map s"
    have fresh: "hm_get ?m (sess_tag s) = None"
      by (rule acct_fresh_tag [OF assms(1,2)])
    have "fst (send_tracked env tx mk s) =
        ?s1\<lparr>message_res_tx_map := ?m @ [(sess_tag s, tx, e_now env)]\<rparr>"
      and "resolved (snd (send_tracked env tx mk s)) = []"
      using snt Ok out fresh
      by (simp_all add: send_tracked_def next_tag_def hm_insert_def hm_put_fresh)
    moreover have "hm_ok (?m @ [(sess_tag s, tx, e_now env)])"
      using A fresh hm_ok_put [of ?m "sess_tag s" "(tx, e_now env)"] by (simp add: hm_put_fresh)
    ultimately show ?thesis
      using A nores old tag assms(4) by (auto simp: acct_def pending_def)
  qed
qed

text \<open>Entries leave the map: each waiter that leaves is resolved unless it was closed.\<close>

lemma distinct_map_partition:
  assumes "distinct (map f m)" and "\<And>x. \<not> (P x \<and> Q x)"
  shows "distinct (map f (filter P m) @ map f (filter Q m))"
  using assms by (auto simp: distinct_map_filter distinct_map inj_on_def)

lemma map_filter_subset: "x \<in> set (map f (filter R m)) \<Longrightarrow> x \<in> set (map f m)"
  by auto

lemma acct_shrink:
  assumes "acct s used outs c"
    and "resolved out = map (\<lambda>(k, (tx, t)). tx)
      (filter (\<lambda>e. \<not> P e \<and> \<not> cl (fst (snd e))) (message_res_tx_map s))"
    and "\<forall>x. c x \<or> cl x \<longrightarrow> c' x"
  shows "acct (s\<lparr>message_res_tx_map := filter P (message_res_tx_map s)\<rparr>) used (outs @ out) c'"
proof -
  let ?m = "message_res_tx_map s" and ?f = "\<lambda>(k, (tx, t)). tx"
  let ?Q = "\<lambda>e. \<not> P e \<and> \<not> cl (fst (snd e))"
  note A = assms(1) [unfolded acct_def]
  have d: "distinct (map ?f ?m)" using A by (simp add: pending_def)
  have part: "distinct (map ?f (filter ?Q ?m) @ map ?f (filter P ?m))"
    using d by (rule distinct_map_partition) blast
  have inter: "set (resolved outs) \<inter> set (pending s) = {}" using A by simp
  have disj: "x \<notin> set (resolved outs)" if "x \<in> set (map ?f (filter R ?m))" for x R
  proof -
    from that have "x \<in> set (pending s)" unfolding pending_def by (rule map_filter_subset)
    with inter show ?thesis by blast
  qed
  have split: "tx \<in> set (map ?f (filter ?Q ?m)) \<or> tx \<in> set (map ?f (filter P ?m)) \<or> cl tx"
    if "tx \<in> set (pending s)" for tx
    using that by (auto simp: pending_def image_iff)
  have ok: "hm_ok (filter P ?m)" using A by (simp add: hm_ok_def distinct_map_filter)
  have used: "tx \<in> set used" if "tx \<in> set (map ?f (filter ?Q ?m))" for tx
    using map_filter_subset [OF that] by (intro acct_pending_used [OF assms(1)]) (simp add: pending_def)
  show ?thesis
    unfolding acct_def
  proof (intro conjI)
    have X: "distinct (xs @ ys)" if "distinct xs" "distinct ys" "\<And>x. x \<in> set ys \<Longrightarrow> x \<notin> set xs"
      for xs ys :: "'b list" using that by auto
    have "distinct (resolved outs @ (map ?f (filter ?Q ?m) @ map ?f (filter P ?m)))"
    proof (rule X)
      show "distinct (resolved outs)" using A by simp
      show "distinct (map ?f (filter ?Q ?m) @ map ?f (filter P ?m))" by (rule part)
      fix x assume "x \<in> set (map ?f (filter ?Q ?m) @ map ?f (filter P ?m))"
      then have "x \<in> set (map ?f (filter ?Q ?m)) \<or> x \<in> set (map ?f (filter P ?m))"
        by (simp only: set_append Un_iff)
      then show "x \<notin> set (resolved outs)" using disj [of x ?Q] disj [of x P] by blast
    qed
    then show "distinct (resolved (outs @ out) @ pending (s\<lparr>message_res_tx_map := filter P ?m\<rparr>))"
      by (simp add: assms(2) pending_def)
    show "\<forall>tx\<in>set (resolved (outs @ out)). tx \<in> set used"
      using A used unfolding resolved_append assms(2) set_append by blast
    have "\<forall>tx\<in>set used. tx \<in> set (resolved outs) \<or> tx \<in> set (pending s) \<or> c tx" using A by blast
    then show "\<forall>tx\<in>set used. tx \<in> set (resolved (outs @ out)) \<or>
        tx \<in> set (pending (s\<lparr>message_res_tx_map := filter P ?m\<rparr>)) \<or> c' tx"
      using split assms(3) by (simp add: assms(2) pending_def) blast
  qed (use A ok acct_entry [OF assms(1)] in auto)
qed

lemma filter_key:
  "hm_ok m \<Longrightarrow> hm_get m k = Some v \<Longrightarrow> filter (\<lambda>e. fst e = k) m = [(k, v)]"
proof (induction m)
  case (Cons e m)
  obtain k' v' where e: "e = (k', v')" by (cases e)
  show ?case
  proof (cases "k' = k")
    case True
    with Cons.prems e have "hm_get m k = None" "v' = v" by (simp_all add: hm_simps)
    then have "filter (\<lambda>e. fst e = k) m = []"
      by (auto simp: filter_empty_conv hm_get_def map_of_eq_None_iff)
    with True e \<open>v' = v\<close> show ?thesis by simp
  qed (use Cons e in \<open>simp add: hm_simps\<close>)
qed (simp add: hm_get_def)

lemma acct_message_response:
  assumes "acct s used outs c" and "\<forall>x. c x \<or> e_tx_closed env x \<longrightarrow> c' x"
  shows "acct (fst (snd (handle_message_response env r s))) used
    (outs @ snd (snd (handle_message_response env r s))) c'"
proof (cases "hm_get (message_res_tx_map s) (mr_tag r)")
  case None
  then show ?thesis
    using acct_weaken [OF assms(1), of "[]" s c'] assms(2)
    by (simp add: handle_message_response_def hm_remove_def)
next
  case (Some e)
  let ?m = "message_res_tx_map s" and ?k = "mr_tag r"
  obtain tx t where e: "e = (tx, t)" by (cases e)
  let ?out = "snd (snd (handle_message_response env r s))"
  have ok: "hm_ok ?m" using assms(1) by (simp add: acct_def)
  have del: "hm_del ?m ?k = filter (\<lambda>e. fst e \<noteq> ?k) ?m"
    by (simp add: hm_del_def AList.delete_eq case_prod_beta' eq_commute)
  have s': "fst (snd (handle_message_response env r s)) =
      s\<lparr>message_res_tx_map := filter (\<lambda>e. fst e \<noteq> ?k) ?m\<rparr>"
    and out: "resolved ?out = (if e_tx_closed env tx then [] else [tx])"
    using Some e by (simp_all add: handle_message_response_def hm_remove_def Let_def
        case_prod_beta del)
  have "filter (\<lambda>e. \<not> fst e \<noteq> ?k \<and> \<not> e_tx_closed env (fst (snd e))) ?m =
      filter (\<lambda>e. \<not> e_tx_closed env (fst (snd e))) (filter (\<lambda>e. fst e = ?k) ?m)"
    by (simp add: conj_commute)
  then have "resolved ?out = map (\<lambda>(k, (tx, t)). tx)
      (filter (\<lambda>e. \<not> fst e \<noteq> ?k \<and> \<not> e_tx_closed env (fst (snd e))) ?m)"
    using filter_key [OF ok Some] e by (simp add: out)
  from acct_shrink [OF assms(1) this assms(2)] show ?thesis by (simp add: s')
qed

lemma acct_cleanup:
  assumes "acct s used outs c" and "\<forall>x. c x \<or> e_tx_closed env x \<longrightarrow> c' x"
  shows "acct (fst (cleanup_message_res_tx_map env s)) used
    (outs @ snd (cleanup_message_res_tx_map env s)) c'"
proof -
  let ?m = "message_res_tx_map s" and ?P = "\<lambda>e. \<not> cleanup_expired env (snd e)"
  have s': "fst (cleanup_message_res_tx_map env s) = s\<lparr>message_res_tx_map := filter ?P ?m\<rparr>"
    by (simp add: cleanup_message_res_tx_map_def Let_def hm_filter_def case_prod_beta')
  have "resolved (concat (map (\<lambda>(tag, (tx, _)). if e_tx_closed env tx then []
      else snd (tx_send env tx p)) xs)) =
      map (\<lambda>(k, (tx, t)). tx) (filter (\<lambda>e. \<not> e_tx_closed env (fst (snd e))) xs)"
    for p and xs :: "(u64 \<times> 'b \<times> nat) list"
    by (induction xs) auto
  then have "resolved (snd (cleanup_message_res_tx_map env s)) = map (\<lambda>(k, (tx, t)). tx)
      (filter (\<lambda>e. \<not> ?P e \<and> \<not> e_tx_closed env (fst (snd e))) ?m)"
    by (simp add: cleanup_message_res_tx_map_def Let_def hm_filter_def case_prod_beta'
        conj_commute)
  from acct_shrink [OF assms(1) this assms(2)] show ?thesis by (simp add: s')
qed

section \<open>Whole iterations\<close>

text \<open>The waiter an event brings, if it is a request.\<close>

fun request_tx :: "('m, 'mb, 'tx) sess_env \<Rightarrow> 'tx sess_input \<Rightarrow> 'tx list" where
  "request_tx env (InEnvelope (CmdCreateActor t l cfg)) = [e_new_tx env]"
| "request_tx env (InEnvelope (CmdGetActor r)) = [e_new_tx env]"
| "request_tx env (InEnvelope (CmdBinary m)) = (case bm_result_tx m of Some tx \<Rightarrow> [tx] | None \<Rightarrow> [])"
| "request_tx env _ = []"

lemma sess_context_started: "sess_proxy s = Some px \<Longrightarrow> sess_context s = Ret px"
  by (simp add: sess_context_def)

lemma find_mailbox_frame:
  "message_res_tx_map (snd (find_mailbox env i s)) = message_res_tx_map s"
  "sess_tag (snd (find_mailbox env i s)) = sess_tag s"
  "sess_proxy (snd (find_mailbox env i s)) = sess_proxy s"
  by (simp_all add: find_mailbox_def case_prod_beta Let_def)

lemma get_actor_result_frame:
  "message_res_tx_map (snd (get_actor_result env a s)) = message_res_tx_map s"
  "sess_tag (snd (get_actor_result env a s)) = sess_tag s"
  "sess_proxy (snd (get_actor_result env a s)) = sess_proxy s"
  by (simp_all add: get_actor_result_def find_mailbox_frame split: option.split actor_ref_type.split)

lemma send_tracked_proxy: "sess_proxy (fst (send_tracked env tx mk s)) = sess_proxy s"
  by (simp add: send_tracked_def next_tag_def Let_def case_prod_beta split: result.split)

text \<open>An inbound message, on a started session: no panic, and the waiters stay accounted for.\<close>

definition step_ok ::
  "session_proxy \<Rightarrow> 'tx list \<Rightarrow> ('mb, 'tx) sess_out list \<Rightarrow> ('tx \<Rightarrow> bool) \<Rightarrow>
   ('m, 'tx) session \<Rightarrow> ('mb, 'tx) sess_out list \<Rightarrow> bool" where
  "step_ok px used outs c' s' out \<longleftrightarrow> acct s' used (outs @ out) c' \<and> sess_proxy s' = Some px"

lemma step_ok_frame:
  assumes "acct s used outs c" and "sess_proxy s = Some px" and "\<forall>x. c x \<longrightarrow> c' x"
    and "message_res_tx_map s' = message_res_tx_map s" and "sess_tag s' = sess_tag s"
    and "sess_proxy s' = sess_proxy s" and "resolved out = []"
  shows "step_ok px used outs c' s' out"
  using acct_weaken [OF assms(1,7,4,5,3)] assms(2,6) by (simp add: step_ok_def)

lemma node_message_ok:
  assumes "acct s used outs c" and "sess_proxy s = Some px" and "\<forall>x. c x \<longrightarrow> c' x"
  shows "\<exists>res s' out. handle_node_message env m s = Ret (res, s', out) \<and> step_ok px used outs c' s' out"
proof -
  note fr = step_ok_frame [OF assms, of _]
  show ?thesis
  proof (cases "nm_message m")
    case None
    then show ?thesis by (auto simp: handle_node_message_def intro!: fr)
  next
    case (Some t)
    then show ?thesis
      by (cases t) (auto simp: handle_node_message_def Let_def case_prod_beta
          get_actor_result_frame intro!: fr)
  qed
qed

lemma actor_message_ok:
  assumes "acct s used outs c" and "sess_proxy s = Some px" and "\<forall>x. c x \<longrightarrow> c' x"
  shows "\<exists>res s' out. handle_actor_message env m s = Ret (res, s', out) \<and> step_ok px used outs c' s' out"
proof -
  obtain rcp s1 where f: "find_mailbox env (am_actor_id m) s = (rcp, s1)"
    by (cases "find_mailbox env (am_actor_id m) s")
  have s1: "message_res_tx_map s1 = message_res_tx_map s" "sess_tag s1 = sess_tag s"
      "sess_proxy s1 = sess_proxy s"
    using find_mailbox_frame [of env "am_actor_id m" s] f by simp_all
  have ctx: "sess_context s1 = Ret px" using s1(3) assms(2) by (simp add: sess_context_def)
  have ok: "step_ok px used outs c' s1 out" if "resolved out = []" for out
    using step_ok_frame [OF assms s1 that] by simp
  show ?thesis
    by (cases "am_tag m"; cases rcp)
      (auto simp: handle_actor_message_def f ctx Let_def split: result.split intro!: ok)
qed

lemma ipc_message_ok:
  assumes "acct s used outs c" and "sess_proxy s = Some px"
    and "\<forall>x. c x \<or> e_tx_closed env x \<longrightarrow> c' x"
  shows "\<exists>res s' out. handle_ipc_message env frame s = Ret (res, s', out) \<and>
    step_ok px used outs c' s' out"
proof (cases "e_decode env frame")
  case (Err e)
  have "step_ok px used outs c' s []"
    by (rule step_ok_frame [OF assms(1,2)]) (simp_all add: assms(3))
  with Err show ?thesis by (simp add: handle_ipc_message_def)
next
  case (Ok im)
  have c: "\<forall>x. c x \<longrightarrow> c' x" using assms(3) by blast
  show ?thesis
  proof (cases "im_message im")
    case None
    have "step_ok px used outs c' s []" by (rule step_ok_frame [OF assms(1,2) c]) simp_all
    with Ok None show ?thesis by (simp add: handle_ipc_message_def)
  next
    case (Some t)
    show ?thesis
    proof (cases t)
      case (ITActorMessage m)
      with Ok Some actor_message_ok [OF assms(1,2) c, where env = env and m = m] show ?thesis
        by (simp add: handle_ipc_message_def)
    next
      case (ITNodeMessage m)
      with Ok Some node_message_ok [OF assms(1,2) c, where env = env and m = m] show ?thesis
        by (simp add: handle_ipc_message_def)
    next
      case (ITMessageResponse r)
      obtain res s' out where h: "handle_message_response env r s = (res, s', out)"
        by (cases "handle_message_response env r s")
      then have "sess_proxy s' = sess_proxy s"
        by (auto simp: handle_message_response_def hm_remove_def Let_def case_prod_beta
            split: option.splits)
      with h acct_message_response [OF assms(1,3), where r = r] assms(2)
      have "step_ok px used outs c' s' out" by (simp add: step_ok_def)
      with Ok Some ITMessageResponse h show ?thesis by (simp add: handle_ipc_message_def)
    qed
  qed
qed

lemma send_tracked_ok:
  assumes "acct s used outs c" and "sess_proxy s = Some px"
    and "\<forall>x. c x \<or> e_tx_closed env x \<longrightarrow> c' x" and "length used < 2 ^ 64" and "tx \<notin> set used"
  shows "step_ok px (used @ [tx]) outs c' (fst (send_tracked env tx mk s))
    (snd (send_tracked env tx mk s))"
  using acct_send_tracked [OF assms(1,4,5,3)] assms(2) by (simp add: step_ok_def send_tracked_proxy)

lemma cmd_ok:
  assumes "acct s used outs c" and "sess_proxy s = Some px"
    and "\<forall>x. c x \<or> e_tx_closed env x \<longrightarrow> c' x"
    and "length (used @ request_tx env (InEnvelope cmd)) \<le> 2 ^ 64"
    and "distinct (used @ request_tx env (InEnvelope cmd))"
  shows "\<exists>s' cx' out. sess_handle_cmd env cmd s cx = Ret (s', cx', out) \<and>
    step_ok px (used @ request_tx env (InEnvelope cmd)) outs c' s' out"
proof -
  have c: "\<forall>x. c x \<longrightarrow> c' x" using assms(3) by blast
  have tracked: "step_ok px (used @ [tx]) outs c' (fst (send_tracked env tx mk s))
      (snd (send_tracked env tx mk s))"
    if "request_tx env (InEnvelope cmd) = [tx]" for tx mk
    using assms(4,5) that by (intro send_tracked_ok [OF assms(1-3)]) simp_all
  have ctx: "sess_context (fst (send_tracked env tx mk s)) = Ret px" for tx mk
    by (simp add: sess_context_def send_tracked_proxy assms(2))
  have same: "step_ok px used outs c' s out" if "resolved out = []" for out
    by (rule step_ok_frame [OF assms(1,2) c]) (simp_all add: that)
  show ?thesis
  proof (cases cmd)
    case (CmdCreateActor t l cfg)
    then show ?thesis
      using tracked [of "e_new_tx env"] ctx
      by (simp add: handle_remote_create_actor_def case_prod_beta Let_def)
  next
    case (CmdGetActor r)
    then show ?thesis
      using tracked [of "e_new_tx env"] ctx
      by (simp add: handle_remote_get_actor_def case_prod_beta Let_def)
  next
    case (CmdBinary m)
    then show ?thesis
      using tracked same
      by (cases "bm_result_tx m") (simp_all add: handle_binary_message_def case_prod_beta Let_def)
  next
    case (CmdSignal sg)
    then show ?thesis using same [of "[]"] by (cases sg) simp_all
  next
    case (CmdSupervisor sv)
    then show ?thesis using same [of "[]"] by (cases sv) simp_all
  qed (use same in \<open>simp_all add: handle_response_command_def\<close>)
qed

lemma select_ok:
  assumes "acct s used outs c" and "sess_proxy s = Some px"
    and "\<forall>x. c x \<or> e_tx_closed env x \<longrightarrow> c' x"
    and "length (used @ request_tx env i) \<le> 2 ^ 64" and "distinct (used @ request_tx env i)"
    and "sess_select env i s cx = (r, s', cx', out)"
  shows "step_ok px (used @ request_tx env i) outs c' s' out \<and> (\<forall>p. r \<noteq> Some (Panic p))"
proof -
  have same: "step_ok px used outs c' s []"
    by (rule step_ok_frame [OF assms(1,2)]) (simp_all add: assms(3))
  show ?thesis
  proof (cases i)
    case (InEnvelope cmd)
    with cmd_ok [OF assms(1-3), where cmd = cmd and cx = cx] assms(4-6) show ?thesis by fastforce
  next
    case (InReceived frame)
    with ipc_message_ok [OF assms(1-3), where frame = frame] assms(6) show ?thesis by auto
  qed (use same assms(6) in \<open>auto simp: Let_def split: if_splits\<close>)
qed

lemma cleanup_phase_ok:
  assumes "acct s used outs c" and "sess_proxy s = Some px"
    and "\<forall>x. c x \<or> e_tx_closed env x \<longrightarrow> c' x"
    and "sess_cleanup_phase env s cx = (s', cx', out)"
  shows "step_ok px used outs c' s' out"
proof (cases "require_cleanup cx")
  case True
  then have s': "s' = fst (cleanup_message_res_tx_map env s)"
      "out = snd (cleanup_message_res_tx_map env s) @ [OutScheduleCleanup CLEANUP_INTERVAL]"
    using assms(4) by (auto simp: sess_cleanup_phase_def case_prod_beta Let_def)
  have "sess_proxy s' = sess_proxy s"
    by (simp add: s' cleanup_message_res_tx_map_def Let_def)
  moreover have "acct s' used (outs @ out) c'"
    using acct_weaken [OF acct_cleanup [OF assms(1,3)], where s' = s' and c' = c'
        and out = "[OutScheduleCleanup CLEANUP_INTERVAL]"]
    by (simp add: s')
  ultimately show ?thesis using assms(2) by (simp add: step_ok_def)
next
  case False
  then have "s' = s" "out = []" using assms(4) by (auto simp: sess_cleanup_phase_def)
  then show ?thesis
    by (auto intro!: step_ok_frame [OF assms(1,2)] simp: assms(3))
qed

section \<open>Runs\<close>

type_synonym ('m, 'mb, 'tx) sess_event =
  "('m, 'mb, 'tx) sess_env \<times> ('m, 'mb, 'tx) sess_env \<times> 'tx sess_input"

definition run_requests :: "('m, 'mb, 'tx) sess_event list \<Rightarrow> 'tx list" where
  "run_requests evs = concat (map (\<lambda>(env1, env2, i). request_tx env2 i) evs)"

definition closed_in :: "('m, 'mb, 'tx) sess_event list \<Rightarrow> 'tx \<Rightarrow> bool" where
  "closed_in evs tx \<longleftrightarrow> (\<exists>(env1, env2, i) \<in> set evs. e_tx_closed env1 tx \<or> e_tx_closed env2 tx)"

lemma run_ok:
  assumes "acct s used outs c" and "sess_proxy s = Some px"
    and "length (used @ run_requests evs) \<le> 2 ^ 64" and "distinct (used @ run_requests evs)"
    and "sess_run_loop evs s cx = (r, s', cx', out)"
  shows "\<exists>n \<le> length (run_requests evs).
    acct s' (used @ take n (run_requests evs)) (outs @ out) (\<lambda>x. c x \<or> closed_in evs x) \<and>
    (r = None \<longrightarrow> n = length (run_requests evs)) \<and> (\<forall>p. r \<noteq> Some (Panic p)) \<and>
    sess_proxy s' = Some px"
  using assms
proof (induction evs arbitrary: s used outs c cx r s' cx' out)
  case Nil
  have "acct s used (outs @ []) (\<lambda>x. c x \<or> closed_in [] x)"
    by (rule acct_weaken [OF Nil(1)]) simp_all
  with Nil show ?case by (auto simp: run_requests_def split: if_splits)
next
  case (Cons ev evs)
  obtain env1 env2 i where ev: "ev = (env1, env2, i)" by (cases ev)
  let ?c1 = "\<lambda>x. c x \<or> e_tx_closed env1 x" and ?q = "request_tx env2 i"
  let ?c2 = "\<lambda>x. ?c1 x \<or> e_tx_closed env2 x" and ?Q = "run_requests (ev # evs)"
  have Q: "?Q = ?q @ run_requests evs" by (simp add: run_requests_def ev)
  have stay: "acct z u o' (\<lambda>x. c x \<or> closed_in (ev # evs) x)"
    if "acct z u o' d" "\<forall>x. d x \<longrightarrow> ?c2 x \<or> closed_in evs x" for z u d and o' :: "('c, 'b) sess_out list"
    using acct_weaken [OF that(1), of "[]" z "\<lambda>x. c x \<or> closed_in (ev # evs) x"] that(2)
    by (auto simp: closed_in_def ev)
  show ?case
  proof (cases "sc_state cx \<noteq> Running")
    case True
    with Cons.prems(5) have "s' = s" "out = []" "r = Some (Ret (Ok ()))" by (simp_all add: ev)
    with stay [OF Cons.prems(1)] Cons.prems(2) show ?thesis
      by (intro exI [of _ 0]) simp
  next
    case False
    obtain s1 cx1 o1 where cl: "sess_cleanup_phase env1 s cx = (s1, cx1, o1)"
      by (cases "sess_cleanup_phase env1 s cx")
    obtain r2 s2 cx2 o2 where sel: "sess_select env2 i s1 cx1 = (r2, s2, cx2, o2)"
      by (cases "sess_select env2 i s1 cx1")
    have ok1: "step_ok px used outs ?c1 s1 o1"
      by (rule cleanup_phase_ok [OF Cons.prems(1,2) _ cl]) simp
    have ok2: "step_ok px (used @ ?q) (outs @ o1) ?c2 s2 o2 \<and> (\<forall>p. r2 \<noteq> Some (Panic p))"
      using Cons.prems(3,4) ok1
      by (intro select_ok [OF _ _ _ _ _ sel, where c = ?c1]) (auto simp: Q step_ok_def)
    then have acct2: "acct s2 (used @ ?q) (outs @ o1 @ o2) ?c2" "sess_proxy s2 = Some px"
      by (simp_all add: step_ok_def)
    show ?thesis
    proof (cases r2)
      case (Some res)
      with False cl sel Cons.prems(5) have "s' = s2" "out = o1 @ o2" "r = Some res"
        by (simp_all add: ev)
      with stay [OF acct2(1)] acct2(2) ok2 Some show ?thesis
        by (intro exI [of _ "length ?q"]) (simp add: Q)
    next
      case None
      obtain r3 s3 cx3 o3 where rest: "sess_run_loop evs s2 cx2 = (r3, s3, cx3, o3)"
        by (cases "sess_run_loop evs s2 cx2")
      with False cl sel None Cons.prems(5) have eq: "s' = s3" "out = o1 @ o2 @ o3" "r = r3"
        by (simp_all add: ev)
      from Cons.IH [OF acct2 _ _ rest] Cons.prems(3,4) obtain n where n:
        "n \<le> length (run_requests evs)"
        "acct s3 ((used @ ?q) @ take n (run_requests evs)) ((outs @ o1 @ o2) @ o3)
           (\<lambda>x. ?c2 x \<or> closed_in evs x)"
        "r3 = None \<longrightarrow> n = length (run_requests evs)" "\<forall>p. r3 \<noteq> Some (Panic p)"
        "sess_proxy s3 = Some px"
        by (auto simp: Q)
      from stay [OF n(2)] n(1,3,4,5) eq show ?thesis
        by (intro exI [of _ "length ?q + n"]) (simp add: Q)
    qed
  qed
qed

text \<open>C1. No waiter is lost or answered twice. In every run of a started session, whatever the peer
  sends and however requests, responses, sweeps and failures interleave, nothing panics; each
  request's waiter is resolved at most once; every request made so far is still pending, has been
  resolved, or its caller had dropped the receiver; and a pending entry with tag \<open>k\<close> belongs to the
  \<open>k\<close>-th request. Bounded by the 64-bit tag space.\<close>

theorem session_waiters_accounted:
  assumes "sess_run_loop evs (sess_post_start self (sess_new reg)) (sc_set_state Running (session_ctx_new accepts self label))
      = (r, s', c', out)"
    and "distinct (run_requests evs)" and "length (run_requests evs) \<le> 2 ^ 64"
  shows "(\<forall>p. r \<noteq> Some (Panic p)) \<and> distinct (resolved out @ pending s') \<and>
    set (resolved out) \<subseteq> set (run_requests evs) \<and>
    (\<forall>k tx t. hm_get (message_res_tx_map s') k = Some (tx, t) \<longrightarrow>
       unat k < length (run_requests evs) \<and> run_requests evs ! unat k = tx) \<and>
    (r = None \<longrightarrow> (\<forall>tx \<in> set (run_requests evs).
       tx \<in> set (resolved out) \<or> tx \<in> set (pending s') \<or> closed_in evs tx))"
proof -
  have "acct (sess_post_start self (sess_new reg)) [] ([] @ []) (\<lambda>_. False)"
    by (rule acct_weaken [OF acct_new [where c = "\<lambda>_. False"]]) (simp_all add: sess_post_start_def)
  then have start: "acct (sess_post_start self (sess_new reg)) [] [] (\<lambda>_. False)" by simp
  have "sess_proxy (sess_post_start self (sess_new reg)) = Some \<lparr>px_session = self\<rparr>"
    by (simp add: sess_post_start_def)
  from run_ok [OF start this _ _ assms(1)] assms(2,3)
  obtain n where n: "n \<le> length (run_requests evs)"
      "acct s' (take n (run_requests evs)) out (closed_in evs)"
      "r = None \<longrightarrow> n = length (run_requests evs)" "\<forall>p. r \<noteq> Some (Panic p)"
    by auto
  note A = n(2) [unfolded acct_def]
  have "unat k < length (run_requests evs) \<and> run_requests evs ! unat k = tx"
    if "hm_get (message_res_tx_map s') k = Some (tx, t)" for k tx t
  proof -
    have "(k, tx, t) \<in> set (message_res_tx_map s')" using that A by (simp add: hm_get_iff_mem)
    from acct_entry [OF n(2) this] have "unat k < n" "take n (run_requests evs) ! unat k = tx"
      by simp_all
    with n(1) show ?thesis by simp
  qed
  then show ?thesis
    using A n(3,4) by (auto dest: in_set_takeD)
qed

text \<open>A concrete environment for the witnesses: mailboxes and waiters are numbers, every frame is the
  byte 1 except that the byte 9 decodes to the response for tag 0.\<close>

definition ex_env :: "nat \<Rightarrow> ((u64, nat) hash_map, nat, nat) sess_env" where
  "ex_env tx = \<lparr>e_ops = hm_ops, e_closed = (\<lambda>_. False), e_index_of = (\<lambda>n. actor_id_new (of_nat n)),
     e_tx_closed = (\<lambda>_. False), e_new_tx = tx, e_encode = (\<lambda>_. Ok [1]),
     e_decode = (\<lambda>b. if b = [9] then Ok (ipc_message_response (message_response_new 0 (Ok [42])))
       else Err MissingDecodeContext),
     e_encode_address = (\<lambda>_. [2]), e_conn_send = (\<lambda>_. Ok ()),
     e_ask_get_actor = (\<lambda>_. Answered (Ok 5)), e_mb_send = (\<lambda>_ _. Ok ()), e_now = 100\<rparr>"

definition ex_events ::
  "((u64, nat) hash_map, nat, nat) sess_event list" where
  "ex_events = [(ex_env 0, ex_env 7, InEnvelope (CmdGetActor (RefLabel ''a''))),
     (ex_env 0, ex_env 8, InEnvelope (CmdGetActor (RefLabel ''b''))),
     (ex_env 0, ex_env 0, InReceived [9]), (ex_env 0, ex_env 0, InReceived [9])]"

lemma ex_run:
  "\<exists>s' c'. sess_run_loop ex_events (sess_post_start (actor_id_new 3) (sess_new hm_new))
     (sc_set_state Running (session_ctx_new (\<lambda>_. True) (actor_id_new 3) ''s'')) =
   (None, s', c', [OutScheduleCleanup CLEANUP_INTERVAL,
      OutFrame (ipc_node_message (node_message_get_actor_by_label ''a'' 0)) [1],
      OutFrame (ipc_node_message (node_message_get_actor_by_label ''b'' 1)) [1],
      OutResolve 7 (Ok [42])]) \<and> pending s' = [8]"
  by (simp add: ex_events_def ex_env_def sess_post_start_def sess_new_def sc_set_state_def
      session_ctx_new_def sess_cleanup_phase_def cleanup_message_res_tx_map_def hm_new_def
      hm_filter_def handle_remote_get_actor_def send_tracked_def next_tag_def send_ipc_message_def
      sess_context_def hm_insert_def hm_put_def handle_ipc_message_def proto_defs
      handle_message_response_def hm_remove_def hm_get_def hm_del_def tx_send_def
      response_result_def pending_def Let_def)

lemma ex_run_requests: "run_requests ex_events = [7, 8]"
  by (simp add: run_requests_def ex_events_def ex_env_def)

theorem session_waiters_accounted_witness:
  "\<exists>r s' c' out. sess_run_loop ex_events (sess_post_start (actor_id_new 3) (sess_new hm_new))
      (sc_set_state Running (session_ctx_new (\<lambda>_. True) (actor_id_new 3) ''s'')) = (r, s', c', out) \<and>
     resolved out = [7] \<and> pending s' = [8] \<and> distinct (resolved out @ pending s')"
proof -
  obtain s' c' out where run: "sess_run_loop ex_events (sess_post_start (actor_id_new 3) (sess_new hm_new))
      (sc_set_state Running (session_ctx_new (\<lambda>_. True) (actor_id_new 3) ''s'')) = (None, s', c', out)"
      and p: "pending s' = [8]" "resolved out = [7]"
    using ex_run by force
  from session_waiters_accounted [OF run] have d: "distinct (resolved out @ pending s')"
    by (simp add: ex_run_requests)
  show ?thesis by (intro exI conjI) (rule run, rule p, rule p, rule d)
qed

section \<open>Single handlers\<close>

text \<open>A response is delivered to exactly the waiter of its tag, as the bytes of the answer, as the
  peer's error, or as a decoding error when the answer is missing; the entry is used up, so a second
  response with the same tag is refused, and a response with an unknown tag changes nothing.\<close>

theorem response_reaches_its_waiter:
  assumes "hm_get (message_res_tx_map s) (mr_tag r) = Some (tx, t)"
    and "handle_message_response env r s = (res, s', out)"
  shows "(res = Ok () \<longleftrightarrow> \<not> e_tx_closed env tx) \<and>
    out = (if e_tx_closed env tx then [] else [OutResolve tx
      (case mr_response r of
         Some (ResponseOk b) \<Rightarrow> Ok b
       | Some (ResponseErr e) \<Rightarrow> Err (session_error_box (RemoteNodeError e))
       | None \<Rightarrow> Err (session_error_box (SDecodeError (decode_error_from_str
           ''missing field `response` in `MessageResponse`''))))]) \<and>
    hm_get (message_res_tx_map s') (mr_tag r) = None \<and>
    (\<forall>k. k \<noteq> mr_tag r \<longrightarrow> hm_get (message_res_tx_map s') k = hm_get (message_res_tx_map s) k) \<and>
    (\<forall>r'. mr_tag r' = mr_tag r \<longrightarrow>
       handle_message_response env r' s' = (Err (InvalidMessageResTxTag (mr_tag r)), s', []))"
  using assms
  by (auto simp: handle_message_response_def hm_remove_def tx_send_def response_result_def Let_def
      split: if_splits option.split response_type.split)

theorem response_reaches_its_waiter_witness:
  "\<exists>res s' out. handle_message_response (ex_env 0) (message_response_new 4 (Err ''no''))
      \<lparr>sess_registry = [], sess_tag = 5, sess_proxy = None, message_res_tx_map = [(3, 30, 0), (4, 40, 0)]\<rparr>
    = (res, s', out) \<and> out = [OutResolve 40 (Err (session_error_box (RemoteNodeError ''no'')))] \<and>
    hm_get (message_res_tx_map s') 4 = None"
proof -
  let ?s = "\<lparr>sess_registry = [], sess_tag = 5, sess_proxy = None,
    message_res_tx_map = [(3, 30, 0), (4, 40, 0)]\<rparr> :: ((u64, nat) hash_map, nat) session"
  let ?r = "message_response_new 4 (Err ''no'')"
  obtain res s' out where h: "handle_message_response (ex_env 0) ?r ?s = (res, s', out)"
    by (cases "handle_message_response (ex_env 0) ?r ?s")
  have "hm_get (message_res_tx_map ?s) (mr_tag ?r) = Some (40, 0)"
    by (simp add: message_response_new_def hm_get_def)
  from response_reaches_its_waiter [OF this h] h show ?thesis
    by (simp add: ex_env_def message_response_new_def)
qed

text \<open>The sweep is exact: it keeps an entry just when its waiter is open and younger than the
  timeout, tells every open expired waiter \<open>ResponseTimeout\<close>, and nobody else anything; and when
  sweeps are at most the interval apart, no waiter is told later than timeout plus interval after
  its request.\<close>

theorem cleanup_exact:
  assumes "hm_ok (message_res_tx_map s)" and "cleanup_message_res_tx_map env s = (s', out)"
  shows "(hm_get (message_res_tx_map s') k = Some (tx, t) \<longleftrightarrow>
      hm_get (message_res_tx_map s) k = Some (tx, t) \<and> \<not> e_tx_closed env tx \<and>
      e_now env - t < RESPONSE_TIMEOUT) \<and>
    (OutResolve tx p \<in> set out \<longleftrightarrow> p = Err (session_error_box ResponseTimeout) \<and>
      (\<exists>k t. hm_get (message_res_tx_map s) k = Some (tx, t) \<and> \<not> e_tx_closed env tx \<and>
         RESPONSE_TIMEOUT \<le> e_now env - t)) \<and>
    (hm_get (message_res_tx_map s') k = Some (tx, t) \<and> now' \<le> e_now env + CLEANUP_INTERVAL \<longrightarrow>
       now' - t < RESPONSE_TIMEOUT + CLEANUP_INTERVAL)"
proof -
  have s': "message_res_tx_map s' = hm_filter (message_res_tx_map s) (\<lambda>_ e. \<not> cleanup_expired env e)"
    and out: "out = concat (map (\<lambda>(tag, (tx, _)). if e_tx_closed env tx then []
        else snd (tx_send env tx (Err (session_error_box ResponseTimeout))))
      (hm_filter (message_res_tx_map s) (\<lambda>_ e. cleanup_expired env e)))"
    using assms(2) by (auto simp: cleanup_message_res_tx_map_def Let_def)
  have kept: "hm_get (message_res_tx_map s') k = Some (tx, t) \<longleftrightarrow>
      hm_get (message_res_tx_map s) k = Some (tx, t) \<and> \<not> e_tx_closed env tx \<and>
      e_now env - t < RESPONSE_TIMEOUT"
    using assms(1) by (auto simp: s' cleanup_expired_def)
  have "OutResolve tx p \<in> set out \<longleftrightarrow> p = Err (session_error_box ResponseTimeout) \<and>
      (\<exists>k t. (k, tx, t) \<in> set (message_res_tx_map s) \<and> \<not> e_tx_closed env tx \<and>
         RESPONSE_TIMEOUT \<le> e_now env - t)"
    by (auto simp: out hm_filter_def cleanup_expired_def tx_send_def split: if_splits)
  then show ?thesis
    using kept by (auto simp: hm_get_iff_mem [OF assms(1)])
qed

theorem cleanup_exact_witness:
  "\<exists>s' out. cleanup_message_res_tx_map (ex_env 0)
      \<lparr>sess_registry = [], sess_tag = 2, sess_proxy = None, message_res_tx_map = [(0, 30, 90)]\<rparr> = (s', out) \<and>
    hm_get (message_res_tx_map s') 0 = Some (30, 90)"
proof -
  let ?s = "\<lparr>sess_registry = [], sess_tag = 2, sess_proxy = None, message_res_tx_map = [(0, 30, 90)]\<rparr>
    :: ((u64, nat) hash_map, nat) session"
  obtain s' out where c: "cleanup_message_res_tx_map (ex_env 0) ?s = (s', out)"
    by (cases "cleanup_message_res_tx_map (ex_env 0) ?s")
  have "hm_ok (message_res_tx_map ?s)" by (simp add: hm_ok_def)
  from cleanup_exact [OF this c, of 0 30 90] c show ?thesis
    by (simp add: ex_env_def hm_get_def RESPONSE_TIMEOUT_def)
qed

text \<open>The frames and tasks an inbound message leads to, as far as they answer a request.\<close>

fun answer_tags :: "('mb, 'tx) sess_out list \<Rightarrow> u64 list" where
  "answer_tags [] = []"
| "answer_tags (OutFrame m b # os) =
     (case im_message m of
        Some (ITMessageResponse r) \<Rightarrow> mr_tag r # answer_tags os
      | _ \<Rightarrow> answer_tags os)"
| "answer_tags (OutSpawnCreate t l c tag # os) = tag # answer_tags os"
| "answer_tags (OutSpawnForward r m tag # os) = tag # answer_tags os"
| "answer_tags (x # os) = answer_tags os"

fun inbound_tag :: "ipc_message_type \<Rightarrow> u64 option" where
  "inbound_tag (ITNodeMessage m) =
     (case nm_message m of
        Some (NMCreateActor ca) \<Rightarrow> Some (ca_tag ca)
      | Some (NMGetActor ga) \<Rightarrow> Some (ga_tag ga)
      | None \<Rightarrow> None)"
| "inbound_tag (ITActorMessage m) = am_tag m"
| "inbound_tag (ITMessageResponse r) = None"

text \<open>C6. Every inbound request is answered exactly once and under its own tag: the session either
  sends one response frame with that tag or spawns one task, and whatever becomes of the task (the
  actor unknown, its mailbox closed, the handler failing, the factory refusing) the response it hands
  back to the session has that tag and is put on the wire. Messages without a tag get no response.
  The encoder accepts every message and the connection every frame.\<close>

theorem inbound_request_answered:
  assumes "\<And>m. is_ok (e_encode env m)"
    and "\<And>b. e_conn_send env b = Ok ()"
    and "sess_proxy s = Some px" and "e_decode env frame = Ok im" and "im_message im = Some m"
    and "handle_ipc_message env frame s = Ret (res, s', out)"
  shows "answer_tags out =
      (case inbound_tag m of Some tag \<Rightarrow> [tag] | None \<Rightarrow> []) \<and>
    fst (create_actor_task env answer tag) = tag \<and> fst (forward_task rcp ds rx tag) = tag \<and>
    answer_tags (snd (handle_response_command env tag result s')) = [tag]"
proof -
  have frame: "\<exists>b. send_ipc_message env im = (Ok (), [OutFrame im b])" for im
    using assms(1) [of im] assms(2) by (cases "e_encode env im") (auto simp: send_ipc_message_def)
  have resp: "answer_tags
      (snd (send_ipc_message env (ipc_message_response (message_response_new t r)))) = [t]" for t r
    using frame [of "ipc_message_response (message_response_new t r)"]
    by (auto simp: proto_defs)
  have ctx: "sess_context (snd (find_mailbox env i s)) = Ret px" for i
    using assms(3) by (simp add: sess_context_def find_mailbox_frame)
  have tasks: "fst (create_actor_task env answer tag) = tag" "fst (forward_task rcp ds rx tag) = tag"
    "answer_tags (snd (handle_response_command env tag result s')) = [tag]"
    by (simp_all add: create_actor_task_def forward_task_def handle_response_command_def Let_def resp)
  have "answer_tags out = (case inbound_tag m of Some tag \<Rightarrow> [tag] | None \<Rightarrow> [])"
  proof (cases m)
    case (ITNodeMessage nm)
    with assms(4-6) show ?thesis
      by (auto simp: handle_ipc_message_def handle_node_message_def Let_def case_prod_beta resp
          split: option.splits node_message_type.splits)
  next
    case (ITActorMessage am)
    with assms(4-6) ctx show ?thesis
      by (auto simp: handle_ipc_message_def handle_actor_message_def Let_def case_prod_beta
          split: option.splits result.splits)
  next
    case (ITMessageResponse r)
    with assms(4-6) show ?thesis
      by (auto simp: handle_ipc_message_def handle_message_response_def tx_send_def Let_def
          case_prod_beta split: option.splits if_splits)
  qed
  with tasks show ?thesis by simp
qed

theorem inbound_request_answered_witness:
  "\<exists>res s' out. handle_ipc_message ((ex_env 0)\<lparr>e_decode := (\<lambda>_. Ok (ipc_node_message
       (node_message_get_actor_by_index 5 77)))\<rparr>) [1]
       (sess_post_start (actor_id_new 3) (sess_new hm_new)) = Ret (res, s', out) \<and>
     answer_tags out = [77]"
proof -
  let ?im = "ipc_node_message (node_message_get_actor_by_index 5 77)"
  let ?env = "(ex_env 0)\<lparr>e_decode := (\<lambda>_. Ok ?im)\<rparr>"
  let ?s = "sess_post_start (actor_id_new 3) (sess_new hm_new) :: ((u64, nat) hash_map, nat) session"
  let ?m = "ITNodeMessage (node_message_get_actor_by_index 5 77)"
  obtain res s' out where h: "handle_ipc_message ?env [1] ?s = Ret (res, s', out)"
    by (simp add: handle_ipc_message_def handle_node_message_def proto_defs Let_def case_prod_beta)
  have "answer_tags out = (case inbound_tag ?m of Some tag \<Rightarrow> [tag] | None \<Rightarrow> [])"
    by (rule inbound_request_answered [of ?env ?s "\<lparr>px_session = actor_id_new 3\<rparr>" "[1]" ?im ?m,
          OF _ _ _ _ _ h, THEN conjunct1])
      (simp_all add: ex_env_def sess_post_start_def ipc_node_message_def)
  with h show ?thesis by (simp add: proto_defs)
qed

section \<open>A remote lookup from end to end\<close>

text \<open>
  Two nodes, \<open>A\<close> asking and \<open>B\<close> answering. The hypotheses on the transport are that each connection
  accepts the frame it is given and that the codec is a round trip on the messages exchanged.
\<close>

definition carries ::
  "('m, 'mb, 'tx) sess_env \<Rightarrow> ('m2, 'mb2, 'tx2) sess_env \<Rightarrow> ipc_message \<Rightarrow> bytes \<Rightarrow> bool" where
  "carries from to msg b \<longleftrightarrow>
     e_encode from msg = Ok b \<and> e_conn_send from b = Ok () \<and> e_decode to b = Ok msg"

definition get_actor_answer :: "('mb \<Rightarrow> actor_id) \<Rightarrow> ('mb, session_error) result \<Rightarrow> result_address" where
  "get_actor_answer index_of r =
     (case r of
        Ok mb \<Rightarrow> result_address_ok (as_local (index_of mb))
      | Err e \<Rightarrow> result_address_err (report (session_error_box e)))"

text \<open>C4. A remote lookup by index is correct from end to end. The asking session sends the request
  under a fresh tag, the answering session looks the actor up in its registry, and the response
  resolves the waiter of that very request: the caller gets the address of the actor the peer has
  registered and open under that index, or the peer's error text when there is none; afterwards the
  request is no longer pending.\<close>

theorem remote_get_actor_end_to_end:
  assumes "sess_proxy sa = Some pa" and "hm_ok (message_res_tx_map sa)"
    and "\<not> e_tx_closed envA2 (e_new_tx envA)"
    and "request = ipc_node_message (node_message_get_actor_by_index (as_local aid) (sess_tag sa))"
    and "found = fst (find_mailbox envB (as_local aid) sb)"
    and "response = ipc_message_response (message_response_new (sess_tag sa)
       (Ok (e_encode_address envB (get_actor_answer (e_index_of envB) found))))"
    and "carries envA envB request b1" and "carries envB envA2 response b2"
    and "decode_address (e_encode_address envB (get_actor_answer (e_index_of envB) found)) =
       Ok (get_actor_answer (e_index_of envB) found)"
  shows "\<exists>sa1 sa2 sb1 payload.
    handle_remote_get_actor envA (RefIndex aid) sa = Ret (pa, sa1, [OutFrame request b1]) \<and>
    handle_ipc_message envB b1 sb = Ret (Ok (), sb1, [OutFrame response b2]) \<and>
    handle_ipc_message envA2 b2 sa1 = Ret (Ok (), sa2, [OutResolve (e_new_tx envA) payload]) \<and>
    hm_get (message_res_tx_map sa2) (sess_tag sa) = None \<and>
    await_address decode_address new_address (oneshot_recv (Some payload)) =
      (case reg_live (e_ops envB) (e_closed envB) (sess_registry sb) (as_local aid) of
         Some mb \<Rightarrow> map_err SDecodeError (new_address (as_local (e_index_of envB mb)))
       | None \<Rightarrow> Err (RemoteNodeError (report (session_error_box
           (ActorNotFound (u64_to_string (as_local aid)))))))"
proof -
  let ?tag = "sess_tag sa" and ?tx = "e_new_tx envA"
  let ?sa1 = "sa\<lparr>sess_tag := ?tag + 1,
    message_res_tx_map := hm_put (message_res_tx_map sa) ?tag (?tx, e_now envA)\<rparr>"
  let ?sa2 = "?sa1\<lparr>message_res_tx_map := hm_del (message_res_tx_map ?sa1) ?tag\<rparr>"
  let ?ans = "get_actor_answer (e_index_of envB) found"
  let ?payload = "Ok (e_encode_address envB ?ans) :: (bytes, box_error) result"
  have ask: "handle_remote_get_actor envA (RefIndex aid) sa = Ret (pa, ?sa1, [OutFrame request b1])"
    using assms(1,4,7) by (simp add: handle_remote_get_actor_def send_tracked_def next_tag_def
        send_ipc_message_def carries_def sess_context_def hm_insert_def)
  have answer: "handle_ipc_message envB b1 sb =
      Ret (Ok (), snd (find_mailbox envB (as_local aid) sb), [OutFrame response b2])"
    using assms(4-8) by (simp add: handle_ipc_message_def carries_def ipc_node_message_def
        node_message_get_actor_by_index_def handle_node_message_def get_actor_result_def
        actor_ref_index_def Let_def case_prod_beta send_ipc_message_def get_actor_answer_def)
  have resolve: "handle_ipc_message envA2 b2 ?sa1 = Ret (Ok (), ?sa2, [OutResolve ?tx ?payload])"
    using assms(3,6,8) by (simp add: handle_ipc_message_def carries_def ipc_message_response_def
        handle_message_response_def message_response_new_def hm_remove_def tx_send_def
        response_result_def)
  have "found = ok_or (ActorNotFound (u64_to_string (as_local aid)))
      (reg_live (e_ops envB) (e_closed envB) (sess_registry sb) (as_local aid))"
    by (simp add: assms(5) find_mailbox_def case_prod_beta Let_def reg_get_def reg_live_def
        split: option.split)
  then have "await_address decode_address new_address (oneshot_recv (Some ?payload)) =
      (case reg_live (e_ops envB) (e_closed envB) (sess_registry sb) (as_local aid) of
         Some mb \<Rightarrow> map_err SDecodeError (new_address (as_local (e_index_of envB mb)))
       | None \<Rightarrow> Err (RemoteNodeError (report (session_error_box
           (ActorNotFound (u64_to_string (as_local aid)))))))"
    using assms(9) by (cases "reg_live (e_ops envB) (e_closed envB) (sess_registry sb) (as_local aid)")
      (simp_all add: await_address_def oneshot_recv_def get_actor_answer_def result_address_ok_def
        result_address_err_def)
  with ask answer resolve show ?thesis
    by (intro exI [of _ ?sa1] exI [of _ ?sa2] exI [of _ ?payload] exI conjI) simp_all
qed

definition ex_request :: ipc_message where
  "ex_request = ipc_node_message (node_message_get_actor_by_index 5 0)"

definition ex_response :: ipc_message where
  "ex_response = ipc_message_response (message_response_new 0 (Ok [2]))"

theorem remote_get_actor_end_to_end_witness:
  "\<exists>sa1 sa2 sb1 payload.
    handle_remote_get_actor (ex_env 7) (RefIndex (actor_id_new 5))
      (sess_post_start (actor_id_new 3) (sess_new hm_new)) =
      Ret (\<lparr>px_session = actor_id_new 3\<rparr>, sa1, [OutFrame ex_request [1]]) \<and>
    handle_ipc_message ((ex_env 0)\<lparr>e_decode := \<lambda>_. Ok ex_request\<rparr>) [1]
      (sess_post_start (actor_id_new 4) (sess_new [(5, 5)])) =
      Ret (Ok (), sb1, [OutFrame ex_response [1]]) \<and>
    handle_ipc_message ((ex_env 7)\<lparr>e_decode := \<lambda>_. Ok ex_response\<rparr>) [1] sa1 =
      Ret (Ok (), sa2, [OutResolve 7 payload]) \<and>
    await_address (\<lambda>_. Ok (result_address_ok 5)) (\<lambda>i. Ok (actor_id_new_remote i 3))
      (oneshot_recv (Some payload)) = Ok (actor_id_new_remote 5 3)"
proof -
  let ?envB = "(ex_env 0)\<lparr>e_decode := \<lambda>_. Ok ex_request\<rparr>"
  let ?envA2 = "(ex_env 7)\<lparr>e_decode := \<lambda>_. Ok ex_response\<rparr>"
  let ?sa = "sess_post_start (actor_id_new 3) (sess_new hm_new) :: ((u64, nat) hash_map, nat) session"
  let ?sb = "sess_post_start (actor_id_new 4) (sess_new [(5, 5)]) :: ((u64, nat) hash_map, nat) session"
  have found: "fst (find_mailbox ?envB (as_local (actor_id_new 5)) ?sb) = Ok 5"
    by (simp add: ex_env_def find_mailbox_def reg_get_def hm_ops_def hm_get_def sess_post_start_def
        sess_new_def)
  have live: "reg_live (e_ops ?envB) (e_closed ?envB) (sess_registry ?sb) (as_local (actor_id_new 5))
      = Some 5"
    by (simp add: ex_env_def reg_live_def hm_ops_def hm_get_def sess_post_start_def sess_new_def)
  have answer: "get_actor_answer (e_index_of ?envB) (Ok 5) = result_address_ok 5"
    by (simp add: ex_env_def get_actor_answer_def)
  have sa: "sess_tag ?sa = 0" "sess_proxy ?sa = Some \<lparr>px_session = actor_id_new 3\<rparr>"
      "hm_ok (message_res_tx_map ?sa)"
    by (simp_all add: sess_post_start_def sess_new_def)
  have carries: "carries (ex_env 7) ?envB ex_request [1]" "carries ?envB ?envA2 ex_response [1]"
    by (simp_all add: carries_def ex_env_def)
  have env: "\<not> e_tx_closed ?envA2 (e_new_tx (ex_env 7))" "e_encode_address ?envB r = [2]"
      "e_new_tx (ex_env 7) = 7" "e_index_of (ex_env 0) 5 = actor_id_new 5" for r
    by (simp_all add: ex_env_def)
  show ?thesis
    using remote_get_actor_end_to_end [of ?sa "\<lparr>px_session = actor_id_new 3\<rparr>" ?envA2 "ex_env 7"
        ex_request "actor_id_new 5" "Ok 5" ?envB ?sb ex_response "[1]" "[1]"
        "\<lambda>_. Ok (result_address_ok 5)" "\<lambda>i. Ok (actor_id_new_remote i 3)",
        OF sa(2,3) env(1) _ found [symmetric] _ carries]
    unfolding answer live sa(1) env(2)
    by (auto simp: ex_request_def ex_response_def env(3,4))
qed

end
