(* ===== verification/Observer.thy ===== *)
theory Observer
  imports Hash_Map Lifecycle
begin

text \<open>
  The observer pattern (\<open>acktor/src/observer.rs\<close>): a subject keeps a set of recipients per event
  type. Recipients are compared and hashed by their index (\<open>address/recipient.rs\<close>), so a recipient
  is its index here. \<open>send\<close> is the outcome of the send to a recipient during the call and \<open>closed\<close>
  what \<open>is_closed\<close> answers after the sends.
\<close>

type_synonym observer_set = "actor_id hash_set"

definition register_observer :: "observer_set \<Rightarrow> actor_id \<Rightarrow> observer_set" where
  "register_observer obs r = snd (hs_insert obs r)"

definition unregister_observer :: "observer_set \<Rightarrow> actor_id \<Rightarrow> observer_set" where
  "unregister_observer obs r = snd (hs_remove obs r)"

text \<open>The two notification macros: every observer gets one send; any failure (of \<open>do_send\<close>), or a
  failure because of a closed mailbox (of \<open>try_do_send\<close>), asks for a clean-up.\<close>

definition notify_observers ::
  "(actor_id \<Rightarrow> 'ev \<Rightarrow> (unit, 'ev send_error) result) \<Rightarrow> (actor_id \<Rightarrow> bool) \<Rightarrow> observer_set \<Rightarrow> 'ev \<Rightarrow>
   (actor_id \<times> 'ev) list \<times> observer_set" where
  "notify_observers send closed obs event =
     (let should_clean = (\<exists>r \<in> set obs. \<not> is_ok (send r event))
      in (map (\<lambda>r. (r, event)) obs,
          if should_clean then hs_retain (\<lambda>r. \<not> closed r) obs else obs))"

fun send_closed :: "(unit, 'ev send_error) result \<Rightarrow> bool" where
  "send_closed (Err (SendClosed _)) \<longleftrightarrow> True"
| "send_closed _ \<longleftrightarrow> False"

definition try_notify_observers ::
  "(actor_id \<Rightarrow> 'ev \<Rightarrow> (unit, 'ev send_error) result) \<Rightarrow> (actor_id \<Rightarrow> bool) \<Rightarrow> observer_set \<Rightarrow> 'ev \<Rightarrow>
   (actor_id \<times> 'ev) list \<times> observer_set" where
  "try_notify_observers send closed obs event =
     (let should_clean = (\<exists>r \<in> set obs. send_closed (send r event))
      in (map (\<lambda>r. (r, event)) obs,
          if should_clean then hs_retain (\<lambda>r. \<not> closed r) obs else obs))"

datatype observer_cmd = ObserverRegister actor_id | ObserverUnregister actor_id

fun observer_handle :: "actor_id \<Rightarrow> observer_cmd \<Rightarrow> observer_set \<Rightarrow> observer_set" where
  "observer_handle self (ObserverRegister r) obs =
     (if r = self then obs else register_observer obs r)"
| "observer_handle self (ObserverUnregister r) obs = unregister_observer obs r"

section \<open>Runs of a subject\<close>

text \<open>What happens to the set over time: commands and notifications, each notification with the
  outcomes of its sends.\<close>

datatype 'ev subject_step =
  StepCmd observer_cmd
| StepNotify 'ev "actor_id \<Rightarrow> 'ev \<Rightarrow> (unit, 'ev send_error) result" "actor_id \<Rightarrow> bool"
| StepTryNotify 'ev "actor_id \<Rightarrow> 'ev \<Rightarrow> (unit, 'ev send_error) result" "actor_id \<Rightarrow> bool"

fun subject_run :: "actor_id \<Rightarrow> 'ev subject_step list \<Rightarrow> observer_set \<Rightarrow> (actor_id \<times> 'ev) list \<times> observer_set"
where
  "subject_run self [] obs = ([], obs)"
| "subject_run self (StepCmd c # ss) obs = subject_run self ss (observer_handle self c obs)"
| "subject_run self (StepNotify ev send closed # ss) obs =
     (let (out, obs') = notify_observers send closed obs ev;
          (rest, obs'') = subject_run self ss obs'
      in (out @ rest, obs''))"
| "subject_run self (StepTryNotify ev send closed # ss) obs =
     (let (out, obs') = try_notify_observers send closed obs ev;
          (rest, obs'') = subject_run self ss obs'
      in (out @ rest, obs''))"

lemmas observer_defs = register_observer_def unregister_observer_def notify_observers_def
  try_notify_observers_def hs_retain_def Let_def

lemma notify_subset:
  "set (snd (notify_observers send closed obs ev)) \<subseteq> set obs"
  "set (snd (try_notify_observers send closed obs ev)) \<subseteq> set obs"
  by (auto simp: observer_defs)

lemma subject_run_inv:
  assumes "distinct obs" and "self \<notin> set obs"
  shows "distinct (snd (subject_run self ss obs)) \<and> self \<notin> set (snd (subject_run self ss obs)) \<and>
    (\<forall>(r, ev) \<in> set (fst (subject_run self ss obs)). r \<noteq> self)"
  using assms
proof (induction self ss obs rule: subject_run.induct)
  case (2 self c ss obs)
  then show ?case
    by (cases c) (auto simp: observer_defs)
next
  case (3 self ev send closed ss obs)
  obtain out obs' where n: "notify_observers send closed obs ev = (out, obs')"
    by (cases "notify_observers send closed obs ev")
  then have "distinct obs'" "self \<notin> set obs'" "\<forall>(r, ev) \<in> set out. r \<noteq> self"
    using "3.prems" by (auto simp: observer_defs split: if_splits)
  with "3.IH" [OF n [symmetric] refl] n show ?case by (auto simp: case_prod_beta)
next
  case (4 self ev send closed ss obs)
  obtain out obs' where n: "try_notify_observers send closed obs ev = (out, obs')"
    by (cases "try_notify_observers send closed obs ev")
  then have "distinct obs'" "self \<notin> set obs'" "\<forall>(r, ev) \<in> set out. r \<noteq> self"
    using "4.prems" by (auto simp: observer_defs split: if_splits)
  with "4.IH" [OF n [symmetric] refl] n show ?case by (auto simp: case_prod_beta)
qed simp

section \<open>Properties\<close>

text \<open>A notification sends the event once to each registered observer and to nobody else. It drops
  an observer only if that observer is closed, and when a send to a closed mailbox is the only way
  to fail, it drops every observer that was closed, so that no closed observer outlives the first
  notification after its death.\<close>

theorem notify_observers_exact:
  assumes "distinct obs"
    and "\<And>r. \<not> is_ok (send r ev) \<longleftrightarrow> closed r"
  shows "fst (notify_observers send closed obs ev) = map (\<lambda>r. (r, ev)) obs \<and>
    set (snd (notify_observers send closed obs ev)) = {r \<in> set obs. \<not> closed r} \<and>
    distinct (snd (notify_observers send closed obs ev)) \<and>
    distinct (fst (notify_observers send closed obs ev))"
  using assms by (auto simp: observer_defs distinct_map inj_on_def)

theorem notify_observers_exact_witness:
  "set (snd (notify_observers (\<lambda>r ev. if r = actor_id_new 2 then Err (SendClosed ev) else Ok ())
      (\<lambda>r. r = actor_id_new 2) [actor_id_new 1, actor_id_new 2] ''e'')) = {actor_id_new 1}"
  using notify_observers_exact [of "[actor_id_new 1, actor_id_new 2]"
      "\<lambda>r ev. if r = actor_id_new 2 then Err (SendClosed ev) else Ok ()" "''e''"
      "\<lambda>r. r = actor_id_new 2"]
  by (auto simp: actor_id_new_def)

text \<open>Whatever commands a subject gets and whatever events it publishes, it never becomes its own
  observer, never holds an observer twice, and never sends an event to itself.\<close>

theorem subject_never_observes_itself:
  "self \<notin> set (snd (subject_run self ss [])) \<and> distinct (snd (subject_run self ss [])) \<and>
   (\<forall>ev. (self, ev) \<notin> set (fst (subject_run self ss [])))"
  using subject_run_inv [of "[]" self ss] by fastforce

end
