(* ===== verification/Node.thy ===== *)
theory Node
  imports Double_Map_Iter Actor_Mgr Session_Run Observer "HOL-Library.Multiset"
begin

text \<open>
  The node actor (\<open>acktor-ipc/src/node.rs\<close>, \<open>node/context.rs\<close>, \<open>node/command.rs\<close>, \<open>node/event.rs\<close>): its
  builder, its hooks and handlers, and the message loop that selects between the mailbox and one
  accept task per listener. Addresses and recipients compare by their index, so they are indices
  here. What the node asks of its surroundings during one step (connecting, spawning a session,
  the answers of the actor manager and of a session, the sends to observers) is the record
  \<open>node_env\<close>; a run is the list of the steps the loop selects.
\<close>

section \<open>State\<close>

datatype node_event = SessionCreated actor_id string | SessionDeleted actor_id

record ('m, 'l, 'f, 'jh) node =
  listener_labels :: "string hash_set"
  listeners :: "'l list"
  node_registry :: 'm
  node_mgr :: "actor_id option"
  sessions :: "(actor_id, string, actor_id) double_map"
  children :: "(actor_id, 'jh) hash_map"
  observers :: observer_set
  node_factories :: "(u64, 'f) hash_map option"
  node_actor_labels :: "(string, u64) hash_map option"

definition node_default :: "('m, u64, 'mb) kv_ops \<Rightarrow> ('m, 'l, 'f, 'jh) node" where
  "node_default ops =
     \<lparr>listener_labels = [], listeners = [], node_registry = reg_new ops, node_mgr = None,
      sessions = dm_new, children = hm_new, observers = [], node_factories = Some hm_new,
      node_actor_labels = Some hm_new\<rparr>"

record 'l accept_task =
  at_label :: string
  at_listener :: 'l

record ('l, 'mb) node_ctx =
  nc_label :: string
  nc_state :: actor_state
  nc_doorplate :: actor_id
  nc_mailbox :: "'mb option"
  accept_tasks :: "'l accept_task list"
  nc_log :: "(unit, actor_id, node_error) notification list"

definition node_ctx_new :: "actor_id \<Rightarrow> 'mb \<Rightarrow> string \<Rightarrow> ('l, 'mb) node_ctx" where
  "node_ctx_new index mb label =
     \<lparr>nc_label = label, nc_state = Unstarted, nc_doorplate = index, nc_mailbox = Some mb,
      accept_tasks = [], nc_log = []\<rparr>"

definition nc_set_state :: "actor_state \<Rightarrow> ('l, 'mb) node_ctx \<Rightarrow> ('l, 'mb) node_ctx" where
  "nc_set_state st c = c\<lparr>nc_state := st\<rparr>"

definition nc_take_mailbox :: "('l, 'mb) node_ctx \<Rightarrow> 'mb option \<times> ('l, 'mb) node_ctx" where
  "nc_take_mailbox c = (nc_mailbox c, c\<lparr>nc_mailbox := None\<rparr>)"

text \<open>A node has no supervisor: the provided \<open>try_notify_supervisor\<close> only logs.\<close>

definition nc_try_notify ::
  "(actor_id, node_error) supervision_event \<Rightarrow> ('l, 'mb) node_ctx \<Rightarrow> ('l, 'mb) node_ctx" where
  "nc_try_notify ev c = c\<lparr>nc_log := nc_log c @ notify_log False None ev\<rparr>"

definition node_ctx_ops :: "(('l, 'mb) node_ctx, actor_id, node_error, 'mb) cx_ops" where
  "node_ctx_ops = \<lparr>cx_state = nc_state, cx_set_state = nc_set_state, cx_address = nc_doorplate,
     cx_take_mailbox = nc_take_mailbox, cx_try_notify = nc_try_notify\<rparr>"

interpretation node_context: actor_context node_ctx_ops
  by unfold_locales (simp_all add: node_ctx_ops_def nc_set_state_def nc_take_mailbox_def
      nc_try_notify_def)

section \<open>Environment and effects\<close>

datatype session_request =
  AskCreateActor u64 string "string option"
| AskGetActor actor_ref

record ('c, 'jh, 'mb) node_env =
  ne_connect :: "string \<Rightarrow> ('c, io_error) result"
  ne_peer :: "'c \<Rightarrow> string"
  ne_spawn_session :: "string \<Rightarrow> (actor_id \<times> 'jh, session_error) result"
  ne_send :: "actor_id \<Rightarrow> node_event \<Rightarrow> (unit, node_event send_error) result"
  ne_closed :: "actor_id \<Rightarrow> bool"
  ne_ask_add :: "actor_id \<Rightarrow> string \<Rightarrow> 'mb \<Rightarrow> ((bool, recv_error) result, box_error) result"
  ne_ask_remove :: "actor_id \<Rightarrow> actor_ref \<Rightarrow> ((bool, recv_error) result, box_error) result"
  ne_ask_session :: "actor_id \<Rightarrow> session_request \<Rightarrow>
    (((actor_id, session_error) result, recv_error) result, box_error) result"

text \<open>What a step does outside the node: a session spawned on a connection under the actor manager
  and the node as its supervisor, an event sent to an observer, the actor manager started, a child
  terminated, an accept task started, aborted or completed.\<close>

datatype ('c, 'jh, 'm, 'f) node_out =
  NSpawnSession string 'c actor_id actor_id
| NNotify actor_id node_event
| NStartMgr "('m, 'f) actor_mgr"
| NTerminate actor_id 'jh
| NAccept string
| NAbort string
| NAcceptDone string

section \<open>Builder\<close>

definition with_listener ::
  "('l \<Rightarrow> string) \<Rightarrow> 'l \<Rightarrow> ('m, 'l, 'f, 'jh) node \<Rightarrow> ('m, 'l, 'f, 'jh) node" where
  "with_listener ep listener s =
     (let s1 = if hs_contains (listener_labels s) (ep listener)
               then s\<lparr>listeners := filter (\<lambda>l. ep l \<noteq> ep listener) (listeners s)\<rparr>
               else s\<lparr>listener_labels := snd (hs_insert (listener_labels s) (ep listener))\<rparr>
      in s1\<lparr>listeners := listeners s1 @ [listener]\<rparr>)"

definition with_actor ::
  "('m, u64, 'mb) kv_ops \<Rightarrow> ('mb \<Rightarrow> actor_id) \<Rightarrow> string \<Rightarrow> 'mb \<Rightarrow> ('m, 'l, 'f, 'jh) node \<Rightarrow>
   ('m, 'l, 'f, 'jh) node" where
  "with_actor ops index_of label actor s =
     (case node_actor_labels s of
        None \<Rightarrow> s
      | Some labels \<Rightarrow>
          if hm_contains_key labels label then s
          else let (inserted, reg) = reg_insert ops index_of (node_registry s) actor
               in if inserted
                  then s\<lparr>node_registry := reg, node_actor_labels :=
                           Some (snd (hm_insert labels label (as_local (index_of actor))))\<rparr>
                  else s\<lparr>node_registry := reg\<rparr>)"

definition with_factory ::
  "u64 \<Rightarrow> 'f \<Rightarrow> ('m, 'l, 'f, 'jh) node \<Rightarrow> ('m, 'l, 'f, 'jh) node" where
  "with_factory type_id factory s =
     (case node_factories s of
        None \<Rightarrow> s
      | Some fs \<Rightarrow> s\<lparr>node_factories := Some (snd (hm_insert fs type_id factory))\<rparr>)"

datatype ('l, 'mb, 'f) node_build = BListener 'l | BActor string 'mb | BFactory u64 'f

fun node_build_step ::
  "('m, u64, 'mb) kv_ops \<Rightarrow> ('mb \<Rightarrow> actor_id) \<Rightarrow> ('l \<Rightarrow> string) \<Rightarrow> ('l, 'mb, 'f) node_build \<Rightarrow>
   ('m, 'l, 'f, 'jh) node \<Rightarrow> ('m, 'l, 'f, 'jh) node" where
  "node_build_step ops ix ep (BListener l) s = with_listener ep l s"
| "node_build_step ops ix ep (BActor label a) s = with_actor ops ix label a s"
| "node_build_step ops ix ep (BFactory t f) s = with_factory t f s"

section \<open>Sessions\<close>

definition create_session ::
  "('c, 'jh, 'mb) node_env \<Rightarrow> actor_id \<Rightarrow> 'c \<Rightarrow> string option \<Rightarrow> ('m, 'l, 'f, 'jh) node \<Rightarrow>
   (actor_id, node_error) result \<times> ('m, 'l, 'f, 'jh) node \<times> ('c, 'jh, 'm, 'f) node_out list" where
  "create_session env self connection session_label s =
     (let endpoint = ne_peer env connection;
          label = (case session_label of Some l \<Rightarrow> l | None \<Rightarrow> endpoint)
      in if dm_contains_key2 (sessions s) label
         then (Err (CreateSessionFailed (box_str
                 (''session with label '' @ [CHR 0x27] @ label @ [CHR 0x27] @ '' already exists''))), s, [])
         else
           (case node_mgr s of
              None \<Rightarrow> (Err (CreateSessionFailed (box_str ''actor manager does not exist'')), s, [])
            | Some mgr \<Rightarrow>
                (case ne_spawn_session env endpoint of
                   Err e \<Rightarrow> (Err (CreateSessionFailed (session_error_box e)), s, [])
                 | Ok (address, join_handle) \<Rightarrow>
                     let (_, sess) = dm_insert (sessions s) address label address;
                         (_, ch) = hm_insert (children s) address join_handle;
                         (sent, obs) = notify_observers (ne_send env) (ne_closed env) (observers s)
                           (SessionCreated address label)
                     in (Ok address, s\<lparr>sessions := sess, children := ch, observers := obs\<rparr>,
                         NSpawnSession endpoint connection mgr self #
                           map (\<lambda>(r, ev). NNotify r ev) sent))))"

definition get_session ::
  "actor_ref \<Rightarrow> ('m, 'l, 'f, 'jh) node \<Rightarrow> (actor_id, node_error) result" where
  "get_session ref s =
     (case ref of
        RefIndex index \<Rightarrow>
          ok_or (SessionNotFound (actor_id_debug index)) (dm_get_by_key1 (sessions s) index)
      | RefLabel label \<Rightarrow> ok_or (SessionNotFound label) (dm_get_by_key2 (sessions s) label))"

section \<open>Hooks\<close>

definition node_post_start ::
  "(('m, 'f) actor_mgr \<Rightarrow> (actor_id \<times> 'jh, node_error) result) \<Rightarrow> ('m, 'l, 'f, 'jh) node \<Rightarrow>
   (unit, node_error) result \<times> ('m, 'l, 'f, 'jh) node \<times> ('c, 'jh, 'm, 'f) node_out list" where
  "node_post_start start_mgr s =
     (let facs = (case node_factories s of Some f \<Rightarrow> f | None \<Rightarrow> hm_new);
          labels = (case node_actor_labels s of Some l \<Rightarrow> l | None \<Rightarrow> hm_new);
          s1 = s\<lparr>node_factories := None, node_actor_labels := None\<rparr>;
          mgr = mgr_new (node_registry s1) labels facs
      in case start_mgr mgr of
           Err e \<Rightarrow> (Err e, s1, [])
         | Ok (address, join_handle) \<Rightarrow>
             (Ok (), s1\<lparr>children := snd (hm_insert (children s1) address join_handle),
                        node_mgr := Some address\<rparr>, [NStartMgr mgr]))"

text \<open>\<open>post_stop\<close> drains the children into calls of \<open>terminate_actor\<close> and awaits all of them: it returns
  when every call does. \<open>returns\<close> tells which calls do.\<close>

definition post_stop_calls :: "('m, 'l, 'f, 'jh) node \<Rightarrow> ('c, 'jh, 'm, 'f) node_out list" where
  "post_stop_calls s = map (\<lambda>(address, jh). NTerminate address jh) (children s)"

definition node_post_stop ::
  "(actor_id \<Rightarrow> 'jh \<Rightarrow> bool) \<Rightarrow> ('m, 'l, 'f, 'jh) node \<Rightarrow>
   ((unit, node_error) result \<times> ('m, 'l, 'f, 'jh) node \<times> ('c, 'jh, 'm, 'f) node_out list) option" where
  "node_post_stop returns s =
     (if list_all (\<lambda>(address, jh). returns address jh) (children s)
      then Some (Ok (), s\<lparr>children := hm_new\<rparr>, post_stop_calls s) else None)"

section \<open>Handlers\<close>

text \<open>The commands of \<open>node/command.rs\<close>, the supervision events of sessions, the observer commands of
  \<open>SubjectActor\<close> and the signals every actor handles.\<close>

datatype ('l, 'mb) node_cmd =
  NAddListener 'l
| NRemoveListener string
| NConnect string "string option"
| NAddActor string 'mb
| NRemoveActor actor_ref
| NRemoteCreateActor actor_ref u64 string "string option"
| NRemoteGetActor actor_ref actor_ref
| NSupervision "(actor_id, session_error) supervision_event"
| NObserver observer_cmd
| NSignal signal

datatype node_reply =
  ReplyBool bool
| ReplySession "(actor_id, node_error) result"
| ReplyFuture "(actor_id, node_error) result"
| ReplyUnit

definition handle_add_listener ::
  "('l \<Rightarrow> string) \<Rightarrow> 'l \<Rightarrow> ('m, 'l, 'f, 'jh) node \<Rightarrow> bool \<times> ('m, 'l, 'f, 'jh) node" where
  "handle_add_listener ep listener s =
     (let label = ep listener
      in if hs_contains (listener_labels s) label then (False, s)
         else (True, s\<lparr>listener_labels := snd (hs_insert (listener_labels s) label),
                        listeners := listeners s @ [listener]\<rparr>))"

definition abort_accept_task ::
  "string \<Rightarrow> ('l, 'mb) node_ctx \<Rightarrow> ('l, 'mb) node_ctx \<times> ('c, 'jh, 'm, 'f) node_out list" where
  "abort_accept_task label c =
     (c\<lparr>accept_tasks := filter (\<lambda>t. at_label t \<noteq> label) (accept_tasks c)\<rparr>,
      map (\<lambda>t. NAbort (at_label t)) (filter (\<lambda>t. at_label t = label) (accept_tasks c)))"

definition handle_remove_listener ::
  "string \<Rightarrow> ('m, 'l, 'f, 'jh) node \<Rightarrow> ('l, 'mb) node_ctx \<Rightarrow>
   bool \<times> ('m, 'l, 'f, 'jh) node \<times> ('l, 'mb) node_ctx \<times> ('c, 'jh, 'm, 'f) node_out list" where
  "handle_remove_listener label s c =
     (let (removed, labels) = hs_remove (listener_labels s) label;
          s' = s\<lparr>listener_labels := labels\<rparr>
      in if removed
         then let (c', out) = abort_accept_task label c in (True, s', c', out)
         else (False, s', c, []))"

definition handle_connect ::
  "('c, 'jh, 'mb) node_env \<Rightarrow> actor_id \<Rightarrow> string \<Rightarrow> string option \<Rightarrow> ('m, 'l, 'f, 'jh) node \<Rightarrow>
   (actor_id, node_error) result \<times> ('m, 'l, 'f, 'jh) node \<times> ('c, 'jh, 'm, 'f) node_out list" where
  "handle_connect env self endpoint session_label s =
     (case ne_connect env endpoint of
        Err e \<Rightarrow> (Err (ConnectFailed e), s, [])
      | Ok connection \<Rightarrow> create_session env self connection session_label s)"

fun ask_bool :: "((bool, recv_error) result, box_error) result \<Rightarrow> bool" where
  "ask_bool (Ok (Ok b)) = b"
| "ask_bool (Ok (Err _)) = False"
| "ask_bool (Err _) = False"

definition handle_node_add_actor ::
  "('c, 'jh, 'mb) node_env \<Rightarrow> string \<Rightarrow> 'mb \<Rightarrow> ('m, 'l, 'f, 'jh) node \<Rightarrow> bool" where
  "handle_node_add_actor env label a s =
     (case node_mgr s of None \<Rightarrow> False | Some mgr \<Rightarrow> ask_bool (ne_ask_add env mgr label a))"

definition handle_node_remove_actor ::
  "('c, 'jh, 'mb) node_env \<Rightarrow> actor_ref \<Rightarrow> ('m, 'l, 'f, 'jh) node \<Rightarrow> bool" where
  "handle_node_remove_actor env ref s =
     (case node_mgr s of None \<Rightarrow> False | Some mgr \<Rightarrow> ask_bool (ne_ask_remove env mgr ref))"

text \<open>The future of both remote commands: the session is resolved by the handler, the request is sent
  and awaited by the future.\<close>

definition forward_to_session ::
  "('c, 'jh, 'mb) node_env \<Rightarrow> session_request \<Rightarrow> (actor_id, node_error) result \<Rightarrow>
   (actor_id, node_error) result" where
  "forward_to_session env req session =
     (case session of
        Err e \<Rightarrow> Err e
      | Ok address \<Rightarrow>
          (case ne_ask_session env address req of
             Err e \<Rightarrow> Err (NSendError e)
           | Ok (Err e) \<Rightarrow> Err (NRecvError e)
           | Ok (Ok r) \<Rightarrow> map_err NSessionError r))"

definition handle_supervision ::
  "('c, 'jh, 'mb) node_env \<Rightarrow> (actor_id, session_error) supervision_event \<Rightarrow>
   ('m, 'l, 'f, 'jh) node \<Rightarrow> ('m, 'l, 'f, 'jh) node \<times> ('c, 'jh, 'm, 'f) node_out list" where
  "handle_supervision env msg s =
     (case msg of
        Warn actor e \<Rightarrow> (s, [])
      | Terminated session e \<Rightarrow>
          let sess = dm_retain (\<lambda>_ _ v. (v \<noteq> session, v)) (sessions s);
              (_, ch) = hm_remove (children s) session;
              (sent, obs) = notify_observers (ne_send env) (ne_closed env) (observers s)
                (SessionDeleted session)
          in (s\<lparr>sessions := sess, children := ch, observers := obs\<rparr>,
              map (\<lambda>(r, ev). NNotify r ev) sent)
      | _ \<Rightarrow> (s, []))"

fun node_handle ::
  "('l \<Rightarrow> string) \<Rightarrow> ('c, 'jh, 'mb) node_env \<Rightarrow> ('l, 'mb) node_cmd \<Rightarrow> ('m, 'l, 'f, 'jh) node \<Rightarrow>
   ('l, 'mbx) node_ctx \<Rightarrow>
   node_reply \<times> ('m, 'l, 'f, 'jh) node \<times> ('l, 'mbx) node_ctx \<times> ('c, 'jh, 'm, 'f) node_out list" where
  "node_handle ep env (NAddListener l) s c =
     (let (b, s') = handle_add_listener ep l s in (ReplyBool b, s', c, []))"
| "node_handle ep env (NRemoveListener label) s c =
     (let (b, s', c', out) = handle_remove_listener label s c in (ReplyBool b, s', c', out))"
| "node_handle ep env (NConnect endpoint label) s c =
     (let (r, s', out) = handle_connect env (nc_doorplate c) endpoint label s
      in (ReplySession r, s', c, out))"
| "node_handle ep env (NAddActor label a) s c =
     (ReplyBool (handle_node_add_actor env label a s), s, c, [])"
| "node_handle ep env (NRemoveActor ref) s c =
     (ReplyBool (handle_node_remove_actor env ref s), s, c, [])"
| "node_handle ep env (NRemoteCreateActor session t label cfg) s c =
     (ReplyFuture (forward_to_session env (AskCreateActor t label cfg) (get_session session s)), s, c, [])"
| "node_handle ep env (NRemoteGetActor session actor) s c =
     (ReplyFuture (forward_to_session env (AskGetActor actor) (get_session session s)), s, c, [])"
| "node_handle ep env (NSupervision ev) s c =
     (let (s', out) = handle_supervision env ev s in (ReplyUnit, s', c, out))"
| "node_handle ep env (NObserver cmd) s c =
     (ReplyUnit, s\<lparr>observers := observer_handle (nc_doorplate c) cmd (observers s)\<rparr>, c, [])"
| "node_handle ep env (NSignal sig) s c = (ReplyUnit, s, signal_handle node_ctx_ops sig c, [])"

section \<open>The message loop\<close>

text \<open>The head of \<open>recv_or_accept\<close>: tasks of removed listeners are aborted and every new listener gets
  a task.\<close>

definition accept_phase ::
  "('l \<Rightarrow> string) \<Rightarrow> ('m, 'l, 'f, 'jh) node \<Rightarrow> ('l, 'mb) node_ctx \<Rightarrow>
   ('m, 'l, 'f, 'jh) node \<times> ('l, 'mb) node_ctx \<times> ('c, 'jh, 'm, 'f) node_out list" where
  "accept_phase ep s c =
     (let known = (\<lambda>t. hs_contains (listener_labels s) (at_label t));
          new = map (\<lambda>l. \<lparr>at_label = ep l, at_listener = l\<rparr>) (listeners s)
      in (s\<lparr>listeners := []\<rparr>,
          c\<lparr>accept_tasks := filter known (accept_tasks c) @ new\<rparr>,
          map (\<lambda>t. NAbort (at_label t)) (filter (\<lambda>t. \<not> known t) (accept_tasks c)) @
          map (\<lambda>t. NAccept (at_label t)) new))"

text \<open>What \<open>select!\<close> yields: an envelope or the end of the mailbox, or the completion of the accept task
  at a position of the list, normally or by a panic.\<close>

datatype ('l, 'mb, 'c) node_input =
  NEnvelope "('l, 'mb) node_cmd"
| NMailboxDropped
| NAccepted nat "('c, io_error) result"
| NListenerPanicked nat

definition list_remove :: "nat \<Rightarrow> 'a list \<Rightarrow> 'a list" where
  "list_remove i xs = take i xs @ drop (Suc i) xs"

fun node_select ::
  "('l \<Rightarrow> string) \<Rightarrow> ('c, 'jh, 'mb) node_env \<Rightarrow> ('l, 'mb, 'c) node_input \<Rightarrow>
   ('m, 'l, 'f, 'jh) node \<Rightarrow> ('l, 'mbx) node_ctx \<Rightarrow>
   (('m, 'l, 'f, 'jh) node \<times> ('l, 'mbx) node_ctx \<times> ('c, 'jh, 'm, 'f) node_out list) outcome" where
  "node_select ep env (NEnvelope cmd) s c =
     (let (_, s', c', out) = node_handle ep env cmd s c in Ret (s', c', out))"
| "node_select ep env NMailboxDropped s c = Ret (s, nc_set_state Stopped c, [])"
| "node_select ep env (NAccepted i result) s c =
     (if i < length (accept_tasks c)
      then let task = accept_tasks c ! i;
               c' = c\<lparr>accept_tasks := list_remove i (accept_tasks c) @
                 [\<lparr>at_label = at_label task, at_listener = at_listener task\<rparr>]\<rparr>;
               out = [NAcceptDone (at_label task), NAccept (at_label task)]
           in (case result of
                 Ok connection \<Rightarrow>
                   let (_, s', out') = create_session env (nc_doorplate c) connection None s
                   in Ret (s', c', out @ out')
               | Err e \<Rightarrow> Ret (s, c', out))
      else Panic ''removal index should be < len'')"
| "node_select ep env (NListenerPanicked i) s c =
     (if i < length (accept_tasks c)
      then let label = at_label (accept_tasks c ! i)
           in Ret (s\<lparr>listener_labels := snd (hs_remove (listener_labels s) label)\<rparr>,
                   nc_set_state Stopped (c\<lparr>accept_tasks := list_remove i (accept_tasks c)\<rparr>),
                   [NAcceptDone label])
      else Panic ''removal index should be < len'')"

text \<open>The end of the loop drains the accept tasks.\<close>

definition node_loop_end ::
  "('l, 'mb) node_ctx \<Rightarrow> ('l, 'mb) node_ctx \<times> ('c, 'jh, 'm, 'f) node_out list" where
  "node_loop_end c =
     (c\<lparr>accept_tasks := []\<rparr>, map (\<lambda>t. NAbort (at_label t)) (accept_tasks c))"

text \<open>The loop on the inputs it selects; a list that ends while the node is running is a node that
  still waits, with no result yet.\<close>

fun node_run_loop ::
  "('l \<Rightarrow> string) \<Rightarrow> (('c, 'jh, 'mb) node_env \<times> ('l, 'mb, 'c) node_input) list \<Rightarrow>
   ('m, 'l, 'f, 'jh) node \<Rightarrow> ('l, 'mbx) node_ctx \<Rightarrow>
   (unit, node_error) result outcome option \<times> ('m, 'l, 'f, 'jh) node \<times> ('l, 'mbx) node_ctx \<times>
     ('c, 'jh, 'm, 'f) node_out list" where
  "node_run_loop ep [] s c =
     (if nc_state c = Running then (None, s, c, [])
      else let (c', out) = node_loop_end c in (Some (Ret (Ok ())), s, c', out))"
| "node_run_loop ep ((env, i) # evs) s c =
     (if nc_state c = Running
      then let (s1, c1, out1) = accept_phase ep s c
           in case node_select ep env i s1 c1 of
                Panic p \<Rightarrow> (Some (Panic p), s1, c1, out1)
              | Ret (s2, c2, out2) \<Rightarrow>
                  let (r, s3, c3, out3) = node_run_loop ep evs s2 c2
                  in (r, s3, c3, out1 @ out2 @ out3)
      else let (c', out) = node_loop_end c in (Some (Ret (Ok ())), s, c', out))"

section \<open>Invariants\<close>

text \<open>Every session is filed under its own index and a unique label, and its task handle is kept.\<close>

definition node_sessions_ok :: "('m, 'l, 'f, 'jh) node \<Rightarrow> bool" where
  "node_sessions_ok s \<longleftrightarrow> dm_inv (sessions s) \<and> hm_ok (children s) \<and> distinct (observers s) \<and>
     (\<forall>a l v. hm_get (primary (sessions s)) a = Some (l, v) \<longrightarrow> v = a \<and> hm_get (children s) a \<noteq> None)"

definition session_view :: "('m, 'l, 'f, 'jh) node \<Rightarrow> (actor_id \<times> string) set" where
  "session_view s = {(a, l). \<exists>v. hm_get (primary (sessions s)) a = Some (l, v)}"

text \<open>Every listener label has exactly one listener, which waits to be spawned or sits in its accept
  task.\<close>

definition listeners_ok :: "('l \<Rightarrow> string) \<Rightarrow> ('m, 'l, 'f, 'jh) node \<Rightarrow> ('l, 'mb) node_ctx \<Rightarrow> bool" where
  "listeners_ok ep s c \<longleftrightarrow> distinct (listener_labels s) \<and>
     distinct (map at_label (accept_tasks c) @ map ep (listeners s)) \<and>
     set (map at_label (accept_tasks c) @ map ep (listeners s)) = set (listener_labels s) \<and>
     (\<forall>t \<in> set (accept_tasks c). ep (at_listener t) = at_label t)"

text \<open>What an observer sees, and the sessions it can tell from that.\<close>

fun events_to :: "actor_id \<Rightarrow> ('c, 'jh, 'm, 'f) node_out list \<Rightarrow> node_event list" where
  "events_to r [] = []"
| "events_to r (NNotify q ev # os) = (if q = r then ev # events_to r os else events_to r os)"
| "events_to r (_ # os) = events_to r os"

fun replay_event :: "(actor_id \<times> string) set \<Rightarrow> node_event \<Rightarrow> (actor_id \<times> string) set" where
  "replay_event S (SessionCreated a l) = insert (a, l) S"
| "replay_event S (SessionDeleted a) = {p \<in> S. fst p \<noteq> a}"

definition replay :: "(actor_id \<times> string) set \<Rightarrow> node_event list \<Rightarrow> (actor_id \<times> string) set" where
  "replay S evs = foldl replay_event S evs"

text \<open>Indices come from a global counter (\<open>next_actor_id\<close>), so a session spawned during a run has an
  index that none had before.\<close>

definition spawned :: "('c, 'jh, 'mb) node_env \<Rightarrow> actor_id set" where
  "spawned env = {a. \<exists>endpoint jh. ne_spawn_session env endpoint = Ok (a, jh)}"

fun fresh_run :: "actor_id set \<Rightarrow> (('c, 'jh, 'mb) node_env \<times> 'i) list \<Rightarrow> bool" where
  "fresh_run seen [] \<longleftrightarrow> True"
| "fresh_run seen ((env, i) # evs) \<longleftrightarrow>
     spawned env \<inter> seen = {} \<and> fresh_run (seen \<union> spawned env) evs"

subsection \<open>Sessions\<close>

lemma events_to_append [simp]: "events_to r (xs @ ys) = events_to r xs @ events_to r ys"
proof (induction xs)
  case (Cons x xs)
  then show ?case by (cases x) simp_all
qed simp

lemma events_to_sent:
  "distinct obs \<Longrightarrow> events_to r (map (\<lambda>(q, ev). NNotify q ev) (map (\<lambda>q. (q, ev)) obs)) =
     (if r \<in> set obs then [ev] else [])"
  by (induction obs) auto

lemma events_to_tasks [simp]:
  "events_to r (map (\<lambda>t. NAbort (f t)) ts) = []" "events_to r (map (\<lambda>t. NAccept (f t)) ts) = []"
  by (induction ts) simp_all

lemma replay_append: "replay S (xs @ ys) = replay (replay S xs) ys"
  by (simp add: replay_def)

lemma notify_fst: "fst (notify_observers send closed obs ev) = map (\<lambda>r. (r, ev)) obs"
  by (simp add: notify_observers_def Let_def)

lemma notify_distinct: "distinct obs \<Longrightarrow> distinct (snd (notify_observers send closed obs ev))"
  by (simp add: observer_defs)

lemma notify_keeps: "r \<in> set obs \<Longrightarrow> \<not> closed r \<Longrightarrow> r \<in> set (snd (notify_observers send closed obs ev))"
  by (simp add: observer_defs)

definition session_label_of ::
  "('c, 'jh, 'mb) node_env \<Rightarrow> 'c \<Rightarrow> string option \<Rightarrow> string" where
  "session_label_of env connection session_label =
     (case session_label of Some l \<Rightarrow> l | None \<Rightarrow> ne_peer env connection)"

text \<open>A session is created exactly when the label is free, the manager is there and the spawn
  succeeds.\<close>

lemma create_session_cases:
  obtains (ok) a jh mgr where
    "ne_spawn_session env (ne_peer env conn) = Ok (a, jh)"
    "hm_get (secondary (sessions s)) (session_label_of env conn lbl) = None" "node_mgr s = Some mgr"
    "create_session env self conn lbl s = (Ok a,
       s\<lparr>sessions := snd (dm_insert (sessions s) a (session_label_of env conn lbl) a),
         children := hm_put (children s) a jh,
         observers := snd (notify_observers (ne_send env) (ne_closed env) (observers s)
           (SessionCreated a (session_label_of env conn lbl)))\<rparr>,
       NSpawnSession (ne_peer env conn) conn mgr self # map (\<lambda>(r, ev). NNotify r ev)
         (map (\<lambda>r. (r, SessionCreated a (session_label_of env conn lbl))) (observers s)))"
  | (err) e where "create_session env self conn lbl s = (Err e, s, [])"
proof (cases "\<exists>e. create_session env self conn lbl s = (Err e, s, [])")
  case False
  let ?l = "session_label_of env conn lbl"
  have free: "hm_get (secondary (sessions s)) ?l = None"
    using False by (auto simp: create_session_def session_label_of_def dm_contains_key2_def
        hm_contains_key_def Let_def split: if_splits)
  obtain mgr where mgr: "node_mgr s = Some mgr"
    using False free by (cases "node_mgr s") (auto simp: create_session_def session_label_of_def
        dm_contains_key2_def hm_contains_key_def Let_def)
  obtain a jh where sp: "ne_spawn_session env (ne_peer env conn) = Ok (a, jh)"
    using False free mgr by (cases "ne_spawn_session env (ne_peer env conn)")
      (auto simp: create_session_def session_label_of_def dm_contains_key2_def hm_contains_key_def Let_def)
  show thesis
    using free mgr sp by (intro ok [OF sp free mgr])
      (simp add: create_session_def session_label_of_def dm_contains_key2_def
        hm_contains_key_def hm_insert_def Let_def case_prod_beta notify_fst)
qed (use err in blast)

text \<open>The comment at the insertion: it never fails.\<close>

lemma insert_fresh:
  assumes "hm_get (primary m) a = None" and "hm_get (secondary m) l = None"
  shows "dm_insert m a l v = (Ok None,
    m\<lparr>secondary := hm_put (secondary m) l a, primary := hm_put (primary m) a (l, v)\<rparr>)"
  using assms by (simp add: dm_insert_def dm_op_defs)

lemma session_view_insert:
  assumes "hm_get (primary (sessions s)) a = None" and "hm_get (secondary (sessions s)) l = None"
    and "sessions s' = snd (dm_insert (sessions s) a l a)"
  shows "session_view s' = insert (a, l) (session_view s)"
  using assms by (auto simp: session_view_def insert_fresh split: if_splits)

text \<open>What a step has to keep for the replay: \<open>r\<close> is an observer that stays open.\<close>

definition replays :: "actor_id \<Rightarrow> ('m, 'l, 'f, 'jh) node \<Rightarrow> ('c, 'jh, 'm, 'f) node_out list \<Rightarrow>
    ('m, 'l, 'f, 'jh) node \<Rightarrow> bool" where
  "replays r s out s' \<longleftrightarrow> node_sessions_ok s' \<and> r \<in> set (observers s') \<and>
     session_view s' = replay (session_view s) (events_to r out)"

lemma create_session_replays:
  assumes "node_sessions_ok s" and "r \<in> set (observers s)" and "\<not> ne_closed env r"
    and "\<forall>a \<in> spawned env. hm_get (primary (sessions s)) a = None"
  shows "replays r s (snd (snd (create_session env self conn lbl s)))
      (fst (snd (create_session env self conn lbl s)))"
    and "fst ` session_view (fst (snd (create_session env self conn lbl s))) \<subseteq>
      fst ` session_view s \<union> spawned env"
proof -
  show "replays r s (snd (snd (create_session env self conn lbl s)))
      (fst (snd (create_session env self conn lbl s)))"
  proof (cases rule: create_session_cases [of env conn s lbl self])
    case (ok a jh mgr)
    let ?l = "session_label_of env conn lbl"
    have fresh: "hm_get (primary (sessions s)) a = None"
      using ok(1) assms(4) by (auto simp: spawned_def)
    have "node_sessions_ok (fst (snd (create_session env self conn lbl s)))"
      using assms(1) fresh ok(2) by (auto simp: node_sessions_ok_def ok(4) dm_inv_put_fresh
          insert_fresh notify_distinct)
    moreover have "distinct (observers s)" using assms(1) by (simp add: node_sessions_ok_def)
    ultimately show ?thesis
      using fresh ok(2) assms(2,3) by (simp add: replays_def ok(4) events_to_sent notify_keeps
          replay_def session_view_insert del: map_map)
  next
    case (err e)
    then show ?thesis using assms by (simp add: replays_def replay_def)
  qed
  show "fst ` session_view (fst (snd (create_session env self conn lbl s))) \<subseteq>
      fst ` session_view s \<union> spawned env"
  proof (cases rule: create_session_cases [of env conn s lbl self])
    case (ok a jh mgr)
    then have "a \<in> spawned env" and fresh: "hm_get (primary (sessions s)) a = None"
      using assms(4) by (auto simp: spawned_def)
    then show ?thesis
      using session_view_insert [OF fresh ok(2), of "fst (snd (create_session env self conn lbl s))"]
      by (simp add: ok(4))
  next
    case (err e)
    then show ?thesis by auto
  qed
qed

lemma retain_get:
  assumes "dm_inv m"
  shows "hm_get (primary (dm_retain (\<lambda>_ _ v. (v \<noteq> x, v)) m)) a = Some (l, v) \<longleftrightarrow>
    hm_get (primary m) a = Some (l, v) \<and> v \<noteq> x"
  using dm_retain_get [OF assms] by auto

lemma handle_supervision_replays:
  assumes "node_sessions_ok s" and "r \<in> set (observers s)" and "\<not> ne_closed env r"
  shows "replays r s (snd (handle_supervision env ev s)) (fst (handle_supervision env ev s))"
    and "session_view (fst (handle_supervision env ev s)) \<subseteq> session_view s"
proof -
  have inv: "dm_inv (sessions s)" and d: "distinct (observers s)"
    using assms(1) by (simp_all add: node_sessions_ok_def)
  have *: "replays r s (snd (handle_supervision env ev s)) (fst (handle_supervision env ev s)) \<and>
      session_view (fst (handle_supervision env ev s)) \<subseteq> session_view s"
  proof (cases ev)
    case (Terminated a e)
    let ?s = "fst (handle_supervision env ev s)"
    have own: "v = b" if "hm_get (primary (sessions s)) b = Some (l, v)" for b l v
      using assms(1) that unfolding node_sessions_ok_def by blast
    have view: "session_view ?s = {p \<in> session_view s. fst p \<noteq> a}"
      by (auto simp: session_view_def handle_supervision_def Terminated Let_def
          case_prod_beta retain_get [OF inv] dest: own)
    have "node_sessions_ok ?s"
      using assms(1) by (auto simp: node_sessions_ok_def handle_supervision_def Terminated Let_def
          case_prod_beta retain_get [OF inv] dm_retain_inv hm_remove_def notify_distinct)
    moreover have "r \<in> set (observers ?s)" "events_to r (snd (handle_supervision env ev s)) =
        [SessionDeleted a]"
      using assms(2,3) d by (simp_all add: handle_supervision_def Terminated Let_def case_prod_beta
          notify_keeps notify_fst events_to_sent del: map_map)
    ultimately show ?thesis by (auto simp: replays_def view replay_def)
  qed (use assms in \<open>simp_all add: handle_supervision_def replays_def replay_def\<close>)
  then show "replays r s (snd (handle_supervision env ev s)) (fst (handle_supervision env ev s))"
    and "session_view (fst (handle_supervision env ev s)) \<subseteq> session_view s" by blast+
qed

text \<open>One selected input keeps the view, provided it does not unregister the observer.\<close>

definition keeps_observer :: "actor_id \<Rightarrow> ('c, 'jh, 'mb) node_env \<times> ('l, 'mb, 'c) node_input \<Rightarrow> bool"
where
  "keeps_observer r ev \<longleftrightarrow>
     \<not> ne_closed (fst ev) r \<and> snd ev \<noteq> NEnvelope (NObserver (ObserverUnregister r))"

lemma replays_same:
  assumes "node_sessions_ok s" and "r \<in> set (observers s)" and "events_to r out = []"
    and "sessions s' = sessions s" and "children s' = children s" and "observers s' = observers s"
  shows "replays r s out s'" and "session_view s' = session_view s"
  using assms by (simp_all add: replays_def replay_def node_sessions_ok_def session_view_def)

lemma observer_step_replays:
  assumes "node_sessions_ok s" and "r \<in> set (observers s)" and "cmd \<noteq> ObserverUnregister r"
  shows "replays r s [] (s\<lparr>observers := observer_handle self cmd (observers s)\<rparr>)"
  using assms by (cases cmd) (auto simp: replays_def replay_def node_sessions_ok_def
      session_view_def observer_defs)

definition node_step_ok ::
  "actor_id \<Rightarrow> actor_id set \<Rightarrow> ('m, 'l, 'f, 'jh) node \<Rightarrow> ('c, 'jh, 'm, 'f) node_out list \<Rightarrow>
   ('m, 'l, 'f, 'jh) node \<Rightarrow> bool" where
  "node_step_ok r new s out s' \<longleftrightarrow> replays r s out s' \<and>
     fst ` session_view s' \<subseteq> fst ` session_view s \<union> new"

lemma fresh_primary:
  assumes "fst ` session_view s \<subseteq> seen" and "new \<inter> seen = {}"
  shows "\<forall>a \<in> new. hm_get (primary (sessions s)) a = None"
proof
  fix a assume "a \<in> new"
  show "hm_get (primary (sessions s)) a = None"
  proof (rule ccontr)
    assume "hm_get (primary (sessions s)) a \<noteq> None"
    then obtain l v where "hm_get (primary (sessions s)) a = Some (l, v)" by auto
    then have "a \<in> fst ` session_view s" by (force simp: session_view_def)
    with assms \<open>a \<in> new\<close> show False by blast
  qed
qed

lemma node_step_ok_same:
  assumes "node_sessions_ok s" and "r \<in> set (observers s)" and "events_to r out = []"
    and "sessions s' = sessions s" and "children s' = children s" and "observers s' = observers s"
  shows "node_step_ok r new s out s'"
  using replays_same [OF assms] by (simp add: node_step_ok_def)

lemma node_handle_step:
  assumes "node_sessions_ok s" and "r \<in> set (observers s)" and "keeps_observer r (env, NEnvelope cmd)"
    and "\<forall>a \<in> spawned env. hm_get (primary (sessions s)) a = None"
  shows "case node_handle ep env cmd s c of (_, s', c', out) \<Rightarrow> node_step_ok r (spawned env) s out s'"
proof (cases cmd)
  case (NConnect endpoint label)
  have open_r: "\<not> ne_closed env r" using assms(3) by (simp add: keeps_observer_def)
  show ?thesis
  proof (cases "ne_connect env endpoint")
    case (Ok conn)
    then show ?thesis
      using create_session_replays [OF assms(1,2) open_r assms(4), where self = "nc_doorplate c"
          and conn = conn and lbl = label]
      by (simp add: NConnect handle_connect_def case_prod_beta node_step_ok_def)
  qed (use assms in \<open>simp add: NConnect handle_connect_def node_step_ok_same\<close>)
next
  case (NSupervision ev)
  have "\<not> ne_closed env r" using assms(3) by (simp add: keeps_observer_def)
  from handle_supervision_replays [OF assms(1,2) this, of ev] show ?thesis
    by (auto simp: NSupervision case_prod_beta node_step_ok_def)
next
  case (NObserver x)
  then have "x \<noteq> ObserverUnregister r" using assms(3) by (auto simp: keeps_observer_def)
  from observer_step_replays [OF assms(1,2) this] show ?thesis
    by (auto simp: NObserver node_step_ok_def session_view_def)
qed (use assms in \<open>simp_all add: node_step_ok_same handle_add_listener_def handle_remove_listener_def
      abort_accept_task_def hs_insert_def Let_def case_prod_beta split: if_split\<close>)

lemma node_select_step:
  assumes "node_sessions_ok s" and "r \<in> set (observers s)" and "keeps_observer r (env, i)"
    and "\<forall>a \<in> spawned env. hm_get (primary (sessions s)) a = None"
    and "node_select ep env i s c = Ret (s', c', out)"
  shows "node_step_ok r (spawned env) s out s'"
proof (cases i)
  case (NEnvelope cmd)
  then show ?thesis
    using node_handle_step [OF assms(1,2), where env = env and cmd = cmd and c = c and ep = ep] assms(3-5)
    by (auto split: prod.splits)
next
  case (NAccepted k res)
  have "\<not> ne_closed env r" using assms(3) by (simp add: keeps_observer_def)
  show ?thesis
  proof (cases res)
    case (Ok conn)
    then show ?thesis
      using create_session_replays [OF assms(1,2) \<open>\<not> ne_closed env r\<close> assms(4),
          where self = "nc_doorplate c" and conn = conn and lbl = None] assms(5)
      by (auto simp: NAccepted Let_def case_prod_beta node_step_ok_def replays_def split: if_splits)
  qed (use assms in \<open>auto simp: NAccepted Let_def node_step_ok_same split: if_splits\<close>)
qed (use assms in \<open>auto simp: Let_def node_step_ok_same split: if_splits\<close>)

lemma node_step_okD:
  assumes "node_step_ok r new s out s'" and "fst ` session_view s \<subseteq> seen"
  shows "node_sessions_ok s'" and "r \<in> set (observers s')" and "fst ` session_view s' \<subseteq> seen \<union> new"
  using assms unfolding node_step_ok_def replays_def by blast+

lemma node_step_ok_trans:
  assumes "node_step_ok r A s out s'" and "node_step_ok r B s' out' s''"
  shows "node_step_ok r (A \<union> B) s (out @ out') s''"
proof -
  have "replays r s (out @ out') s''"
    using assms by (auto simp: node_step_ok_def replays_def replay_append)
  with assms show ?thesis unfolding node_step_ok_def by blast
qed

lemma node_run_step_ok:
  fixes evs :: "(('c, 'jh, 'mb) node_env \<times> ('l, 'mb, 'c) node_input) list"
    and s :: "('m, 'l, 'f, 'jh) node"
  assumes "node_sessions_ok s" and "r \<in> set (observers s)" and "fst ` session_view s \<subseteq> seen"
    and "fresh_run seen evs" and "\<forall>ev \<in> set evs. keeps_observer r ev"
  shows "case node_run_loop ep evs s c of (_, s', c', out) \<Rightarrow> \<exists>new. node_step_ok r new s out s'"
  using assms
proof (induction ep evs s c arbitrary: seen rule: node_run_loop.induct)
  case (1 ep s c)
  then show ?case
    by (auto simp: node_loop_end_def case_prod_beta intro!: exI [where x = "{}"] node_step_ok_same)
next
  case (2 ep env i evs s c)
  obtain s1 c1 and out1 :: "('c, 'jh, 'm, 'f) node_out list"
    where ph: "accept_phase ep s c = (s1, c1, out1)" by (rule prod_cases3)
  have same: "sessions s1 = sessions s" "children s1 = children s" "observers s1 = observers s"
      "events_to r out1 = []"
    using ph by (auto simp: accept_phase_def Let_def simp del: map_map)
  have st1: "node_step_ok r {} s out1 s1"
    using "2.prems"(1,2) same by (intro node_step_ok_same) simp_all
  note ok1 = node_step_okD [OF st1 "2.prems"(3), simplified]
  show ?case
  proof (cases "nc_state c = Running")
    case False
    then show ?thesis
      using "2.prems"(1,2) by (auto simp: node_loop_end_def intro!: exI [where x = "{}"] node_step_ok_same)
  next
    case True
    show ?thesis
    proof (cases "node_select ep env i s1 c1")
      case (Panic p)
      with True ph st1 show ?thesis by auto
    next
      case (Ret t)
      obtain s2 c2 out2 where t: "t = (s2, c2, out2)" by (cases t)
      have st2: "node_step_ok r (spawned env) s1 out2 s2"
        using "2.prems"(4,5) fresh_primary [OF ok1(3)] Ret t
        by (intro node_select_step [OF ok1(1,2)]) auto
      note ok2 = node_step_okD [OF st2 ok1(3)]
      have IH: "case node_run_loop ep evs s2 c2 of (_, s', c', out) \<Rightarrow> \<exists>new. node_step_ok r new s2 out s'"
        using "2.prems"(4,5)
        by (intro "2.IH" [OF True ph [symmetric] refl refl Ret [unfolded t] refl refl ok2]) simp_all
      then obtain new where "node_step_ok r new s2 (snd (snd (snd (node_run_loop ep evs s2 c2))))
          (fst (snd (node_run_loop ep evs s2 c2)))" by (auto simp: case_prod_beta)
      from node_step_ok_trans [OF st1 node_step_ok_trans [OF st2 this]] show ?thesis
        using True by (auto simp: ph Ret t case_prod_beta)
    qed
  qed
qed

subsection \<open>Listeners\<close>

fun started :: "('c, 'jh, 'm, 'f) node_out list \<Rightarrow> string list" where
  "started [] = []"
| "started (NAccept l # os) = l # started os"
| "started (_ # os) = started os"

fun ended :: "('c, 'jh, 'm, 'f) node_out list \<Rightarrow> string list" where
  "ended [] = []"
| "ended (NAbort l # os) = l # ended os"
| "ended (NAcceptDone l # os) = l # ended os"
| "ended (_ # os) = ended os"

lemma started_append [simp]: "started (xs @ ys) = started xs @ started ys"
proof (induction xs)
  case (Cons x xs)
  then show ?case by (cases x) simp_all
qed simp

lemma ended_append [simp]: "ended (xs @ ys) = ended xs @ ended ys"
proof (induction xs)
  case (Cons x xs)
  then show ?case by (cases x) simp_all
qed simp

lemma started_ended_maps [simp]:
  "started (map (\<lambda>t. NAccept (f t)) ts) = map f ts" "ended (map (\<lambda>t. NAccept (f t)) ts) = []"
  "started (map (\<lambda>t. NAbort (f t)) ts) = []" "ended (map (\<lambda>t. NAbort (f t)) ts) = map f ts"
  "started (map (\<lambda>(r, ev). NNotify r ev) ns) = []" "ended (map (\<lambda>(r, ev). NNotify r ev) ns) = []"
  by (induction ts, simp_all) (induction ns, auto)+

text \<open>Accept tasks are accounted for: those started are those ended and those still there.\<close>

definition tasks_balanced ::
  "('l, 'mb) node_ctx \<Rightarrow> ('c, 'jh, 'm, 'f) node_out list \<Rightarrow> ('l, 'mb) node_ctx \<Rightarrow> bool" where
  "tasks_balanced c out c' \<longleftrightarrow>
     mset (map at_label (accept_tasks c)) + mset (started out) =
       mset (ended out) + mset (map at_label (accept_tasks c'))"

lemma balance_add:
  fixes A :: "'a multiset"
  assumes "A + S = E + B" and "B + S' = E' + C"
  shows "A + (S + S') = (E + E') + C"
proof -
  have "A + (S + S') = E + (B + S')" using assms(1) by (simp flip: add.assoc)
  also have "\<dots> = (E + E') + C" using assms(2) by (simp add: add.assoc)
  finally show ?thesis .
qed

lemma tasks_balanced_trans:
  "tasks_balanced c out c' \<Longrightarrow> tasks_balanced c' out' c'' \<Longrightarrow> tasks_balanced c (out @ out') c''"
  unfolding tasks_balanced_def started_append ended_append mset_append by (rule balance_add)

lemma mset_filter_map_partition:
  "mset (map f (filter P xs)) + mset (map f (filter (\<lambda>x. \<not> P x) xs)) = mset (map f xs)"
  by (induction xs) auto

lemma mset_list_remove: "i < length xs \<Longrightarrow> add_mset (f (xs ! i)) (mset (map f (list_remove i xs))) = mset (map f xs)"
proof -
  assume "i < length xs"
  then have "xs = take i xs @ xs ! i # drop (Suc i) xs" by (rule id_take_nth_drop)
  then have "mset (map f xs) = mset (map f (take i xs @ xs ! i # drop (Suc i) xs))" by simp
  then show ?thesis by (simp add: list_remove_def)
qed

lemma tasks_balanced_same: "accept_tasks c' = accept_tasks c \<Longrightarrow> started out = [] \<Longrightarrow> ended out = [] \<Longrightarrow>
  tasks_balanced c out c'"
  by (simp add: tasks_balanced_def)

lemma create_session_listeners:
  "listener_labels (fst (snd (create_session env self conn lbl s))) = listener_labels s"
  "listeners (fst (snd (create_session env self conn lbl s))) = listeners s"
  "started (snd (snd (create_session env self conn lbl s))) = []"
  "ended (snd (snd (create_session env self conn lbl s))) = []"
  by (cases rule: create_session_cases [of env conn s lbl self]; simp del: map_map)+

lemma handle_supervision_listeners:
  "listener_labels (fst (handle_supervision env ev s)) = listener_labels s"
  "listeners (fst (handle_supervision env ev s)) = listeners s"
  "started (snd (handle_supervision env ev s)) = []"
  "ended (snd (handle_supervision env ev s)) = []"
  by (cases ev; simp add: handle_supervision_def Let_def case_prod_beta)+

lemma at_label_new: "map at_label (map (\<lambda>l. \<lparr>at_label = ep l, at_listener = l\<rparr>) ls) = map ep ls"
  by simp

lemma accept_phase_listeners:
  assumes "listeners_ok ep s c" and "accept_phase ep s c = (s1, c1, out1)"
  shows "listeners_ok ep s1 c1 \<and> listeners s1 = [] \<and> tasks_balanced c out1 c1"
proof -
  have "filter (\<lambda>t. hs_contains (listener_labels s) (at_label t)) (accept_tasks c) = accept_tasks c"
    using assms(1) by (auto simp: filter_id_conv hs_contains_def listeners_ok_def)
  then have "c1 = c\<lparr>accept_tasks := accept_tasks c @ map (\<lambda>l. \<lparr>at_label = ep l, at_listener = l\<rparr>) (listeners s)\<rparr>"
    and "s1 = s\<lparr>listeners := []\<rparr>"
    and "ended out1 = map at_label (filter (\<lambda>t. \<not> hs_contains (listener_labels s) (at_label t)) (accept_tasks c))"
    and "started out1 = map ep (listeners s)"
    using assms(2) by (auto simp: accept_phase_def Let_def at_label_new simp del: map_map)
  moreover have "filter (\<lambda>t. \<not> hs_contains (listener_labels s) (at_label t)) (accept_tasks c) = []"
    using assms(1) by (auto simp: filter_empty_conv hs_contains_def listeners_ok_def)
  ultimately show ?thesis
    using assms(1) by (auto simp: listeners_ok_def tasks_balanced_def o_def)
qed

lemma handle_remove_listener_ok:
  assumes "listeners_ok ep s c" and "listeners s = []"
    and "handle_remove_listener label s c = (b, s', c', out)"
  shows "listeners_ok ep s' c' \<and> tasks_balanced c out c'"
proof (cases "label \<in> set (listener_labels s)")
  case True
  then have c': "c' = c\<lparr>accept_tasks := filter (\<lambda>t. at_label t \<noteq> label) (accept_tasks c)\<rparr>"
    and s': "s' = s\<lparr>listener_labels := removeAll label (listener_labels s)\<rparr>"
    and out: "started out = []" "ended out = map at_label (filter (\<lambda>t. at_label t = label) (accept_tasks c))"
    using assms(3) by (auto simp: handle_remove_listener_def hs_remove_def abort_accept_task_def
        Let_def simp del: map_map)
  have "at_label ` {t \<in> set (accept_tasks c). at_label t \<noteq> label} = set (listener_labels s) - {label}"
    using assms(1,2) by (auto simp: listeners_ok_def)
  moreover have "tasks_balanced c out c'"
    using mset_filter_map_partition [of at_label "\<lambda>t. at_label t = label" "accept_tasks c"]
    by (simp add: tasks_balanced_def c' out)
  ultimately show ?thesis
    using assms(1,2) by (auto simp: listeners_ok_def c' s' distinct_map_filter distinct_removeAll)
next
  case False
  then show ?thesis
    using assms by (auto simp: handle_remove_listener_def hs_remove_def Let_def listeners_ok_def
        tasks_balanced_def)
qed

lemma listeners_ok_cong:
  "listeners_ok ep s c \<Longrightarrow> listener_labels s' = listener_labels s \<Longrightarrow> listeners s' = listeners s \<Longrightarrow>
   accept_tasks c' = accept_tasks c \<Longrightarrow> listeners_ok ep s' c'"
  by (simp add: listeners_ok_def)

lemma node_handle_listeners:
  assumes "listeners_ok ep s c" and "listeners s = []"
    and "node_handle ep env cmd s c = (r, s', c', out)"
  shows "listeners_ok ep s' c' \<and> tasks_balanced c out c'"
proof (cases cmd)
  case (NAddListener l)
  with assms show ?thesis
    by (auto simp: handle_add_listener_def hs_contains_def hs_insert_def Let_def listeners_ok_def
        tasks_balanced_def split: if_splits)
next
  case (NRemoveListener label)
  with assms(3) have "\<exists>b. handle_remove_listener label s c = (b, s', c', out)"
    by (auto simp: Let_def split: prod.splits)
  with handle_remove_listener_ok [OF assms(1,2)] show ?thesis by blast
next
  case (NConnect endpoint label)
  with assms show ?thesis
    by (cases "ne_connect env endpoint")
      (auto simp: handle_connect_def case_prod_beta create_session_listeners
        intro!: listeners_ok_cong [OF assms(1)] tasks_balanced_same)
next
  case (NSupervision ev)
  with assms show ?thesis
    by (auto simp: case_prod_beta handle_supervision_listeners
        intro!: listeners_ok_cong [OF assms(1)] tasks_balanced_same)
next
  case (NSignal sig)
  with assms show ?thesis
    by (cases sig) (auto simp: node_ctx_ops_def cx_stop_def cx_terminate_def nc_set_state_def
        intro!: listeners_ok_cong [OF assms(1)] tasks_balanced_same)
qed (use assms in \<open>auto intro!: listeners_ok_cong [OF assms(1)] tasks_balanced_same\<close>)

lemma list_remove_set: "i < length xs \<Longrightarrow> set xs = insert (xs ! i) (set (list_remove i xs))"
proof -
  assume "i < length xs"
  then have "xs = take i xs @ xs ! i # drop (Suc i) xs" by (rule id_take_nth_drop)
  then have "set xs = set (take i xs @ xs ! i # drop (Suc i) xs)" by simp
  then show ?thesis by (simp add: list_remove_def)
qed

lemma list_remove_distinct:
  "i < length xs \<Longrightarrow> distinct (map f xs) \<Longrightarrow>
     distinct (map f (list_remove i xs)) \<and> f (xs ! i) \<notin> f ` set (list_remove i xs)"
proof -
  assume "i < length xs" and d: "distinct (map f xs)"
  then have "xs = take i xs @ xs ! i # drop (Suc i) xs" by (intro id_take_nth_drop)
  with d have "distinct (map f (take i xs @ xs ! i # drop (Suc i) xs))" by metis
  then show ?thesis by (auto simp: list_remove_def)
qed

lemma accept_done_ok:
  assumes "listeners_ok ep s c" and "i < length (accept_tasks c)"
    and "accept_tasks c' = list_remove i (accept_tasks c) @
      [\<lparr>at_label = at_label (accept_tasks c ! i), at_listener = at_listener (accept_tasks c ! i)\<rparr>]"
    and "listener_labels s' = listener_labels s" and "listeners s' = listeners s"
    and "started out = [at_label (accept_tasks c ! i)]" and "ended out = [at_label (accept_tasks c ! i)]"
  shows "listeners_ok ep s' c' \<and> tasks_balanced c out c'"
proof
  let ?t = "accept_tasks c ! i"
  have d: "distinct (map at_label (accept_tasks c))" using assms(1) by (simp add: listeners_ok_def)
  have labels: "at_label ` set (accept_tasks c) =
      insert (at_label ?t) (at_label ` set (list_remove i (accept_tasks c)))"
    by (simp add: list_remove_set [OF assms(2)])
  have own: "\<forall>t \<in> insert ?t (set (list_remove i (accept_tasks c))). ep (at_listener t) = at_label t"
    using assms(1) list_remove_set [OF assms(2)] by (simp add: listeners_ok_def)
  show "listeners_ok ep s' c'"
    using assms(1) labels own list_remove_distinct [OF assms(2) d]
    by (auto simp: listeners_ok_def assms(3-5))
  show "tasks_balanced c out c'"
    using mset_list_remove [OF assms(2), of at_label]
    by (simp add: tasks_balanced_def assms(3,6,7))
qed

lemma listener_panicked_ok:
  assumes "listeners_ok ep s c" and "listeners s = []" and "i < length (accept_tasks c)"
    and "accept_tasks c' = list_remove i (accept_tasks c)"
    and "listener_labels s' = removeAll (at_label (accept_tasks c ! i)) (listener_labels s)"
    and "listeners s' = []"
    and "started out = []" and "ended out = [at_label (accept_tasks c ! i)]"
  shows "listeners_ok ep s' c' \<and> tasks_balanced c out c'"
proof
  let ?t = "accept_tasks c ! i"
  have d: "distinct (map at_label (accept_tasks c))" using assms(1) by (simp add: listeners_ok_def)
  have "set (listener_labels s) = insert (at_label ?t) (at_label ` set (list_remove i (accept_tasks c)))"
    using assms(1,2) by (simp add: listeners_ok_def list_remove_set [OF assms(3)] flip: image_insert)
  moreover have "\<forall>t \<in> insert ?t (set (list_remove i (accept_tasks c))). ep (at_listener t) = at_label t"
    using assms(1) list_remove_set [OF assms(3)] by (simp add: listeners_ok_def)
  ultimately show "listeners_ok ep s' c'"
    using assms(1) list_remove_distinct [OF assms(3) d]
    by (auto simp: listeners_ok_def assms(4-6) distinct_removeAll)
  show "tasks_balanced c out c'"
    using mset_list_remove [OF assms(3), of at_label]
    by (simp add: tasks_balanced_def assms(4,7,8))
qed

lemma node_select_listeners:
  assumes "listeners_ok ep s c" and "listeners s = []"
    and "node_select ep env i s c = Ret (s', c', out)"
  shows "listeners_ok ep s' c' \<and> tasks_balanced c out c'"
proof (cases i)
  case (NEnvelope cmd)
  with assms(3) have "\<exists>r. node_handle ep env cmd s c = (r, s', c', out)"
    by (auto split: prod.splits)
  with node_handle_listeners [OF assms(1,2)] show ?thesis by blast
next
  case NMailboxDropped
  with assms show ?thesis
    by (auto simp: nc_set_state_def intro!: listeners_ok_cong [OF assms(1)] tasks_balanced_same)
next
  case (NAccepted k res)
  with assms(3) have k: "k < length (accept_tasks c)" by (auto split: if_splits)
  show ?thesis
    using assms(3) k by (intro accept_done_ok [OF assms(1) k])
      (auto simp: NAccepted Let_def case_prod_beta create_session_listeners split: result.splits)
next
  case (NListenerPanicked k)
  with assms(3) have k: "k < length (accept_tasks c)" by (auto split: if_splits)
  show ?thesis
    using assms(2,3) k by (intro listener_panicked_ok [OF assms(1,2) k])
      (auto simp: NListenerPanicked Let_def nc_set_state_def hs_remove_def)
qed

lemma node_run_listeners:
  fixes evs :: "(('c, 'jh, 'mb) node_env \<times> ('l, 'mb, 'c) node_input) list"
    and s :: "('m, 'l, 'f, 'jh) node"
  assumes "listeners_ok ep s c" and "node_run_loop ep evs s c = (r, s', c', out)"
  shows "tasks_balanced c out c' \<and> (r = Some (Ret (Ok ())) \<longrightarrow> accept_tasks c' = []) \<and>
    (r \<noteq> Some (Ret (Ok ())) \<longrightarrow> listeners_ok ep s' c')"
  using assms
proof (induction ep evs s c arbitrary: r s' c' out rule: node_run_loop.induct)
  case (1 ep s c)
  then show ?case
    by (auto simp: node_loop_end_def tasks_balanced_def split: if_splits)
next
  case (2 ep env i evs s c)
  obtain s1 c1 and out1 :: "('c, 'jh, 'm, 'f) node_out list"
    where ph: "accept_phase ep s c = (s1, c1, out1)" by (rule prod_cases3)
  note ok1 = accept_phase_listeners [OF "2.prems"(1) ph]
  show ?case
  proof (cases "nc_state c = Running")
    case False
    with "2.prems" show ?thesis by (auto simp: node_loop_end_def tasks_balanced_def)
  next
    case True
    show ?thesis
    proof (cases "node_select ep env i s1 c1")
      case (Panic p)
      with True ph ok1 "2.prems"(2) show ?thesis by auto
    next
      case (Ret t)
      obtain s2 c2 out2 where t: "t = (s2, c2, out2)" by (cases t)
      have ok2: "listeners_ok ep s2 c2 \<and> tasks_balanced c1 out2 c2"
        using ok1 Ret t by (intro node_select_listeners) auto
      obtain out3 where run: "node_run_loop ep evs s2 c2 = (r, s', c', out3)"
          and out: "out = out1 @ out2 @ out3"
        using "2.prems"(2) True by (auto simp: ph Ret t split: prod.splits)
      have "tasks_balanced c2 out3 c' \<and> (r = Some (Ret (Ok ())) \<longrightarrow> accept_tasks c' = []) \<and>
          (r \<noteq> Some (Ret (Ok ())) \<longrightarrow> listeners_ok ep s' c')"
        using ok2 run
        by (intro "2.IH" [OF True ph [symmetric] refl refl Ret [unfolded t] refl refl]) simp_all
      moreover from this have "tasks_balanced c out c'"
        using ok1 ok2 unfolding out by (blast intro: tasks_balanced_trans)
      ultimately show ?thesis by blast
    qed
  qed
qed

subsection \<open>The builder\<close>

text \<open>What the same actors and factories make of a manager that is already running.\<close>

fun mgr_build_step ::
  "('m, u64, 'mb) kv_ops \<Rightarrow> ('mb \<Rightarrow> actor_id) \<Rightarrow> ('l, 'mb, 'f) node_build \<Rightarrow> ('m, 'f) actor_mgr \<Rightarrow>
   ('m, 'f) actor_mgr" where
  "mgr_build_step ops ix (BListener l) m = m"
| "mgr_build_step ops ix (BActor label a) m = snd (mgr_add_actor ops ix label a m)"
| "mgr_build_step ops ix (BFactory t f) m = m\<lparr>factories := hm_put (factories m) t f\<rparr>"

definition node_mgr_view :: "('m, 'l, 'f, 'jh) node \<Rightarrow> ('m, 'f) actor_mgr" where
  "node_mgr_view s =
     mgr_new (node_registry s) (the (node_actor_labels s)) (the (node_factories s))"

definition unstarted :: "('m, 'l, 'f, 'jh) node \<Rightarrow> bool" where
  "unstarted s \<longleftrightarrow> node_actor_labels s \<noteq> None \<and> node_factories s \<noteq> None \<and> sessions s = dm_new \<and>
     children s = hm_new \<and> observers s = []"

lemma build_step_view:
  assumes "unstarted s"
  shows "node_mgr_view (node_build_step ops ix ep b s) = mgr_build_step ops ix b (node_mgr_view s)"
    and "unstarted (node_build_step ops ix ep b s)"
  using assms
  by (cases b; auto simp: unstarted_def node_mgr_view_def mgr_new_def with_listener_def with_actor_def
      with_factory_def mgr_add_actor_def hm_insert_def Let_def case_prod_beta split: if_splits)+

lemma build_step_listeners:
  assumes "listeners_ok ep s c" and "accept_tasks c = []"
  shows "listeners_ok ep (node_build_step ops ix ep b s) c"
proof (cases b)
  case (BListener l)
  have "distinct (map ep (filter (\<lambda>x. ep x \<noteq> ep l) (listeners s)))"
    using assms(1) by (simp add: listeners_ok_def distinct_map_filter)
  then show ?thesis
    using assms by (auto simp: BListener with_listener_def hs_contains_def hs_insert_def Let_def
        listeners_ok_def)
next
  case (BActor label a)
  then show ?thesis
    using assms(1) by (auto simp: with_actor_def Let_def case_prod_beta listeners_ok_def split: option.split)
next
  case (BFactory t f)
  then show ?thesis
    using assms(1) by (auto simp: with_factory_def listeners_ok_def split: option.split)
qed

lemma build_fold:
  assumes "unstarted s" and "listeners_ok ep s c" and "accept_tasks c = []"
  shows "node_mgr_view (fold (node_build_step ops ix ep) bs s) =
      fold (mgr_build_step ops ix) bs (node_mgr_view s)"
    and "unstarted (fold (node_build_step ops ix ep) bs s)"
    and "listeners_ok ep (fold (node_build_step ops ix ep) bs s) c"
  using assms by (induction bs arbitrary: s) (simp_all add: build_step_view build_step_listeners)

lemma default_start:
  "unstarted (node_default ops)" "accept_tasks c = [] \<Longrightarrow> listeners_ok ep (node_default ops) c"
  by (simp_all add: unstarted_def node_default_def listeners_ok_def)

lemma mgr_build_inv:
  assumes "kv_store ops invar" and "mgr_inv ops invar ix m"
  shows "mgr_inv ops invar ix (fold (mgr_build_step ops ix) bs m)"
  using assms(2)
proof (induction bs arbitrary: m)
  case (Cons b bs)
  have "mgr_inv ops invar ix (mgr_build_step ops ix b m)"
    using Cons.prems mailbox_store.mgr_inv_ops(3) [OF mailbox_store.intro [OF assms(1)]]
    by (cases b) (simp_all add: mgr_inv_def)
  with Cons.IH show ?case by simp
qed simp

section \<open>Properties\<close>

text \<open>C20. A session is created exactly when its label is free, the actor manager runs and the session
  actor can be spawned; the insertion the code ignores the result of never fails. The new session
  is then found by its index and by its label, every other session as before; on any error the
  node is unchanged and nothing was spawned or announced.\<close>

theorem create_session_correct:
  assumes "node_sessions_ok s"
    and "\<forall>a jh. ne_spawn_session env (ne_peer env conn) = Ok (a, jh) \<longrightarrow> \<not> dm_contains_key1 (sessions s) a"
  shows "case create_session env self conn lbl s of (r, s', out) \<Rightarrow>
    (is_ok r \<longleftrightarrow> \<not> is_ok (get_session (RefLabel (session_label_of env conn lbl)) s) \<and>
       node_mgr s \<noteq> None \<and> is_ok (ne_spawn_session env (ne_peer env conn))) \<and>
    (\<forall>a. r = Ok a \<longrightarrow>
       fst (dm_insert (sessions s) a (session_label_of env conn lbl) a) = Ok None \<and>
       (\<forall>ref. get_session ref s' =
          (if ref = RefIndex a \<or> ref = RefLabel (session_label_of env conn lbl) then Ok a
           else get_session ref s))) \<and>
    (\<not> is_ok r \<longrightarrow> s' = s \<and> out = [])"
proof -
  let ?l = "session_label_of env conn lbl"
  have inv: "dm_inv (sessions s)" using assms(1) by (simp add: node_sessions_ok_def)
  have label: "is_ok (get_session (RefLabel ?l) s) \<longleftrightarrow> hm_get (secondary (sessions s)) ?l \<noteq> None"
    using dm_invD(3) [OF inv, of ?l]
    by (auto simp: get_session_def dm_get_by_key2_def split: option.split)
  show ?thesis
  proof (cases rule: create_session_cases [of env conn s lbl self])
    case (ok a jh mgr)
    have fresh: "hm_get (primary (sessions s)) a = None"
      using ok(1) assms(2) by (simp add: dm_contains_key1_def hm_contains_key_def del: not_None_eq)
    have sec: "hm_get (secondary (sessions s)) l \<noteq> Some a" for l
      using dm_invD(3) [OF inv, of l a] fresh by simp
    have "get_session ref (fst (snd (create_session env self conn lbl s))) =
        (if ref = RefIndex a \<or> ref = RefLabel ?l then Ok a else get_session ref s)" for ref
      using sec by (cases ref) (auto simp: ok(4) insert_fresh [OF fresh ok(2)] get_session_def
          dm_get_by_key1_def dm_get_by_key2_def split: option.split)
    then show ?thesis
      using ok(1-3) label by (simp add: ok(4) insert_fresh [OF fresh ok(2)])
  next
    case (err e)
    have "\<not> (hm_get (secondary (sessions s)) ?l = None \<and> node_mgr s \<noteq> None \<and>
        is_ok (ne_spawn_session env (ne_peer env conn)))"
    proof
      assume A: "hm_get (secondary (sessions s)) ?l = None \<and> node_mgr s \<noteq> None \<and>
        is_ok (ne_spawn_session env (ne_peer env conn))"
      then obtain mgr a jh where "node_mgr s = Some mgr"
          and "ne_spawn_session env (ne_peer env conn) = Ok (a, jh)"
        by (cases "ne_spawn_session env (ne_peer env conn)") auto
      with A err show False
        by (simp add: create_session_def session_label_of_def dm_contains_key2_def
            hm_contains_key_def Let_def case_prod_beta)
    qed
    with err label show ?thesis by auto
  qed
qed

text \<open>Concrete surroundings for the witnesses: endpoints name themselves, every connection succeeds, and
  a session spawned in step \<open>n\<close> has the index \<open>n\<close>.\<close>

definition node_env_at :: "u64 \<Rightarrow> (string, nat, nat) node_env" where
  "node_env_at n = \<lparr>ne_connect = Ok, ne_peer = (\<lambda>c. c),
     ne_spawn_session = (\<lambda>_. Ok (actor_id_new n, 0)), ne_send = (\<lambda>_ _. Ok ()), ne_closed = (\<lambda>_. False),
     ne_ask_add = (\<lambda>_ _ _. Ok (Ok True)), ne_ask_remove = (\<lambda>_ _. Ok (Ok True)),
     ne_ask_session = (\<lambda>_ _. Ok (Ok (Err ResponseTimeout)))\<rparr>"

definition node_example :: "((u64, nat) hash_map, string, nat, nat) node" where
  "node_example = (node_default hm_ops)\<lparr>node_mgr := Some (actor_id_new 1),
     children := [(actor_id_new 1, 0)], observers := [actor_id_new 9]\<rparr>"

definition node_ctx_example :: "(string, unit) node_ctx" where
  "node_ctx_example = (node_ctx_new (actor_id_new 0) () ''node'')\<lparr>nc_state := Running\<rparr>"

lemma node_example_ok: "node_sessions_ok node_example" "session_view node_example = {}"
  by (simp_all add: node_sessions_ok_def node_example_def node_default_def session_view_def
      dm_new_def hm_new_def hm_get_NilD dm_inv_def hm_ok_def)

lemma spawned_at: "spawned (node_env_at n) = {actor_id_new n}"
  by (auto simp: spawned_def node_env_at_def)

theorem create_session_correct_witness:
  "fst (create_session (node_env_at 2) (actor_id_new 0) ''tcp'' None node_example) = Ok (actor_id_new 2) \<and>
   get_session (RefLabel ''tcp'')
     (fst (snd (create_session (node_env_at 2) (actor_id_new 0) ''tcp'' None node_example))) =
     Ok (actor_id_new 2)"
proof -
  have r: "fst (create_session (node_env_at 2) (actor_id_new 0) ''tcp'' None node_example) =
      Ok (actor_id_new 2)"
    by (simp add: create_session_def node_env_at_def node_example_def node_default_def
        dm_contains_key2_def hm_contains_key_def dm_new_def hm_new_def hm_get_def Let_def case_prod_beta)
  have "\<forall>a jh. ne_spawn_session (node_env_at 2) (ne_peer (node_env_at 2) ''tcp'') = Ok (a, jh) \<longrightarrow>
      \<not> dm_contains_key1 (sessions node_example) a"
    by (simp add: node_example_def node_default_def dm_contains_key1_def hm_contains_key_def dm_new_def)
  from create_session_correct [OF node_example_ok(1) this, where self = "actor_id_new 0" and lbl = None] r
  show ?thesis by (auto simp: session_label_of_def node_env_at_def split: prod.splits)
qed

text \<open>C9. Observers can trust the node's events: for an observer registered when the run starts, that
  stays open and is not unregistered, replaying \<open>SessionCreated\<close> and \<open>SessionDeleted\<close> in the order they
  were sent gives exactly the sessions the node holds, whatever commands, connections, failures and
  terminations the run has. Every session is resolved by its index and by its label, and is
  terminated by the node's \<open>post_stop\<close>.\<close>

theorem node_observer_replay:
  assumes "node_sessions_ok s" and "r \<in> set (observers s)" and "fst ` session_view s \<subseteq> seen"
    and "fresh_run seen evs" and "\<forall>ev \<in> set evs. keeps_observer r ev"
  shows "case node_run_loop ep evs s c of (res, s', c', out) \<Rightarrow>
    session_view s' = replay (session_view s) (events_to r out) \<and>
    (\<forall>(a, l) \<in> session_view s'. get_session (RefIndex a) s' = Ok a \<and>
       get_session (RefLabel l) s' = Ok a \<and>
       (\<exists>jh. NTerminate a jh \<in> set (post_stop_calls s')))"
proof -
  obtain res s' c' out where run: "node_run_loop ep evs s c = (res, s', c', out)"
    by (rule prod_cases4)
  then obtain new where st: "node_step_ok r new s out s'"
    using node_run_step_ok [OF assms, of ep c] by auto
  then have ok: "node_sessions_ok s'" and view: "session_view s' = replay (session_view s) (events_to r out)"
    by (simp_all add: node_step_ok_def replays_def)
  have "get_session (RefIndex a) s' = Ok a \<and> get_session (RefLabel l) s' = Ok a \<and>
      (\<exists>jh. NTerminate a jh \<in> set (post_stop_calls s'))" if mem: "(a, l) \<in> session_view s'" for a l
  proof -
    obtain v where v: "hm_get (primary (sessions s')) a = Some (l, v)"
      using mem by (auto simp: session_view_def)
    with ok have "v = a" and "hm_get (children s') a \<noteq> None"
      unfolding node_sessions_ok_def by blast+
    then obtain jh where "(a, jh) \<in> set (children s')"
      using ok by (auto simp: node_sessions_ok_def hm_get_iff_mem)
    moreover have "hm_get (secondary (sessions s')) l = Some a"
      using ok v by (auto simp: node_sessions_ok_def dm_invD(3))
    ultimately show ?thesis
      using v \<open>v = a\<close> by (force simp: get_session_def dm_get_by_key1_def dm_get_by_key2_def
          post_stop_calls_def)
  qed
  with run view show ?thesis by auto
qed

text \<open>A run of four steps: a connection, a second one refused because its label is taken, a third
  labelled by its endpoint, and the end of the first session.\<close>

definition node_events_example ::
  "((string, nat, nat) node_env \<times> (string, nat, string) node_input) list" where
  "node_events_example =
     [(node_env_at 2, NEnvelope (NConnect ''tcp'' (Some ''s''))),
      (node_env_at 3, NEnvelope (NConnect ''tcp'' (Some ''s''))),
      (node_env_at 4, NEnvelope (NConnect ''pipe'' None)),
      (node_env_at 5, NEnvelope (NSupervision (Terminated (actor_id_new 2) None)))]"

theorem node_observer_replay_witness:
  "case node_run_loop (\<lambda>l. l) node_events_example node_example node_ctx_example of (res, s', c', out) \<Rightarrow>
     session_view s' = replay {} (events_to (actor_id_new 9) out) \<and>
     events_to (actor_id_new 9) out = [SessionCreated (actor_id_new 2) ''s'',
       SessionCreated (actor_id_new 4) ''pipe'', SessionDeleted (actor_id_new 2)]"
proof -
  have ev: "events_to (actor_id_new 9)
      (snd (snd (snd (node_run_loop (\<lambda>l. l) node_events_example node_example node_ctx_example)))) =
      [SessionCreated (actor_id_new 2) ''s'', SessionCreated (actor_id_new 4) ''pipe'',
       SessionDeleted (actor_id_new 2)]"
    by code_simp
  have "fresh_run {} node_events_example"
    by (simp add: node_events_example_def spawned_at actor_id_new_def)
  moreover have "\<forall>ev \<in> set node_events_example. keeps_observer (actor_id_new 9) ev"
    by (simp add: node_events_example_def keeps_observer_def node_env_at_def)
  moreover have "actor_id_new 9 \<in> set (observers node_example)" by (simp add: node_example_def)
  ultimately show ?thesis
    using node_observer_replay [OF node_example_ok(1), where r = "actor_id_new 9" and seen = "{}"
        and evs = node_events_example and ep = "\<lambda>l. l" and c = node_ctx_example] ev
    by (auto simp: node_example_ok(2))
qed

text \<open>C22. Listeners and their accept tasks are accounted for. In every run from a node without accept
  tasks, as long as the loop has not ended, each registered listener label has exactly one
  listener, which waits to be spawned or is in its accept task; the tasks started are those that
  completed, panicked or were aborted and those still running, and when the loop ends none is left
  running.\<close>

theorem node_listeners_accounted:
  assumes "listeners_ok ep s c" and "accept_tasks c = []"
    and "node_run_loop ep evs s c = (r, s', c', out)"
  shows "mset (started out) = mset (ended out) + mset (map at_label (accept_tasks c')) \<and>
    (r = Some (Ret (Ok ())) \<longrightarrow> mset (started out) = mset (ended out)) \<and>
    (r \<noteq> Some (Ret (Ok ())) \<longrightarrow>
       mset (map at_label (accept_tasks c') @ map ep (listeners s')) = mset_set (set (listener_labels s')))"
proof -
  from node_run_listeners [OF assms(1,3)]
  have bal: "tasks_balanced c out c'" and fin: "r = Some (Ret (Ok ())) \<longrightarrow> accept_tasks c' = []"
    and ok: "r \<noteq> Some (Ret (Ok ())) \<longrightarrow> listeners_ok ep s' c'" by blast+
  have "mset (map at_label (accept_tasks c') @ map ep (listeners s')) = mset_set (set (listener_labels s'))"
    if "listeners_ok ep s' c'"
    using that by (simp only: listeners_ok_def mset_set_set [symmetric])
  with bal fin ok assms(2) show ?thesis by (simp add: tasks_balanced_def)
qed

definition listener_events_example ::
  "((string, nat, nat) node_env \<times> (string, nat, string) node_input) list" where
  "listener_events_example =
     [(node_env_at 2, NEnvelope (NAddListener ''a'')),
      (node_env_at 3, NEnvelope (NAddListener ''b'')),
      (node_env_at 4, NAccepted 0 (Ok ''peer'')),
      (node_env_at 5, NEnvelope (NRemoveListener ''a'')),
      (node_env_at 6, NEnvelope (NSignal SignalStop))]"

theorem node_listeners_accounted_witness:
  "case node_run_loop (\<lambda>l. l) listener_events_example node_example node_ctx_example of
     (r, s', c', out) \<Rightarrow> r = Some (Ret (Ok ())) \<and> mset (started out) = mset (ended out) \<and>
       started out = [''a'', ''b'', ''a'']"
proof -
  obtain r s' c' out where
    run: "node_run_loop (\<lambda>l. l) listener_events_example node_example node_ctx_example = (r, s', c', out)"
    by (rule prod_cases4)
  have ok: "listeners_ok (\<lambda>l. l) node_example node_ctx_example" "accept_tasks node_ctx_example = []"
    by (simp_all add: listeners_ok_def node_example_def node_default_def node_ctx_example_def
        node_ctx_new_def)
  have "fst (node_run_loop (\<lambda>l. l) listener_events_example node_example node_ctx_example) =
      Some (Ret (Ok ()))"
    by code_simp
  moreover have "started (snd (snd (snd (node_run_loop (\<lambda>l. l) listener_events_example node_example
      node_ctx_example)))) = [''a'', ''b'', ''a'']"
    by code_simp
  moreover have "r = Some (Ret (Ok ())) \<longrightarrow> mset (started out) = mset (ended out)"
    using node_listeners_accounted [OF ok run] by blast
  ultimately show ?thesis unfolding run by simp
qed

lemma option_eqI: "(\<And>b. x = Some b \<longleftrightarrow> y = Some b) \<Longrightarrow> x = y"
  by (cases x; cases y) auto

text \<open>Removing a session from the map by its address removes its two keys and nothing else.\<close>

lemma retain_session:
  assumes "dm_inv m" and "\<And>b k v. hm_get (primary m) b = Some (k, v) \<Longrightarrow> v = b"
    and "hm_get (primary m) a = Some (l, a)"
  shows "hm_get (primary (dm_retain (\<lambda>_ _ v. (v \<noteq> a, v)) m)) b = (if b = a then None else hm_get (primary m) b)"
    and "hm_get (secondary (dm_retain (\<lambda>_ _ v. (v \<noteq> a, v)) m)) k = (if k = l then None else hm_get (secondary m) k)"
    and "k \<noteq> l \<Longrightarrow> hm_get (secondary m) k \<noteq> Some a"
proof -
  let ?m' = "dm_retain (\<lambda>_ _ v. (v \<noteq> a, v)) m"
  have prim: "hm_get (primary ?m') b = (if b = a then None else hm_get (primary m) b)" for b
    using retain_get [OF assms(1), of a b] assms(2) [of b]
    by (cases "hm_get (primary ?m') b"; cases "hm_get (primary m) b") auto
  have secl: "hm_get (secondary m) l = Some a" using assms(3) by (simp add: dm_invD(3) [OF assms(1)])
  have notl: "hm_get (secondary m) k \<noteq> Some a" if "k \<noteq> l" for k
    using assms(3) that by (simp add: dm_invD(3) [OF assms(1)])
  have "hm_get (secondary ?m') k = Some b \<longleftrightarrow> b \<noteq> a \<and> hm_get (secondary m) k = Some b" for b
    by (simp add: dm_invD(3) [OF dm_retain_inv [OF assms(1)]] dm_invD(3) [OF assms(1)] prim)
  then have "hm_get (secondary ?m') k = Some b \<longleftrightarrow> (if k = l then None else hm_get (secondary m) k) = Some b" for b
    using notl [of k] secl by (cases "k = l") auto
  then show "hm_get (secondary ?m') k = (if k = l then None else hm_get (secondary m) k)"
    by (rule option_eqI)
  show "hm_get (primary ?m') b = (if b = a then None else hm_get (primary m) b)" by (rule prim)
  show "k \<noteq> l \<Longrightarrow> hm_get (secondary m) k \<noteq> Some a" by (rule notl)
qed

lemma terminated_session_forgotten:
  assumes "node_sessions_ok s" and "hm_get (primary (sessions s)) a = Some (l, a)"
  shows "case handle_supervision env (Terminated a e) s of (s', out) \<Rightarrow>
    get_session (RefIndex a) s' = Err (SessionNotFound (actor_id_debug a)) \<and>
    get_session (RefLabel l) s' = Err (SessionNotFound l) \<and>
    (\<forall>ref. ref \<noteq> RefIndex a \<and> ref \<noteq> RefLabel l \<longrightarrow> get_session ref s' = get_session ref s) \<and>
    (\<forall>b. hm_get (children s') b = (if b = a then None else hm_get (children s) b)) \<and>
    (\<forall>r. events_to r out = (if r \<in> set (observers s) then [SessionDeleted a] else [])) \<and>
    \<not> dm_contains_key2 (sessions s') l"
proof -
  let ?m = "sessions s" and ?m' = "dm_retain (\<lambda>_ _ v. (v \<noteq> a, v)) (sessions s)"
  have inv: "dm_inv ?m" and d: "distinct (observers s)"
    using assms(1) by (simp_all add: node_sessions_ok_def)
  have own: "v = b" if "hm_get (primary ?m) b = Some (k, v)" for b k v
    using assms(1) that unfolding node_sessions_ok_def by blast
  note ret = retain_session [OF inv own assms(2)]
  have refs: "get_session ref (s\<lparr>sessions := ?m'\<rparr>) =
      (if ref = RefIndex a then Err (SessionNotFound (actor_id_debug a))
       else if ref = RefLabel l then Err (SessionNotFound l) else get_session ref s)" for ref
    using ret(3) by (cases ref) (auto simp: get_session_def dm_get_by_key1_def dm_get_by_key2_def
        ret(1,2) split: option.split)
  have same: "get_session ref (s\<lparr>sessions := m, children := ch, observers := obs\<rparr>) =
      get_session ref (s\<lparr>sessions := m\<rparr>)" for ref m ch obs
    by (cases ref) (simp_all add: get_session_def)
  show ?thesis
    using d by (simp add: handle_supervision_def Let_def case_prod_beta hm_remove_def same refs
        notify_fst events_to_sent dm_contains_key2_def hm_contains_key_def ret(2) del: map_map)
qed

definition node_with_session :: "((u64, nat) hash_map, string, nat, nat) node" where
  "node_with_session = node_example\<lparr>sessions := dm_from_iter [(actor_id_new 2, ''s'', actor_id_new 2)],
     children := [(actor_id_new 2, 0)]\<rparr>"

lemma node_with_session_ok:
  "node_sessions_ok node_with_session"
  "hm_get (primary (sessions node_with_session)) (actor_id_new 2) = Some (''s'', actor_id_new 2)"
proof -
  have prim: "primary (dm_from_iter [(actor_id_new 2, ''s'', actor_id_new 2)]) =
      [(actor_id_new 2, ''s'', actor_id_new 2)]"
    by (simp add: dm_from_iter_def dm_insert_def dm_op_defs dm_new_def hm_new_def hm_get_NilD hm_put_def)
  have "dm_inv (dm_from_iter [(actor_id_new 2, ''s'', actor_id_new 2)])"
    by (simp only: dm_from_iter_def dm_extend_inv dm_inv_new)
  then show "node_sessions_ok node_with_session"
    by (auto simp: node_with_session_def node_sessions_ok_def node_example_def node_default_def prim hm_get_Cons hm_get_NilD
        hm_ok_def split: if_splits)
  show "hm_get (primary (sessions node_with_session)) (actor_id_new 2) = Some (''s'', actor_id_new 2)"
    by (simp add: node_with_session_def prim hm_get_Cons)
qed

text \<open>The end of a session, with or without an error, removes it and nothing else: it is found
  neither by its index nor by its label, its task handle is gone, every other session and child is
  untouched, each observer is told, and its label can be given to a new session.\<close>

theorem session_end_frees_label:
  assumes "node_sessions_ok s" and "hm_get (primary (sessions s)) a = Some (l, a)"
  shows "case handle_supervision env (Terminated a e) s of (s', out) \<Rightarrow>
    get_session (RefIndex a) s' = Err (SessionNotFound (actor_id_debug a)) \<and>
    get_session (RefLabel l) s' = Err (SessionNotFound l) \<and>
    (\<forall>ref. ref \<noteq> RefIndex a \<and> ref \<noteq> RefLabel l \<longrightarrow> get_session ref s' = get_session ref s) \<and>
    (\<forall>b. hm_get (children s') b = (if b = a then None else hm_get (children s) b)) \<and>
    (\<forall>r. events_to r out = (if r \<in> set (observers s) then [SessionDeleted a] else [])) \<and>
    \<not> dm_contains_key2 (sessions s') l"
  by (rule terminated_session_forgotten [OF assms])

theorem session_end_frees_label_witness:
  "get_session (RefLabel ''s'') (fst (handle_supervision (node_env_at 3) (Terminated (actor_id_new 2) None)
     node_with_session)) = Err (SessionNotFound ''s'')"
  using session_end_frees_label [OF node_with_session_ok, where env = "node_env_at 3" and e = None]
  by (simp add: case_prod_beta)

text \<open>A session task that panics is reported as \<open>Panicked\<close>, which the handler ignores: the session stays
  filed, so its label cannot be used again.\<close>

lemma panicked_session_keeps_label:
  assumes "node_sessions_ok s" and "hm_get (primary (sessions s)) a = Some (l, a)"
  shows "handle_supervision env (Panicked a info) s = (s, [])"
    and "\<exists>e. fst (create_session env self conn (Some l) (fst (handle_supervision env (Panicked a info) s))) = Err e"
proof -
  show same: "handle_supervision env (Panicked a info) s = (s, [])"
    by (simp add: handle_supervision_def)
  have "hm_get (secondary (sessions s)) l = Some a"
    using assms by (auto simp: node_sessions_ok_def dm_invD(3))
  then show "\<exists>e. fst (create_session env self conn (Some l)
      (fst (handle_supervision env (Panicked a info) s))) = Err e"
    unfolding same by (simp add: create_session_def dm_contains_key2_def hm_contains_key_def)
qed

text \<open>C26. Building is the same as commanding: however listeners, actors and factories are added to a
  node before it starts, its \<open>post_start\<close> hands the actor manager the state that the same \<open>AddActor\<close>
  commands and factories would have produced in a running manager, in an order-sensitive way that
  keeps the first of two actors with one label; that state satisfies the manager's invariant, and
  of several listeners on an endpoint exactly one is left.\<close>

theorem node_build_manager:
  fixes start_mgr :: "('m, 'f) actor_mgr \<Rightarrow> (actor_id \<times> 'jh, node_error) result"
    and bs :: "('l, 'mb, 'f) node_build list"
  assumes "kv_store ops invar" and "start_mgr (fold (mgr_build_step ops ix) bs
      (mgr_new (reg_new ops) hm_new hm_new)) = Ok (mgr, jh)" and "accept_tasks c = []"
  shows "case node_post_start start_mgr (fold (node_build_step ops ix ep) bs (node_default ops)) of
    (r, s', out :: ('c, 'jh, 'm, 'f) node_out list) \<Rightarrow> r = Ok () \<and> node_mgr s' = Some mgr \<and>
      out = [NStartMgr (fold (mgr_build_step ops ix) bs (mgr_new (reg_new ops) hm_new hm_new))] \<and>
      mgr_inv ops invar ix (fold (mgr_build_step ops ix) bs (mgr_new (reg_new ops) hm_new hm_new)) \<and>
      node_sessions_ok s' \<and> listeners_ok ep s' c"
proof -
  let ?s = "fold (node_build_step ops ix ep) bs (node_default ops) :: ('m, 'l, 'f, 'jh) node"
  let ?m = "fold (mgr_build_step ops ix) bs (mgr_new (reg_new ops) hm_new hm_new)"
  note st = default_start(1) [of ops] default_start(2) [OF assms(3), of ep ops] assms(3)
  have view: "node_mgr_view ?s = ?m"
    using build_fold(1) [OF st] by (simp add: node_mgr_view_def node_default_def)
  have un: "unstarted ?s" and lis: "listeners_ok ep ?s c" using build_fold(2,3) [OF st] by blast+
  have "mgr_inv ops invar ix (mgr_new (reg_new ops) hm_new hm_new)"
    using assms(1) by (simp add: mgr_inv_def mgr_new_def reg_new_def reg_filed_def
        kv_store.get_empty kv_store.invar_empty)
  then have inv: "mgr_inv ops invar ix ?m" by (rule mgr_build_inv [OF assms(1)])
  have post: "node_post_start start_mgr ?s = (Ok (), ?s\<lparr>node_factories := None,
      node_actor_labels := None, children := hm_put (children ?s) mgr jh, node_mgr := Some mgr\<rparr>,
      [NStartMgr ?m])"
    using un view assms(2) by (auto simp: node_post_start_def node_mgr_view_def unstarted_def
        hm_insert_def Let_def)
  show ?thesis
    using un lis inv dm_inv_new by (simp add: post node_sessions_ok_def unstarted_def listeners_ok_def
        dm_new_def)
qed

theorem node_build_manager_witness:
  "case node_post_start (\<lambda>m. Ok (actor_id_new 1, 0 :: nat))
     (fold (node_build_step hm_ops ex_index (\<lambda>l. l))
        [BListener ''tcp'', BActor ''x'' 107, BListener ''tcp'', BActor ''x'' 108, BFactory 1 (5 :: nat)]
        (node_default hm_ops)) of
   (r, s', out :: (unit, nat, (u64, nat) hash_map, nat) node_out list) \<Rightarrow>
     r = Ok () \<and> node_mgr s' = Some (actor_id_new 1) \<and> node_sessions_ok s' \<and>
     listeners_ok (\<lambda>l. l) s' node_ctx_example"
proof -
  have "accept_tasks node_ctx_example = []" by (simp add: node_ctx_example_def node_ctx_new_def)
  from node_build_manager [OF hm.kv_store_axioms _ this, where 'c = unit and ix = ex_index and ep = "\<lambda>l. l"
      and jh = "0 :: nat" and mgr = "actor_id_new 1"
      and start_mgr = "\<lambda>m. Ok (actor_id_new 1, 0 :: nat)"
      and bs = "[BListener ''tcp'', BActor ''x'' 107, BListener ''tcp'', BActor ''x'' 108, BFactory 1 (5 :: nat)]"]
  show ?thesis by (auto split: prod.splits)
qed

end
