(* ===== verification/Session_Actor.thy ===== *)
theory Session_Actor
  imports Node
begin

text \<open>
  The whole life of a session as an actor: the node creates it with itself as supervisor
  (\<open>acktor-ipc/src/node.rs\<close>, \<open>create_session\<close>), the provided methods of \<open>Actor\<close> spawn and run it
  (\<open>acktor/src/actor.rs\<close>) with the hooks of the session (\<open>acktor-ipc/src/session.rs\<close>) and the loop of its
  context (\<open>acktor-ipc/src/session/context.rs\<close>), and the node handles the report it sends at the end.
\<close>

section \<open>The actor\<close>

definition session_ops :: "(session_ctx, actor_id, session_error, unit) cx_ops" where
  "session_ops =
     \<lparr>cx_state = sc_state, cx_set_state = sc_set_state, cx_address = sc_doorplate,
      cx_take_mailbox = sc_take_mailbox, cx_try_notify = sc_try_notify\<rparr>"

interpretation session_context: actor_context session_ops
  by unfold_locales (simp_all add: session_ops_def sc_set_state_def sc_take_mailbox_def sc_try_notify_def)

text \<open>The actor is the session with what it has done so far; \<open>close\<close> is the answer of the connection to
  \<open>close()\<close>, \<open>None\<close> when it never completes.\<close>

type_synonym ('m, 'mb, 'tx) session_actor = "('m, 'tx) session \<times> ('mb, 'tx) sess_out list"

definition session_hooks ::
  "(unit, io_error) result option \<Rightarrow> (('m, 'mb, 'tx) session_actor, session_ctx, session_error) hooks" where
  "session_hooks close =
     \<lparr>pre_start = (\<lambda>a c. (Ret (Ok ()), a, c)),
      post_start = (\<lambda>(s, out) c. Some (Ret (Ok ()), (sess_post_start (sc_doorplate c) s, out), c)),
      post_stop = (\<lambda>(s, out) c. map_option
        (\<lambda>cl. case sess_post_stop cl of (r, out') \<Rightarrow> (Ret r, (s, out @ out'), c)) close)\<rparr>"

definition session_loop ::
  "('m, 'mb, 'tx) sess_event list \<Rightarrow> (('m, 'mb, 'tx) session_actor, session_ctx, session_error, unit) msg_loop" where
  "session_loop evs a c mailbox =
     (case sess_run_loop evs (fst a) c of
        (None, _) \<Rightarrow> None
      | (Some r, s', c', out) \<Rightarrow> Some (r, (s', snd a @ out), c'))"

text \<open>\<open>Session::create\<close> as the node calls it; \<open>index\<close> is the index the new context allocates, \<open>accepts\<close> the answers
  of the node's mailbox.\<close>

definition spawn_session ::
  "(nat \<Rightarrow> bool) \<Rightarrow> actor_id \<Rightarrow> actor_id \<Rightarrow> string \<Rightarrow> ('m, 'tx) session \<Rightarrow> ('m, 'mb, 'tx) sess_event list \<Rightarrow>
   (unit, io_error) result option \<Rightarrow> (actor_id \<times> session_ctx option, session_error) result outcome" where
  "spawn_session accepts self index endpoint session evs close =
     cx_create session_ops (session_hooks close :: (('m, 'mb, 'tx) session_actor, session_ctx, session_error) hooks)
       (session_loop evs) (session_ctx_new accepts index) endpoint
       (\<lambda>child_ctx. (Ret (Ok (session, [])), sc_set_supervisor (Some self) child_ctx))"

section \<open>The report\<close>

definition supervised_ctx :: "(nat \<Rightarrow> bool) \<Rightarrow> actor_id \<Rightarrow> actor_id \<Rightarrow> string \<Rightarrow> session_ctx" where
  "supervised_ctx accepts self index endpoint =
     (session_ctx_new accepts index endpoint)\<lparr>sc_state := Running, sc_mailbox := None, sc_supervisor := Some self\<rparr>"

fun supervisor_kept :: "'tx sess_input \<Rightarrow> bool" where
  "supervisor_kept (InEnvelope (CmdSupervisor _)) \<longleftrightarrow> False"
| "supervisor_kept _ \<longleftrightarrow> True"

definition first_error :: "(unit, session_error) result \<Rightarrow> (unit, io_error) result \<Rightarrow> session_error option" where
  "first_error loop close = (case loop of Err e \<Rightarrow> Some e | Ok _ \<Rightarrow> (case close of Err e \<Rightarrow> Some (SIoError e) | Ok _ \<Rightarrow> None))"


lemma sc_ops_keep [simp]:
  "sc_sent (sc_set_state st c) = sc_sent c" "sc_doorplate (sc_set_state st c) = sc_doorplate c"
  "sc_supervisor (sc_set_state st c) = sc_supervisor c" "sc_state (sc_set_state st c) = st"
  "sc_sent (sc_set_supervisor sv c) = sc_sent c" "sc_doorplate (sc_set_supervisor sv c) = sc_doorplate c"
  "sc_sent (sc_require_cleanup c) = sc_sent c" "sc_doorplate (sc_require_cleanup c) = sc_doorplate c"
  "sc_supervisor (sc_require_cleanup c) = sc_supervisor c"
  "sc_accepts (sc_set_state st c) = sc_accepts c" "sc_accepts (sc_set_supervisor sv c) = sc_accepts c"
  "sc_accepts (sc_require_cleanup c) = sc_accepts c"
  by (simp_all add: sc_set_state_def sc_set_supervisor_def sc_require_cleanup_def split: option.split)

definition ctx_kept :: "bool \<Rightarrow> session_ctx \<Rightarrow> session_ctx \<Rightarrow> bool" where
  "ctx_kept own c c' \<longleftrightarrow> sc_sent c' = sc_sent c \<and> sc_accepts c' = sc_accepts c \<and> sc_doorplate c' = sc_doorplate c \<and>
     (own \<longrightarrow> sc_supervisor c' = sc_supervisor c)"

lemma cmd_ctx_kept:
  assumes "sess_handle_cmd env cmd s c = Ret (s', c', out)"
  shows "ctx_kept (supervisor_kept (InEnvelope cmd)) c c'"
proof (cases cmd)
  case (CmdSignal sg)
  then show ?thesis using assms by (cases sg) (auto simp: ctx_kept_def)
next
  case (CmdSupervisor sv)
  then show ?thesis using assms by (cases sv) (auto simp: ctx_kept_def)
qed (use assms in \<open>auto simp: ctx_kept_def Let_def split: outcome.splits prod.splits\<close>)

lemma select_ctx_kept:
  assumes "sess_select env i s c = (r, s', c', out)"
  shows "ctx_kept (supervisor_kept i) c c'"
proof (cases i)
  case (InEnvelope cmd)
  then show ?thesis
    using assms cmd_ctx_kept [of env cmd s c]
    by (cases "sess_handle_cmd env cmd s c") (auto simp: ctx_kept_def)
qed (use assms in \<open>auto simp: ctx_kept_def Let_def split: outcome.splits prod.splits if_splits\<close>)

lemma run_ctx_kept:
  assumes "sess_run_loop evs s c = (r, s', c', out)"
  shows "ctx_kept (list_all (\<lambda>(_, _, i). supervisor_kept i) evs) c c'"
  using assms
proof (induction evs arbitrary: s c r s' c' out)
  case Nil
  then show ?case by (simp add: ctx_kept_def)
next
  case (Cons ev evs)
  obtain env1 env2 i where ev: "ev = (env1, env2, i)" by (cases ev)
  obtain s1 c1 out1 where clean: "sess_cleanup_phase env1 s c = (s1, c1, out1)"
    by (cases "sess_cleanup_phase env1 s c")
  obtain r2 s2 c2 out2 where sel: "sess_select env2 i s1 c1 = (r2, s2, c2, out2)"
    by (cases "sess_select env2 i s1 c1")
  have k1: "ctx_kept True c c1"
    using clean by (auto simp: ctx_kept_def sess_cleanup_phase_def Let_def split: if_splits prod.splits)
  note k2 = select_ctx_kept [OF sel]
  show ?case
  proof (cases "sc_state c = Running \<and> r2 = None")
    case True
    then obtain r3 s3 c3 out3 where rest: "sess_run_loop evs s2 c2 = (r3, s3, c3, out3)" and "c' = c3"
      using Cons.prems clean sel by (auto simp: ev Let_def split: prod.splits)
    with k1 k2 Cons.IH [OF rest] show ?thesis by (auto simp: ev ctx_kept_def)
  next
    case False
    then have "c' = c \<or> c' = c2"
      using Cons.prems clean sel by (cases r2) (auto simp: ev Let_def split: if_splits)
    with k1 k2 show ?thesis by (auto simp: ev ctx_kept_def)
  qed
qed

lemma session_run_no_panic:
  assumes "sess_run_loop evs (sess_post_start self (sess_new reg)) cx = (r, s', c', out)"
    and "distinct (run_requests evs)" and "length (run_requests evs) \<le> 2 ^ 64"
  shows "r \<noteq> Some (Panic p)"
proof -
  have "acct (sess_post_start self (sess_new reg)) [] ([] @ []) (\<lambda>_. False)"
    by (rule acct_weaken [OF acct_new [where c = "\<lambda>_. False"]]) (simp_all add: sess_post_start_def)
  moreover have "sess_proxy (sess_post_start self (sess_new reg)) = Some \<lparr>px_session = self\<rparr>"
    by (simp add: sess_post_start_def)
  ultimately show ?thesis using run_ok [OF _ _ _ _ assms(1)] assms(2,3) by fastforce
qed

lemma spawn_session_run:
  assumes "self \<noteq> index"
  shows "spawn_session accepts self index endpoint session evs close =
    (case sess_run_loop evs (sess_post_start index session) (supervised_ctx accepts self index endpoint) of
       (None, _) \<Rightarrow> Ret (Ok (index, None))
     | (Some r, s', c', out) \<Rightarrow> Ret (Ok (index, map_option (\<lambda>(res, c). sc_try_notify (final_event (sc_doorplate c) res) c)
         (cx_finish session_ops (session_hooks close) r (s', out) c'))))"
  using assms
  by (auto simp: spawn_session_def cx_create_def cx_spawn_def cx_run_def session_ops_def session_hooks_def session_loop_def
      session_ctx_new_def supervised_ctx_def sc_take_mailbox_def sc_set_supervisor_def sc_set_state_def Let_def
      split: prod.split option.split)

lemma session_finish:
  assumes "ctx_kept True (supervised_ctx accepts self index endpoint) c'"
  shows "\<exists>c. cx_finish session_ops (session_hooks (Some close)) (Ret result) (s', out) c' =
      Some (Ret (merge_results result (map_err SIoError close)), c) \<and> sc_state c = Stopped \<and>
    sc_doorplate c = index \<and> sc_supervisor c = Some self \<and> sc_accepts c = accepts \<and> sc_sent c = []"
  using assms
  by (auto simp: cx_finish_def session_ops_def session_hooks_def sess_post_stop_def Let_def ctx_kept_def supervised_ctx_def
      session_ctx_new_def)

lemma session_finish_waits: "cx_finish session_ops (session_hooks None) (Ret result) a c' = None"
  by (cases a) (simp add: cx_finish_def session_hooks_def Let_def)

lemma report_first_error: "final_event a (Ret (merge_results result (map_err SIoError close))) = Terminated a (first_error result close)"
  by (cases result; cases close) (simp_all add: merge_results_def first_error_def)

section \<open>The node's side\<close>

text \<open>The node handles what reached its mailbox.\<close>

fun handle_supervisions ::
  "('c, 'jh, 'mb) node_env \<Rightarrow> (actor_id, session_error) supervision_event list \<Rightarrow> ('m, 'l, 'f, 'jh) node \<Rightarrow>
   ('m, 'l, 'f, 'jh) node \<times> ('c, 'jh, 'm, 'f) node_out list" where
  "handle_supervisions env [] s = (s, [])"
| "handle_supervisions env (ev # evs) s =
     (let (s1, out1) = handle_supervision env ev s; (s2, out2) = handle_supervisions env evs s1 in (s2, out1 @ out2))"

lemma filed_session:
  assumes "node_sessions_ok n" and "hm_get (primary (sessions n)) index = Some (l, index)"
  shows "get_session (RefIndex index) n = Ok index" and "dm_contains_key2 (sessions n) l"
proof -
  have "hm_get (secondary (sessions n)) l = Some index"
    using assms by (auto simp: node_sessions_ok_def dm_invD(3))
  with assms(2) show "get_session (RefIndex index) n = Ok index" and "dm_contains_key2 (sessions n) l"
    by (auto simp: get_session_def dm_get_by_key1_def dm_contains_key2_def hm_contains_key_def)
qed

section \<open>Properties\<close>

text \<open>C5. The life of a session. Whatever happens on the connection and in the mailbox, a session that the node
  created keeps running until its loop ends and never panics; when closing the connection then completes, it stops and
  makes exactly one attempt to tell its node that it has terminated, with the first of the errors of its loop and of closing
  the connection. If the node's mailbox accepts the message, then once the node has handled what it got the session is gone from
  its map, its label is free, every observer is told once, and all other sessions and children are untouched. If the
  mailbox refuses it (it is full), nothing reaches the node, and the ended session stays in its map with
  its label taken. (For fewer than \<open>2^64\<close> requests, and as long as nobody takes over the supervision.)\<close>

theorem session_life:
  assumes "self \<noteq> index" and "distinct (run_requests evs)" and "length (run_requests evs) \<le> 2 ^ 64"
    and "list_all (\<lambda>(_, _, i). supervisor_kept i) evs"
    and "sess_run_loop evs (sess_post_start index (sess_new reg)) (supervised_ctx accepts self index endpoint) = (r, s', c', out)"
    and "node_sessions_ok n" and "hm_get (primary (sessions n)) index = Some (l, index)"
  shows "case (r, close) of
      (Some res, Some cl) \<Rightarrow> \<exists>result c. res = Ret result \<and>
        spawn_session accepts self index endpoint (sess_new reg) evs close = Ret (Ok (index, Some c)) \<and> sc_state c = Stopped \<and>
        sc_sent c = [if accepts 0 then ToSupervisor self (Terminated index (first_error result cl))
          else Dropped self (Terminated index (first_error result cl))] \<and>
        (case handle_supervisions env (delivered self (sc_sent c)) n of (n', outs) \<Rightarrow>
          if accepts 0 then
            get_session (RefIndex index) n' = Err (SessionNotFound (actor_id_debug index)) \<and>
            \<not> dm_contains_key2 (sessions n') l \<and>
            (\<forall>ref. ref \<noteq> RefIndex index \<and> ref \<noteq> RefLabel l \<longrightarrow> get_session ref n' = get_session ref n) \<and>
            (\<forall>b. hm_get (children n') b = (if b = index then None else hm_get (children n) b)) \<and>
            (\<forall>o'. events_to o' outs = (if o' \<in> set (observers n) then [SessionDeleted index] else []))
          else n' = n \<and> outs = [] \<and> get_session (RefIndex index) n' = Ok index \<and> dm_contains_key2 (sessions n') l)
    | (Some res, None) \<Rightarrow> (\<exists>result. res = Ret result) \<and>
        spawn_session accepts self index endpoint (sess_new reg) evs close = Ret (Ok (index, None))
    | (None, _) \<Rightarrow> spawn_session accepts self index endpoint (sess_new reg) evs close = Ret (Ok (index, None))"
proof (cases r)
  case None
  then show ?thesis using assms(1,5) by (simp add: spawn_session_run)
next
  case (Some res)
  then obtain result where res: "res = Ret result"
    using session_run_no_panic [OF assms(5,2,3)] by (cases res) auto
  show ?thesis
  proof (cases close)
    case None
    then show ?thesis using assms(1,5) by (simp add: spawn_session_run Some res session_finish_waits)
  next
    case cl: (Some cl)
    have "ctx_kept True (supervised_ctx accepts self index endpoint) c'" using run_ctx_kept [OF assms(5)] assms(4) by simp
    from session_finish [OF this, of cl result s' out] obtain c
      where fin: "cx_finish session_ops (session_hooks (Some cl)) (Ret result) (s', out) c' =
          Some (Ret (merge_results result (map_err SIoError cl)), c)"
        and c: "sc_state c = Stopped" "sc_doorplate c = index" "sc_supervisor c = Some self" "sc_accepts c = accepts" "sc_sent c = []"
      by blast
    let ?c = "sc_try_notify (Terminated index (first_error result cl)) c"
    have "spawn_session accepts self index endpoint (sess_new reg) evs close = Ret (Ok (index, Some ?c))"
      using assms(1,5) by (simp add: spawn_session_run Some res cl fin c report_first_error)
    moreover have "sc_state ?c = Stopped" and "sc_sent ?c = notify_log (accepts 0) (Some self) (Terminated index (first_error result cl))"
      by (simp_all add: sc_try_notify_def c)
    ultimately show ?thesis
      using terminated_session_forgotten [OF assms(6,7), of env "first_error result cl"] filed_session [OF assms(6,7)]
      by (cases "accepts 0") (auto simp: Some cl res case_prod_beta)
  qed
qed

theorem session_life_witness:
  "let evs = [(ex_env 0, ex_env 7, InEnvelope (CmdGetActor (RefLabel ''a''))),
        (ex_env 0, ex_env 0, InRecvFailed (IoErr BrokenPipe (box_str ''reset'')))]
   in \<exists>c. spawn_session (\<lambda>_. True) (actor_id_new 1) (actor_id_new 2) ''peer'' (sess_new hm_new) evs (Some (Ok ())) =
        Ret (Ok (actor_id_new 2, Some c)) \<and>
     sc_sent c = [ToSupervisor (actor_id_new 1) (Terminated (actor_id_new 2) None)] \<and>
     \<not> dm_contains_key2 (sessions (fst (handle_supervision (node_env_at 3) (Terminated (actor_id_new 2) None) node_with_session))) ''s''"
proof -
  let ?evs = "[(ex_env 0, ex_env 7, InEnvelope (CmdGetActor (RefLabel ''a''))),
        (ex_env 0, ex_env 0, InRecvFailed (IoErr BrokenPipe (box_str ''reset'')))]"
  obtain s' c' out where run: "sess_run_loop ?evs (sess_post_start (actor_id_new 2) (sess_new hm_new))
      (supervised_ctx (\<lambda>_. True) (actor_id_new 1) (actor_id_new 2) ''peer'') = (Some (Ret (Ok ())), s', c', out)"
    by (simp add: ex_env_def sess_post_start_def sess_new_def sc_set_state_def supervised_ctx_def
        session_ctx_new_def sess_cleanup_phase_def cleanup_message_res_tx_map_def hm_new_def
        hm_filter_def handle_remote_get_actor_def send_tracked_def next_tag_def send_ipc_message_def
        sess_context_def hm_insert_def hm_put_def proto_defs Let_def)
  have reqs: "run_requests ?evs = [7]" by (simp add: run_requests_def ex_env_def)
  have kept: "list_all (\<lambda>(_, _, i). supervisor_kept i) ?evs" by simp
  from session_life [OF _ _ _ kept run node_with_session_ok, of "Some (Ok ())" "node_env_at 3"] reqs show ?thesis
    by (auto simp: Let_def first_error_def case_prod_beta actor_id_new_def)
qed

text \<open>A report that the node's mailbox refuses leaves the label taken: the session has ended, and no session with its
  label can be created until the node itself stops.\<close>

theorem lost_report_blocks_label:
  assumes "node_sessions_ok n" and "hm_get (primary (sessions n)) index = Some (l, index)"
    and "sc_supervisor c = Some self" and "\<not> sc_accepts c (length (sc_sent c))" and "delivered self (sc_sent c) = []"
    and "session_label_of env' conn lbl = l"
  shows "case handle_supervisions env (delivered self (sc_sent (sc_try_notify (Terminated index e) c))) n of (n', outs) \<Rightarrow>
    n' = n \<and> (\<exists>msg. create_session env' node_id conn lbl n' = (Err (CreateSessionFailed msg), n', []))"
  using assms filed_session(2) [OF assms(1,2)]
  by (auto simp: sc_try_notify_def create_session_def session_label_of_def Let_def)

end
