(* ===== verification/Default_Context.thy ===== *)
theory Default_Context
  imports Lifecycle
begin

text \<open>
  The default actor context (\<open>acktor/src/context.rs\<close>) and the drain policies it is generic over
  (\<open>acktor/src/drain.rs\<close>). The mailbox, a \<open>tokio\<close> channel, is a parameter: \<open>recv\<close> may wait
  forever (\<open>None\<close>), find the channel closed, or deliver an envelope. Handling an envelope is user
  code that may change the actor and the context and takes time in which messages arrive, so it
  may also change the mailbox. The locale \<open>fifo_mailbox\<close> states the documented order of the channel
  and the locale \<open>drain_policy\<close> the contract of a policy.
\<close>

section \<open>Mailboxes\<close>

record ('mb, 'env) mb_ops =
  mb_recv :: "'mb \<Rightarrow> ('env option \<times> 'mb) option"
  mb_try_recv :: "'mb \<Rightarrow> ('env, recv_error) result \<times> 'mb"
  mb_len :: "'mb \<Rightarrow> nat"

locale fifo_mailbox =
  fixes mbx :: "('mb, 'env) mb_ops"
    and queue :: "'mb \<Rightarrow> 'env list"
  assumes len_queue: "mb_len mbx m = length (queue m)"
    and try_recv_pop: "queue m \<noteq> [] \<Longrightarrow>
      fst (mb_try_recv mbx m) = Ok (hd (queue m)) \<and> queue (snd (mb_try_recv mbx m)) = tl (queue m)"
    and try_recv_empty: "queue m = [] \<Longrightarrow>
      \<not> is_ok (fst (mb_try_recv mbx m)) \<and> queue (snd (mb_try_recv mbx m)) = []"
begin

lemma try_recv_queue: "queue (snd (mb_try_recv mbx m)) = tl (queue m)"
  using try_recv_pop [of m] try_recv_empty [of m] by (cases "queue m") auto

lemma try_recv_many:
  "queue (((\<lambda>m. snd (mb_try_recv mbx m)) ^^ n) m) = drop n (queue m)"
  by (induction n) (simp_all add: try_recv_queue drop_Suc tl_drop)

end

text \<open>The queue itself as a mailbox whose senders stay alive.\<close>

definition list_mailbox :: "('env list, 'env) mb_ops" where
  "list_mailbox =
     \<lparr>mb_recv = (\<lambda>q. case q of [] \<Rightarrow> None | x # xs \<Rightarrow> Some (Some x, xs)),
      mb_try_recv = (\<lambda>q. case q of [] \<Rightarrow> (Err RecvEmpty, []) | x # xs \<Rightarrow> (Ok x, xs)),
      mb_len = length\<rparr>"

interpretation list_mb: fifo_mailbox list_mailbox id
  by unfold_locales (auto simp: list_mailbox_def split: list.splits)

section \<open>Drain policies\<close>

record ('d, 'mb) drain_ops =
  dr_default :: 'd
  dr_snapshot :: "'d \<Rightarrow> 'mb \<Rightarrow> 'd"
  dr_apply :: "'d \<Rightarrow> 'mb \<Rightarrow> 'd \<times> 'mb"

definition no_drain :: "(unit, 'mb) drain_ops" where
  "no_drain = \<lparr>dr_default = (), dr_snapshot = (\<lambda>s m. s), dr_apply = (\<lambda>s m. (s, m))\<rparr>"

record drain_state =
  mailbox_len :: nat
  requested :: bool

definition drain_request :: "drain_state \<Rightarrow> drain_state" where
  "drain_request s = s\<lparr>requested := True\<rparr>"

definition drainable_snapshot ::
  "('mb, 'env) mb_ops \<Rightarrow> drain_state \<Rightarrow> 'mb \<Rightarrow> drain_state" where
  "drainable_snapshot mbx s m = s\<lparr>mailbox_len := mb_len mbx m\<rparr>"

definition drainable_apply ::
  "('mb, 'env) mb_ops \<Rightarrow> drain_state \<Rightarrow> 'mb \<Rightarrow> drain_state \<times> 'mb" where
  "drainable_apply mbx s m =
     (if requested s
      then (s\<lparr>requested := False\<rparr>, ((\<lambda>m. snd (mb_try_recv mbx m)) ^^ mailbox_len s) m)
      else (s, m))"

definition drainable :: "('mb, 'env) mb_ops \<Rightarrow> (drain_state, 'mb) drain_ops" where
  "drainable mbx = \<lparr>dr_default = \<lparr>mailbox_len = 0, requested = False\<rparr>,
     dr_snapshot = drainable_snapshot mbx, dr_apply = drainable_apply mbx\<rparr>"

text \<open>The contract of \<open>DrainPolicy\<close>: a snapshot is no request, and \<open>apply\<close> touches the mailbox only on
  a request, which it uses up.\<close>

locale drain_policy =
  fixes dr :: "('d, 'mb) drain_ops" and wants :: "'d \<Rightarrow> bool"
  assumes default_idle: "\<not> wants (dr_default dr)"
    and snapshot_wants: "wants (dr_snapshot dr d m) = wants d"
    and apply_idle: "\<not> wants d \<Longrightarrow> dr_apply dr d m = (d, m)"
    and apply_once: "\<not> wants (fst (dr_apply dr d m))"
begin

lemma handled_without_request:
  "\<not> wants d \<Longrightarrow> \<not> wants (dr_snapshot dr d m) \<and>
     snd (dr_apply dr (dr_snapshot dr d m) m') = m'"
  by (simp add: snapshot_wants apply_idle)

lemma apply_twice: "snd (dr_apply dr (fst (dr_apply dr d m)) m') = m'"
  by (simp add: apply_once apply_idle)

end

interpretation nodrain: drain_policy no_drain "\<lambda>_. False"
  by unfold_locales (simp_all add: no_drain_def)

interpretation drainable_policy: drain_policy "drainable mbx" requested for mbx
  by unfold_locales (simp_all add: drainable_def drainable_snapshot_def drainable_apply_def)

section \<open>The context\<close>

text \<open>
  \<open>doorplate\<close> is the actor's own index; \<open>c_sent\<close> records the notifications that the context has tried,
  in order. The send to a supervisor is non-blocking and its failure is ignored: \<open>c_accepts c n\<close> is the answer
  of the supervisor's mailbox to the attempt after \<open>n\<close> others.
\<close>

record ('r, 'e, 'd, 'mb) actor_ctx =
  c_label :: string
  c_state :: actor_state
  c_doorplate :: actor_id
  c_mailbox :: "'mb option"
  c_drain :: 'd
  c_error :: "'e option"
  c_supervisor :: "'r option"
  c_accepts :: "nat \<Rightarrow> bool"
  c_sent :: "('r, actor_id, 'e) notification list"

definition context_new ::
  "(nat \<Rightarrow> bool) \<Rightarrow> ('d, 'mb) drain_ops \<Rightarrow> actor_id \<Rightarrow> 'mb \<Rightarrow> string \<Rightarrow> ('r, 'e, 'd, 'mb) actor_ctx" where
  "context_new accepts dr index mb label =
     \<lparr>c_label = label, c_state = Unstarted, c_doorplate = index, c_mailbox = Some mb,
      c_drain = dr_default dr, c_error = None, c_supervisor = None, c_accepts = accepts, c_sent = []\<rparr>"

definition save_error :: "'e \<Rightarrow> ('r, 'e, 'd, 'mb, 'z) actor_ctx_scheme \<Rightarrow> ('r, 'e, 'd, 'mb, 'z) actor_ctx_scheme" where
  "save_error e c = c\<lparr>c_error := Some e\<rparr>"

definition take_error ::
  "('r, 'e, 'd, 'mb, 'z) actor_ctx_scheme \<Rightarrow> (unit, 'e) result \<times> ('r, 'e, 'd, 'mb, 'z) actor_ctx_scheme" where
  "take_error c =
     (case c_error c of
        Some e \<Rightarrow> (Err e, c\<lparr>c_error := None\<rparr>)
      | None \<Rightarrow> (Ok (), c))"

definition drain_mailbox :: "('r, 'e, drain_state, 'mb, 'z) actor_ctx_scheme \<Rightarrow> ('r, 'e, drain_state, 'mb, 'z) actor_ctx_scheme"
where
  "drain_mailbox c = c\<lparr>c_drain := drain_request (c_drain c)\<rparr>"

definition context_take_mailbox ::
  "('r, 'e, 'd, 'mb, 'z) actor_ctx_scheme \<Rightarrow> 'mb option \<times> ('r, 'e, 'd, 'mb, 'z) actor_ctx_scheme" where
  "context_take_mailbox c = (c_mailbox c, c\<lparr>c_mailbox := None\<rparr>)"

definition context_try_notify ::
  "(actor_id, 'e) supervision_event \<Rightarrow> ('r, 'e, 'd, 'mb, 'z) actor_ctx_scheme \<Rightarrow> ('r, 'e, 'd, 'mb, 'z) actor_ctx_scheme"
where
  "context_try_notify ev c =
     c\<lparr>c_sent := c_sent c @ notify_log (c_accepts c (length (c_sent c))) (c_supervisor c) ev\<rparr>"

definition context_set_state ::
  "actor_state \<Rightarrow> ('r, 'e, 'd, 'mb, 'z) actor_ctx_scheme \<Rightarrow> ('r, 'e, 'd, 'mb, 'z) actor_ctx_scheme" where
  "context_set_state s c = context_try_notify (State (c_doorplate c) s) (c\<lparr>c_state := s\<rparr>)"

definition context_set_supervisor ::
  "('r \<Rightarrow> actor_id) \<Rightarrow> 'r option \<Rightarrow> ('r, 'e, 'd, 'mb, 'z) actor_ctx_scheme \<Rightarrow> ('r, 'e, 'd, 'mb, 'z) actor_ctx_scheme" where
  "context_set_supervisor index_of new c =
     c\<lparr>c_supervisor := set_supervisor index_of (c_doorplate c) new (c_supervisor c)\<rparr>"

definition context_ops :: "(('r, 'e, 'd, 'mb, 'z) actor_ctx_scheme, actor_id, 'e, 'mb) cx_ops" where
  "context_ops = \<lparr>cx_state = c_state, cx_set_state = context_set_state, cx_address = c_doorplate,
     cx_take_mailbox = context_take_mailbox, cx_try_notify = context_try_notify\<rparr>"

interpretation default_context: actor_context context_ops
  by unfold_locales (simp_all add: context_ops_def context_set_state_def context_try_notify_def
      context_take_mailbox_def)

section \<open>The message loop\<close>

record ('a, 'c, 'e, 'env, 'mb, 'd) loop_env =
  le_mb :: "('mb, 'env) mb_ops"
  le_drain :: "('d, 'mb) drain_ops"
  le_handle :: "'env \<Rightarrow> 'a \<Rightarrow> 'c \<Rightarrow> 'mb \<Rightarrow> unit outcome \<times> 'a \<times> 'c \<times> 'mb"
  le_stopping :: "('a, 'c, stopping, 'e) hook"

text \<open>Handling one envelope: snapshot, handler, drain, and the move to \<open>Stopping\<close> on a saved error.\<close>

definition context_handle_one ::
  "('a, ('r, 'e, 'd, 'mb) actor_ctx, 'e, 'env, 'mb, 'd) loop_env \<Rightarrow> 'env \<Rightarrow> 'a \<Rightarrow>
   ('r, 'e, 'd, 'mb) actor_ctx \<Rightarrow> 'mb \<Rightarrow> unit outcome \<times> 'a \<times> ('r, 'e, 'd, 'mb) actor_ctx \<times> 'mb" where
  "context_handle_one E envelope actor c mb =
     (let c1 = c\<lparr>c_drain := dr_snapshot (le_drain E) (c_drain c) mb\<rparr>
      in case le_handle E envelope actor c1 mb of
           (Panic p, actor', c2, mb') \<Rightarrow> (Panic p, actor', c2, mb')
         | (Ret _, actor', c2, mb') \<Rightarrow>
             let (d, mb'') = dr_apply (le_drain E) (c_drain c2) mb';
                 c3 = c2\<lparr>c_drain := d\<rparr>;
                 c4 = if c_error c3 \<noteq> None \<and> c_state c3 = Running
                      then context_set_state Stopping c3 else c3
             in (Ret (), actor', c4, mb''))"

text \<open>The second half of an iteration: \<open>Some r\<close> leaves the loop with \<open>r\<close>, \<open>None\<close> goes round again.\<close>

definition context_after ::
  "('a, ('r, 'e, 'd, 'mb) actor_ctx, 'e, 'env, 'mb, 'd) loop_env \<Rightarrow> 'a \<Rightarrow>
   ('r, 'e, 'd, 'mb) actor_ctx \<Rightarrow>
   (unit, 'e) result outcome option \<times> 'a \<times> ('r, 'e, 'd, 'mb) actor_ctx" where
  "context_after E actor c =
     (case c_state c of
        Stopping \<Rightarrow>
          (let (result, c1) = take_error c
           in case le_stopping E actor c1 of
                (Panic p, actor', c2) \<Rightarrow> (Some (Panic p), actor', c2)
              | (Ret (Ok Stop), actor', c2) \<Rightarrow> (Some (Ret result), actor', c2)
              | (Ret (Ok Continue), actor', c2) \<Rightarrow>
                  let c3 = (case result of
                              Err e \<Rightarrow> context_try_notify (Warn (c_doorplate c2) e) c2
                            | Ok _ \<Rightarrow> c2)
                  in (None, actor', context_set_state Running c3)
              | (Ret (Err e), actor', c2) \<Rightarrow>
                  (Some (Ret (case result of Ok _ \<Rightarrow> Err e | Err e' \<Rightarrow> Err e')), actor', c2))
      | Stopped \<Rightarrow> (let (result, c1) = take_error c in (Some (Ret result), actor, c1))
      | _ \<Rightarrow> (None, actor, c))"

definition context_iter ::
  "('a, ('r, 'e, 'd, 'mb) actor_ctx, 'e, 'env, 'mb, 'd) loop_env \<Rightarrow> 'a \<Rightarrow>
   ('r, 'e, 'd, 'mb) actor_ctx \<Rightarrow> 'mb \<Rightarrow>
   ((unit, 'e) result outcome option \<times> 'a \<times> ('r, 'e, 'd, 'mb) actor_ctx \<times> 'mb) option" where
  "context_iter E actor c mb =
     (case mb_recv (le_mb E) mb of
        None \<Rightarrow> None
      | Some (None, mb') \<Rightarrow>
          let (r, actor', c') = context_after E actor (context_set_state Stopped c)
          in Some (r, actor', c', mb')
      | Some (Some envelope, mb') \<Rightarrow>
          (case context_handle_one E envelope actor c mb' of
             (Panic p, actor', c', mb'') \<Rightarrow> Some (Some (Panic p), actor', c', mb'')
           | (Ret _, actor', c', mb'') \<Rightarrow>
               let (r, actor'', c'') = context_after E actor' c'
               in Some (r, actor'', c'', mb'')))"

partial_function (option) context_run_loop ::
  "('a, ('r, 'e, 'd, 'mb) actor_ctx, 'e, 'env, 'mb, 'd) loop_env \<Rightarrow> 'a \<Rightarrow>
   ('r, 'e, 'd, 'mb) actor_ctx \<Rightarrow> 'mb \<Rightarrow>
   ((unit, 'e) result outcome \<times> 'a \<times> ('r, 'e, 'd, 'mb) actor_ctx) option" where
  "context_run_loop E actor c mb =
     (if c_state c \<noteq> Running then Some (Ret (Ok ()), actor, c)
      else case context_iter E actor c mb of
             None \<Rightarrow> None
           | Some (r, actor', c', mb') \<Rightarrow>
               (case r of
                  Some res \<Rightarrow> Some (res, actor', c')
                | None \<Rightarrow> context_run_loop E actor' c' mb'))"

section \<open>Facts\<close>

lemma context_ops_simps [simp]:
  "cx_state context_ops = c_state" "cx_set_state context_ops = context_set_state"
  "cx_address context_ops = c_doorplate" "cx_take_mailbox context_ops = context_take_mailbox"
  "cx_try_notify context_ops = context_try_notify"
  by (simp_all add: context_ops_def)

lemma context_set_state_fields [simp]:
  "c_state (context_set_state s c) = s" "c_error (context_set_state s c) = c_error c"
  "c_doorplate (context_set_state s c) = c_doorplate c"
  "c_supervisor (context_set_state s c) = c_supervisor c"
  "c_mailbox (context_set_state s c) = c_mailbox c" "c_accepts (context_set_state s c) = c_accepts c"
  "c_sent (context_set_state s c) =
     c_sent c @ notify_log (c_accepts c (length (c_sent c))) (c_supervisor c) (State (c_doorplate c) s)"
  by (simp_all add: context_set_state_def context_try_notify_def)

lemma context_try_notify_fields [simp]:
  "c_state (context_try_notify ev c) = c_state c" "c_error (context_try_notify ev c) = c_error c"
  "c_doorplate (context_try_notify ev c) = c_doorplate c"
  "c_supervisor (context_try_notify ev c) = c_supervisor c" "c_accepts (context_try_notify ev c) = c_accepts c"
  "c_sent (context_try_notify ev c) =
     c_sent c @ notify_log (c_accepts c (length (c_sent c))) (c_supervisor c) ev"
  by (simp_all add: context_try_notify_def)

text \<open>Running the handlers of a list of envelopes in order, for handlers that return.\<close>

fun handle_all ::
  "('env \<Rightarrow> 'a \<Rightarrow> 'c \<Rightarrow> 'a \<times> 'c) \<Rightarrow> 'env list \<Rightarrow> 'a \<Rightarrow> 'c \<Rightarrow> 'a \<times> 'c" where
  "handle_all hf [] a c = (a, c)"
| "handle_all hf (x # xs) a c = (case hf x a c of (a', c') \<Rightarrow> handle_all hf xs a' c')"

lemma handle_all_append:
  "handle_all hf (xs @ ys) a c = (case handle_all hf xs a c of (a', c') \<Rightarrow> handle_all hf ys a' c')"
  by (induction xs arbitrary: a c) (simp_all split: prod.split)

text \<open>An environment with the default policy, a queue of envelopes and handlers that return.\<close>

definition queue_env ::
  "('env \<Rightarrow> 'a \<Rightarrow> ('r, 'e, unit, 'env list) actor_ctx \<Rightarrow>
     'a \<times> ('r, 'e, unit, 'env list) actor_ctx) \<Rightarrow>
   ('a, ('r, 'e, unit, 'env list) actor_ctx, stopping, 'e) hook \<Rightarrow>
   ('a, ('r, 'e, unit, 'env list) actor_ctx, 'e, 'env, 'env list, unit) loop_env" where
  "queue_env hf st =
     \<lparr>le_mb = list_mailbox, le_drain = no_drain,
      le_handle = (\<lambda>x a c mb. case hf x a c of (a', c') \<Rightarrow> (Ret (), a', c', mb)),
      le_stopping = st\<rparr>"

lemma drain_unit [simp]: "(c :: ('r, 'e, unit, 'mb) actor_ctx)\<lparr>c_drain := u\<rparr> = c"
  by (cases c) simp

lemma handle_one_queue:
  "context_handle_one (queue_env hf st) x a c q =
     (case hf x a c of (a', c') \<Rightarrow>
        (Ret (), a',
         if c_error c' \<noteq> None \<and> c_state c' = Running then context_set_state Stopping c' else c', q))"
  by (simp add: context_handle_one_def queue_env_def no_drain_def Let_def split: prod.split)

lemma iter_queue:
  assumes "hf x a c = (a', c')"
  shows "context_iter (queue_env hf st) a c (x # q) =
    (let c2 = if c_error c' \<noteq> None \<and> c_state c' = Running then context_set_state Stopping c' else c'
     in case context_after (queue_env hf st) a' c2 of (r, a'', c'') \<Rightarrow> Some (r, a'', c'', q))"
proof -
  have "mb_recv (le_mb (queue_env hf st)) (x # q) = Some (Some x, q)"
    by (simp add: queue_env_def list_mailbox_def)
  with assms show ?thesis by (simp add: context_iter_def handle_one_queue Let_def)
qed

lemma loop_step:
  assumes "c_state c = Running" and "context_iter E a c mb = Some (None, a', c', mb')"
  shows "context_run_loop E a c mb = context_run_loop E a' c' mb'"
  using assms by (simp add: context_run_loop.simps [of E a c mb])

lemma loop_return:
  assumes "c_state c = Running" and "context_iter E a c mb = Some (Some r, a', c', mb')"
  shows "context_run_loop E a c mb = Some (r, a', c')"
  using assms by (simp add: context_run_loop.simps [of E a c mb])

section \<open>Properties\<close>

text \<open>C15. The message loop handles the queued envelopes one by one in the order of arrival and ends
  with the first one that terminates the actor: it returns, its result is the error saved by then,
  if any, and no envelope behind that one is handled.\<close>

theorem context_loop_fifo:
  assumes "c_state c = Running"
    and "\<And>k. k \<le> length xs \<Longrightarrow>
      c_state (snd (handle_all hf (take k xs) a c)) = Running \<and>
      c_error (snd (handle_all hf (take k xs) a c)) = None"
    and "handle_all hf (xs @ [x]) a c = (a', c')" and "c_state c' = Stopped"
  shows "context_run_loop (queue_env hf st) a c (xs @ x # ys) =
    Some (Ret (fst (take_error c')), a', snd (take_error c'))"
  using assms
proof (induction xs arbitrary: a c)
  case Nil
  then obtain a1 c1 where hf: "hf x a c = (a1, c1)" by (cases "hf x a c")
  with Nil.prems have eq: "a1 = a'" "c1 = c'" by simp_all
  have "context_iter (queue_env hf st) a c (x # ys) =
      Some (Some (Ret (fst (take_error c'))), a', snd (take_error c'), ys)"
    using iter_queue [where hf = hf, OF hf, of st ys] Nil.prems(4)
    by (simp add: eq context_after_def Let_def case_prod_beta)
  from loop_return [OF Nil.prems(1) this] show ?case by simp
next
  case (Cons y xs)
  obtain a1 c1 where hf: "hf y a c = (a1, c1)" by (cases "hf y a c")
  have c1: "c_state c1 = Running" "c_error c1 = None"
    using Cons.prems(2) [of 1] hf by simp_all
  have "context_iter (queue_env hf st) a c (y # (xs @ x # ys)) = Some (None, a1, c1, xs @ x # ys)"
    using iter_queue [where hf = hf, OF hf, of st "xs @ x # ys"] c1 by (simp add: context_after_def)
  from loop_step [OF Cons.prems(1) this]
  have "context_run_loop (queue_env hf st) a c (y # (xs @ x # ys)) =
      context_run_loop (queue_env hf st) a1 c1 (xs @ x # ys)" .
  moreover have "context_run_loop (queue_env hf st) a1 c1 (xs @ x # ys) =
      Some (Ret (fst (take_error c')), a', snd (take_error c'))"
  proof (rule Cons.IH)
    show "c_state c1 = Running" by (rule c1)
    show "c_state (snd (handle_all hf (take k xs) a1 c1)) = Running \<and>
        c_error (snd (handle_all hf (take k xs) a1 c1)) = None" if "k \<le> length xs" for k
      using Cons.prems(2) [of "Suc k"] that hf by simp
    show "handle_all hf (xs @ [x]) a1 c1 = (a', c')" using Cons.prems(3) hf by simp
    show "c_state c' = Stopped" by (rule Cons.prems)
  qed
  ultimately show ?case by simp
qed

text \<open>A counting actor for the witnesses: numbers are added, zero terminates.\<close>

definition ex_handler ::
  "nat \<Rightarrow> nat \<Rightarrow> (nat, string, unit, nat list) actor_ctx \<Rightarrow>
     nat \<times> (nat, string, unit, nat list) actor_ctx" where
  "ex_handler n a c = (if n = 0 then (a, signal_handle context_ops SignalTerminate c) else (a + n, c))"

definition ex_stopping :: "(nat, (nat, string, unit, nat list) actor_ctx, stopping, string) hook" where
  "ex_stopping a c = (Ret (Ok Stop), a, c)"

definition ex_context :: "(nat, string, unit, nat list) actor_ctx" where
  "ex_context = (context_new (\<lambda>_. True) no_drain (actor_id_new 1) [] ''ex'')\<lparr>c_state := Running\<rparr>"

theorem context_loop_fifo_witness:
  "\<exists>c'. context_run_loop (queue_env ex_handler ex_stopping) 0 ex_context ([3, 4] @ 0 # [5]) =
     Some (Ret (Ok ()), 7, c')"
proof -
  obtain a' c' where all: "handle_all ex_handler ([3, 4] @ [0]) 0 ex_context = (a', c')"
    by (cases "handle_all ex_handler ([3, 4] @ [0]) 0 ex_context")
  have c': "a' = 7" "c_state c' = Stopped" "c_error c' = None"
    using all by (auto simp: ex_handler_def ex_context_def context_new_def cx_terminate_def)
  have "context_run_loop (queue_env ex_handler ex_stopping) 0 ex_context ([3, 4] @ 0 # [5]) =
      Some (Ret (fst (take_error c')), a', snd (take_error c'))"
  proof (rule context_loop_fifo [OF _ _ all c'(2)])
    show "c_state ex_context = Running" by (simp add: ex_context_def)
    show "c_state (snd (handle_all ex_handler (take k [3, 4]) 0 ex_context)) = Running \<and>
        c_error (snd (handle_all ex_handler (take k [3, 4]) 0 ex_context)) = None"
      if "k \<le> length [3, 4 :: nat]" for k
      by (cases k; cases "k - 1") (simp_all add: ex_handler_def ex_context_def context_new_def)
  qed
  with c' show ?thesis by (simp add: take_error_def)
qed



text \<open>A requested drain discards exactly the messages that were queued when the current message
  began to be handled: those that arrived since stay, in order, every \<open>try_recv\<close> of the drain finds
  a message, and the request is used up.\<close>

theorem drain_discards_snapshot:
  assumes "fifo_mailbox mbx queue" and "queue m' = queue m @ arrived"
    and "d' = drain_request (dr_snapshot (drainable mbx) d m)"
  shows "queue (snd (dr_apply (drainable mbx) d' m')) = arrived \<and>
    \<not> requested (fst (dr_apply (drainable mbx) d' m')) \<and>
    (\<forall>k < length (queue m).
       fst (mb_try_recv mbx (((\<lambda>m. snd (mb_try_recv mbx m)) ^^ k) m')) = Ok (queue m ! k))"
proof -
  note many = fifo_mailbox.try_recv_many [OF assms(1)]
  have d': "requested d'" "mailbox_len d' = length (queue m)"
    using fifo_mailbox.len_queue [OF assms(1)]
    by (simp_all add: assms(3) drain_request_def drainable_def drainable_snapshot_def)
  have "fst (mb_try_recv mbx (((\<lambda>m. snd (mb_try_recv mbx m)) ^^ k) m')) = Ok (queue m ! k)"
    if k: "k < length (queue m)" for k
  proof -
    have "queue (((\<lambda>m. snd (mb_try_recv mbx m)) ^^ k) m') = queue m ! k # drop (Suc k) (queue m) @ arrived"
      using k by (simp add: many assms(2) Cons_nth_drop_Suc)
    with fifo_mailbox.try_recv_pop [OF assms(1), of "((\<lambda>m. snd (mb_try_recv mbx m)) ^^ k) m'"]
    show ?thesis by simp
  qed
  then show ?thesis
    using d' by (simp add: drainable_def drainable_apply_def many assms(2))
qed

theorem drain_discards_snapshot_witness:
  "id (snd (dr_apply (drainable list_mailbox)
     (drain_request (dr_snapshot (drainable list_mailbox) \<lparr>mailbox_len = 0, requested = False\<rparr> [1, 2 :: nat]))
     [1, 2, 3 :: nat])) = [3]"
  using drain_discards_snapshot [OF list_mb.fifo_mailbox_axioms _ refl,
      of "[1, 2, 3 :: nat]" "[1, 2]" "[3]" "\<lparr>mailbox_len = 0, requested = False\<rparr>"] by simp

text \<open>
  The report a task owes its supervisor: a panic of any phase that ran decides, otherwise the first
  error, otherwise success.
\<close>

definition phases_report :: "(unit, 'e) result outcome list \<Rightarrow> (unit, 'e) result outcome" where
  "phases_report ps =
     (case filter (\<lambda>p. \<exists>m. p = Panic m) ps of
        p # _ \<Rightarrow> p
      | [] \<Rightarrow> (case filter (\<lambda>p. \<exists>e. p = Ret (Err e)) ps of p # _ \<Rightarrow> p | [] \<Rightarrow> Ret (Ok ())))"

text \<open>The phases that ran, and the context as they leave it: \<open>post_start\<close>, then the loop if it succeeded, then
  \<open>post_stop\<close> in state \<open>Stopped\<close> if the loop did not panic.\<close>

definition stopped_ctx :: "('r, 'e, 'd, 'mb) actor_ctx \<Rightarrow> ('r, 'e, 'd, 'mb) actor_ctx" where
  "stopped_ctx c = (if c_state c \<noteq> Stopped then context_set_state Stopped c else c)"

definition phases ::
  "('a, ('r, 'e, 'd, 'mb) actor_ctx, 'e) hooks \<Rightarrow>
   ('a, ('r, 'e, 'd, 'mb) actor_ctx, 'e, 'mb) msg_loop \<Rightarrow> 'a \<Rightarrow> ('r, 'e, 'd, 'mb) actor_ctx \<Rightarrow> 'mb \<Rightarrow>
   ((unit, 'e) result outcome list \<times> ('r, 'e, 'd, 'mb) actor_ctx) option" where
  "phases h loop a c mb =
     (case post_start h a c of
        None \<Rightarrow> None
      | Some (Ret (Ok _), a1, c1) \<Rightarrow>
          (case loop a1 (context_set_state Running c1) mb of
             None \<Rightarrow> None
           | Some (Panic p, a2, c2) \<Rightarrow> Some ([Ret (Ok ()), Panic p], stopped_ctx c2)
           | Some (Ret r, a2, c2) \<Rightarrow>
               (case post_stop h a2 (stopped_ctx c2) of
                  None \<Rightarrow> None
                | Some (q, _, c3) \<Rightarrow> Some ([Ret (Ok ()), Ret r, q], c3)))
      | Some (r, a1, c1) \<Rightarrow> Some ([r], context_set_state Stopped c1))"

lemma merge_results_report:
  "Ret (merge_results r q) = phases_report [Ret (Ok ()), Ret r, Ret q]"
  by (cases r; cases q) (simp_all add: merge_results_def phases_report_def)

lemma run_report:
  "cx_run context_ops h loop a c mb = map_option (map_prod phases_report id) (phases h loop a c mb)"
proof (cases "post_start h a c")
  case None
  then show ?thesis by (simp add: cx_run_def phases_def)
next
  case (Some t)
  obtain r a1 c1 where t: "t = (r, a1, c1)" by (cases t)
  show ?thesis
  proof (cases "r = Ret (Ok ())")
    case False
    with Some t show ?thesis
      by (cases r) (auto simp: cx_run_def phases_def phases_report_def split: result.splits)
  next
    case True
    with Some t show ?thesis
      by (auto simp: cx_run_def phases_def cx_finish_def stopped_ctx_def Let_def merge_results_report
          split: option.split outcome.split prod.split) (simp_all add: phases_report_def)
  qed
qed

text \<open>C16. Every started actor whose task ends tries to send its supervisor one final report, after everything else
  its phases sent, and nothing after it: \<open>Panicked\<close> when a phase that ran panicked, otherwise \<open>Terminated\<close> with the
  first error of \<open>post_start\<close>, loop and \<open>post_stop\<close>, if any; a panicking loop skips \<open>post_stop\<close> and a failing
  \<open>post_start\<close> skips both. The report is in the supervisor's mailbox if that accepts it, and lost otherwise. A task of
  which a phase never ends sends none.\<close>

theorem spawn_final_report:
  assumes "c_mailbox c = Some mb"
    and "pre_start h a (snd (context_take_mailbox c)) = (Ret (Ok ()), a1, c1)"
  shows "case phases h loop a1 (context_set_state Starting c1) mb of
      None \<Rightarrow> cx_spawn context_ops h loop a c = Ret (Ok (c_doorplate c, None))
    | Some (ps, c2) \<Rightarrow> \<exists>c3. cx_spawn context_ops h loop a c = Ret (Ok (c_doorplate c, Some c3)) \<and>
        c3 = c2\<lparr>c_sent := c_sent c2 @ notify_log (c_accepts c2 (length (c_sent c2))) (c_supervisor c2)
          (final_event (c_doorplate c2) (phases_report ps))\<rparr> \<and>
        (\<forall>sv. c_supervisor c2 = Some sv \<longrightarrow> delivered sv (c_sent c3) = delivered sv (c_sent c2) @
          (if c_accepts c2 (length (c_sent c2)) then [final_event (c_doorplate c2) (phases_report ps)] else []))"
proof -
  have "cx_take_mailbox context_ops c = (Some mb, snd (context_take_mailbox c))"
    using assms(1) by (simp add: context_take_mailbox_def)
  note spawn = default_context.spawn_run [OF this assms(2), of loop, simplified]
  show ?thesis
    by (auto simp: spawn run_report delivered_append context_try_notify_def split: option.split)
qed

text \<open>Hooks that succeed without any effect, but for a late error.\<close>

definition ex_hooks :: "(nat, (nat, string, unit, nat list) actor_ctx, string) hooks" where
  "ex_hooks = \<lparr>pre_start = (\<lambda>a c. (Ret (Ok ()), a, c)), post_start = (\<lambda>a c. Some (Ret (Ok ()), a, c)),
     post_stop = (\<lambda>a c. Some (Ret (Err ''late''), a, c))\<rparr>"

theorem spawn_final_report_witness:
  "\<exists>c3. cx_spawn context_ops ex_hooks (\<lambda>a c m. Some (Ret (Err ''loop''), a, c)) 0
      ((context_new (\<lambda>n. n \<noteq> 1) no_drain (actor_id_new 4) [] ''w'')\<lparr>c_supervisor := Some 7\<rparr>) =
    Ret (Ok (actor_id_new 4, Some c3)) \<and>
    delivered 7 (c_sent c3) = [State (actor_id_new 4) Starting, State (actor_id_new 4) Stopped,
      Terminated (actor_id_new 4) (Some ''loop'')]"
proof -
  let ?c = "(context_new (\<lambda>n. n \<noteq> 1) no_drain (actor_id_new 4) [] ''w'')\<lparr>c_supervisor := Some 7\<rparr>
    :: (nat, string, unit, nat list) actor_ctx"
  let ?l = "\<lambda>a c m. Some (Ret (Err ''loop''), a, c) ::
    ((unit, string) result outcome \<times> nat \<times> (nat, string, unit, nat list) actor_ctx) option"
  have "phases ex_hooks ?l 0 (context_set_state Starting (snd (context_take_mailbox ?c))) [] =
      Some ([Ret (Ok ()), Ret (Err ''loop''), Ret (Err ''late'')],
        stopped_ctx (context_set_state Running (context_set_state Starting (snd (context_take_mailbox ?c)))))"
    by (simp add: phases_def ex_hooks_def)
  with spawn_final_report [of ?c "[]" ex_hooks 0 0 "snd (context_take_mailbox ?c)" ?l] show ?thesis
    by (auto simp: phases_report_def ex_hooks_def context_new_def context_take_mailbox_def stopped_ctx_def)
qed

text \<open>C24. The hooks run only in the states their documentation names: an actor spawned with hooks and a
  loop that behave alike in the initial state (\<open>pre_start\<close>), in \<open>Starting\<close> (\<open>post_start\<close>), in
  \<open>Running\<close> (the loop) and in \<open>Stopped\<close> (\<open>post_stop\<close>) behaves alike, whatever they do elsewhere.\<close>

theorem spawn_hook_states:
  assumes "\<And>a c'. c_state c' = c_state c \<Longrightarrow> pre_start h a c' = pre_start h' a c'"
    and "\<And>a c'. c_state c' = Starting \<Longrightarrow> post_start h a c' = post_start h' a c'"
    and "\<And>a c' mb. c_state c' = Running \<Longrightarrow> loop a c' mb = loop' a c' mb"
    and "\<And>a c'. c_state c' = Stopped \<Longrightarrow> post_stop h a c' = post_stop h' a c'"
  shows "cx_spawn context_ops h loop a c = cx_spawn context_ops h' loop' a c"
  by (rule default_context.spawn_cong) (simp_all add: assms)

theorem spawn_hook_states_witness:
  "cx_spawn context_ops ex_hooks (\<lambda>a c m. Some (Ret (Ok ()), a, c)) 0
     (context_new (\<lambda>_. True) no_drain (actor_id_new 4) [] ''w'') =
   cx_spawn context_ops (ex_hooks\<lparr>post_stop := (\<lambda>a c. if c_state c = Stopped then Some (Ret (Err ''late''), a, c)
        else None)\<rparr>)
     (\<lambda>a c m. if c_state c = Running then Some (Ret (Ok ()), a, c) else None) 0
     (context_new (\<lambda>_. True) no_drain (actor_id_new 4) [] ''w'')"
  by (rule spawn_hook_states) (simp_all add: ex_hooks_def)

end
