(* ===== verification/Cron.thy ===== *)
theory Cron
  imports Default_Context
begin

text \<open>
  Actors with a repeated task (\<open>acktor/src/cron.rs\<close>). A cron context is a default context with the
  state of the task and the handle of the armed timer; \<open>save_error\<close>, \<open>take_error\<close>, \<open>set_state\<close>,
  \<open>set_supervisor\<close> and \<open>drain_mailbox\<close>, which the source repeats word for word, are those of
  \<open>Default_Context\<close> on the larger record. A timer is a task that sleeps and then sends \<open>Resume\<close>;
  the context records the timers it armed and aborted.
\<close>

section \<open>State\<close>

datatype cron_state = CronNormal | CronPaused

datatype timer = Timer (timer_id: nat) (timer_duration: nat)

record ('r, 'e, 'd, 'mb) cron_ctx = "('r, 'e, 'd, 'mb) actor_ctx" +
  cron_state :: cron_state
  cron_join_handle :: "timer option"
  cron_armed :: "timer list"
  cron_aborted :: "timer list"

definition cron_context_new ::
  "(nat \<Rightarrow> bool) \<Rightarrow> ('d, 'mb) drain_ops \<Rightarrow> actor_id \<Rightarrow> 'mb \<Rightarrow> string \<Rightarrow> ('r, 'e, 'd, 'mb) cron_ctx" where
  "cron_context_new accepts dr index mb label =
     \<lparr>c_label = label, c_state = Unstarted, c_doorplate = index, c_mailbox = Some mb,
      c_drain = dr_default dr, c_error = None, c_supervisor = None, c_accepts = accepts, c_sent = [],
      cron_state = CronNormal, cron_join_handle = None, cron_armed = [], cron_aborted = []\<rparr>"

definition cron_abort_timer :: "('r, 'e, 'd, 'mb) cron_ctx \<Rightarrow> ('r, 'e, 'd, 'mb) cron_ctx" where
  "cron_abort_timer c =
     (case cron_join_handle c of
        Some h \<Rightarrow> c\<lparr>cron_join_handle := None, cron_aborted := cron_aborted c @ [h]\<rparr>
      | None \<Rightarrow> c)"

definition pause_task :: "('r, 'e, 'd, 'mb) cron_ctx \<Rightarrow> ('r, 'e, 'd, 'mb) cron_ctx" where
  "pause_task c = (cron_abort_timer c)\<lparr>cron_state := CronPaused\<rparr>"

definition resume_task :: "('r, 'e, 'd, 'mb) cron_ctx \<Rightarrow> ('r, 'e, 'd, 'mb) cron_ctx" where
  "resume_task c = (cron_abort_timer c)\<lparr>cron_state := CronNormal\<rparr>"

datatype cron_signal = CronPause | CronResume

definition cron_signal_try_from :: "u8 \<Rightarrow> (cron_signal, unit) result" where
  "cron_signal_try_from v = (if v = 0 then Ok CronPause else if v = 1 then Ok CronResume else Err ())"

fun cron_signal_handle ::
  "cron_signal \<Rightarrow> ('r, 'e, 'd, 'mb) cron_ctx \<Rightarrow> ('r, 'e, 'd, 'mb) cron_ctx" where
  "cron_signal_handle CronPause c = pause_task c"
| "cron_signal_handle CronResume c = resume_task c"

text \<open>Arming a timer for a non-zero delay.\<close>

definition cron_arm :: "nat \<Rightarrow> ('r, 'e, 'd, 'mb) cron_ctx \<Rightarrow> ('r, 'e, 'd, 'mb) cron_ctx" where
  "cron_arm duration c =
     (let t = Timer (length (cron_armed c)) duration
      in c\<lparr>cron_state := CronPaused, cron_armed := cron_armed c @ [t],
           cron_join_handle := Some t\<rparr>)"

section \<open>One round\<close>

type_synonym ('a, 'r, 'e, 'env, 'mb, 'd) cron_env =
  "('a, ('r, 'e, 'd, 'mb) cron_ctx, 'e, 'env, 'mb, 'd) loop_env"

definition cron_handle_one ::
  "('a, 'r, 'e, 'env, 'mb, 'd) cron_env \<Rightarrow> 'env \<Rightarrow> 'a \<Rightarrow> ('r, 'e, 'd, 'mb) cron_ctx \<Rightarrow> 'mb \<Rightarrow>
   unit outcome \<times> 'a \<times> ('r, 'e, 'd, 'mb) cron_ctx \<times> 'mb" where
  "cron_handle_one E envelope actor c mb =
     (let c1 = c\<lparr>c_drain := dr_snapshot (le_drain E) (c_drain c) mb\<rparr>
      in case le_handle E envelope actor c1 mb of
           (Panic p, actor', c2, mb') \<Rightarrow> (Panic p, actor', c2, mb')
         | (Ret _, actor', c2, mb') \<Rightarrow>
             let (d, mb'') = dr_apply (le_drain E) (c_drain c2) mb'
             in (Ret (), actor', c2\<lparr>c_drain := d\<rparr>, mb''))"

text \<open>The end of \<open>process_one\<close>: a panic of the handler unwinds, otherwise the saved error is taken.\<close>

definition cron_take ::
  "unit outcome \<times> 'a \<times> ('r, 'e, 'd, 'mb) cron_ctx \<times> 'mb \<Rightarrow>
   (unit, 'e) result outcome \<times> 'a \<times> ('r, 'e, 'd, 'mb) cron_ctx \<times> 'mb" where
  "cron_take x =
     (case x of
        (Panic p, actor, c, mb) \<Rightarrow> (Panic p, actor, c, mb)
      | (Ret _, actor, c, mb) \<Rightarrow> let (r, c') = take_error c in (Ret r, actor, c', mb))"

definition cron_wait ::
  "('a, 'r, 'e, 'env, 'mb, 'd) cron_env \<Rightarrow> 'a \<Rightarrow> ('r, 'e, 'd, 'mb) cron_ctx \<Rightarrow> 'mb \<Rightarrow>
   ((unit, 'e) result outcome \<times> 'a \<times> ('r, 'e, 'd, 'mb) cron_ctx \<times> 'mb) option" where
  "cron_wait E actor c mb =
     (case mb_recv (le_mb E) mb of
        None \<Rightarrow> None
      | Some (Some envelope, mb') \<Rightarrow> Some (cron_take (cron_handle_one E envelope actor c mb'))
      | Some (None, mb') \<Rightarrow> Some (cron_take (Ret (), actor, context_set_state Stopped c, mb')))"

definition cron_poll ::
  "('a, 'r, 'e, 'env, 'mb, 'd) cron_env \<Rightarrow> 'a \<Rightarrow> ('r, 'e, 'd, 'mb) cron_ctx \<Rightarrow> 'mb \<Rightarrow>
   (unit, 'e) result outcome \<times> 'a \<times> ('r, 'e, 'd, 'mb) cron_ctx \<times> 'mb" where
  "cron_poll E actor c mb =
     (case mb_try_recv (le_mb E) mb of
        (Ok envelope, mb') \<Rightarrow> cron_take (cron_handle_one E envelope actor c mb')
      | (Err RecvClosed, mb') \<Rightarrow> cron_take (Ret (), actor, context_set_state Stopped c, mb')
      | (Err _, mb') \<Rightarrow> cron_take (Ret (), actor, c, mb'))"

definition cron_process_one ::
  "('a, 'r, 'e, 'env, 'mb, 'd) cron_env \<Rightarrow> ('a, ('r, 'e, 'd, 'mb) cron_ctx, nat, 'e) hook \<Rightarrow>
   'a \<Rightarrow> ('r, 'e, 'd, 'mb) cron_ctx \<Rightarrow> 'mb \<Rightarrow>
   ((unit, 'e) result outcome \<times> 'a \<times> ('r, 'e, 'd, 'mb) cron_ctx \<times> 'mb) option" where
  "cron_process_one E task actor c mb =
     (case cron_state c of
        CronNormal \<Rightarrow>
          (case task actor c of
             (Panic p, actor', c') \<Rightarrow> Some (Panic p, actor', c', mb)
           | (Ret (Err e), actor', c') \<Rightarrow> Some (Ret (Err e), actor', c', mb)
           | (Ret (Ok duration), actor', c') \<Rightarrow>
               if duration = 0 then Some (cron_poll E actor' c' mb)
               else cron_wait E actor' (cron_arm duration c') mb)
      | CronPaused \<Rightarrow> cron_wait E actor c mb)"

definition cron_after ::
  "('a, 'r, 'e, 'env, 'mb, 'd) cron_env \<Rightarrow> (unit, 'e) result \<Rightarrow> 'a \<Rightarrow>
   ('r, 'e, 'd, 'mb) cron_ctx \<Rightarrow>
   (unit, 'e) result outcome option \<times> 'a \<times> ('r, 'e, 'd, 'mb) cron_ctx" where
  "cron_after E result actor c =
     (case c_state c of
        Stopping \<Rightarrow>
          (case le_stopping E actor c of
             (Panic p, actor', c') \<Rightarrow> (Some (Panic p), actor', c')
           | (Ret (Ok Stop), actor', c') \<Rightarrow> (Some (Ret result), actor', c')
           | (Ret (Ok Continue), actor', c') \<Rightarrow>
               let c'' = (case result of
                            Err e \<Rightarrow> context_try_notify (Warn (c_doorplate c') e) c'
                          | Ok _ \<Rightarrow> c')
               in (None, actor', context_set_state Running c'')
           | (Ret (Err e), actor', c') \<Rightarrow>
               (Some (Ret (case result of Ok _ \<Rightarrow> Err e | Err e' \<Rightarrow> Err e')), actor', c'))
      | Stopped \<Rightarrow> (Some (Ret result), actor, c)
      | _ \<Rightarrow> (None, actor, c))"

definition cron_iter ::
  "('a, 'r, 'e, 'env, 'mb, 'd) cron_env \<Rightarrow> ('a, ('r, 'e, 'd, 'mb) cron_ctx, nat, 'e) hook \<Rightarrow>
   'a \<Rightarrow> ('r, 'e, 'd, 'mb) cron_ctx \<Rightarrow> 'mb \<Rightarrow>
   ((unit, 'e) result outcome option \<times> 'a \<times> ('r, 'e, 'd, 'mb) cron_ctx \<times> 'mb) option" where
  "cron_iter E task actor c mb =
     (case cron_process_one E task actor c mb of
        None \<Rightarrow> None
      | Some (Panic p, actor', c', mb') \<Rightarrow> Some (Some (Panic p), actor', c', mb')
      | Some (Ret result, actor', c', mb') \<Rightarrow>
          let c'' = if \<not> is_ok result \<and> c_state c' = Running then context_set_state Stopping c'
                    else c';
              (r, actor'', c3) = cron_after E result actor' c''
          in Some (r, actor'', c3, mb'))"

partial_function (option) cron_run_loop ::
  "('a, 'r, 'e, 'env, 'mb, 'd) cron_env \<Rightarrow> ('a, ('r, 'e, 'd, 'mb) cron_ctx, nat, 'e) hook \<Rightarrow>
   'a \<Rightarrow> ('r, 'e, 'd, 'mb) cron_ctx \<Rightarrow> 'mb \<Rightarrow>
   ((unit, 'e) result outcome \<times> 'a \<times> ('r, 'e, 'd, 'mb) cron_ctx) option" where
  "cron_run_loop E task actor c mb =
     (if c_state c \<noteq> Running then Some (Ret (Ok ()), actor, c)
      else case cron_iter E task actor c mb of
             None \<Rightarrow> None
           | Some (r, actor', c', mb') \<Rightarrow>
               (case r of
                  Some res \<Rightarrow> Some (res, actor', c')
                | None \<Rightarrow> cron_run_loop E task actor' c' mb'))"

text \<open>The operations of a cron context as \<open>spawn\<close> and \<open>run\<close> see them.\<close>

definition cron_ops :: "(('r, 'e, 'd, 'mb) cron_ctx, actor_id, 'e, 'mb) cx_ops" where
  "cron_ops = \<lparr>cx_state = c_state, cx_set_state = context_set_state, cx_address = c_doorplate,
     cx_take_mailbox = context_take_mailbox, cx_try_notify = context_try_notify\<rparr>"

interpretation cron_context: actor_context cron_ops
  by unfold_locales (simp_all add: cron_ops_def context_set_state_def context_try_notify_def
      context_take_mailbox_def)

section \<open>Facts\<close>

text \<open>At most one timer is pending, and only while the task is paused.\<close>

definition cron_inv :: "('r, 'e, 'd, 'mb) cron_ctx \<Rightarrow> bool" where
  "cron_inv c \<longleftrightarrow>
     (cron_join_handle c \<noteq> None \<longrightarrow> cron_state c = CronPaused) \<and>
     (\<forall>t \<in> set (cron_armed c). t \<in> set (cron_aborted c) \<or> cron_join_handle c = Some t) \<and>
     distinct (map timer_id (cron_armed c)) \<and> (\<forall>t \<in> set (cron_armed c). timer_id t < length (cron_armed c))"

lemma cron_abort_inv:
  assumes "cron_inv c"
  shows "cron_inv (cron_abort_timer c)" "cron_join_handle (cron_abort_timer c) = None"
    "cron_state (cron_abort_timer c) = cron_state c" "cron_armed (cron_abort_timer c) = cron_armed c"
  using assms by (auto simp: cron_inv_def cron_abort_timer_def split: option.splits)

lemma cron_signal_inv [inv_intros]:
  assumes "cron_inv c"
  shows "cron_inv (cron_signal_handle s c)"
  using cron_abort_inv [OF assms]
  by (cases s) (auto simp: pause_task_def resume_task_def cron_inv_def)

lemma cron_arm_inv [inv_intros]:
  assumes "cron_inv c" and "cron_state c = CronNormal"
  shows "cron_inv (cron_arm d c)"
  using assms by (auto simp: cron_inv_def cron_arm_def Let_def)

lemma cron_wait_task: "cron_state c = CronPaused \<Longrightarrow> cron_process_one E task a c mb = cron_wait E a c mb"
  by (simp add: cron_process_one_def)

text \<open>An environment with the default policy, a queue of envelopes and handlers that return.\<close>

definition cron_queue_env ::
  "('env \<Rightarrow> 'a \<Rightarrow> ('r, 'e, unit, 'env list) cron_ctx \<Rightarrow>
     'a \<times> ('r, 'e, unit, 'env list) cron_ctx) \<Rightarrow>
   ('a, ('r, 'e, unit, 'env list) cron_ctx, stopping, 'e) hook \<Rightarrow>
   ('a, 'r, 'e, 'env, 'env list, unit) cron_env" where
  "cron_queue_env hf st =
     \<lparr>le_mb = list_mailbox, le_drain = no_drain,
      le_handle = (\<lambda>x a c mb. case hf x a c of (a', c') \<Rightarrow> (Ret (), a', c', mb)),
      le_stopping = st\<rparr>"

lemma cron_drain_unit [simp]: "(c :: ('r, 'e, unit, 'mb) cron_ctx)\<lparr>c_drain := u\<rparr> = c"
  by (cases c) simp

lemma cron_wait_queue:
  assumes "hf x a c = (a', c')"
  shows "cron_wait (cron_queue_env hf st) a c (x # q) =
    Some (Ret (fst (take_error c')), a', snd (take_error c'), q)"
proof -
  have "mb_recv (le_mb (cron_queue_env hf st)) (x # q) = Some (Some x, q)"
    by (simp add: cron_queue_env_def list_mailbox_def)
  moreover have "cron_handle_one (cron_queue_env hf st) x a c q = (Ret (), a', c', q)"
    using assms by (simp add: cron_handle_one_def cron_queue_env_def no_drain_def Let_def)
  ultimately show ?thesis by (simp add: cron_wait_def cron_take_def Let_def case_prod_beta)
qed

lemma cron_loop_step:
  assumes "c_state c = Running" and "cron_iter E task a c mb = Some (None, a', c', mb')"
  shows "cron_run_loop E task a c mb = cron_run_loop E task a' c' mb'"
  using assms by (simp add: cron_run_loop.simps [of E task a c mb])

text \<open>A round whose message is handled quietly goes round again.\<close>

lemma cron_quiet_round:
  assumes "cron_process_one (cron_queue_env hf st) task a c mb =
      Some (Ret (fst (take_error c')), a', snd (take_error c'), q)"
    and "c_state c = Running" and "c_state c' = Running" and "c_error c' = None"
  shows "cron_run_loop (cron_queue_env hf st) task a c mb =
    cron_run_loop (cron_queue_env hf st) task a' c' q"
proof -
  have te: "take_error c' = (Ok (), c')" using assms(4) by (simp add: take_error_def)
  have "cron_iter (cron_queue_env hf st) task a c mb = Some (None, a', c', q)"
    using assms(1,3) by (simp add: cron_iter_def te cron_after_def Let_def)
  with assms(2) show ?thesis by (rule cron_loop_step)
qed

lemma cron_paused_rounds:
  assumes "c_state c = Running" and "cron_state c = CronPaused"
    and "\<And>k. k \<le> length xs \<Longrightarrow>
      c_state (snd (handle_all hf (take k xs) a c)) = Running \<and>
      c_error (snd (handle_all hf (take k xs) a c)) = None \<and>
      cron_state (snd (handle_all hf (take k xs) a c)) = CronPaused"
    and "handle_all hf xs a c = (a', c')"
  shows "cron_run_loop (cron_queue_env hf st) task a c (xs @ q) =
    cron_run_loop (cron_queue_env hf st) task a' c' q"
  using assms
proof (induction xs arbitrary: a c)
  case Nil
  then show ?case by simp
next
  case (Cons x xs)
  obtain a1 c1 where hf: "hf x a c = (a1, c1)" by (cases "hf x a c")
  have c1: "c_state c1 = Running" "c_error c1 = None" "cron_state c1 = CronPaused"
    using Cons.prems(3) [of 1] hf by simp_all
  have "cron_process_one (cron_queue_env hf st) task a c (x # (xs @ q)) =
      Some (Ret (fst (take_error c1)), a1, snd (take_error c1), xs @ q)"
    using cron_wait_queue [where hf = hf, OF hf] by (simp add: cron_wait_task Cons.prems(2))
  from cron_quiet_round [OF this Cons.prems(1) c1(1,2)]
  have "cron_run_loop (cron_queue_env hf st) task a c ((x # xs) @ q) =
      cron_run_loop (cron_queue_env hf st) task a1 c1 (xs @ q)" by simp
  moreover have "cron_run_loop (cron_queue_env hf st) task a1 c1 (xs @ q) =
      cron_run_loop (cron_queue_env hf st) task a' c' q"
  proof (rule Cons.IH [OF c1(1,3)])
    show "c_state (snd (handle_all hf (take k xs) a1 c1)) = Running \<and>
        c_error (snd (handle_all hf (take k xs) a1 c1)) = None \<and>
        cron_state (snd (handle_all hf (take k xs) a1 c1)) = CronPaused" if "k \<le> length xs" for k
      using Cons.prems(3) [of "Suc k"] that hf by simp
    show "handle_all hf xs a1 c1 = (a', c')" using Cons.prems(4) hf by simp
  qed
  ultimately show ?case by simp
qed

section \<open>Properties\<close>

text \<open>C25. After a task run that asks for a delay, one timer with that delay is armed, and the task does
  not run again until a handler resumes it: every queued message handled meanwhile is handled in
  order with the task left alone, whatever the task would do.\<close>

theorem cron_task_waits_for_resume:
  assumes "c_state c = Running" and "cron_state c = CronNormal" and "cron_inv c1"
    and "task a c = (Ret (Ok d), a1, c1)" and "0 < d" and "cron_join_handle c1 = None"
    and "c_state c1 = Running" and "xs \<noteq> []"
    and "\<And>k. k \<le> length xs \<Longrightarrow>
      c_state (snd (handle_all hf (take k xs) a1 (cron_arm d c1))) = Running \<and>
      c_error (snd (handle_all hf (take k xs) a1 (cron_arm d c1))) = None \<and>
      cron_state (snd (handle_all hf (take k xs) a1 (cron_arm d c1))) = CronPaused"
    and "handle_all hf xs a1 (cron_arm d c1) = (a', c')"
  shows "cron_run_loop (cron_queue_env hf st) task a c (xs @ q) =
      cron_run_loop (cron_queue_env hf st) task a' c' q \<and>
    cron_inv (cron_arm d c1) \<and> cron_state (cron_arm d c1) = CronPaused \<and>
    cron_join_handle (cron_arm d c1) = Some (Timer (length (cron_armed c1)) d) \<and>
    cron_armed (cron_arm d c1) = cron_armed c1 @ [Timer (length (cron_armed c1)) d]"
proof -
  let ?c = "cron_arm d c1"
  have arm: "cron_state ?c = CronPaused" "c_state ?c = Running"
      "cron_join_handle ?c = Some (Timer (length (cron_armed c1)) d)"
      "cron_armed ?c = cron_armed c1 @ [Timer (length (cron_armed c1)) d]"
    using assms(7) by (simp_all add: cron_arm_def Let_def)
  have inv: "cron_inv ?c"
    using assms(3,6) by (auto simp: cron_inv_def cron_arm_def Let_def)
  obtain x xs' where xs: "xs = x # xs'" using assms(8) by (cases xs) auto
  have p: "cron_process_one (cron_queue_env hf st) task a c (xs @ q) =
      cron_wait (cron_queue_env hf st) a1 ?c (xs @ q)"
    using assms(2,4,5) by (simp add: cron_process_one_def)
  obtain a2 c2 where hf: "hf x a1 ?c = (a2, c2)" by (cases "hf x a1 ?c")
  have c2: "c_state c2 = Running" "c_error c2 = None" "cron_state c2 = CronPaused"
    using assms(9) [of 1] xs hf by simp_all
  have "cron_process_one (cron_queue_env hf st) task a c (xs @ q) =
      Some (Ret (fst (take_error c2)), a2, snd (take_error c2), xs' @ q)"
    using p xs cron_wait_queue [where hf = hf, OF hf, of st "xs' @ q"] by simp
  from cron_quiet_round [OF this assms(1) c2(1,2)]
  have "cron_run_loop (cron_queue_env hf st) task a c (xs @ q) =
      cron_run_loop (cron_queue_env hf st) task a2 c2 (xs' @ q)" .
  also have "\<dots> = cron_run_loop (cron_queue_env hf st) task a' c' q"
  proof (rule cron_paused_rounds [OF c2(1,3)])
    show "c_state (snd (handle_all hf (take k xs') a2 c2)) = Running \<and>
        c_error (snd (handle_all hf (take k xs') a2 c2)) = None \<and>
        cron_state (snd (handle_all hf (take k xs') a2 c2)) = CronPaused" if "k \<le> length xs'" for k
      using assms(9) [of "Suc k"] that xs hf by simp
    show "handle_all hf xs' a2 c2 = (a', c')" using assms(10) xs hf by simp
  qed
  finally show ?thesis using arm inv by simp
qed

definition ex_cron :: "(nat, string, unit, nat list) cron_ctx" where
  "ex_cron = (cron_context_new (\<lambda>_. True) no_drain (actor_id_new 1) [] ''cron'')\<lparr>c_state := Running\<rparr>"

definition ex_task :: "(nat, (nat, string, unit, nat list) cron_ctx, nat, string) hook" where
  "ex_task a c = (Ret (Ok 60), a + 100, c)"

lemma adder_keeps: "snd (handle_all (\<lambda>n a c. (a + n, c)) xs a c) = c"
  by (induction xs arbitrary: a) auto

theorem cron_task_waits_for_resume_witness:
  "cron_run_loop (cron_queue_env (\<lambda>n a c. (a + n, c)) (\<lambda>a c. (Ret (Ok Stop), a, c))) ex_task 0 ex_cron
     ([1, 2] @ [3]) =
   cron_run_loop (cron_queue_env (\<lambda>n a c. (a + n, c)) (\<lambda>a c. (Ret (Ok Stop), a, c))) ex_task 103
     (cron_arm 60 ex_cron) [3]"
proof -
  have c: "c_state ex_cron = Running" "cron_state ex_cron = CronNormal" "cron_inv ex_cron"
      "cron_join_handle ex_cron = None" "c_state (cron_arm 60 ex_cron) = Running"
      "c_error (cron_arm 60 ex_cron) = None" "cron_state (cron_arm 60 ex_cron) = CronPaused"
    by (simp_all add: ex_cron_def cron_context_new_def cron_inv_def cron_arm_def Let_def)
  show ?thesis
    using cron_task_waits_for_resume [where hf = "\<lambda>n a c. (a + n, c)" and c = ex_cron
        and ?c1.0 = ex_cron and task = ex_task and a = 0 and d = 60 and ?a1.0 = 100
        and xs = "[1, 2]" and a' = 103 and c' = "cron_arm 60 ex_cron" and q = "[3]"
        and st = "\<lambda>a c. (Ret (Ok Stop), a, c)"]
    by (simp add: c adder_keeps) (simp add: ex_task_def)
qed

text \<open>A task that asks for no delay never blocks its actor: the round polls the mailbox and
  returns at once, with or without a message.\<close>

theorem cron_zero_never_blocks:
  assumes "cron_state c = CronNormal" and "task a c = (Ret (Ok 0), a1, c1)"
  shows "\<exists>r. cron_iter E task a c mb = Some r"
proof -
  obtain r a2 c2 mb2 where "cron_poll E a1 c1 mb = (r, a2, c2, mb2)"
    by (cases "cron_poll E a1 c1 mb")
  with assms show ?thesis
    by (cases r) (simp_all add: cron_iter_def cron_process_one_def Let_def case_prod_beta)
qed

theorem cron_zero_never_blocks_witness:
  "\<exists>r. cron_iter (cron_queue_env (\<lambda>n a c. (a + n, c)) (\<lambda>a c. (Ret (Ok Stop), a, c)))
     (\<lambda>a c. (Ret (Ok 0), a, c)) 0 ex_cron [] = Some r"
  by (rule cron_zero_never_blocks) (simp_all add: ex_cron_def cron_context_new_def)

text \<open>An error of the task reaches the \<open>stopping\<close> hook before any message is taken from the
  mailbox: a hook that stops (or fails) ends the loop with the task's error, one that continues has
  one attempt made to warn the supervisor of it and the actor running again with the mailbox untouched.\<close>

theorem cron_task_error:
  assumes "cron_state c = CronNormal" and "task a c = (Ret (Err e), a1, c1)"
    and "c_state c1 = Running"
    and "le_stopping E a1 (context_set_state Stopping c1) = (Ret r, a2, c2)"
  shows "(r = Ok Continue \<longrightarrow>
      (\<exists>c3. cron_iter E task a c mb = Some (None, a2, c3, mb) \<and> c_state c3 = Running \<and>
         c_sent c3 = c_sent (context_set_state Running (context_try_notify (Warn (c_doorplate c2) e) c2)))) \<and>
    (r \<noteq> Ok Continue \<longrightarrow> cron_iter E task a c mb = Some (Some (Ret (Err e)), a2, c2, mb))"
proof -
  have "cron_process_one E task a c mb = Some (Ret (Err e), a1, c1, mb)"
    using assms(1,2) by (simp add: cron_process_one_def)
  then have "cron_iter E task a c mb =
      (case cron_after E (Err e) a1 (context_set_state Stopping c1) of
         (r, a', c') \<Rightarrow> Some (r, a', c', mb))"
    using assms(3) by (simp add: cron_iter_def Let_def)
  then show ?thesis
    using assms(4) by (cases r) (auto simp: cron_after_def Let_def split: stopping.splits)
qed

theorem cron_task_error_witness:
  "\<exists>a2 c2. cron_iter (cron_queue_env (\<lambda>n a c. (a + n, c)) (\<lambda>a c. (Ret (Ok Stop), a, c)))
     (\<lambda>a c. (Ret (Err ''bad''), a, c)) 0 ex_cron [5] = Some (Some (Ret (Err ''bad'')), a2, c2, [5])"
  using cron_task_error [of ex_cron "\<lambda>a c. (Ret (Err ''bad''), a, c)" 0 "''bad''" 0 ex_cron
      "cron_queue_env (\<lambda>n a c. (a + n, c)) (\<lambda>a c. (Ret (Ok Stop), a, c))" "Ok Stop" 0
      "context_set_state Stopping ex_cron" "[5]"]
  by (simp add: ex_cron_def cron_context_new_def cron_queue_env_def)

section \<open>Observed behaviour\<close>

text \<open>A task that terminates its own actor and asks for a delay does not end the round: the actor, in
  state \<open>Stopped\<close>, still waits for the next message, and handles it when one comes.\<close>

lemma cron_stop_in_task_waits:
  assumes "cron_state c = CronNormal" and "task a c = (Ret (Ok d), a1, c1)" and "0 < d"
  shows "mb_recv (le_mb E) mb = None \<Longrightarrow> cron_iter E task a (c :: ('r, 'e, 'd, 'mb) cron_ctx) mb = None"
    and "mb_recv (le_mb E) mb = Some (Some x, mb') \<Longrightarrow>
      cron_process_one E task a c mb = Some (cron_take (cron_handle_one E x a1 (cron_arm d c1) mb'))"
  using assms by (simp_all add: cron_iter_def cron_process_one_def cron_wait_def)

text \<open>The \<open>Resume\<close> of a timer that had already fired when \<open>Pause\<close> was handled undoes the pause.\<close>

lemma cron_pause_undone:
  "cron_state (cron_signal_handle CronResume (cron_signal_handle CronPause c)) = CronNormal"
  by (simp add: resume_task_def)

end
