(* ===== verification/Mgr_Actor.thy ===== *)
theory Mgr_Actor
  imports Cron Actor_Mgr
begin

text \<open>
  The actor manager as an actor (\<open>acktor-ipc/src/node/actor_mgr.rs\<close> under the context of
  \<open>acktor/src/cron.rs\<close>): the sweep is its repeated task, the four commands, the cron signals and the signals arrive as
  messages. The loop refines the abstract sequence of handlers of theory \<open>Actor_Mgr\<close>.
\<close>

section \<open>The actor\<close>

datatype ('mb, 'f) mgr_cmd =
  MCreate u64 string string "'f \<Rightarrow> string \<Rightarrow> string \<Rightarrow> ('mb, box_error) result outcome"
| MGet string
| MAdd string 'mb
| MRemove actor_ref
| MCron cron_signal
| MSignal signal

datatype 'mb mgr_reply =
  MCreated "(actor_id, session_error) result"
| MGot "('mb, session_error) result"
| MDone bool
| MUnit

text \<open>A message with what happened since the one before: the accesses of the sessions to the shared
  registry, and what \<open>is_closed\<close> answers from now on.\<close>

record ('mb, 'f) mgr_msg =
  mm_accesses :: "(('mb \<Rightarrow> bool) \<times> ('mb, 'f) mgr_event) list"
  mm_closed :: "'mb \<Rightarrow> bool"
  mm_cmd :: "('mb, 'f) mgr_cmd"

record ('m, 'mb, 'f) mgr_actor =
  ma_mgr :: "('m, 'f) actor_mgr"
  ma_closed :: "'mb \<Rightarrow> bool"
  ma_replies :: "'mb mgr_reply list"

type_synonym ('r, 'mb, 'f) mgr_ctx = "('r, node_error, unit, ('mb, 'f) mgr_msg list) cron_ctx"

text \<open>The handler of a command on the manager alone.\<close>

fun mgr_command ::
  "('m, u64, 'mb) kv_ops \<Rightarrow> ('mb \<Rightarrow> actor_id) \<Rightarrow> (string \<Rightarrow> box_error) \<Rightarrow> ('mb \<Rightarrow> bool) \<Rightarrow> ('mb, 'f) mgr_cmd \<Rightarrow>
   ('m, 'f) actor_mgr \<Rightarrow> 'mb mgr_reply \<times> ('m, 'f) actor_mgr" where
  "mgr_command ops ix je closed (MCreate t l cfg cr) s = map_prod MCreated id (mgr_create_actor ops ix cr je t l cfg s)"
| "mgr_command ops ix je closed (MGet l) s = map_prod MGot id (mgr_get_actor ops closed l s)"
| "mgr_command ops ix je closed (MAdd l a) s = map_prod MDone id (mgr_add_actor ops ix l a s)"
| "mgr_command ops ix je closed (MRemove ref) s = map_prod MDone id (mgr_remove_actor ops ref s)"
| "mgr_command ops ix je closed (MCron sig) s = (MUnit, s)"
| "mgr_command ops ix je closed (MSignal sig) s = (MUnit, s)"

fun mgr_cmd_context :: "('mb, 'f) mgr_cmd \<Rightarrow> ('r, 'e, 'd, 'q) cron_ctx \<Rightarrow> ('r, 'e, 'd, 'q) cron_ctx" where
  "mgr_cmd_context (MCron sig) c = cron_signal_handle sig c"
| "mgr_cmd_context (MSignal sig) c = signal_handle cron_ops sig c"
| "mgr_cmd_context _ c = c"

definition mgr_handle ::
  "('m, u64, 'mb) kv_ops \<Rightarrow> ('mb \<Rightarrow> actor_id) \<Rightarrow> (string \<Rightarrow> box_error) \<Rightarrow> ('mb, 'f) mgr_msg \<Rightarrow>
   ('m, 'mb, 'f) mgr_actor \<Rightarrow> ('r, 'mb, 'f) mgr_ctx \<Rightarrow> ('m, 'mb, 'f) mgr_actor \<times> ('r, 'mb, 'f) mgr_ctx" where
  "mgr_handle ops ix je msg a c =
     (case mgr_command ops ix je (mm_closed msg) (mm_cmd msg) (mgr_steps ops ix je (mm_accesses msg) (ma_mgr a)) of
        (reply, s) \<Rightarrow>
          (\<lparr>ma_mgr = s, ma_closed = mm_closed msg, ma_replies = ma_replies a @ [reply]\<rparr>,
           mgr_cmd_context (mm_cmd msg) c))"

definition mgr_cron_task ::
  "('m, u64, 'mb) kv_ops \<Rightarrow> (('m, 'mb, 'f) mgr_actor, ('r, 'mb, 'f) mgr_ctx, nat, node_error) hook" where
  "mgr_cron_task ops a c =
     (case mgr_task ops (ma_closed a) (ma_closed a) (ma_mgr a) of (r, s) \<Rightarrow> (Ret r, a\<lparr>ma_mgr := s\<rparr>, c))"

definition mgr_loop ::
  "('m, u64, 'mb) kv_ops \<Rightarrow> ('mb \<Rightarrow> actor_id) \<Rightarrow> (string \<Rightarrow> box_error) \<Rightarrow>
   (('m, 'mb, 'f) mgr_actor, ('r, 'mb, 'f) mgr_ctx, stopping, node_error) hook \<Rightarrow>
   ('m, 'mb, 'f) mgr_actor \<Rightarrow> ('r, 'mb, 'f) mgr_ctx \<Rightarrow> ('mb, 'f) mgr_msg list \<Rightarrow>
   ((unit, node_error) result outcome \<times> ('m, 'mb, 'f) mgr_actor \<times> ('r, 'mb, 'f) mgr_ctx) option" where
  "mgr_loop ops ix je st = cron_run_loop (cron_queue_env (mgr_handle ops ix je) st) (mgr_cron_task ops)"

section \<open>The specification\<close>

text \<open>The events of a message: its command, or a sweep when it resumes the task.\<close>

fun cmd_events :: "('mb, 'f) mgr_cmd \<Rightarrow> ('mb, 'f) mgr_event list" where
  "cmd_events (MCreate t l cfg cr) = [EvCreate t l cfg cr]"
| "cmd_events (MGet l) = [EvGet l]"
| "cmd_events (MAdd l a) = [EvAdd l a]"
| "cmd_events (MRemove ref) = [EvRemove ref]"
| "cmd_events (MCron CronResume) = [EvTask]"
| "cmd_events (MCron CronPause) = []"
| "cmd_events (MSignal sig) = []"

definition msg_events :: "('mb, 'f) mgr_msg \<Rightarrow> (('mb \<Rightarrow> bool) \<times> ('mb, 'f) mgr_event) list" where
  "msg_events msg = mm_accesses msg @ map (Pair (mm_closed msg)) (cmd_events (mm_cmd msg))"

fun mgr_serve ::
  "('m, u64, 'mb) kv_ops \<Rightarrow> ('mb \<Rightarrow> actor_id) \<Rightarrow> (string \<Rightarrow> box_error) \<Rightarrow> ('mb, 'f) mgr_msg list \<Rightarrow>
   ('m, 'f) actor_mgr \<Rightarrow> 'mb mgr_reply list \<times> ('m, 'f) actor_mgr" where
  "mgr_serve ops ix je [] s = ([], s)"
| "mgr_serve ops ix je (msg # msgs) s =
     map_prod ((#) (fst (mgr_command ops ix je (mm_closed msg) (mm_cmd msg) (mgr_steps ops ix je (mm_accesses msg) s)))) id
       (mgr_serve ops ix je msgs (mgr_steps ops ix je (msg_events msg) s))"

fun is_signal :: "('mb, 'f) mgr_cmd \<Rightarrow> bool" where
  "is_signal (MSignal sig) \<longleftrightarrow> True"
| "is_signal _ \<longleftrightarrow> False"

definition resumes :: "('mb, 'f) mgr_msg list \<Rightarrow> nat" where
  "resumes msgs = length (filter (\<lambda>msg. mm_cmd msg = MCron CronResume) msgs)"

text \<open>The manager with the sweep that a context in its normal state is about to run, and the timers armed by then.\<close>

definition swept ::
  "('m, u64, 'mb) kv_ops \<Rightarrow> ('mb \<Rightarrow> actor_id) \<Rightarrow> (string \<Rightarrow> box_error) \<Rightarrow> ('m, 'mb, 'f) mgr_actor \<Rightarrow>
   ('r, 'mb, 'f) mgr_ctx \<Rightarrow> ('m, 'f) actor_mgr" where
  "swept ops ix je a c = (if cron_state c = CronNormal then mgr_step ops ix je (ma_closed a) EvTask (ma_mgr a) else ma_mgr a)"

definition timers :: "('r, 'mb, 'f) mgr_ctx \<Rightarrow> nat" where
  "timers c = length (cron_armed c) + (if cron_state c = CronNormal then 1 else 0)"


section \<open>One turn\<close>

lemma mgr_steps_append: "mgr_steps ops ix je (xs @ ys) s = mgr_steps ops ix je ys (mgr_steps ops ix je xs s)"
  by (induction ops ix je xs s rule: mgr_steps.induct) simp_all

text \<open>Before it takes a message the loop runs the sweep that is due and arms the timer.\<close>

definition due ::
  "('m, u64, 'mb) kv_ops \<Rightarrow> ('mb \<Rightarrow> actor_id) \<Rightarrow> (string \<Rightarrow> box_error) \<Rightarrow> ('m, 'mb, 'f) mgr_actor \<Rightarrow>
   ('r, 'mb, 'f) mgr_ctx \<Rightarrow> ('m, 'mb, 'f) mgr_actor \<times> ('r, 'mb, 'f) mgr_ctx" where
  "due ops ix je a c = (a\<lparr>ma_mgr := swept ops ix je a c\<rparr>, if cron_state c = CronNormal then cron_arm 60 c else c)"

lemma mgr_process_one:
  "cron_process_one (cron_queue_env (mgr_handle ops ix je) st) (mgr_cron_task ops) a c q =
   cron_wait (cron_queue_env (mgr_handle ops ix je) st) (fst (due ops ix je a c)) (snd (due ops ix je a c)) q"
  by (cases "cron_state c")
    (auto simp: cron_process_one_def mgr_cron_task_def mgr_task_def due_def swept_def Let_def split: prod.split)

lemma due_context:
  "cron_state (snd (due ops ix je a c)) = CronPaused" "c_state (snd (due ops ix je a c)) = c_state c"
  "c_error (snd (due ops ix je a c)) = c_error c" "length (cron_armed (snd (due ops ix je a c))) = timers c"
  by (cases "cron_state c"; simp add: due_def cron_arm_def timers_def Let_def)+

lemma cron_abort_keeps [simp]:
  "c_state (cron_abort_timer c) = c_state c" "c_error (cron_abort_timer c) = c_error c"
  "cron_armed (cron_abort_timer c) = cron_armed c"
  by (simp_all add: cron_abort_timer_def split: option.split)

lemma mgr_handle_turn:
  assumes "\<not> is_signal (mm_cmd msg)" and "cron_state c = CronPaused" and "mgr_handle ops ix je msg a c = (a', c')"
  shows "swept ops ix je a' c' = mgr_steps ops ix je (msg_events msg) (ma_mgr a)"
    and "ma_replies a' = ma_replies a @
      [fst (mgr_command ops ix je (mm_closed msg) (mm_cmd msg) (mgr_steps ops ix je (mm_accesses msg) (ma_mgr a)))]"
    and "c_state c' = c_state c" and "c_error c' = c_error c"
    and "timers c' = length (cron_armed c) + resumes [msg]"
proof -
  let ?s = "mgr_steps ops ix je (mm_accesses msg) (ma_mgr a)"
  obtain reply s where cmd: "mgr_command ops ix je (mm_closed msg) (mm_cmd msg) ?s = (reply, s)"
    by (cases "mgr_command ops ix je (mm_closed msg) (mm_cmd msg) ?s")
  then have a': "a' = \<lparr>ma_mgr = s, ma_closed = mm_closed msg, ma_replies = ma_replies a @ [reply]\<rparr>"
    and c': "c' = mgr_cmd_context (mm_cmd msg) c" using assms(3) by (simp_all add: mgr_handle_def)
  show "ma_replies a' = ma_replies a @ [fst (mgr_command ops ix je (mm_closed msg) (mm_cmd msg) ?s)]"
    by (simp add: a' cmd)
  have *: "swept ops ix je a' c' = mgr_steps ops ix je (msg_events msg) (ma_mgr a) \<and> c_state c' = c_state c \<and>
      c_error c' = c_error c \<and> timers c' = length (cron_armed c) + resumes [msg]"
  proof (cases "mm_cmd msg")
    case (MCron sig)
    then show ?thesis
      using cmd assms(2) by (cases sig) (auto simp: a' c' swept_def msg_events_def mgr_steps_append timers_def resumes_def
          pause_task_def resume_task_def)
  qed (use assms(1,2) cmd in \<open>auto simp: a' c' swept_def msg_events_def mgr_steps_append timers_def resumes_def map_prod_def
      split: prod.splits\<close>)
  then show "swept ops ix je a' c' = mgr_steps ops ix je (msg_events msg) (ma_mgr a)" and "c_state c' = c_state c"
    and "c_error c' = c_error c" and "timers c' = length (cron_armed c) + resumes [msg]" by blast+
qed

lemma mgr_turn:
  assumes "\<not> is_signal (mm_cmd msg)" and "c_state c = Running" and "c_error c = None"
  shows "\<exists>a' c'. mgr_loop ops ix je st a c (msg # q) = mgr_loop ops ix je st a' c' q \<and>
    c_state c' = Running \<and> c_error c' = None \<and> timers c' = timers c + resumes [msg] \<and>
    swept ops ix je a' c' = mgr_steps ops ix je (msg_events msg) (swept ops ix je a c) \<and>
    ma_replies a' = ma_replies a @ [fst (mgr_command ops ix je (mm_closed msg) (mm_cmd msg)
      (mgr_steps ops ix je (mm_accesses msg) (swept ops ix je a c)))]"
proof -
  let ?a = "fst (due ops ix je a c)" and ?c = "snd (due ops ix je a c)"
  obtain a' c' where h: "mgr_handle ops ix je msg ?a ?c = (a', c')" by (cases "mgr_handle ops ix je msg ?a ?c")
  note turn = mgr_handle_turn [OF assms(1) due_context(1) h]
  have run: "c_state c' = Running" "c_error c' = None" using turn(3,4) assms(2,3) by (simp_all add: due_context)
  have "cron_process_one (cron_queue_env (mgr_handle ops ix je) st) (mgr_cron_task ops) a c (msg # q) =
      Some (Ret (fst (take_error c')), a', snd (take_error c'), q)"
    by (simp add: mgr_process_one cron_wait_queue [where hf = "mgr_handle ops ix je", OF h])
  from cron_quiet_round [OF this assms(2) run]
  have "mgr_loop ops ix je st a c (msg # q) = mgr_loop ops ix je st a' c' q" by (simp add: mgr_loop_def)
  with run turn show ?thesis by (intro exI conjI) (simp_all add: due_context, simp_all add: due_def)
qed

lemma mgr_last_turn:
  assumes "mm_cmd msg = MSignal SignalTerminate" and "c_state c = Running" and "c_error c = None"
  shows "\<exists>a' c'. mgr_loop ops ix je st a c (msg # q) = Some (Ret (Ok ()), a', c') \<and> c_state c' = Stopped \<and>
    length (cron_armed c') = timers c \<and> ma_mgr a' = mgr_steps ops ix je (mm_accesses msg) (swept ops ix je a c) \<and>
    ma_replies a' = ma_replies a @ [MUnit]"
proof -
  let ?a = "fst (due ops ix je a c)" and ?c = "snd (due ops ix je a c)"
  let ?c' = "context_set_state Stopped ?c"
  let ?a' = "\<lparr>ma_mgr = mgr_steps ops ix je (mm_accesses msg) (swept ops ix je a c), ma_closed = mm_closed msg,
    ma_replies = ma_replies a @ [MUnit]\<rparr>"
  have h: "mgr_handle ops ix je msg ?a ?c = (?a', ?c')"
    by (simp add: mgr_handle_def assms(1) cx_terminate_def cron_ops_def) (simp add: due_def)
  have err: "take_error ?c' = (Ok (), ?c')" using assms(3) by (simp add: take_error_def due_context)
  have "cron_process_one (cron_queue_env (mgr_handle ops ix je) st) (mgr_cron_task ops) a c (msg # q) =
      Some (Ret (Ok ()), ?a', ?c', q)"
    by (simp add: mgr_process_one cron_wait_queue [where hf = "mgr_handle ops ix je", OF h] err)
  then have "cron_iter (cron_queue_env (mgr_handle ops ix je) st) (mgr_cron_task ops) a c (msg # q) =
      Some (Some (Ret (Ok ())), ?a', ?c', q)"
    by (simp add: cron_iter_def cron_after_def Let_def)
  then have "mgr_loop ops ix je st a c (msg # q) = Some (Ret (Ok ()), ?a', ?c')"
    using assms(2) by (simp add: mgr_loop_def cron_run_loop.simps [of _ _ a c "msg # q"])
  moreover have "cron_armed ?c' = cron_armed ?c" by (simp add: context_set_state_def context_try_notify_def)
  ultimately show ?thesis by (intro exI conjI) (assumption, simp_all add: due_context)
qed

section \<open>The loop\<close>

lemma mgr_loop_serves:
  assumes "list_all (\<lambda>msg. \<not> is_signal (mm_cmd msg)) msgs" and "mm_cmd t = MSignal SignalTerminate"
    and "c_state c = Running" and "c_error c = None"
  shows "\<exists>a' c'. mgr_loop ops ix je st a c (msgs @ t # q) = Some (Ret (Ok ()), a', c') \<and> c_state c' = Stopped \<and>
    length (cron_armed c') = timers c + resumes msgs \<and>
    ma_mgr a' = mgr_steps ops ix je (mm_accesses t) (snd (mgr_serve ops ix je msgs (swept ops ix je a c))) \<and>
    ma_replies a' = ma_replies a @ fst (mgr_serve ops ix je msgs (swept ops ix je a c)) @ [MUnit]"
  using assms
proof (induction msgs arbitrary: a c)
  case Nil
  then show ?case using mgr_last_turn [of t c ops ix je st a q] by (simp add: resumes_def)
next
  case (Cons msg msgs)
  then obtain a1 c1 where turn: "mgr_loop ops ix je st a c (msg # (msgs @ t # q)) = mgr_loop ops ix je st a1 c1 (msgs @ t # q)"
      "c_state c1 = Running" "c_error c1 = None" "timers c1 = timers c + resumes [msg]"
      "swept ops ix je a1 c1 = mgr_steps ops ix je (msg_events msg) (swept ops ix je a c)"
      "ma_replies a1 = ma_replies a @ [fst (mgr_command ops ix je (mm_closed msg) (mm_cmd msg)
        (mgr_steps ops ix je (mm_accesses msg) (swept ops ix je a c)))]"
    using mgr_turn [of msg c ops ix je st a "msgs @ t # q"] by auto
  from Cons.IH [of c1 a1] Cons.prems turn(2,3) obtain a' c'
    where "mgr_loop ops ix je st a1 c1 (msgs @ t # q) = Some (Ret (Ok ()), a', c')" "c_state c' = Stopped"
      "length (cron_armed c') = timers c1 + resumes msgs"
      "ma_mgr a' = mgr_steps ops ix je (mm_accesses t) (snd (mgr_serve ops ix je msgs (swept ops ix je a1 c1)))"
      "ma_replies a' = ma_replies a1 @ fst (mgr_serve ops ix je msgs (swept ops ix je a1 c1)) @ [MUnit]"
    by auto
  with turn show ?case by (intro exI [of _ a'] exI [of _ c']) (simp add: resumes_def)
qed

lemma mgr_serve_state: "snd (mgr_serve ops ix je msgs s) = mgr_steps ops ix je (concat (map msg_events msgs)) s"
  by (induction ops ix je msgs s rule: mgr_serve.induct) (simp_all add: mgr_steps_append)

lemma mgr_serve_reply:
  "k < length msgs \<Longrightarrow> fst (mgr_serve ops ix je msgs s) ! k =
     fst (mgr_command ops ix je (mm_closed (msgs ! k)) (mm_cmd (msgs ! k))
       (mgr_steps ops ix je (concat (map msg_events (take k msgs)) @ mm_accesses (msgs ! k)) s))"
proof (induction msgs arbitrary: s k)
  case (Cons msg msgs)
  then show ?case by (cases k) (simp_all add: mgr_steps_append)
qed simp

lemma mgr_serve_length: "length (fst (mgr_serve ops ix je msgs s)) = length msgs"
  by (induction ops ix je msgs s rule: mgr_serve.induct) simp_all

section \<open>Properties\<close>

text \<open>C13. The manager runs as its specification says: it sweeps once when it starts and once after every \<open>Resume\<close> of
  its timer, arming one timer each time; between sweeps it serves the commands one after the other in
  the order they arrive, each on the state its predecessors and the sessions left; and it ends
  when it is terminated. A label that resolves when the manager starts is answered with its mailbox by every
  \<open>GetActor\<close>, as long as the mailbox is open and nothing removed it.\<close>

theorem manager_serves:
  assumes "c_state c = Running" and "c_error c = None" and "cron_state c = CronNormal"
    and "list_all (\<lambda>msg. \<not> is_signal (mm_cmd msg)) msgs" and "mm_cmd t = MSignal SignalTerminate"
    and "kv_store ops invar" and "mgr_inv ops invar ix (ma_mgr a)" and "mgr_resolve ops closed (ma_mgr a) label = Some mb"
  shows "\<exists>a' c'. mgr_loop ops ix je st a c (msgs @ t # q) = Some (Ret (Ok ()), a', c') \<and> c_state c' = Stopped \<and>
    length (cron_armed c') = length (cron_armed c) + 1 + resumes msgs \<and>
    ma_mgr a' = mgr_steps ops ix je ((ma_closed a, EvTask) # concat (map msg_events msgs) @ mm_accesses t) (ma_mgr a) \<and>
    ma_replies a' = ma_replies a @
      fst (mgr_serve ops ix je msgs (mgr_step ops ix je (ma_closed a) EvTask (ma_mgr a))) @ [MUnit] \<and>
    (\<forall>k < length msgs. mm_cmd (msgs ! k) = MGet label \<longrightarrow> \<not> mm_closed (msgs ! k) mb \<longrightarrow>
       undisturbed ops ix je mb ((ma_closed a, EvTask) # concat (map msg_events (take k msgs)) @ mm_accesses (msgs ! k)) (ma_mgr a) \<longrightarrow>
       ma_replies a' ! (length (ma_replies a) + k) = MGot (Ok mb))"
proof -
  have sw: "swept ops ix je a c = mgr_step ops ix je (ma_closed a) EvTask (ma_mgr a)" and tm: "timers c = length (cron_armed c) + 1"
    using assms(3) by (simp_all add: swept_def timers_def)
  obtain a' c' where run: "mgr_loop ops ix je st a c (msgs @ t # q) = Some (Ret (Ok ()), a', c')" "c_state c' = Stopped"
      "length (cron_armed c') = timers c + resumes msgs"
    and mgr: "ma_mgr a' = mgr_steps ops ix je (mm_accesses t) (snd (mgr_serve ops ix je msgs (swept ops ix je a c)))"
    and rep: "ma_replies a' = ma_replies a @ fst (mgr_serve ops ix je msgs (swept ops ix je a c)) @ [MUnit]"
    using mgr_loop_serves [OF assms(4,5,1,2)] by blast
  have "ma_replies a' ! (length (ma_replies a) + k) = MGot (Ok mb)"
    if "k < length msgs" and "mm_cmd (msgs ! k) = MGet label" and "\<not> mm_closed (msgs ! k) mb"
      and "undisturbed ops ix je mb ((ma_closed a, EvTask) # concat (map msg_events (take k msgs)) @ mm_accesses (msgs ! k)) (ma_mgr a)"
    for k
    using mgr_get_kept [OF assms(6-8) that(4), of "mm_closed (msgs ! k)"] that(1-3)
    by (simp add: rep nth_append mgr_serve_length mgr_serve_reply sw del: mgr_step.simps)
  then show ?thesis
    using run mgr rep by (intro exI [of _ a'] exI [of _ c']) (simp add: sw tm mgr_serve_state mgr_steps_append del: mgr_step.simps)
qed

definition ex_msgs :: "(nat, nat) mgr_msg list" where
  "ex_msgs =
     [\<lparr>mm_accesses = [(ex_closed, EvSessionLookup 8)], mm_closed = ex_closed, mm_cmd = MAdd ''z'' 203\<rparr>,
      \<lparr>mm_accesses = [], mm_closed = ex_closed, mm_cmd = MCron CronResume\<rparr>,
      \<lparr>mm_accesses = [], mm_closed = ex_closed, mm_cmd = MGet ''a''\<rparr>]"

definition ex_mgr_ctx :: "(unit, nat, nat) mgr_ctx" where
  "ex_mgr_ctx = (cron_context_new (\<lambda>_. True) no_drain (actor_id_new 1) [] ''mgr'')\<lparr>c_state := Running\<rparr>"

theorem manager_serves_witness:
  "\<exists>a' c'. mgr_loop hm_ops ex_index box_str (\<lambda>a c. (Ret (Ok Stop), a, c))
      \<lparr>ma_mgr = mgr_example, ma_closed = ex_closed, ma_replies = []\<rparr> ex_mgr_ctx
      (ex_msgs @ [\<lparr>mm_accesses = [], mm_closed = ex_closed, mm_cmd = MSignal SignalTerminate\<rparr>]) =
        Some (Ret (Ok ()), a', c') \<and>
    length (cron_armed c') = 2 \<and> ma_replies a' ! 2 = MGot (Ok 107)"
proof -
  let ?a = "\<lparr>ma_mgr = mgr_example, ma_closed = ex_closed, ma_replies = []\<rparr>"
  have pre: "c_state ex_mgr_ctx = Running" "c_error ex_mgr_ctx = None" "cron_state ex_mgr_ctx = CronNormal" "cron_armed ex_mgr_ctx = []"
    by (simp_all add: ex_mgr_ctx_def cron_context_new_def context_new_def)
  have msgs: "list_all (\<lambda>msg. \<not> is_signal (mm_cmd msg)) ex_msgs" "length ex_msgs = 3" "resumes ex_msgs = 1"
    by (simp_all add: ex_msgs_def resumes_def)
  have und: "undisturbed hm_ops ex_index box_str 107
     ((ex_closed, EvTask) # concat (map msg_events (take 2 ex_msgs)) @ mm_accesses (ex_msgs ! 2)) mgr_example"
    by (simp add: ex_msgs_def msg_events_def ex_defs mgr_task_def mgr_add_actor_def reg_retain_def hm_filter_def
        hm_retain.simps reg_contains_index_def)
  have "mgr_resolve hm_ops ex_closed (ma_mgr ?a) ''a'' = Some 107" by (simp add: ex_defs)
  from manager_serves [OF pre(1-3) msgs(1) _ hm.kv_store_axioms _ this, of
      "\<lparr>mm_accesses = [], mm_closed = ex_closed, mm_cmd = MSignal SignalTerminate\<rparr>" ex_index box_str "\<lambda>a c. (Ret (Ok Stop), a, c)" "[]"]
    mgr_example_inv pre(4) msgs(2,3) und
  show ?thesis by (force simp: ex_msgs_def ex_defs)
qed

end
