(* ===== verification/Node_Actor.thy ===== *)
theory Node_Actor
  imports Session_Actor Mgr_Actor
begin

text \<open>
  The node as an actor and its shutdown: the hooks of \<open>acktor-ipc/src/node.rs\<close> and the loop of \<open>node/context.rs\<close>
  under the provided methods of \<open>Actor\<close>, and \<open>terminate_actor\<close> of \<open>acktor/src/utils.rs\<close>, with which the node ends its
  children, the manager (\<open>node/actor_mgr.rs\<close>) and the sessions (\<open>session.rs\<close>), and awaits them.
\<close>

section \<open>Terminating an actor\<close>

text \<open>\<open>terminate_actor\<close>: it sends the signal and waits until the mailbox has room, aborts the task when the send fails, and
  awaits the join handle. It returns the task as it then is, or never (\<open>None\<close>).\<close>

definition terminate_actor ::
  "(signal \<Rightarrow> 't \<Rightarrow> ((unit, 'x) result \<times> 't) option) \<Rightarrow> ('t \<Rightarrow> 't) \<Rightarrow> ('t \<Rightarrow> bool) \<Rightarrow> 't \<Rightarrow> 't option" where
  "terminate_actor do_send abort completes task =
     (case do_send SignalTerminate task of
        None \<Rightarrow> None
      | Some (r, task1) \<Rightarrow>
          let task2 = (case r of Err e \<Rightarrow> abort task1 | Ok _ \<Rightarrow> task1)
          in if completes task2 then Some task2 else None)"

section \<open>A child task\<close>

text \<open>
  A child and its bounded mailbox: what its loop has selected so far, the messages that are ahead of the next one to be
  sent (in the mailbox, or of senders that wait for room already, which the channel serves in order), and the turns it still
  gets. In a turn its loop takes an envelope or something else (a frame, an error of the connection).
\<close>

datatype 'ev turn = TakeEnvelope | TakeOther 'ev

record 'ev child =
  ch_selected :: "'ev list"
  ch_pending :: "'ev list"
  ch_capacity :: nat
  ch_turns :: "'ev turn list"
  ch_aborted :: bool

text \<open>What the loop selects in its turns; a turn at an empty mailbox takes nothing.\<close>

fun take_turns :: "'ev turn list \<Rightarrow> 'ev list \<Rightarrow> 'ev list" where
  "take_turns [] ahead = []"
| "take_turns (TakeEnvelope # ts) [] = take_turns ts []"
| "take_turns (TakeEnvelope # ts) (m # ahead) = m # take_turns ts ahead"
| "take_turns (TakeOther e # ts) ahead = e # take_turns ts ahead"

text \<open>A blocking send: it fails once the mailbox is closed (\<open>closed\<close>, the loop has been left), succeeds once there is
  room, and otherwise waits for the next turn of the child.\<close>

fun send_wait ::
  "('ev list \<Rightarrow> bool) \<Rightarrow> nat \<Rightarrow> 'ev turn list \<Rightarrow> 'ev list \<Rightarrow> 'ev list \<Rightarrow>
   ((unit, unit) result \<times> 'ev turn list \<times> 'ev list \<times> 'ev list) option" where
  "send_wait closed cap [] selected ahead =
     (if closed selected then Some (Err (), [], selected, ahead)
      else if length ahead < cap then Some (Ok (), [], selected, ahead)
      else None)"
| "send_wait closed cap (t # ts) selected ahead =
     (if closed selected then Some (Err (), t # ts, selected, ahead)
      else if length ahead < cap then Some (Ok (), t # ts, selected, ahead)
      else (case t of
              TakeEnvelope \<Rightarrow> send_wait closed cap ts (selected @ take 1 ahead) (drop 1 ahead)
            | TakeOther e \<Rightarrow> send_wait closed cap ts (selected @ [e]) ahead))"

definition child_do_send ::
  "('ev list \<Rightarrow> bool) \<Rightarrow> (signal \<Rightarrow> 'ev) \<Rightarrow> signal \<Rightarrow> 'ev child \<Rightarrow> ((unit, unit) result \<times> 'ev child) option" where
  "child_do_send closed envelope sig t =
     map_option (\<lambda>(r, ts, selected, ahead).
       (r, t\<lparr>ch_selected := selected, ch_turns := ts, ch_pending := (if is_ok r then ahead @ [envelope sig] else ahead)\<rparr>))
       (send_wait closed (ch_capacity t) (ch_turns t) (ch_selected t) (ch_pending t))"

definition child_abort :: "'ev child \<Rightarrow> 'ev child" where
  "child_abort t = t\<lparr>ch_aborted := True\<rparr>"

text \<open>All that the loop selects in the end.\<close>

definition child_events :: "'ev child \<Rightarrow> 'ev list" where
  "child_events t = ch_selected t @ take_turns (ch_turns t) (ch_pending t)"

text \<open>The promise of a join handle: it completes for a task that finished and for one that was aborted.\<close>

locale join_handle =
  fixes awaits :: "bool \<Rightarrow> bool \<Rightarrow> bool"
  assumes awaits_finished: "awaits aborted True" and awaits_aborted: "awaits True finished"

interpretation either: join_handle "(\<or>)"
  by unfold_locales simp_all

definition terminate_child ::
  "(bool \<Rightarrow> bool \<Rightarrow> bool) \<Rightarrow> ('ev list \<Rightarrow> bool) \<Rightarrow> ('ev list \<Rightarrow> bool) \<Rightarrow> (signal \<Rightarrow> 'ev) \<Rightarrow> 'ev child \<Rightarrow> 'ev child option" where
  "terminate_child awaits closed finished envelope t =
     terminate_actor (child_do_send closed envelope) child_abort (\<lambda>t. awaits (ch_aborted t) (finished (child_events t))) t"

section \<open>The children of a node\<close>

text \<open>A session task: \<open>st_close\<close> is the answer of the connection to \<open>close()\<close>, \<open>st_accepts\<close> those of the node's mailbox,
  \<open>st_env\<close> the environment in which the signal is handled.\<close>

record ('m, 'mb, 'tx) session_task =
  st_reg :: 'm
  st_endpoint :: string
  st_close :: "(unit, io_error) result option"
  st_accepts :: "nat \<Rightarrow> bool"
  st_env :: "('m, 'mb, 'tx) sess_env"
  st_child :: "('m, 'mb, 'tx) sess_event child"

definition session_left :: "actor_id \<Rightarrow> actor_id \<Rightarrow> ('m, 'mb, 'tx) session_task \<Rightarrow> ('m, 'mb, 'tx) sess_event list \<Rightarrow> bool" where
  "session_left self index t evs \<longleftrightarrow>
     fst (sess_run_loop evs (sess_post_start index (sess_new (st_reg t))) (supervised_ctx (st_accepts t) self index (st_endpoint t))) \<noteq> None"

definition session_finished :: "actor_id \<Rightarrow> actor_id \<Rightarrow> ('m, 'mb, 'tx) session_task \<Rightarrow> ('m, 'mb, 'tx) sess_event list \<Rightarrow> bool" where
  "session_finished self index t evs =
     (case spawn_session (st_accepts t) self index (st_endpoint t) (sess_new (st_reg t)) evs (st_close t) of
        Ret (Ok (_, Some c)) \<Rightarrow> sc_state c = Stopped
      | _ \<Rightarrow> False)"

definition terminate_session ::
  "(bool \<Rightarrow> bool \<Rightarrow> bool) \<Rightarrow> actor_id \<Rightarrow> actor_id \<Rightarrow> ('m, 'mb, 'tx) session_task \<Rightarrow> ('m, 'mb, 'tx) sess_event child option" where
  "terminate_session awaits self index t =
     terminate_child awaits (session_left self index t) (session_finished self index t)
       (\<lambda>sig. (st_env t, st_env t, InEnvelope (CmdSignal sig))) (st_child t)"

text \<open>The manager has the default hooks; its loop is fed by its mailbox alone.\<close>

definition default_hooks :: "('a, 'c, 'e) hooks" where
  "default_hooks = \<lparr>pre_start = (\<lambda>a c. (Ret (Ok ()), a, c)), post_start = (\<lambda>a c. Some (Ret (Ok ()), a, c)),
     post_stop = (\<lambda>a c. Some (Ret (Ok ()), a, c))\<rparr>"

definition default_stopping :: "('a, 'c, stopping, 'e) hook" where
  "default_stopping a c = (Ret (Ok Stop), a, c)"

record ('m, 'mb, 'f) mgr_task =
  mt_ops :: "('m, u64, 'mb) kv_ops"
  mt_index_of :: "'mb \<Rightarrow> actor_id"
  mt_join_error :: "string \<Rightarrow> box_error"
  mt_mgr :: "('m, 'f) actor_mgr"
  mt_closed :: "'mb \<Rightarrow> bool"
  mt_child :: "('mb, 'f) mgr_msg child"

definition mgr_task_loop ::
  "('m, 'mb, 'f) mgr_task \<Rightarrow> (('m, 'mb, 'f) mgr_actor, (unit, 'mb, 'f) mgr_ctx, node_error, ('mb, 'f) mgr_msg list) msg_loop" where
  "mgr_task_loop t = mgr_loop (mt_ops t) (mt_index_of t) (mt_join_error t) default_stopping"

text \<open>\<open>ActorMgr::start\<close> as the node calls it, on the messages its mailbox delivers.\<close>

definition start_mgr_task ::
  "actor_id \<Rightarrow> ('m, 'mb, 'f) mgr_task \<Rightarrow> ('mb, 'f) mgr_msg list \<Rightarrow>
   (actor_id \<times> (unit, 'mb, 'f) mgr_ctx option, node_error) result outcome" where
  "start_mgr_task index t msgs =
     cx_start cron_ops default_hooks (mgr_task_loop t) (cron_context_new (\<lambda>_. False) no_drain index msgs)
       \<lparr>ma_mgr = mt_mgr t, ma_closed = mt_closed t, ma_replies = []\<rparr> ''mgr''"

definition mgr_running_ctx :: "actor_id \<Rightarrow> ('mb, 'f) mgr_msg list \<Rightarrow> (unit, 'mb, 'f) mgr_ctx" where
  "mgr_running_ctx index msgs = context_set_state Running (context_set_state Starting
     ((cron_context_new (\<lambda>_. False) no_drain index msgs ''mgr'')\<lparr>c_mailbox := None\<rparr>))"

definition mgr_left :: "actor_id \<Rightarrow> ('m, 'mb, 'f) mgr_task \<Rightarrow> ('mb, 'f) mgr_msg list \<Rightarrow> bool" where
  "mgr_left index t msgs \<longleftrightarrow>
     mgr_task_loop t \<lparr>ma_mgr = mt_mgr t, ma_closed = mt_closed t, ma_replies = []\<rparr> (mgr_running_ctx index msgs) msgs \<noteq> None"

definition mgr_finished :: "actor_id \<Rightarrow> ('m, 'mb, 'f) mgr_task \<Rightarrow> ('mb, 'f) mgr_msg list \<Rightarrow> bool" where
  "mgr_finished index t msgs =
     (case start_mgr_task index t msgs of
        Ret (Ok (_, Some c)) \<Rightarrow> c_state c = Stopped
      | _ \<Rightarrow> False)"

definition terminate_mgr ::
  "(bool \<Rightarrow> bool \<Rightarrow> bool) \<Rightarrow> actor_id \<Rightarrow> ('m, 'mb, 'f) mgr_task \<Rightarrow> ('mb, 'f) mgr_msg child option" where
  "terminate_mgr awaits index t =
     terminate_child awaits (mgr_left index t) (mgr_finished index t)
       (\<lambda>sig. \<lparr>mm_accesses = [], mm_closed = mt_closed t, mm_cmd = MSignal sig\<rparr>) (mt_child t)"

text \<open>Which calls of \<open>terminate_actor\<close> return, for a node with index \<open>self\<close> and manager \<open>mgr\<close>.\<close>

definition child_returns ::
  "(bool \<Rightarrow> bool \<Rightarrow> bool) \<Rightarrow> actor_id \<Rightarrow> actor_id \<Rightarrow> ('m, 'mb, 'f) mgr_task \<Rightarrow> (actor_id \<Rightarrow> ('m, 'mb, 'tx) session_task) \<Rightarrow>
   actor_id \<Rightarrow> 'jh \<Rightarrow> bool" where
  "child_returns awaits self mgr mt tasks address jh \<longleftrightarrow>
     (if address = mgr then terminate_mgr awaits mgr mt \<noteq> None else terminate_session awaits self address (tasks address) \<noteq> None)"

section \<open>The actor\<close>

type_synonym ('c, 'jh, 'm, 'f, 'l) node_actor = "('m, 'l, 'f, 'jh) node \<times> ('c, 'jh, 'm, 'f) node_out list"

definition node_hooks ::
  "(actor_id \<Rightarrow> 'jh \<Rightarrow> bool) \<Rightarrow> (('m, 'f) actor_mgr \<Rightarrow> (actor_id \<times> 'jh, node_error) result) \<Rightarrow>
   (('c, 'jh, 'm, 'f, 'l) node_actor, ('l, 'mbx) node_ctx, node_error) hooks" where
  "node_hooks returns start_mgr =
     \<lparr>pre_start = (\<lambda>a c. (Ret (Ok ()), a, c)),
      post_start = (\<lambda>(s, out) c. case node_post_start start_mgr s of (r, s', out') \<Rightarrow> Some (Ret r, (s', out @ out'), c)),
      post_stop = (\<lambda>(s, out) c. map_option (\<lambda>(r, s', out'). (Ret r, (s', out @ out'), c)) (node_post_stop returns s))\<rparr>"

definition node_loop ::
  "('l \<Rightarrow> string) \<Rightarrow> (('c, 'jh, 'mb) node_env \<times> ('l, 'mb, 'c) node_input) list \<Rightarrow>
   (('c, 'jh, 'm, 'f, 'l) node_actor, ('l, 'mbx) node_ctx, node_error, 'mbx) msg_loop" where
  "node_loop ep evs a c mailbox =
     (case node_run_loop ep evs (fst a) c of
        (None, _) \<Rightarrow> None
      | (Some r, s', c', out) \<Rightarrow> Some (r, (s', snd a @ out), c'))"

definition start_node ::
  "('l \<Rightarrow> string) \<Rightarrow> (actor_id \<Rightarrow> 'jh \<Rightarrow> bool) \<Rightarrow> (('m, 'f) actor_mgr \<Rightarrow> (actor_id \<times> 'jh, node_error) result) \<Rightarrow>
   (('c, 'jh, 'mb) node_env \<times> ('l, 'mb, 'c) node_input) list \<Rightarrow> actor_id \<Rightarrow> 'mbx \<Rightarrow> ('m, 'l, 'f, 'jh) node \<Rightarrow> string \<Rightarrow>
   (actor_id \<times> ('l, 'mbx) node_ctx option, node_error) result outcome" where
  "start_node ep returns start_mgr evs index mailbox node label =
     cx_start node_ctx_ops (node_hooks returns start_mgr) (node_loop ep evs) (node_ctx_new index mailbox) (node, []) label"

section \<open>The children map\<close>

text \<open>The children of a running node are the manager and the open sessions.\<close>

definition children_ok :: "actor_id \<Rightarrow> ('m, 'l, 'f, 'jh) node \<Rightarrow> bool" where
  "children_ok mgr s \<longleftrightarrow> node_sessions_ok s \<and> {a. hm_get (children s) a \<noteq> None} = insert mgr (fst ` session_view s)"

fun spares :: "actor_id \<Rightarrow> ('l, 'mb, 'c) node_input \<Rightarrow> bool" where
  "spares mgr (NEnvelope (NSupervision (Terminated a e))) \<longleftrightarrow> a \<noteq> mgr"
| "spares mgr _ \<longleftrightarrow> True"

lemma session_view_fst: "a \<in> fst ` session_view s \<longleftrightarrow> hm_get (primary (sessions s)) a \<noteq> None"
  by (force simp: session_view_def)

lemma children_ok_same:
  assumes "children_ok mgr s" and "sessions s' = sessions s" and "children s' = children s" and "distinct (observers s')"
  shows "children_ok mgr s' \<and> fst ` session_view s' \<subseteq> fst ` session_view s \<union> new"
  using assms by (simp add: children_ok_def node_sessions_ok_def session_view_def)

lemma create_session_children:
  assumes "children_ok mgr s" and "\<forall>a \<in> spawned env. hm_get (primary (sessions s)) a = None"
    and "create_session env self conn lbl s = (r, s', out)"
  shows "children_ok mgr s' \<and> fst ` session_view s' \<subseteq> fst ` session_view s \<union> spawned env"
proof (cases rule: create_session_cases [of env conn s lbl self])
  case (ok a jh m)
  have sess: "node_sessions_ok s" using assms(1) by (simp add: children_ok_def)
  have new: "a \<in> spawned env" using ok(1) by (auto simp: spawned_def)
  then have fresh: "hm_get (primary (sessions s)) a = None" using assms(2) by blast
  have s': "sessions s' = snd (dm_insert (sessions s) a (session_label_of env conn lbl) a)" "children s' = hm_put (children s) a jh"
    "distinct (observers s')"
    using ok(4) assms(3) sess by (auto simp: notify_distinct node_sessions_ok_def)
  have view: "session_view s' = insert (a, session_label_of env conn lbl) (session_view s)"
    by (rule session_view_insert [OF fresh ok(2) s'(1)])
  have "node_sessions_ok s'"
    using sess fresh ok(2) s' by (auto simp: node_sessions_ok_def dm_inv_put_fresh insert_fresh)
  moreover have "{b. hm_get (children s') b \<noteq> None} = insert a {b. hm_get (children s) b \<noteq> None}"
    by (auto simp: s'(2))
  ultimately show ?thesis using assms(1) view new by (auto simp: children_ok_def)
next
  case (err e)
  with assms(1,3) show ?thesis by auto
qed

lemma handle_supervision_children:
  assumes "children_ok mgr s" and "spares mgr (NEnvelope (NSupervision ev))" and "handle_supervision env ev s = (s', out)"
  shows "children_ok mgr s' \<and> fst ` session_view s' \<subseteq> fst ` session_view s \<union> new"
proof (cases ev)
  case (Terminated a e)
  have ok: "node_sessions_ok s" and inv: "dm_inv (sessions s)" and a: "a \<noteq> mgr"
    using assms(1,2) Terminated by (simp_all add: children_ok_def node_sessions_ok_def)
  have own: "v = b" if "hm_get (primary (sessions s)) b = Some (l, v)" for b l v
    using ok that unfolding node_sessions_ok_def by blast
  have s': "sessions s' = dm_retain (\<lambda>_ _ v. (v \<noteq> a, v)) (sessions s)" "children s' = snd (hm_remove (children s) a)"
    "distinct (observers s')"
    using assms(3) ok by (auto simp: handle_supervision_def Terminated Let_def case_prod_beta notify_distinct node_sessions_ok_def)
  have view: "session_view s' = {p \<in> session_view s. fst p \<noteq> a}"
    by (auto simp: session_view_def s'(1) retain_get [OF inv] dest: own)
  have "node_sessions_ok s'"
    using ok by (auto simp: node_sessions_ok_def s' retain_get [OF inv] dm_retain_inv hm_remove_def)
  moreover have "{b. hm_get (children s') b \<noteq> None} = {b. hm_get (children s) b \<noteq> None} - {a}"
    using ok by (auto simp: s'(2) hm_remove_def)
  ultimately show ?thesis using assms(1) a by (auto simp: children_ok_def view)
qed (use assms in \<open>auto simp: handle_supervision_def\<close>)

lemma observer_children:
  assumes "children_ok mgr s"
  shows "children_ok mgr (s\<lparr>observers := observer_handle self cmd (observers s)\<rparr>)"
  using assms by (cases cmd) (auto simp: children_ok_def node_sessions_ok_def session_view_def observer_defs)

lemma node_select_children:
  assumes "children_ok mgr s" and "\<forall>a \<in> spawned env. hm_get (primary (sessions s)) a = None" and "spares mgr i"
    and "node_select ep env i s c = Ret (s', c', out)"
  shows "children_ok mgr s' \<and> fst ` session_view s' \<subseteq> fst ` session_view s \<union> spawned env"
proof -
  have d: "distinct (observers s)" using assms(1) by (simp add: children_ok_def node_sessions_ok_def)
  have conn: "children_ok mgr s1 \<and> fst ` session_view s1 \<subseteq> fst ` session_view s \<union> spawned env"
    if "create_session env self con lbl s = (r, s1, o1)" for self con lbl r s1 o1
    by (rule create_session_children [OF assms(1,2) that])
  note same = children_ok_same [OF assms(1)]
  show ?thesis
  proof (cases i)
    case (NEnvelope cmd)
    show ?thesis
    proof (cases cmd)
      case (NSupervision ev)
      with NEnvelope assms(3,4) show ?thesis
        by (auto split: prod.splits dest: handle_supervision_children [OF assms(1), of ev])
    next
      case (NObserver x)
      with NEnvelope assms(4) show ?thesis
        using observer_children [OF assms(1)] by (auto simp: session_view_def)
    next
      case (NConnect endpoint label)
      with NEnvelope assms(1,4) show ?thesis
        by (auto simp: handle_connect_def split: result.splits prod.splits dest: conn)
    qed ((rule same; use NEnvelope assms(4) d in \<open>auto simp: handle_add_listener_def handle_remove_listener_def
        abort_accept_task_def Let_def case_prod_beta split: if_splits\<close>)+)
  next
    case (NAccepted k res)
    with assms(1,4) show ?thesis
      by (auto simp: Let_def split: if_splits result.splits prod.splits dest: conn)
  qed ((rule same; use assms(4) d in \<open>auto simp: Let_def split: if_splits\<close>)+)
qed

lemma chain3: "A3 \<subseteq> A2 \<union> U \<Longrightarrow> A2 \<subseteq> A1 \<union> E \<Longrightarrow> A1 \<subseteq> A \<Longrightarrow> A3 \<subseteq> A \<union> (E \<union> U)"
  by blast

lemma node_run_children:
  fixes evs :: "(('c, 'jh, 'mb) node_env \<times> ('l, 'mb, 'c) node_input) list"
    and s :: "('m, 'l, 'f, 'jh) node"
  assumes "children_ok mgr s" and "fst ` session_view s \<subseteq> seen" and "fresh_run seen evs"
    and "list_all (\<lambda>(_, i). spares mgr i) evs" and "node_run_loop ep evs s c = (r, s', c', out)"
  shows "children_ok mgr s' \<and> fst ` session_view s' \<subseteq> fst ` session_view s \<union> (\<Union>(env, _) \<in> set evs. spawned env)"
  using assms
proof (induction evs arbitrary: s c seen r s' c' out)
  case Nil
  then show ?case by (auto simp: node_loop_end_def split: if_splits)
next
  case (Cons ev evs)
  obtain env i where ev: "ev = (env, i)" by (cases ev)
  obtain s1 c1 and out1 :: "('c, 'jh, 'm, 'f) node_out list"
    where ph: "accept_phase ep s c = (s1, c1, out1)" by (rule prod_cases3)
  then have "sessions s1 = sessions s" "children s1 = children s" "distinct (observers s1)"
    using Cons.prems(1) by (auto simp: accept_phase_def Let_def children_ok_def node_sessions_ok_def)
  from children_ok_same [OF Cons.prems(1) this, of "{}"] Cons.prems(2)
  have ok1: "children_ok mgr s1" and view1: "fst ` session_view s1 \<subseteq> seen"
    and view0: "fst ` session_view s1 \<subseteq> fst ` session_view s" by blast+
  show ?case
  proof (cases "nc_state c = Running")
    case False
    with Cons.prems show ?thesis by (auto simp: ev node_loop_end_def)
  next
    case running: True
    show ?thesis
    proof (cases "node_select ep env i s1 c1")
      case (Panic p)
      with running Cons.prems(5) ph have "s' = s1" by (simp add: ev)
      with ok1 view0 show ?thesis by blast
    next
      case (Ret t)
      obtain s2 c2 out2 where t: "t = (s2, c2, out2)" by (cases t)
      have fresh: "\<forall>a \<in> spawned env. hm_get (primary (sessions s1)) a = None"
        using Cons.prems(3) by (intro fresh_primary [OF view1]) (simp add: ev)
      have step: "children_ok mgr s2 \<and> fst ` session_view s2 \<subseteq> fst ` session_view s1 \<union> spawned env"
        using Cons.prems(4) Ret t by (intro node_select_children [OF ok1 fresh]) (simp_all add: ev)
      obtain r3 s3 c3 out3 where rest: "node_run_loop ep evs s2 c2 = (r3, s3, c3, out3)" and "s' = s3"
        using Cons.prems(5) running ph Ret t by (auto simp: ev split: prod.splits)
      have sub: "fst ` session_view s2 \<subseteq> seen \<union> spawned env" using step view1 by blast
      have "children_ok mgr s3 \<and> fst ` session_view s3 \<subseteq> fst ` session_view s2 \<union> (\<Union>(env, _) \<in> set evs. spawned env)"
        using step Cons.prems(3,4) by (intro Cons.IH [OF _ sub _ _ rest]) (simp_all add: ev)
      with \<open>s' = s3\<close> chain3 [OF _ conjunct2 [OF step] view0] show ?thesis by (simp add: ev)
    qed
  qed
qed

section \<open>Ends\<close>

text \<open>A loop that handles a signal ends, whatever it did before.\<close>

lemma signal_leaves_loop: "nc_state (signal_handle node_ctx_ops sig c) \<noteq> Running"
  by (cases sig) (simp_all add: cx_stop_def cx_terminate_def node_ctx_ops_def nc_set_state_def)

lemma node_run_ends: "fst (node_run_loop ep (evs @ [(env, NEnvelope (NSignal sig))]) s c) \<noteq> None"
proof (induction evs arbitrary: s c)
  case Nil
  then show ?case by (simp add: case_prod_beta signal_leaves_loop)
next
  case (Cons ev evs)
  then show ?case by (cases ev) (auto simp: case_prod_beta split: outcome.split prod.split)
qed

lemma session_run_ends:
  assumes "(e1, e2, InEnvelope (CmdSignal sig)) \<in> set evs"
  shows "fst (sess_run_loop evs s c) \<noteq> None"
  using assms
proof (induction evs arbitrary: s c)
  case (Cons ev evs)
  show ?case
  proof (cases "ev = (e1, e2, InEnvelope (CmdSignal sig))")
    case True
    have "fst (sess_run_loop evs s' c') \<noteq> None" if "sc_state c' \<noteq> Running" for s' c'
      using that by (cases evs) auto
    with True show ?thesis by (cases sig) (auto simp: case_prod_beta Let_def sc_set_state_def)
  next
    case False
    with Cons show ?thesis by (cases ev) (auto simp: case_prod_beta Let_def split: option.split)
  qed
qed simp

lemma session_task_ends:
  assumes "self \<noteq> index" and "st_close t \<noteq> None" and "(e1, e2, InEnvelope (CmdSignal sig)) \<in> set evs"
  shows "session_finished self index t evs"
proof -
  obtain cl where cl: "st_close t = Some cl" using assms(2) by auto
  obtain r s' c' out where run: "sess_run_loop evs (sess_post_start index (sess_new (st_reg t)))
      (supervised_ctx (st_accepts t) self index (st_endpoint t)) = (Some r, s', c', out)"
    using session_run_ends [OF assms(3)] by (metis fst_conv option.exhaust surj_pair)
  obtain res c where fin: "cx_finish session_ops (session_hooks (Some cl)) r (s', out) c' = Some (res, c)"
    by (cases r) (auto simp: cx_finish_def session_hooks_def sess_post_stop_def Let_def)
  have "cx_state session_ops c = Stopped"
    by (rule session_context.finish_state [OF _ fin]) (auto simp: session_hooks_def split: prod.splits)
  then show ?thesis
    by (simp add: session_finished_def spawn_session_run [OF assms(1)] run cl fin sc_try_notify_def) (simp add: session_ops_def)
qed

text \<open>The manager serves until it gets a signal; a \<open>Stop\<close> ends it too, since it has the default \<open>stopping\<close> hook.\<close>

lemma mgr_stop_turn:
  assumes "mm_cmd msg = MSignal SignalStop" and "c_state c = Running" and "c_error c = None"
  shows "\<exists>a' c'. mgr_loop ops ix je default_stopping a c (msg # q) = Some (Ret (Ok ()), a', c')"
proof -
  let ?a = "fst (due ops ix je a c)" and ?c = "snd (due ops ix je a c)"
  let ?c' = "context_set_state Stopping ?c"
  obtain a' where h: "mgr_handle ops ix je msg ?a ?c = (a', ?c')"
    by (simp add: mgr_handle_def assms(1) cx_stop_def cron_ops_def)
  have err: "take_error ?c' = (Ok (), ?c')" using assms(3) by (simp add: take_error_def due_context)
  have "cron_process_one (cron_queue_env (mgr_handle ops ix je) default_stopping) (mgr_cron_task ops) a c (msg # q) =
      Some (Ret (Ok ()), a', ?c', q)"
    by (simp add: mgr_process_one cron_wait_queue [where hf = "mgr_handle ops ix je", OF h] err)
  then have "cron_iter (cron_queue_env (mgr_handle ops ix je) default_stopping) (mgr_cron_task ops) a c (msg # q) =
      Some (Some (Ret (Ok ())), a', ?c', q)"
    by (simp add: cron_iter_def cron_after_def Let_def cron_queue_env_def default_stopping_def)
  with assms(2) show ?thesis by (simp add: mgr_loop_def cron_run_loop.simps [of _ _ a c "msg # q"])
qed

lemma mgr_loop_ends:
  assumes "\<exists>msg \<in> set msgs. \<exists>sig. mm_cmd msg = MSignal sig" and "c_state c = Running" and "c_error c = None"
  shows "\<exists>a' c'. mgr_loop ops ix je default_stopping a c msgs = Some (Ret (Ok ()), a', c')"
  using assms
proof (induction msgs arbitrary: a c)
  case (Cons msg msgs)
  show ?case
  proof (cases "is_signal (mm_cmd msg)")
    case True
    then obtain sig where "mm_cmd msg = MSignal sig" by (cases "mm_cmd msg") auto
    then show ?thesis
      using mgr_last_turn [of msg c ops ix je default_stopping a msgs] mgr_stop_turn [of msg c ops ix je a msgs] Cons.prems(2,3)
      by (cases sig) auto
  next
    case False
    then obtain a1 c1 where "mgr_loop ops ix je default_stopping a c (msg # msgs) = mgr_loop ops ix je default_stopping a1 c1 msgs"
        "c_state c1 = Running" "c_error c1 = None"
      using mgr_turn [OF False Cons.prems(2,3)] by metis
    moreover have "\<exists>msg \<in> set msgs. \<exists>sig. mm_cmd msg = MSignal sig" using Cons.prems(1) False by auto
    ultimately show ?thesis using Cons.IH [of c1 a1] by simp
  qed
qed simp

lemma mgr_task_ends:
  assumes "\<exists>msg \<in> set msgs. \<exists>sig. mm_cmd msg = MSignal sig"
  shows "mgr_finished index t msgs"
proof -
  let ?a = "\<lparr>ma_mgr = mt_mgr t, ma_closed = mt_closed t, ma_replies = []\<rparr>"
  have run: "c_state (mgr_running_ctx index msgs) = Running" "c_error (mgr_running_ctx index msgs) = None"
    by (simp_all add: mgr_running_ctx_def cron_context_new_def)
  obtain a' c' where loop: "mgr_task_loop t ?a (mgr_running_ctx index msgs) msgs = Some (Ret (Ok ()), a', c')"
    using mgr_loop_ends [OF assms run, of "mt_ops t" "mt_index_of t" "mt_join_error t" ?a] by (auto simp: mgr_task_loop_def)
  obtain res c where fin: "cx_finish cron_ops default_hooks (Ret (Ok ())) a' c' = Some (res, c)"
    by (simp add: cx_finish_def default_hooks_def Let_def)
  have "c_state c = Stopped"
    using cron_context.finish_state [OF _ fin] by (simp add: default_hooks_def cron_ops_def)
  moreover have "start_mgr_task index t msgs = Ret (Ok (index, Some (context_try_notify (final_event (c_doorplate c) res) c)))"
    using loop fin by (simp add: start_mgr_task_def cx_start_def cx_spawn_def cx_run_def default_hooks_def cron_ops_def
        context_take_mailbox_def mgr_running_ctx_def cron_context_new_def)
  ultimately show ?thesis by (simp add: mgr_finished_def)
qed

section \<open>Termination of a child\<close>

text \<open>A child that keeps taking turns: it takes more envelopes than are ahead of the signal.\<close>

definition envelopes :: "'ev turn list \<Rightarrow> nat" where
  "envelopes ts = length (filter (\<lambda>t. t = TakeEnvelope) ts)"

definition keeps_going :: "'ev child \<Rightarrow> bool" where
  "keeps_going t \<longleftrightarrow> 0 < ch_capacity t \<and> length (ch_pending t) < envelopes (ch_turns t)"

lemma envelopes_simps [simp]:
  "envelopes [] = 0" "envelopes (TakeEnvelope # ts) = Suc (envelopes ts)" "envelopes (TakeOther e # ts) = envelopes ts"
  by (simp_all add: envelopes_def)

lemma send_wait_returns:
  assumes "0 < cap" and "length ahead < envelopes ts"
  shows "\<exists>r ts' selected' ahead'. send_wait closed cap ts selected ahead = Some (r, ts', selected', ahead') \<and>
    length ahead' < envelopes ts'"
  using assms
proof (induction closed cap ts selected ahead rule: send_wait.induct)
  case (2 closed cap t ts selected ahead)
  show ?case
  proof (cases "closed selected \<or> length ahead < cap")
    case False
    with 2 show ?thesis by (cases t; cases ahead) auto
  qed (use 2 in auto)
qed simp

lemma take_turns_reaches: "length ahead < envelopes ts \<Longrightarrow> x \<in> set (take_turns ts (ahead @ [x]))"
proof (induction ts arbitrary: ahead)
  case (Cons t ts)
  show ?case
  proof (cases t)
    case TakeEnvelope
    with Cons.prems Cons.IH [of "tl ahead"] show ?thesis by (cases ahead) auto
  next
    case (TakeOther e)
    with Cons show ?thesis by simp
  qed
qed simp

lemma terminate_child_returns:
  assumes "join_handle awaits" and "keeps_going t" and "\<And>evs. envelope SignalTerminate \<in> set evs \<Longrightarrow> finished evs"
  shows "\<exists>t'. terminate_child awaits closed finished envelope t = Some t' \<and> (ch_aborted t' \<or> finished (child_events t'))"
proof -
  obtain r ts sel pend where sw: "send_wait closed (ch_capacity t) (ch_turns t) (ch_selected t) (ch_pending t) = Some (r, ts, sel, pend)"
    and fair: "length pend < envelopes ts"
    using send_wait_returns [of "ch_capacity t" "ch_pending t" "ch_turns t" closed "ch_selected t"] assms(2)
    by (auto simp: keeps_going_def)
  show ?thesis
  proof (cases r)
    case (Ok u)
    let ?t = "t\<lparr>ch_selected := sel, ch_turns := ts, ch_pending := pend @ [envelope SignalTerminate]\<rparr>"
    have "finished (child_events ?t)"
      using take_turns_reaches [OF fair] by (intro assms(3)) (simp add: child_events_def)
    then show ?thesis
      using join_handle.awaits_finished [OF assms(1), of "ch_aborted t"]
      by (simp add: terminate_child_def terminate_actor_def child_do_send_def sw Ok)
  next
    case (Err e)
    then show ?thesis
      using join_handle.awaits_aborted [OF assms(1)]
      by (simp add: terminate_child_def terminate_actor_def child_do_send_def child_abort_def sw)
  qed
qed

lemma session_terminates:
  assumes "join_handle awaits" and "self \<noteq> index" and "keeps_going (st_child t)" and "st_close t \<noteq> None"
  shows "\<exists>t'. terminate_session awaits self index t = Some t' \<and> (ch_aborted t' \<or> session_finished self index t (child_events t'))"
  unfolding terminate_session_def
  by (rule terminate_child_returns [OF assms(1,3)]) (rule session_task_ends [OF assms(2,4)])

lemma mgr_terminates:
  assumes "join_handle awaits" and "keeps_going (mt_child t)"
  shows "\<exists>t'. terminate_mgr awaits index t = Some t' \<and> (ch_aborted t' \<or> mgr_finished index t (child_events t'))"
  unfolding terminate_mgr_def
  by (rule terminate_child_returns [OF assms], rule mgr_task_ends) force

lemma post_start_children:
  assumes "unstarted n" and "node_post_start start_mgr n = (Ok (), n1, out)" and "node_mgr n1 = Some mgr"
  shows "children_ok mgr n1" and "session_view n1 = {}"
  using assms dm_inv_new
  by (auto simp: node_post_start_def unstarted_def Let_def hm_insert_def children_ok_def node_sessions_ok_def session_view_def dm_new_def
      hm_new_def hm_get_NilD hm_get_Cons hm_put_def hm_ok_def split: result.splits prod.splits)

definition running_ctx :: "actor_id \<Rightarrow> 'mbx \<Rightarrow> string \<Rightarrow> ('l, 'mbx) node_ctx" where
  "running_ctx index mailbox label = (node_ctx_new index mailbox label)\<lparr>nc_state := Running, nc_mailbox := None\<rparr>"

lemma start_node_run:
  fixes evs :: "(('c, 'jh, 'mb) node_env \<times> ('l, 'mb, 'c) node_input) list" and out0 out :: "('c, 'jh, 'm, 'f) node_out list"
  assumes "node_post_start start_mgr n = (Ok (), n1, out0)"
    and "node_run_loop ep evs n1 (running_ctx index mailbox label) = (Some (Ret (Ok ())), n2, c2, out)"
  shows "start_node ep returns start_mgr evs index mailbox n label =
    Ret (Ok (index, if list_all (\<lambda>(a, jh). returns a jh) (children n2)
      then Some (nc_try_notify (Terminated (nc_doorplate c2) None) (nc_set_state Stopped c2)) else None))"
proof -
  let ?stopped = "if list_all (\<lambda>(a, jh). returns a jh) (children n2) then Some (Ret (Ok ()), nc_set_state Stopped c2) else None"
  have fin: "cx_finish node_ctx_ops (node_hooks returns start_mgr) (Ret (Ok ())) (n2, o') c2 = ?stopped"
    for o' :: "('c, 'jh, 'm, 'f) node_out list"
    by (simp add: cx_finish_def node_ctx_ops_def node_hooks_def node_post_stop_def merge_results_def nc_set_state_def
        case_prod_beta Let_def)
  have ctx: "nc_set_state Running (nc_set_state Starting ((node_ctx_new index mailbox label)\<lparr>nc_mailbox := None\<rparr>)) =
      running_ctx index mailbox label"
    by (simp add: running_ctx_def nc_set_state_def node_ctx_new_def)
  have start: "post_start (node_hooks returns start_mgr) (n, []) c = Some (Ret (Ok ()), (n1, out0), c)" for c
    using assms(1) by (simp add: node_hooks_def)
  have loop: "node_loop ep evs (n1, out0) (running_ctx index mailbox label) mailbox = Some (Ret (Ok ()), (n2, out0 @ out), c2)"
    using assms(2) by (simp add: node_loop_def)
  have "cx_run node_ctx_ops (node_hooks returns start_mgr) (node_loop ep evs) (n, [])
      (nc_set_state Starting ((node_ctx_new index mailbox label)\<lparr>nc_mailbox := None\<rparr>)) mailbox = ?stopped"
    by (simp only: cx_run_def start) (simp add: node_ctx_ops_def ctx loop fin [unfolded node_ctx_ops_def])
  then show ?thesis
    by (simp add: start_node_def cx_start_def cx_spawn_def node_hooks_def node_ctx_ops_def nc_take_mailbox_def node_ctx_new_def
        nc_set_state_def)
qed

lemma node_run_result:
  assumes "node_run_loop ep evs s c = (r, s', c', out)" and "r \<noteq> None" and "\<forall>p. r \<noteq> Some (Panic p)"
  shows "r = Some (Ret (Ok ())) \<and> accept_tasks c' = []"
  using assms
proof (induction evs arbitrary: s c out)
  case Nil
  then show ?case by (auto simp: node_loop_end_def split: if_splits)
next
  case (Cons ev evs)
  then show ?case
    by (cases ev) (auto simp: node_loop_end_def Let_def split: if_splits prod.splits outcome.splits)
qed

lemma fresh_run_avoids: "fresh_run seen evs \<Longrightarrow> (\<Union>(env, _) \<in> set evs. spawned env) \<inter> seen = {}"
  by (induction seen evs rule: fresh_run.induct) auto

lemma hm_keys: "{a. hm_get m a \<noteq> None} = set (map fst m)"
  by (auto simp: hm_get_def map_of_eq_None_iff)

section \<open>Properties\<close>

text \<open>C8. A node shuts down completely. Whatever a started node has gone through, once it handles a signal its loop ends, no accept
  task is left, and its children are exactly the manager and the sessions that are open at that moment, each once. \<open>post_stop\<close>
  terminates and awaits them: as long as one of these calls does not return, the node's task does not end. But all of them
  return, the one for the manager included, when the children keep taking turns (each takes more
  envelopes than are ahead of the signal; a send to a full mailbox waits for its turn) and the connections of the sessions finish
  closing: each child was told to terminate and has finished, or had left its loop and was aborted. Then the node's task stops without an
  error. (Unless the loop panicked, and as long as no one reports the end of the manager, which has no supervisor.)\<close>

theorem node_shutdown:
  fixes evs :: "(('c, 'jh, 'mb) node_env \<times> ('l, 'mb, 'c) node_input) list" and n :: "('m, 'l, 'f, 'jh) node"
    and out0 out :: "('c, 'jh, 'm, 'f) node_out list" and tasks :: "actor_id \<Rightarrow> ('m2, 'mb2, 'tx) session_task"
    and mt :: "('m2, 'mb2, 'f2) mgr_task"
  assumes "unstarted n" and "node_post_start start_mgr n = (Ok (), n1, out0)" and "node_mgr n1 = Some mgr"
    and "evs' = evs @ [(env, NEnvelope (NSignal sig))]" and "fresh_run {index} evs'" and "list_all (\<lambda>(_, i). spares mgr i) evs"
    and "node_run_loop ep evs' n1 (running_ctx index mailbox label) = (r, n2, c2, out)" and "\<forall>p. r \<noteq> Some (Panic p)"
    and "join_handle awaits" and "keeps_going (mt_child mt)"
    and "\<forall>(a, l) \<in> session_view n2. keeps_going (st_child (tasks a)) \<and> st_close (tasks a) \<noteq> None"
  shows "distinct (map fst (children n2)) \<and> set (map fst (children n2)) = insert mgr (fst ` session_view n2) \<and>
    (\<forall>returns. (\<exists>(a, jh) \<in> set (children n2). \<not> returns a jh) \<longrightarrow>
       start_node ep returns start_mgr evs' index mailbox n label = Ret (Ok (index, None))) \<and>
    (\<forall>(a, jh) \<in> set (children n2). if a = mgr
       then \<exists>t'. terminate_mgr awaits a mt = Some t' \<and> (ch_aborted t' \<or> mgr_finished a mt (child_events t'))
       else \<exists>t'. terminate_session awaits index a (tasks a) = Some t' \<and>
         (ch_aborted t' \<or> session_finished index a (tasks a) (child_events t'))) \<and>
    (\<exists>c. start_node ep (child_returns awaits index mgr mt tasks) start_mgr evs' index mailbox n label = Ret (Ok (index, Some c)) \<and>
      nc_state c = Stopped \<and> accept_tasks c = [])"
proof -
  note start = post_start_children [OF assms(1-3)]
  have "r \<noteq> None" using node_run_ends [of ep evs env sig] assms(4,7) by (metis fst_conv)
  then have r: "r = Some (Ret (Ok ()))" "accept_tasks c2 = []" using node_run_result [OF assms(7) _ assms(8)] by blast+
  note run = start_node_run [OF assms(2) assms(7) [unfolded r(1)]]
  have "list_all (\<lambda>(_, i). spares mgr i) evs'" using assms(4,6) by simp
  from node_run_children [OF start(1) _ assms(5) this assms(7)]
  have ok: "children_ok mgr n2" and views: "fst ` session_view n2 \<subseteq> (\<Union>(env, _) \<in> set evs'. spawned env)"
    by (simp_all add: start(2))
  have keys: "distinct (map fst (children n2))" "set (map fst (children n2)) = insert mgr (fst ` session_view n2)"
    using ok hm_keys [of "children n2"] by (simp_all add: children_ok_def node_sessions_ok_def hm_ok_def)
  have "index \<notin> fst ` session_view n2" using views fresh_run_avoids [OF assms(5)] by blast
  have each: "if a = mgr then \<exists>t'. terminate_mgr awaits a mt = Some t' \<and> (ch_aborted t' \<or> mgr_finished a mt (child_events t'))
       else \<exists>t'. terminate_session awaits index a (tasks a) = Some t' \<and>
         (ch_aborted t' \<or> session_finished index a (tasks a) (child_events t'))" if "(a, jh) \<in> set (children n2)" for a jh
  proof (cases "a = mgr")
    case True
    then show ?thesis using mgr_terminates [OF assms(9,10), of mgr] by simp
  next
    case False
    have "a \<in> set (map fst (children n2))" using that by force
    with keys(2) False have mem: "a \<in> fst ` session_view n2" by blast
    with \<open>index \<notin> fst ` session_view n2\<close> have "index \<noteq> a" by blast
    with mem assms(11) False show ?thesis using session_terminates [OF assms(9), of index a "tasks a"] by auto
  qed
  then have "list_all (\<lambda>(a, jh). child_returns awaits index mgr mt tasks a jh) (children n2)"
    by (fastforce simp: list_all_iff child_returns_def)
  then have "\<exists>c. start_node ep (child_returns awaits index mgr mt tasks) start_mgr evs' index mailbox n label = Ret (Ok (index, Some c)) \<and>
      nc_state c = Stopped \<and> accept_tasks c = []"
    using r(2) by (simp add: run nc_try_notify_def nc_set_state_def)
  moreover have "start_node ep returns start_mgr evs' index mailbox n label = Ret (Ok (index, None))"
    if "\<exists>(a, jh) \<in> set (children n2). \<not> returns a jh" for returns
    using that by (auto simp: run list_all_iff)
  ultimately show ?thesis using keys each by blast
qed

definition started_example :: "((u64, nat) hash_map, string, nat, nat) node" where
  "started_example = fst (snd (node_post_start (\<lambda>m. Ok (actor_id_new 1, 0)) (node_default hm_ops) ::
     _ \<times> _ \<times> (string, nat, (u64, nat) hash_map, nat) node_out list))"

definition shutdown_example :: "((string, nat, nat) node_env \<times> (string, nat, string) node_input) list" where
  "shutdown_example = node_events_example @ [(node_env_at 6, NEnvelope (NSignal SignalTerminate))]"

text \<open>A session with a full mailbox of one message, which receives a frame and then takes its envelopes, and an idle manager.\<close>

definition task_example :: "((u64, nat) hash_map, nat, nat) session_task" where
  "task_example = \<lparr>st_reg = hm_new, st_endpoint = ''pipe'', st_close = Some (Ok ()), st_accepts = (\<lambda>_. True), st_env = ex_env 0,
     st_child = \<lparr>ch_selected = [], ch_pending = [(ex_env 0, ex_env 0, InEnvelope CmdRequireCleanup)], ch_capacity = 1,
       ch_turns = [TakeOther (ex_env 0, ex_env 0, InReceived []), TakeEnvelope, TakeEnvelope], ch_aborted = False\<rparr>\<rparr>"

definition mgr_task_example :: "((u64, nat) hash_map, nat, nat) mgr_task" where
  "mgr_task_example = \<lparr>mt_ops = hm_ops, mt_index_of = ex_index, mt_join_error = box_str, mt_mgr = mgr_example, mt_closed = ex_closed,
     mt_child = \<lparr>ch_selected = [], ch_pending = [], ch_capacity = 4, ch_turns = [TakeEnvelope], ch_aborted = False\<rparr>\<rparr>"

theorem node_shutdown_witness:
  "\<exists>c. start_node (\<lambda>l. l) (child_returns (\<or>) (actor_id_new 0) (actor_id_new 1) mgr_task_example (\<lambda>_. task_example))
      (\<lambda>m. Ok (actor_id_new 1, 0)) shutdown_example (actor_id_new 0) ()
      (node_default hm_ops :: ((u64, nat) hash_map, string, nat, nat) node) ''node'' =
      Ret (Ok (actor_id_new 0, Some c)) \<and> nc_state c = Stopped \<and>
    terminate_session (\<or>) (actor_id_new 0) (actor_id_new 4) task_example \<noteq> None"
proof -
  obtain r n2 c2 and out :: "(string, nat, (u64, nat) hash_map, nat) node_out list"
    where run: "node_run_loop (\<lambda>l. l) shutdown_example started_example (running_ctx (actor_id_new 0) () ''node'') = (r, n2, c2, out)"
    by (rule prod_cases4)
  have start: "node_post_start (\<lambda>m. Ok (actor_id_new 1, 0)) (node_default hm_ops) =
      (Ok (), started_example, [NStartMgr (mgr_new (reg_new hm_ops) hm_new hm_new)] :: (string, nat, (u64, nat) hash_map, nat) node_out list)"
    and mgr: "node_mgr started_example = Some (actor_id_new 1)"
    by (simp_all add: started_example_def node_post_start_def node_default_def Let_def)
  have fresh: "fresh_run {actor_id_new 0} shutdown_example"
    by (simp add: shutdown_example_def node_events_example_def spawned_at actor_id_new_def)
  have spared: "list_all (\<lambda>(_, i). spares (actor_id_new 1) i) node_events_example"
    by (simp add: node_events_example_def actor_id_new_def)
  have "fst (node_run_loop (\<lambda>l. l) shutdown_example started_example (running_ctx (actor_id_new 0) () ''node'')) = Some (Ret (Ok ()))"
    by code_simp
  then have r: "\<forall>p. r \<noteq> Some (Panic p)" by (simp add: run)
  have "children (fst (snd (node_run_loop (\<lambda>l. l) shutdown_example started_example (running_ctx (actor_id_new 0) () ''node'')))) =
      [(actor_id_new 1, 0), (actor_id_new 4, 0)]"
    by code_simp
  then have child: "(actor_id_new 4, 0) \<in> set (children n2)" by (simp add: run)
  have going: "keeps_going (mt_child mgr_task_example)"
    "\<forall>(a, l) \<in> session_view n2. keeps_going (st_child task_example) \<and> st_close task_example \<noteq> None"
    by (auto simp: keeps_going_def mgr_task_example_def task_example_def)
  note all = node_shutdown [OF default_start(1) start mgr shutdown_example_def fresh spared run r either.join_handle_axioms going(1),
      where tasks = "\<lambda>_. task_example", OF going(2)]
  then have "terminate_session (\<or>) (actor_id_new 0) (actor_id_new 4) task_example \<noteq> None"
    using child by (fastforce simp: actor_id_new_def)
  with all show ?thesis by blast
qed

text \<open>A session whose mailbox is full and that never takes a turn again blocks the node: awaiting it does not return.\<close>

lemma stuck_child_blocks:
  "terminate_session awaits self (actor_id_new 4)
     (task_example\<lparr>st_child := (st_child task_example)\<lparr>ch_turns := []\<rparr>\<rparr>) = None"
  by (simp add: terminate_session_def terminate_child_def terminate_actor_def child_do_send_def task_example_def session_left_def
      supervised_ctx_def session_ctx_new_def)

end
