(* ===== verification/Codec.thy ===== *)
theory Codec
  imports Registry
begin

text \<open>
  The message codec (\<open>acktor/src/codec.rs\<close>, \<open>codec/default_codec.rs\<close>, \<open>codec/common_codec.rs\<close>,
  \<open>codec/protobuf_helper.rs\<close>). The traits \<open>Encode\<close> and \<open>Decode\<close> of a type are a record \<open>codec\<close>, and the
  locale \<open>codec_laws\<close> is what a remote call relies on: what was encoded is as long as announced and
  decodes. Each implementation is a codec; those of containers take the codecs of their parts.
  A \<open>Bytes\<close> is its contents and the address of its first byte, because \<open>zerocopy\<close> casts slices in
  place and refuses a misaligned one. The crates \<open>zerocopy\<close> and \<open>prost\<close> are the parameters \<open>zc\<close> and \<open>pb\<close>
  under the locales \<open>zerocopy\<close> and \<open>protobuf\<close>.
\<close>

section \<open>Buffers and little-endian integers\<close>

record buf =
  b_addr :: nat
  b_bytes :: bytes

definition split_to :: "nat \<Rightarrow> buf \<Rightarrow> buf \<times> buf" where
  "split_to n b = (\<lparr>b_addr = b_addr b, b_bytes = take n (b_bytes b)\<rparr>,
     \<lparr>b_addr = b_addr b + n, b_bytes = drop n (b_bytes b)\<rparr>)"

fun le_bytes :: "nat \<Rightarrow> nat \<Rightarrow> bytes" where
  "le_bytes 0 x = []"
| "le_bytes (Suc n) x = word_of_nat x # le_bytes n (x div 256)"

fun le_nat :: "bytes \<Rightarrow> nat" where
  "le_nat [] = 0"
| "le_nat (b # bs) = unat b + 256 * le_nat bs"

fun chunks :: "nat \<Rightarrow> nat \<Rightarrow> bytes \<Rightarrow> bytes list" where
  "chunks n 0 bs = []"
| "chunks n (Suc k) bs = take n bs # chunks n k (drop n bs)"

lemma le_bytes_length [simp]: "length (le_bytes n x) = n"
  by (induction n x rule: le_bytes.induct) simp_all

lemma le_nat_le_bytes: "le_nat (le_bytes n x) = x mod 256 ^ n"
proof (induction n x rule: le_bytes.induct)
  case (2 n x)
  have "unat (word_of_nat x :: 8 word) = x mod 256" by (simp add: unat_of_nat)
  with 2 show ?case by (simp add: mod_mult2_eq)
qed simp

lemma chunks_concat: "\<forall>b \<in> set bss. length b = n \<Longrightarrow> chunks n (length bss) (concat bss) = bss"
  by (induction bss) simp_all

text \<open>Well-formed UTF-8, as \<open>String::from_utf8\<close> checks it.\<close>

definition is_cont :: "u8 \<Rightarrow> bool" where
  "is_cont b \<longleftrightarrow> 0x80 \<le> b \<and> b \<le> 0xBF"

fun valid_utf8 :: "bytes \<Rightarrow> bool" where
  "valid_utf8 [] \<longleftrightarrow> True"
| "valid_utf8 (a # r) \<longleftrightarrow>
     (if a < 0x80 then valid_utf8 r
      else case r of
        [] \<Rightarrow> False
      | b # r1 \<Rightarrow>
          if 0xC2 \<le> a \<and> a \<le> 0xDF then is_cont b \<and> valid_utf8 r1
          else (case r1 of
            [] \<Rightarrow> False
          | c # r2 \<Rightarrow>
              if a = 0xE0 then 0xA0 \<le> b \<and> b \<le> 0xBF \<and> is_cont c \<and> valid_utf8 r2
              else if a = 0xED then 0x80 \<le> b \<and> b \<le> 0x9F \<and> is_cont c \<and> valid_utf8 r2
              else if 0xE1 \<le> a \<and> a \<le> 0xEF then is_cont b \<and> is_cont c \<and> valid_utf8 r2
              else (case r2 of
                [] \<Rightarrow> False
              | d # r3 \<Rightarrow>
                  if a = 0xF0 then 0x90 \<le> b \<and> b \<le> 0xBF \<and> is_cont c \<and> is_cont d \<and> valid_utf8 r3
                  else if a = 0xF4 then 0x80 \<le> b \<and> b \<le> 0x8F \<and> is_cont c \<and> is_cont d \<and> valid_utf8 r3
                  else 0xF1 \<le> a \<and> a \<le> 0xF3 \<and> is_cont b \<and> is_cont c \<and> is_cont d \<and> valid_utf8 r3)))"

section \<open>The traits and the two libraries\<close>

text \<open>\<open>encode\<close> appends to a buffer; the contexts are opaque here.\<close>

record ('a, 'ec, 'dc) codec =
  cd_len :: "'a \<Rightarrow> nat"
  cd_encode :: "'a \<Rightarrow> 'ec \<Rightarrow> bytes \<Rightarrow> (unit, encode_error) result \<times> 'ec \<times> bytes"
  cd_decode :: "'dc \<Rightarrow> buf \<Rightarrow> ('a, decode_error) result"

definition encode_to_bytes ::
  "('a, 'ec, 'dc) codec \<Rightarrow> 'a \<Rightarrow> 'ec \<Rightarrow> (bytes, encode_error) result \<times> 'ec" where
  "encode_to_bytes cd v ec =
     (case cd_encode cd v ec [] of
        (Ok _, ec', b) \<Rightarrow> (Ok b, ec')
      | (Err e, ec', _) \<Rightarrow> (Err e, ec'))"

text \<open>
  The contract, for a 64-bit \<open>usize\<close>: \<open>fits dc v a\<close> says that the encoding of \<open>v\<close> can be decoded at
  address \<open>a\<close> with the context \<open>dc\<close>, \<open>rel dc v w\<close> how the decoded value relates to the sent one.
\<close>

locale codec_laws =
  fixes cd :: "('a, 'ec, 'dc) codec"
    and fits :: "'dc \<Rightarrow> 'a \<Rightarrow> nat \<Rightarrow> bool"
    and rel :: "'dc \<Rightarrow> 'a \<Rightarrow> 'a \<Rightarrow> bool"
  assumes encodes: "cd_encode cd v ec b = (Ok (), ec', b') \<Longrightarrow> cd_len cd v < 2 ^ 64 \<Longrightarrow>
    \<exists>bs. b' = b @ bs \<and> length bs = cd_len cd v \<and>
      (\<forall>dc a. fits dc v a \<longrightarrow> (\<exists>w. cd_decode cd dc \<lparr>b_addr = a, b_bytes = bs\<rparr> = Ok w \<and> rel dc v w))"
begin

lemma to_bytes:
  assumes "encode_to_bytes cd v ec = (Ok bs, ec')" and "cd_len cd v < 2 ^ 64"
  shows "length bs = cd_len cd v"
    and "fits dc v a \<Longrightarrow> \<exists>w. cd_decode cd dc \<lparr>b_addr = a, b_bytes = bs\<rparr> = Ok w \<and> rel dc v w"
proof -
  have "cd_encode cd v ec [] = (Ok (), ec', bs)"
    using assms(1) by (auto simp: encode_to_bytes_def split: prod.splits result.splits)
  from encodes [OF this assms(2)] show "length bs = cd_len cd v"
    and "fits dc v a \<Longrightarrow> \<exists>w. cd_decode cd dc \<lparr>b_addr = a, b_bytes = bs\<rparr> = Ok w \<and> rel dc v w"
    by auto
qed

end

record zc_ops =
  zc_read :: "nat \<Rightarrow> buf \<Rightarrow> (bytes, string) result"
  zc_slice :: "nat \<Rightarrow> nat \<Rightarrow> buf \<Rightarrow> (bytes, string) result"

text \<open>\<open>FromBytes::read_from_bytes\<close> copies and needs the exact size; \<open>Ref::from_bytes\<close> on a slice needs a
  multiple of the element size and an aligned address.\<close>

locale zerocopy =
  fixes zc :: zc_ops
  assumes read_iff: "zc_read zc n b = Ok bs \<longleftrightarrow> length (b_bytes b) = n \<and> bs = b_bytes b"
    and slice_iff: "zc_slice zc n al b = Ok bs \<longleftrightarrow>
      length (b_bytes b) mod n = 0 \<and> b_addr b mod al = 0 \<and> bs = b_bytes b"

definition zc_std :: zc_ops where
  "zc_std = \<lparr>zc_read = (\<lambda>n b. if length (b_bytes b) = n then Ok (b_bytes b) else Err ''size''),
     zc_slice = (\<lambda>n al b. if length (b_bytes b) mod n = 0
       then if b_addr b mod al = 0 then Ok (b_bytes b) else Err ''alignment'' else Err ''size'')\<rparr>"

interpretation zc_std: zerocopy zc_std
  by unfold_locales (auto simp: zc_std_def)

record pb_ops =
  pb_key_len :: "u32 \<Rightarrow> nat"
  pb_delimiter_len :: "nat \<Rightarrow> nat"
  pb_varint :: "u64 \<Rightarrow> bytes"
  pb_result :: "buf \<Rightarrow> ((buf, bytes) result option, box_error) result"
  pb_option :: "buf \<Rightarrow> (buf option, box_error) result"
  pb_u64_len :: "u64 \<Rightarrow> nat"
  pb_u64_encode :: "u64 \<Rightarrow> (bytes, box_error) result"
  pb_u64_decode :: "bytes \<Rightarrow> (u64, box_error) result"

text \<open>What protobuf says of a message with one length-delimited field; where the decoder puts the
  bytes of the field is not said.\<close>

locale protobuf =
  fixes pb :: pb_ops
  assumes key_len_1: "pb_key_len pb 1 = 1"
    and varint_len: "n < 2 ^ 64 \<Longrightarrow> length (pb_varint pb (word_of_nat n)) = pb_delimiter_len pb n"
    and result_ok: "length p < 2 ^ 64 \<Longrightarrow> \<exists>a'. pb_result pb \<lparr>b_addr = a, b_bytes =
      0x0A # pb_varint pb (word_of_nat (length p)) @ p\<rparr> = Ok (Some (Ok \<lparr>b_addr = a', b_bytes = p\<rparr>))"
    and result_err: "length p < 2 ^ 64 \<Longrightarrow> valid_utf8 p \<Longrightarrow> pb_result pb \<lparr>b_addr = a, b_bytes =
      0x12 # pb_varint pb (word_of_nat (length p)) @ p\<rparr> = Ok (Some (Err p))"
    and option_none: "pb_option pb \<lparr>b_addr = a, b_bytes = []\<rparr> = Ok None"
    and option_some: "length p < 2 ^ 64 \<Longrightarrow> \<exists>a'. pb_option pb \<lparr>b_addr = a, b_bytes =
      0x0A # pb_varint pb (word_of_nat (length p)) @ p\<rparr> = Ok (Some \<lparr>b_addr = a', b_bytes = p\<rparr>)"
    and u64_roundtrip: "pb_u64_encode pb x = Ok bs \<Longrightarrow>
      length bs = pb_u64_len pb x \<and> pb_u64_decode pb bs = Ok x"

section \<open>Scalars\<close>

definition unit_codec :: "(unit, 'ec, 'dc) codec" where
  "unit_codec = \<lparr>cd_len = (\<lambda>_. 0), cd_encode = (\<lambda>_ ec b. (Ok (), ec, b)),
     cd_decode = (\<lambda>_ _. Ok ())\<rparr>"

definition bool_codec :: "zc_ops \<Rightarrow> (bool, 'ec, 'dc) codec" where
  "bool_codec zc = \<lparr>cd_len = (\<lambda>_. 1),
     cd_encode = (\<lambda>v ec b. (Ok (), ec, b @ [if v then 1 else 0])),
     cd_decode = (\<lambda>_ b. case zc_read zc 1 b of
        Ok bs \<Rightarrow> Ok (le_nat bs \<noteq> 0)
      | Err e \<Rightarrow> Err (decode_error_from_str e))\<rparr>"

text \<open>The integers \<open>i8\<close> to \<open>u64\<close>, and the floats as their bit patterns.\<close>

definition word_codec :: "zc_ops \<Rightarrow> ('w::len word, 'ec, 'dc) codec" where
  "word_codec zc =
     (let size = LENGTH('w) div 8
      in \<lparr>cd_len = (\<lambda>_. size),
          cd_encode = (\<lambda>v ec b. (Ok (), ec, b @ le_bytes size (unat v))),
          cd_decode = (\<lambda>_ b. case zc_read zc size b of
             Ok bs \<Rightarrow> Ok (word_of_nat (le_nat bs))
           | Err e \<Rightarrow> Err (decode_error_from_str e))\<rparr>)"

definition int_range_error :: decode_error where
  "int_range_error = decode_error_from_str ''out of range integral type conversion attempted''"

text \<open>\<open>usize\<close> and \<open>isize\<close> of a target with \<open>'p\<close> bits travel as 64 bits.\<close>

definition usize_try_from :: "u64 \<Rightarrow> ('p::len word, decode_error) result" where
  "usize_try_from value =
     (if unat value < 2 ^ LENGTH('p) then Ok (ucast value) else Err int_range_error)"

definition isize_try_from :: "u64 \<Rightarrow> ('p::len word, decode_error) result" where
  "isize_try_from value =
     (if - (2 ^ (LENGTH('p) - 1)) \<le> sint value \<and> sint value < 2 ^ (LENGTH('p) - 1)
      then Ok (scast value) else Err int_range_error)"

definition usize_codec :: "zc_ops \<Rightarrow> ('p::len word, 'ec, 'dc) codec" where
  "usize_codec zc =
     \<lparr>cd_len = (\<lambda>_. 8),
      cd_encode = (\<lambda>v ec b. cd_encode (word_codec zc :: (u64, 'ec, 'dc) codec) (ucast v) ec b),
      cd_decode = (\<lambda>dc b. case cd_decode (word_codec zc :: (u64, 'ec, 'dc) codec) dc b of
         Err e \<Rightarrow> Err e
       | Ok value \<Rightarrow> usize_try_from value)\<rparr>"

definition isize_codec :: "zc_ops \<Rightarrow> ('p::len word, 'ec, 'dc) codec" where
  "isize_codec zc =
     \<lparr>cd_len = (\<lambda>_. 8),
      cd_encode = (\<lambda>v ec b. cd_encode (word_codec zc :: (u64, 'ec, 'dc) codec) (scast v) ec b),
      cd_decode = (\<lambda>dc b. case cd_decode (word_codec zc :: (u64, 'ec, 'dc) codec) dc b of
         Err e \<Rightarrow> Err e
       | Ok value \<Rightarrow> isize_try_from value)\<rparr>"

text \<open>A \<open>String\<close> is its bytes; \<open>utf8_error\<close> is the text of \<open>FromUtf8Error\<close>.\<close>

definition string_codec :: "(bytes \<Rightarrow> string) \<Rightarrow> (bytes, 'ec, 'dc) codec" where
  "string_codec utf8_error =
     \<lparr>cd_len = length, cd_encode = (\<lambda>v ec b. (Ok (), ec, b @ v)),
      cd_decode = (\<lambda>_ b. if valid_utf8 (b_bytes b) then Ok (b_bytes b)
         else Err (decode_error_from_str (utf8_error (b_bytes b))))\<rparr>"

section \<open>Vectors\<close>

definition vec_bool_codec :: "(bool list, 'ec, 'dc) codec" where
  "vec_bool_codec =
     \<lparr>cd_len = length,
      cd_encode = (\<lambda>v ec b. (Ok (), ec, b @ map (\<lambda>x. if x then 1 else 0) v)),
      cd_decode = (\<lambda>_ b. Ok (map (\<lambda>x. x \<noteq> 0) (b_bytes b)))\<rparr>"

text \<open>The elements are read in place by zerocopy, which asks for the alignment of their type: it is the size of the type, as
  on targets of 64 bits (some targets of 32 bits align the integers of 64 bits to 4 bytes only).\<close>

definition vec_codec :: "zc_ops \<Rightarrow> ('w::len word list, 'ec, 'dc) codec" where
  "vec_codec zc =
     (let size = LENGTH('w) div 8
      in \<lparr>cd_len = (\<lambda>v. length v * size),
          cd_encode = (\<lambda>v ec b. (Ok (), ec, b @ concat (map (\<lambda>x. le_bytes size (unat x)) v))),
          cd_decode = (\<lambda>_ b.
             if b_bytes b = [] then Ok []
             else case zc_slice zc size size b of
                    Ok bs \<Rightarrow> Ok (map (\<lambda>c. word_of_nat (le_nat c)) (chunks size (length bs div size) bs))
                  | Err e \<Rightarrow> Err (decode_error_from_str e))\<rparr>)"

text \<open>\<open>collect\<close> into a \<open>Result\<close> stops at the first error.\<close>

fun collect_results :: "('a, 'e) result list \<Rightarrow> ('a list, 'e) result" where
  "collect_results [] = Ok []"
| "collect_results (Err e # rs) = Err e"
| "collect_results (Ok x # rs) = map_ok ((#) x) (collect_results rs)"

definition vec_usize_codec :: "zc_ops \<Rightarrow> ('p::len word list, 'ec, 'dc) codec" where
  "vec_usize_codec zc =
     \<lparr>cd_len = (\<lambda>v. length v * 8),
      cd_encode = (\<lambda>v ec b.
        cd_encode (vec_codec zc :: (u64 list, 'ec, 'dc) codec) (map ucast v) ec b),
      cd_decode = (\<lambda>dc b. case cd_decode (vec_codec zc :: (u64 list, 'ec, 'dc) codec) dc b of
         Err e \<Rightarrow> Err e
       | Ok vec \<Rightarrow> collect_results (map usize_try_from vec))\<rparr>"

definition vec_isize_codec :: "zc_ops \<Rightarrow> ('p::len word list, 'ec, 'dc) codec" where
  "vec_isize_codec zc =
     \<lparr>cd_len = (\<lambda>v. length v * 8),
      cd_encode = (\<lambda>v ec b.
        cd_encode (vec_codec zc :: (u64 list, 'ec, 'dc) codec) (map scast v) ec b),
      cd_decode = (\<lambda>dc b. case cd_decode (vec_codec zc :: (u64 list, 'ec, 'dc) codec) dc b of
         Err e \<Rightarrow> Err e
       | Ok vec \<Rightarrow> collect_results (map isize_try_from vec))\<rparr>"

section \<open>Tuples\<close>

definition encode_element ::
  "('a, 'ec, 'dc) codec \<Rightarrow> 'a \<Rightarrow> 'ec \<Rightarrow> bytes \<Rightarrow> (unit, encode_error) result \<times> 'ec \<times> bytes" where
  "encode_element cd value ec b =
     (let len = word_of_nat (cd_len cd value) :: u32
      in cd_encode cd value ec (b @ le_bytes 4 (unat len)))"

text \<open>The element and the buffer behind it.\<close>

definition decode_element :: "zc_ops \<Rightarrow> buf \<Rightarrow> (buf \<times> buf, decode_error) result" where
  "decode_element zc b =
     (if length (b_bytes b) < 4 then Err (decode_error_from_str ''missing the tuple element length'')
      else let (head, b1) = split_to 4 b
           in case zc_read zc 4 head of
                Err e \<Rightarrow> Err (decode_error_from_str e)
              | Ok bs \<Rightarrow>
                  let len = unat (word_of_nat (le_nat bs) :: u32)
                  in if length (b_bytes b1) < len
                     then Err (decode_error_from_str ''missing the tuple element data'')
                     else Ok (split_to len b1))"

text \<open>A tuple is its elements in order: the last one, or one in front of a shorter tuple.\<close>

definition tuple_last :: "zc_ops \<Rightarrow> ('a, 'ec, 'dc) codec \<Rightarrow> ('a, 'ec, 'dc) codec" where
  "tuple_last zc cd =
     \<lparr>cd_len = (\<lambda>v. 4 + cd_len cd v),
      cd_encode = (\<lambda>v ec b. encode_element cd v ec b),
      cd_decode = (\<lambda>dc b. case decode_element zc b of
         Err e \<Rightarrow> Err e
       | Ok (el, _) \<Rightarrow> cd_decode cd dc el)\<rparr>"

definition tuple_cons ::
  "zc_ops \<Rightarrow> ('a, 'ec, 'dc) codec \<Rightarrow> ('b, 'ec, 'dc) codec \<Rightarrow> ('a \<times> 'b, 'ec, 'dc) codec" where
  "tuple_cons zc cd rest =
     \<lparr>cd_len = (\<lambda>(v, r). 4 + cd_len cd v + cd_len rest r),
      cd_encode = (\<lambda>(v, r) ec b. case encode_element cd v ec b of
         (Err e, ec', b') \<Rightarrow> (Err e, ec', b')
       | (Ok _, ec', b') \<Rightarrow> cd_encode rest r ec' b'),
      cd_decode = (\<lambda>dc b. case decode_element zc b of
         Err e \<Rightarrow> Err e
       | Ok (el, b') \<Rightarrow>
           (case cd_decode cd dc el of
              Err e \<Rightarrow> Err e
            | Ok v \<Rightarrow> map_ok (\<lambda>r. (v, r)) (cd_decode rest dc b')))\<rparr>"

section \<open>Options and results\<close>

definition LENGTH_DELIMITED_TAGS :: bytes where
  "LENGTH_DELIMITED_TAGS = [0x00, 0x0A, 0x12, 0x1A, 0x22, 0x2A, 0x32, 0x3A, 0x42, 0x4A, 0x52, 0x5A,
     0x62, 0x6A, 0x72, 0x7A]"

definition field_encoded_len :: "pb_ops \<Rightarrow> u32 \<Rightarrow> nat \<Rightarrow> nat" where
  "field_encoded_len pb tag value_len =
     pb_key_len pb tag + pb_delimiter_len pb value_len + value_len"

definition option_codec :: "pb_ops \<Rightarrow> ('a, 'ec, 'dc) codec \<Rightarrow> ('a option, 'ec, 'dc) codec" where
  "option_codec pb cd =
     \<lparr>cd_len = (\<lambda>v. case v of Some x \<Rightarrow> field_encoded_len pb 1 (cd_len cd x) | None \<Rightarrow> 0),
      cd_encode = (\<lambda>v ec b. case v of
         Some x \<Rightarrow> cd_encode cd x ec
           (b @ [LENGTH_DELIMITED_TAGS ! 1] @ pb_varint pb (word_of_nat (cd_len cd x)))
       | None \<Rightarrow> (Ok (), ec, b)),
      cd_decode = (\<lambda>dc b. case pb_option pb b of
         Err e \<Rightarrow> Err (DecodeOther e)
       | Ok (Some bytes) \<Rightarrow> map_ok Some (cd_decode cd dc bytes)
       | Ok None \<Rightarrow> Ok None)\<rparr>"

text \<open>The error of a \<open>Result\<close> travels as its text: \<open>show\<close> is \<open>Display\<close>, \<open>read\<close> is \<open>From<String>\<close>.\<close>

definition result_codec ::
  "pb_ops \<Rightarrow> ('e \<Rightarrow> bytes) \<Rightarrow> (bytes \<Rightarrow> 'e) \<Rightarrow> ('a, 'ec, 'dc) codec \<Rightarrow>
   (('a, 'e) result, 'ec, 'dc) codec" where
  "result_codec pb show read cd =
     \<lparr>cd_len = (\<lambda>v. field_encoded_len pb 1
        (case v of Ok x \<Rightarrow> cd_len cd x | Err e \<Rightarrow> length (show e))),
      cd_encode = (\<lambda>v ec b. case v of
         Ok x \<Rightarrow> cd_encode cd x ec
           (b @ [LENGTH_DELIMITED_TAGS ! 1] @ pb_varint pb (word_of_nat (cd_len cd x)))
       | Err e \<Rightarrow> (Ok (), ec,
           b @ [LENGTH_DELIMITED_TAGS ! 2] @ pb_varint pb (word_of_nat (length (show e))) @ show e)),
      cd_decode = (\<lambda>dc b. case pb_result pb b of
         Err e \<Rightarrow> Err (DecodeOther e)
       | Ok (Some (Ok bytes)) \<Rightarrow> map_ok Ok (cd_decode cd dc bytes)
       | Ok (Some (Err err)) \<Rightarrow> Ok (Err (read err))
       | Ok None \<Rightarrow>
           Err (decode_error_from_str ''missing field `result` in the `Result` message''))\<rparr>"

text \<open>Both types replace the generic \<open>encode_to_bytes\<close> by one that computes the length once.\<close>

definition option_encode_to_bytes ::
  "pb_ops \<Rightarrow> ('a, 'ec, 'dc) codec \<Rightarrow> 'a option \<Rightarrow> 'ec \<Rightarrow> (bytes, encode_error) result \<times> 'ec" where
  "option_encode_to_bytes pb cd v ec =
     (case v of
        None \<Rightarrow> (Ok [], ec)
      | Some x \<Rightarrow>
          let inner_len = cd_len cd x;
              buf = [LENGTH_DELIMITED_TAGS ! 1] @ pb_varint pb (word_of_nat inner_len)
          in case cd_encode cd x ec buf of
               (Err e, ec', _) \<Rightarrow> (Err e, ec')
             | (Ok _, ec', buf') \<Rightarrow> (Ok buf', ec'))"

definition result_encode_to_bytes ::
  "pb_ops \<Rightarrow> ('e \<Rightarrow> bytes) \<Rightarrow> ('a, 'ec, 'dc) codec \<Rightarrow> ('a, 'e) result \<Rightarrow> 'ec \<Rightarrow>
   (bytes, encode_error) result \<times> 'ec" where
  "result_encode_to_bytes pb show cd v ec =
     (case v of
        Ok x \<Rightarrow>
          let inner_len = cd_len cd x;
              buf = [LENGTH_DELIMITED_TAGS ! 1] @ pb_varint pb (word_of_nat inner_len)
          in (case cd_encode cd x ec buf of
                (Err e, ec', _) \<Rightarrow> (Err e, ec')
              | (Ok _, ec', buf') \<Rightarrow> (Ok buf', ec'))
      | Err e \<Rightarrow>
          let err_string = show e
          in (Ok ([LENGTH_DELIMITED_TAGS ! 2] @ pb_varint pb (word_of_nat (length err_string)) @ err_string), ec))"

text \<open>\<open>Box\<close> and \<open>Arc\<close> pass every call on; a box is its contents.\<close>

definition boxed_codec :: "('a, 'ec, 'dc) codec \<Rightarrow> ('a, 'ec, 'dc) codec" where
  "boxed_codec cd =
     \<lparr>cd_len = (\<lambda>v. cd_len cd v), cd_encode = (\<lambda>v ec b. cd_encode cd v ec b),
      cd_decode = (\<lambda>dc b. map_ok (\<lambda>x. x) (cd_decode cd dc b))\<rparr>"

section \<open>Addresses\<close>

text \<open>What the codec reads of an \<open>Address\<close> or a \<open>Recipient\<close>: its index and, for a local remote
  addressable actor, its mailbox. The encode context is the registry behind \<open>EncodeContext\<close>, if any,
  the decode context the session of its remote proxy, if any.\<close>

record 'mb codec_address =
  ca_index :: actor_id
  ca_mailbox :: "'mb option"

definition address_register ::
  "('mb \<Rightarrow> 'm \<Rightarrow> (unit, encode_error) result \<times> 'm) \<Rightarrow> 'mb codec_address \<Rightarrow> 'm \<Rightarrow>
   (unit, encode_error) result \<times> 'm" where
  "address_register register v m =
     (if is_remote (ca_index v) then (Err EncodeRemoteAddress, m)
      else case ca_mailbox v of
             None \<Rightarrow> (Err NotRemoteAddressable, m)
           | Some mb \<Rightarrow> register mb m)"

definition address_new_with_decode_context ::
  "u64 \<Rightarrow> u64 option \<Rightarrow> ('mb codec_address, decode_error) result" where
  "address_new_with_decode_context index remote_proxy =
     (case remote_proxy of
        None \<Rightarrow> Err MissingRemoteProxy
      | Some session \<Rightarrow>
          Ok \<lparr>ca_index = actor_id_new_remote index session, ca_mailbox = None\<rparr>)"

definition address_codec ::
  "pb_ops \<Rightarrow> ('mb \<Rightarrow> 'm \<Rightarrow> (unit, encode_error) result \<times> 'm) \<Rightarrow>
   ('mb codec_address, 'm option, u64 option option) codec" where
  "address_codec pb register =
     \<lparr>cd_len = (\<lambda>v. pb_u64_len pb (as_local (ca_index v))),
      cd_encode = (\<lambda>v ec b. case ec of
         None \<Rightarrow> (Err MissingEncodeContext, None, b)
       | Some m \<Rightarrow>
           (case address_register register v m of
              (Err e, m') \<Rightarrow> (Err e, Some m', b)
            | (Ok _, m') \<Rightarrow>
                (case pb_u64_encode pb (as_local (ca_index v)) of
                   Err e \<Rightarrow> (Err (EncodeOther e), Some m', b)
                 | Ok bs \<Rightarrow> (Ok (), Some m', b @ bs)))),
      cd_decode = (\<lambda>dc b. case pb_u64_decode pb (b_bytes b) of
         Err e \<Rightarrow> Err (DecodeOther e)
       | Ok actor_id \<Rightarrow>
           (case dc of
              None \<Rightarrow> Err MissingDecodeContext
            | Some proxy \<Rightarrow> address_new_with_decode_context actor_id proxy))\<rparr>"

text \<open>\<open>EncodeContext::register\<close> of a session's \<open>Proxy\<close>.\<close>

definition proxy_register ::
  "('m, u64, 'mb) kv_ops \<Rightarrow> ('mb \<Rightarrow> actor_id) \<Rightarrow> 'mb \<Rightarrow> 'm \<Rightarrow> (unit, encode_error) result \<times> 'm" where
  "proxy_register ops index_of actor m = (Ok (), snd (reg_insert ops index_of m actor))"

section \<open>The implementations keep the contract\<close>

abbreviation always :: "'dc \<Rightarrow> 'a \<Rightarrow> nat \<Rightarrow> bool" where
  "always \<equiv> \<lambda>_ _ _. True"

abbreviation same :: "'dc \<Rightarrow> 'a \<Rightarrow> 'a \<Rightarrow> bool" where
  "same \<equiv> \<lambda>_. (=)"

interpretation unit_codec: codec_laws unit_codec always same
  by unfold_locales (simp add: unit_codec_def)

interpretation string_codec: codec_laws "string_codec utf8_error" "\<lambda>_ v _. valid_utf8 v" same
  by unfold_locales (simp add: string_codec_def)

interpretation vec_bool_codec: codec_laws vec_bool_codec always same
  by unfold_locales (auto simp: vec_bool_codec_def o_def intro: map_idI)

lemma fixed_laws:
  assumes "\<And>v ec b. cd_encode cd v ec b = (Ok (), ec, b @ f v)" and "\<And>v. length (f v) = cd_len cd v"
    and "\<And>v dc a. cd_decode cd dc \<lparr>b_addr = a, b_bytes = f v\<rparr> = Ok v"
  shows "codec_laws cd always same"
  using assms by unfold_locales auto

lemma le_nat_word:
  fixes v :: "'w::len word"
  assumes "8 dvd LENGTH('w)"
  shows "word_of_nat (le_nat (le_bytes (LENGTH('w) div 8) (unat v))) = v"
proof -
  have "(256 :: nat) ^ (LENGTH('w) div 8) = 2 ^ LENGTH('w)"
  proof -
    obtain k where "LENGTH('w) = 8 * k" using assms by (rule dvdE)
    then show ?thesis by (simp add: power_mult)
  qed
  then have "le_nat (le_bytes (LENGTH('w) div 8) (unat v)) = unat v"
    by (simp add: le_nat_le_bytes)
  then show ?thesis by simp
qed

lemma LENGTH_pos_div: "8 dvd LENGTH('w::len) \<Longrightarrow> 0 < LENGTH('w) div 8"
  by (metis dvd_div_eq_0_iff gr0I len_not_eq_0)

definition vec_fits :: "'dc \<Rightarrow> 'w::len word list \<Rightarrow> nat \<Rightarrow> bool" where
  "vec_fits dc v a \<longleftrightarrow> v = [] \<or> a mod (LENGTH('w) div 8) = 0"

definition tuple_last_fits ::
  "('a, 'ec, 'dc) codec \<Rightarrow> ('dc \<Rightarrow> 'a \<Rightarrow> nat \<Rightarrow> bool) \<Rightarrow> 'dc \<Rightarrow> 'a \<Rightarrow> nat \<Rightarrow> bool" where
  "tuple_last_fits cd fits dc v a \<longleftrightarrow> cd_len cd v < 2 ^ 32 \<and> fits dc v (a + 4)"

fun tuple_fits ::
  "('a, 'ec, 'dc) codec \<Rightarrow> ('dc \<Rightarrow> 'a \<Rightarrow> nat \<Rightarrow> bool) \<Rightarrow> ('dc \<Rightarrow> 'b \<Rightarrow> nat \<Rightarrow> bool) \<Rightarrow>
   'dc \<Rightarrow> 'a \<times> 'b \<Rightarrow> nat \<Rightarrow> bool" where
  "tuple_fits cd fits1 fits2 dc (v, r) a \<longleftrightarrow>
     cd_len cd v < 2 ^ 32 \<and> fits1 dc v (a + 4) \<and> fits2 dc r (a + 4 + cd_len cd v)"

fun tuple_rel ::
  "('dc \<Rightarrow> 'a \<Rightarrow> 'a \<Rightarrow> bool) \<Rightarrow> ('dc \<Rightarrow> 'b \<Rightarrow> 'b \<Rightarrow> bool) \<Rightarrow> 'dc \<Rightarrow> 'a \<times> 'b \<Rightarrow> 'a \<times> 'b \<Rightarrow> bool" where
  "tuple_rel rel1 rel2 dc (v, r) (w, q) \<longleftrightarrow> rel1 dc v w \<and> rel2 dc r q"

context zerocopy
begin

lemma read_ok [simp]: "length bs = n \<Longrightarrow> zc_read zc n \<lparr>b_addr = a, b_bytes = bs\<rparr> = Ok bs"
  by (simp add: read_iff)

lemma bool_laws: "codec_laws (bool_codec zc) always same"
  by unfold_locales (auto simp: bool_codec_def)

lemma word_decode:
  assumes "8 dvd LENGTH('w::len)"
  shows "cd_decode (word_codec zc) dc \<lparr>b_addr = a, b_bytes = le_bytes (LENGTH('w) div 8) (unat (v :: 'w word))\<rparr> = Ok v"
  using le_nat_word [OF assms, of v] by (simp add: word_codec_def Let_def)

lemma word_laws: "8 dvd LENGTH('w::len) \<Longrightarrow> codec_laws (word_codec zc :: ('w word, 'ec, 'dc) codec) always same"
  using word_decode by unfold_locales (auto simp: word_codec_def Let_def)

lemma vec_laws:
  assumes "8 dvd LENGTH('w::len)"
  shows "codec_laws (vec_codec zc :: ('w word list, 'ec, 'dc) codec) vec_fits same"
proof
  fix v :: "'w word list" and ec b ec' b'
  assume "cd_encode (vec_codec zc :: ('w word list, 'ec, 'dc) codec) v ec b = (Ok (), ec', b')"
  let ?n = "LENGTH('w) div 8" and ?bss = "map (\<lambda>x. le_bytes (LENGTH('w) div 8) (unat x)) v"
  have b': "b' = b @ concat ?bss" using \<open>cd_encode _ v ec b = _\<close> by (simp add: vec_codec_def Let_def)
  have len: "length (concat ?bss) = length v * ?n" by (induction v) simp_all
  have pos: "0 < ?n" by (rule LENGTH_pos_div [OF assms])
  have ch: "chunks ?n (length v) (concat ?bss) = ?bss"
    using chunks_concat [of ?bss ?n] by simp
  have "cd_decode (vec_codec zc :: ('w word list, 'ec, 'dc) codec) dc \<lparr>b_addr = a, b_bytes = concat ?bss\<rparr> = Ok v"
    if "vec_fits dc v a" for dc a
  proof (cases "v = []")
    case False
    then have "concat ?bss \<noteq> []" using len pos by (metis length_0_conv mult_is_0 neq0_conv)
    moreover have "zc_slice zc ?n ?n \<lparr>b_addr = a, b_bytes = concat ?bss\<rparr> = Ok (concat ?bss)"
      using that False len by (simp add: slice_iff vec_fits_def)
    ultimately show ?thesis
      using pos False by (auto simp: vec_codec_def Let_def len ch le_nat_word [OF assms] o_def map_idI)
  qed (simp add: vec_codec_def Let_def)
  moreover have "cd_len (vec_codec zc :: ('w word list, 'ec, 'dc) codec) v = length v * ?n"
    by (simp add: vec_codec_def Let_def)
  ultimately show "\<exists>bs. b' = b @ bs \<and> length bs = cd_len (vec_codec zc :: ('w word list, 'ec, 'dc) codec) v \<and>
      (\<forall>dc a. vec_fits dc v a \<longrightarrow> (\<exists>w. cd_decode (vec_codec zc :: ('w word list, 'ec, 'dc) codec) dc
        \<lparr>b_addr = a, b_bytes = bs\<rparr> = Ok w \<and> v = w))"
    using b' len by auto
qed

lemma decode_element_ok:
  assumes "length bs < 2 ^ 32"
  shows "decode_element zc \<lparr>b_addr = a, b_bytes = le_bytes 4 (unat (word_of_nat (length bs) :: u32)) @ bs @ rest\<rparr> =
    Ok (\<lparr>b_addr = a + 4, b_bytes = bs\<rparr>, \<lparr>b_addr = a + 4 + length bs, b_bytes = rest\<rparr>)"
proof -
  have "le_nat (le_bytes 4 (unat (word_of_nat (length bs) :: u32))) = length bs"
    using assms by (simp add: le_nat_le_bytes unat_of_nat)
  then show ?thesis
    using assms by (simp add: decode_element_def split_to_def Let_def unat_of_nat)
qed

lemma tuple_last_laws:
  assumes "codec_laws cd fits rel"
  shows "codec_laws (tuple_last zc cd) (tuple_last_fits cd fits) rel"
proof
  fix v ec b ec' b'
  assume enc: "cd_encode (tuple_last zc cd) v ec b = (Ok (), ec', b')" and "cd_len (tuple_last zc cd) v < 2 ^ 64"
  let ?l = "le_bytes 4 (unat (word_of_nat (cd_len cd v) :: u32))"
  obtain bs where bs: "b' = (b @ ?l) @ bs" "length bs = cd_len cd v"
    and dec: "\<forall>dc a. fits dc v a \<longrightarrow> (\<exists>w. cd_decode cd dc \<lparr>b_addr = a, b_bytes = bs\<rparr> = Ok w \<and> rel dc v w)"
    using codec_laws.encodes [OF assms, of v ec "b @ ?l" ec' b'] enc \<open>cd_len _ v < _\<close>
    by (auto simp: tuple_last_def encode_element_def Let_def)
  show "\<exists>bs. b' = b @ bs \<and> length bs = cd_len (tuple_last zc cd) v \<and>
      (\<forall>dc a. tuple_last_fits cd fits dc v a \<longrightarrow>
        (\<exists>w. cd_decode (tuple_last zc cd) dc \<lparr>b_addr = a, b_bytes = bs\<rparr> = Ok w \<and> rel dc v w))"
    using bs dec decode_element_ok [of bs _ "[]"]
    by (intro exI [where x = "?l @ bs"]) (auto simp: tuple_last_def tuple_last_fits_def)
qed

lemma tuple_cons_laws:
  assumes "codec_laws cd fits1 rel1" and "codec_laws rest fits2 rel2"
  shows "codec_laws (tuple_cons zc cd rest) (tuple_fits cd fits1 fits2) (tuple_rel rel1 rel2)"
proof
  fix t ec b ec' b'
  assume enc: "cd_encode (tuple_cons zc cd rest) t ec b = (Ok (), ec', b')"
    and len: "cd_len (tuple_cons zc cd rest) t < 2 ^ 64"
  obtain v r where t: "t = (v, r)" by (cases t)
  let ?l = "le_bytes 4 (unat (word_of_nat (cd_len cd v) :: u32))"
  obtain ec1 b1 where e1: "cd_encode cd v ec (b @ ?l) = (Ok (), ec1, b1)"
    and e2: "cd_encode rest r ec1 b1 = (Ok (), ec', b')"
    using enc by (auto simp: t tuple_cons_def encode_element_def Let_def split: prod.splits result.splits)
  obtain bs where bs: "b1 = (b @ ?l) @ bs" "length bs = cd_len cd v"
    and d1: "\<forall>dc a. fits1 dc v a \<longrightarrow> (\<exists>w. cd_decode cd dc \<lparr>b_addr = a, b_bytes = bs\<rparr> = Ok w \<and> rel1 dc v w)"
    using codec_laws.encodes [OF assms(1) e1] len by (auto simp: t tuple_cons_def)
  obtain cs where cs: "b' = b1 @ cs" "length cs = cd_len rest r"
    and d2: "\<forall>dc a. fits2 dc r a \<longrightarrow> (\<exists>w. cd_decode rest dc \<lparr>b_addr = a, b_bytes = cs\<rparr> = Ok w \<and> rel2 dc r w)"
    using codec_laws.encodes [OF assms(2) e2] len by (auto simp: t tuple_cons_def)
  have "\<exists>w. cd_decode (tuple_cons zc cd rest) dc \<lparr>b_addr = a, b_bytes = ?l @ bs @ cs\<rparr> = Ok w \<and>
      tuple_rel rel1 rel2 dc t w" if fits: "tuple_fits cd fits1 fits2 dc t a" for dc a
  proof -
    from fits have "fits1 dc v (a + 4)" and "fits2 dc r (a + 4 + length bs)"
      by (simp_all add: t bs(2))
    then obtain w q where "cd_decode cd dc \<lparr>b_addr = a + 4, b_bytes = bs\<rparr> = Ok w" "rel1 dc v w"
      and "cd_decode rest dc \<lparr>b_addr = a + 4 + length bs, b_bytes = cs\<rparr> = Ok q" "rel2 dc r q"
      using d1 d2 by blast
    then show ?thesis
      using fits decode_element_ok [of bs a cs] bs(2) by (auto simp: t tuple_cons_def)
  qed
  then show "\<exists>bs. b' = b @ bs \<and> length bs = cd_len (tuple_cons zc cd rest) t \<and>
      (\<forall>dc a. tuple_fits cd fits1 fits2 dc t a \<longrightarrow>
        (\<exists>w. cd_decode (tuple_cons zc cd rest) dc \<lparr>b_addr = a, b_bytes = bs\<rparr> = Ok w \<and> tuple_rel rel1 rel2 dc t w))"
    using bs cs by (intro exI [where x = "?l @ bs @ cs"]) (auto simp: t tuple_cons_def)
qed

end

subsection \<open>Pointer-sized integers\<close>

lemma unat_ucast_u64: "LENGTH('p::len) \<le> 64 \<Longrightarrow> unat (ucast (v :: 'p word) :: u64) = unat v"
proof -
  assume "LENGTH('p) \<le> 64"
  then have "unat v < 2 ^ 64"
    using unsigned_less [of v] by (meson le_less_trans less_le_trans one_le_numeral power_increasing)
  then show ?thesis by (simp add: unsigned_ucast_eq take_bit_nat_eq_self)
qed

lemma ucast_nat: "ucast w = word_of_nat (unat w)"
  by (metis of_int_of_nat_eq of_nat_unat ucast_eq)

lemma sint_scast_u64: "LENGTH('p::len) \<le> 64 \<Longrightarrow> sint (scast (v :: 'p word) :: u64) = sint v"
proof -
  assume le: "LENGTH('p) \<le> 64"
  then have "(2 :: int) ^ (LENGTH('p) - 1) \<le> 2 ^ 63" by (intro power_increasing) auto
  then have "- (2 ^ 63) \<le> sint v" and "sint v < 2 ^ 63"
    using sint_ge [of v] sint_lt [of v] by linarith+
  then show ?thesis by (simp add: signed_scast_eq signed_take_bit_int_eq_self)
qed

context zerocopy
begin

lemma u64_decode: "cd_decode (word_codec zc) dc \<lparr>b_addr = a, b_bytes = le_bytes 8 (unat x)\<rparr> = Ok (x :: u64)"
  using word_decode [where 'w = 64, of dc a x] by simp

lemma u64_encode: "cd_encode (word_codec zc) (x :: u64) ec b = (Ok (), ec, b @ le_bytes 8 (unat x))"
  by (simp add: word_codec_def Let_def)

lemma usize_decode:
  fixes v :: "'p::len word"
  assumes "LENGTH('p) \<le> 64"
  shows "cd_decode (usize_codec zc :: ('q::len word, 'ec, 'dc) codec) dc
      \<lparr>b_addr = a, b_bytes = le_bytes 8 (unat (ucast v :: u64))\<rparr> =
    (if unat v < 2 ^ LENGTH('q) then Ok (word_of_nat (unat v)) else Err int_range_error)"
proof -
  have "(ucast (ucast v :: u64) :: 'q word) = word_of_nat (unat v)"
    using ucast_nat [of "ucast v :: u64", where 'a = 'q] unat_ucast_u64 [OF assms, of v] by simp
  then show ?thesis
    by (simp only: usize_codec_def usize_try_from_def codec.select_convs u64_decode result.case)
      (simp only: unat_ucast_u64 [OF assms])
qed

lemma isize_decode:
  fixes v :: "'p::len word"
  assumes "LENGTH('p) \<le> 64"
  shows "cd_decode (isize_codec zc :: ('q::len word, 'ec, 'dc) codec) dc
      \<lparr>b_addr = a, b_bytes = le_bytes 8 (unat (scast v :: u64))\<rparr> =
    (if - (2 ^ (LENGTH('q) - 1)) \<le> sint v \<and> sint v < 2 ^ (LENGTH('q) - 1)
     then Ok (word_of_int (sint v)) else Err int_range_error)"
proof -
  have "(scast (scast v :: u64) :: 'q word) = word_of_int (sint v)"
    using scast_eq [of "scast v :: u64", where 'a = 'q] sint_scast_u64 [OF assms, of v] by simp
  then show ?thesis
    by (simp only: isize_codec_def isize_try_from_def codec.select_convs u64_decode result.case sint_scast_u64 [OF assms])
qed

lemma usize_laws:
  "LENGTH('p::len) \<le> 64 \<Longrightarrow> codec_laws (usize_codec zc :: ('p word, 'ec, 'dc) codec) always same"
  by (rule fixed_laws [where f = "\<lambda>v. le_bytes 8 (unat (ucast v :: u64))"])
    (simp_all add: usize_decode unsigned_less, simp_all add: usize_codec_def u64_encode)

lemma isize_laws:
  "LENGTH('p::len) \<le> 64 \<Longrightarrow> codec_laws (isize_codec zc :: ('p word, 'ec, 'dc) codec) always same"
  using sint_ge [where 'a = 'p] sint_lt [where 'a = 'p]
  by (intro fixed_laws [where f = "\<lambda>v. le_bytes 8 (unat (scast v :: u64))"])
    (simp_all add: isize_decode, simp_all add: isize_codec_def u64_encode)

end

subsection \<open>Vectors of pointer-sized integers\<close>

lemma collect_results_Ok: "(\<And>x. f (g x) = Ok x) \<Longrightarrow> map g xs = ys \<Longrightarrow> collect_results (map f ys) = Ok xs"
  by (induction xs arbitrary: ys) auto

lemma usize_try_from_ucast:
  assumes "LENGTH('p::len) \<le> 64"
  shows "usize_try_from (ucast (v :: 'p word) :: u64) = Ok v"
  using ucast_nat [of "ucast v :: u64", where 'a = 'p] unat_ucast_u64 [OF assms, of v]
  by (simp add: usize_try_from_def unsigned_less)

lemma isize_try_from_scast:
  assumes "LENGTH('p::len) \<le> 64"
  shows "isize_try_from (scast (v :: 'p word) :: u64) = Ok v"
  using scast_eq [of "scast v :: u64", where 'a = 'p] sint_scast_u64 [OF assms, of v]
    sint_ge [of v] sint_lt [of v]
  by (simp add: isize_try_from_def)

lemma mapped_laws:
  assumes "codec_laws (cd :: ('a, 'ec, 'dc) codec) fits rel"
    and "\<And>v ec b. cd_encode cd' v ec b = cd_encode cd (f v) ec b" and "\<And>v. cd_len cd' v = cd_len cd (f v)"
    and "\<And>v dc a b w. cd_decode cd dc b = Ok w \<Longrightarrow> rel dc (f v) w \<Longrightarrow>
      \<exists>u. cd_decode (cd' :: ('b, 'ec, 'dc) codec) dc b = Ok u \<and> rel' dc v u"
  shows "codec_laws cd' (\<lambda>dc v. fits dc (f v)) rel'"
proof
  fix v ec b ec' b'
  assume "cd_encode cd' v ec b = (Ok (), ec', b')" and "cd_len cd' v < 2 ^ 64"
  then obtain bs where "b' = b @ bs" "length bs = cd_len cd' v" and
    d: "\<forall>dc a. fits dc (f v) a \<longrightarrow> (\<exists>w. cd_decode cd dc \<lparr>b_addr = a, b_bytes = bs\<rparr> = Ok w \<and> rel dc (f v) w)"
    using codec_laws.encodes [OF assms(1), of "f v" ec b ec' b'] by (auto simp: assms(2,3))
  moreover have "\<exists>u. cd_decode cd' dc \<lparr>b_addr = a, b_bytes = bs\<rparr> = Ok u \<and> rel' dc v u"
    if "fits dc (f v) a" for dc a
    using d that assms(4) by blast
  ultimately show "\<exists>bs. b' = b @ bs \<and> length bs = cd_len cd' v \<and> (\<forall>dc a. fits dc (f v) a \<longrightarrow>
      (\<exists>w. cd_decode cd' dc \<lparr>b_addr = a, b_bytes = bs\<rparr> = Ok w \<and> rel' dc v w))"
    by blast
qed

lemma boxed_laws: "codec_laws cd fits rel \<Longrightarrow> codec_laws (boxed_codec cd) fits rel"
  by (erule mapped_laws [where f = "\<lambda>v. v"]) (simp_all add: boxed_codec_def)

context zerocopy
begin

lemma vec_usize_laws:
  assumes "LENGTH('p::len) \<le> 64"
  shows "codec_laws (vec_usize_codec zc :: ('p word list, 'ec, 'dc) codec)
    (\<lambda>dc v. vec_fits dc (map ucast v :: u64 list)) same"
proof (rule mapped_laws [OF vec_laws [where 'w = 64]])
  fix v :: "'p word list" and dc b w
  assume "cd_decode (vec_codec zc :: (u64 list, 'ec, 'dc) codec) dc b = Ok w" "map ucast v = w"
  then show "\<exists>u. cd_decode (vec_usize_codec zc :: ('p word list, 'ec, 'dc) codec) dc b = Ok u \<and> v = u"
    using collect_results_Ok [where f = usize_try_from and g = ucast, OF usize_try_from_ucast [OF assms], of v w] by (simp add: vec_usize_codec_def)
qed (simp_all add: vec_usize_codec_def vec_codec_def)

lemma vec_isize_laws:
  assumes "LENGTH('p::len) \<le> 64"
  shows "codec_laws (vec_isize_codec zc :: ('p word list, 'ec, 'dc) codec)
    (\<lambda>dc v. vec_fits dc (map scast v :: u64 list)) same"
proof (rule mapped_laws [OF vec_laws [where 'w = 64]])
  fix v :: "'p word list" and dc b w
  assume "cd_decode (vec_codec zc :: (u64 list, 'ec, 'dc) codec) dc b = Ok w" "map scast v = w"
  then show "\<exists>u. cd_decode (vec_isize_codec zc :: ('p word list, 'ec, 'dc) codec) dc b = Ok u \<and> v = u"
    using collect_results_Ok [where f = isize_try_from and g = scast, OF isize_try_from_scast [OF assms], of v w] by (simp add: vec_isize_codec_def)
qed (simp_all add: vec_isize_codec_def vec_codec_def)

end

subsection \<open>Options, results and addresses\<close>

fun option_fits :: "('dc \<Rightarrow> 'a \<Rightarrow> nat \<Rightarrow> bool) \<Rightarrow> 'dc \<Rightarrow> 'a option \<Rightarrow> nat \<Rightarrow> bool" where
  "option_fits fits dc None a \<longleftrightarrow> True"
| "option_fits fits dc (Some v) a \<longleftrightarrow> (\<forall>a'. fits dc v a')"

fun result_fits ::
  "('e \<Rightarrow> bytes) \<Rightarrow> ('dc \<Rightarrow> 'a \<Rightarrow> nat \<Rightarrow> bool) \<Rightarrow> 'dc \<Rightarrow> ('a, 'e) result \<Rightarrow> nat \<Rightarrow> bool" where
  "result_fits show fits dc (Ok v) a \<longleftrightarrow> (\<forall>a'. fits dc v a')"
| "result_fits show fits dc (Err e) a \<longleftrightarrow> valid_utf8 (show e)"

fun result_rel ::
  "('e \<Rightarrow> bytes) \<Rightarrow> (bytes \<Rightarrow> 'e) \<Rightarrow> ('dc \<Rightarrow> 'a \<Rightarrow> 'a \<Rightarrow> bool) \<Rightarrow> 'dc \<Rightarrow> ('a, 'e) result \<Rightarrow>
   ('a, 'e) result \<Rightarrow> bool" where
  "result_rel show read rel dc (Ok v) (Ok w) \<longleftrightarrow> rel dc v w"
| "result_rel show read rel dc (Err e) (Err f) \<longleftrightarrow> f = read (show e)"
| "result_rel show read rel dc _ _ \<longleftrightarrow> False"

definition address_fits :: "u64 option option \<Rightarrow> 'mb codec_address \<Rightarrow> nat \<Rightarrow> bool" where
  "address_fits dc v a \<longleftrightarrow> (\<exists>session. dc = Some (Some session))"

definition address_rel ::
  "u64 option option \<Rightarrow> 'mb codec_address \<Rightarrow> 'mb codec_address \<Rightarrow> bool" where
  "address_rel dc v w \<longleftrightarrow> (\<exists>session. dc = Some (Some session) \<and>
     w = \<lparr>ca_index = actor_id_new_remote (as_local (ca_index v)) session, ca_mailbox = None\<rparr>)"

context protobuf
begin

lemma field_len: "n < 2 ^ 64 \<Longrightarrow>
    field_encoded_len pb 1 n = length ([t :: u8] @ pb_varint pb (word_of_nat n)) + n"
  by (simp add: field_encoded_len_def key_len_1 varint_len)

lemma option_laws:
  assumes "codec_laws cd fits rel"
  shows "codec_laws (option_codec pb cd) (option_fits fits) (\<lambda>dc. rel_option (rel dc))"
proof
  fix v ec b ec' b'
  assume enc: "cd_encode (option_codec pb cd) v ec b = (Ok (), ec', b')"
    and len: "cd_len (option_codec pb cd) v < 2 ^ 64"
  show "\<exists>bs. b' = b @ bs \<and> length bs = cd_len (option_codec pb cd) v \<and> (\<forall>dc a. option_fits fits dc v a \<longrightarrow>
      (\<exists>w. cd_decode (option_codec pb cd) dc \<lparr>b_addr = a, b_bytes = bs\<rparr> = Ok w \<and> rel_option (rel dc) v w))"
  proof (cases v)
    case None
    then show ?thesis using enc by (auto simp: option_codec_def option_none)
  next
    case (Some x)
    let ?h = "[0x0A] @ pb_varint pb (word_of_nat (cd_len cd x))"
    have lx: "cd_len cd x < 2 ^ 64" using len by (simp add: Some option_codec_def field_encoded_len_def)
    obtain bs where bs: "b' = (b @ ?h) @ bs" "length bs = cd_len cd x"
      and dec: "\<forall>dc a. fits dc x a \<longrightarrow> (\<exists>w. cd_decode cd dc \<lparr>b_addr = a, b_bytes = bs\<rparr> = Ok w \<and> rel dc x w)"
      using codec_laws.encodes [OF assms _ lx, of ec "b @ ?h" ec' b'] enc
      by (auto simp: Some option_codec_def LENGTH_DELIMITED_TAGS_def)
    have "\<exists>w. cd_decode (option_codec pb cd) dc \<lparr>b_addr = a, b_bytes = ?h @ bs\<rparr> = Ok w \<and> rel_option (rel dc) v w"
      if "option_fits fits dc v a" for dc a
    proof -
      obtain a' where "pb_option pb \<lparr>b_addr = a, b_bytes = ?h @ bs\<rparr> = Ok (Some \<lparr>b_addr = a', b_bytes = bs\<rparr>)"
        using option_some [of bs a] bs(2) lx by auto
      moreover have "fits dc x a'" using that by (simp add: Some)
      then obtain w where "cd_decode cd dc \<lparr>b_addr = a', b_bytes = bs\<rparr> = Ok w" "rel dc x w"
        using dec by blast
      ultimately show ?thesis by (auto simp: Some option_codec_def)
    qed
    with bs lx show ?thesis
      by (intro exI [where x = "?h @ bs"]) (auto simp: Some option_codec_def field_len [where t = "0x0A"])
  qed
qed

lemma result_laws:
  assumes "codec_laws cd fits rel"
  shows "codec_laws (result_codec pb show read cd) (result_fits show fits) (result_rel show read rel)"
proof
  fix v ec b ec' b'
  assume enc: "cd_encode (result_codec pb show read cd) v ec b = (Ok (), ec', b')"
    and len: "cd_len (result_codec pb show read cd) v < 2 ^ 64"
  show "\<exists>bs. b' = b @ bs \<and> length bs = cd_len (result_codec pb show read cd) v \<and>
      (\<forall>dc a. result_fits show fits dc v a \<longrightarrow> (\<exists>w. cd_decode (result_codec pb show read cd) dc
        \<lparr>b_addr = a, b_bytes = bs\<rparr> = Ok w \<and> result_rel show read rel dc v w))"
  proof (cases v)
    case (Err e)
    have le: "length (show e) < 2 ^ 64" using len by (simp add: Err result_codec_def field_encoded_len_def)
    with enc show ?thesis
      by (auto simp: Err result_codec_def LENGTH_DELIMITED_TAGS_def result_err
          field_len [where t = "0x12"])
  next
    case (Ok x)
    let ?h = "[0x0A] @ pb_varint pb (word_of_nat (cd_len cd x))"
    have lx: "cd_len cd x < 2 ^ 64" using len by (simp add: Ok result_codec_def field_encoded_len_def)
    obtain bs where bs: "b' = (b @ ?h) @ bs" "length bs = cd_len cd x"
      and dec: "\<forall>dc a. fits dc x a \<longrightarrow> (\<exists>w. cd_decode cd dc \<lparr>b_addr = a, b_bytes = bs\<rparr> = Ok w \<and> rel dc x w)"
      using codec_laws.encodes [OF assms _ lx, of ec "b @ ?h" ec' b'] enc
      by (auto simp: Ok result_codec_def LENGTH_DELIMITED_TAGS_def)
    have "\<exists>w. cd_decode (result_codec pb show read cd) dc \<lparr>b_addr = a, b_bytes = ?h @ bs\<rparr> = Ok w \<and>
        result_rel show read rel dc v w" if "result_fits show fits dc v a" for dc a
    proof -
      obtain a' where "pb_result pb \<lparr>b_addr = a, b_bytes = ?h @ bs\<rparr> = Ok (Some (Ok \<lparr>b_addr = a', b_bytes = bs\<rparr>))"
        using result_ok [of bs a] bs(2) lx by auto
      moreover have "fits dc x a'" using that by (simp add: Ok)
      then obtain w where "cd_decode cd dc \<lparr>b_addr = a', b_bytes = bs\<rparr> = Ok w" "rel dc x w"
        using dec by blast
      ultimately show ?thesis by (auto simp: Ok result_codec_def)
    qed
    with bs lx show ?thesis
      by (intro exI [where x = "?h @ bs"]) (auto simp: Ok result_codec_def field_len [where t = "0x0A"])
  qed
qed

lemma address_laws: "codec_laws (address_codec pb register) address_fits address_rel"
  using u64_roundtrip
  by unfold_locales (fastforce simp: address_codec_def address_fits_def address_rel_def
      address_new_with_decode_context_def split: option.splits prod.splits result.splits)

end

section \<open>A protobuf instance\<close>

text \<open>Base-128 varints and single-field messages, as the protobuf encoding defines them; the witnesses
  evaluate the codecs on this instance.\<close>

fun varint :: "nat \<Rightarrow> bytes" where
  "varint n = (if n < 128 then [word_of_nat n] else word_of_nat (128 + n mod 128) # varint (n div 128))"

declare varint.simps [simp del]

fun un_varint :: "bytes \<Rightarrow> (nat \<times> bytes) option" where
  "un_varint [] = None"
| "un_varint (b # bs) =
     (if unat b < 128 then Some (unat b, bs)
      else map_option (\<lambda>(n, r). (unat b - 128 + 128 * n, r)) (un_varint bs))"

lemma un_varint_varint: "un_varint (varint n @ r) = Some (n, r)"
proof (induction n rule: varint.induct)
  case (1 n)
  show ?case
  proof (cases "n < 128")
    case True
    then show ?thesis by (simp add: varint.simps [of n] unat_of_nat)
  next
    case False
    have "unat (word_of_nat (128 + n mod 128) :: u8) = 128 + n mod 128"
      by (simp only: unat_of_nat) simp
    with 1 [OF False] False show ?thesis by (simp add: varint.simps [of n])
  qed
qed

definition pb_field :: "u8 \<Rightarrow> bytes \<Rightarrow> bytes option" where
  "pb_field tag bs =
     (case bs of
        [] \<Rightarrow> None
      | t # r \<Rightarrow> (case un_varint r of
          None \<Rightarrow> None
        | Some (n, p) \<Rightarrow> if t = tag \<and> length p = n then Some p else None))"

definition pb_std :: pb_ops where
  "pb_std = \<lparr>pb_key_len = (\<lambda>_. 1), pb_delimiter_len = (\<lambda>n. length (varint n)),
     pb_varint = (\<lambda>w. varint (unat w)),
     pb_result = (\<lambda>b. case pb_field 0x0A (b_bytes b) of
        Some p \<Rightarrow> Ok (Some (Ok \<lparr>b_addr = b_addr b + (length (b_bytes b) - length p), b_bytes = p\<rparr>))
      | None \<Rightarrow> (case pb_field 0x12 (b_bytes b) of
          Some p \<Rightarrow> if valid_utf8 p then Ok (Some (Err p)) else Err (box_str ''invalid string value'')
        | None \<Rightarrow> if b_bytes b = [] then Ok None else Err (box_str ''invalid message''))),
     pb_option = (\<lambda>b. case pb_field 0x0A (b_bytes b) of
        Some p \<Rightarrow> Ok (Some \<lparr>b_addr = b_addr b + (length (b_bytes b) - length p), b_bytes = p\<rparr>)
      | None \<Rightarrow> if b_bytes b = [] then Ok None else Err (box_str ''invalid message'')),
     pb_u64_len = (\<lambda>w. if w = 0 then 0 else 1 + length (varint (unat w))),
     pb_u64_encode = (\<lambda>w. Ok (if w = 0 then [] else 0x08 # varint (unat w))),
     pb_u64_decode = (\<lambda>bs. case bs of
        [] \<Rightarrow> Ok 0
      | t # r \<Rightarrow> (case un_varint r of
          None \<Rightarrow> Err (box_str ''invalid varint'')
        | Some (n, _) \<Rightarrow> Ok (word_of_nat n)))\<rparr>"

lemma pb_field_ok: "pb_field t (t # varint (length p) @ p) = Some p"
  by (simp add: pb_field_def un_varint_varint)

lemma pb_field_other: "t \<noteq> u \<Longrightarrow> pb_field t (u # bs) = None"
  by (simp add: pb_field_def split: option.split)

interpretation pb_std: protobuf pb_std
proof
  fix x bs
  assume "pb_u64_encode pb_std x = Ok bs"
  then show "length bs = pb_u64_len pb_std x \<and> pb_u64_decode pb_std bs = Ok x"
    using un_varint_varint [of "unat x" "[]"] by (auto simp: pb_std_def split: if_splits)
qed (simp_all add: pb_std_def unat_of_nat pb_field_ok pb_field_other, simp_all add: pb_field_def)

section \<open>Properties\<close>

text \<open>C31. Containers keep the contract of their parts, to any depth: if two types encode to the announced
  length and decode again, so do tuples built from them element by
  element, options and results. For a tuple the parts must be shorter than \<open>2^32\<close> bytes and decodable at the addresses the tuple gives them; a result's
  error comes back as what \<open>From<String>\<close> makes of its text.\<close>

theorem container_codecs:
  assumes "zerocopy zc" and "protobuf pb"
    and "codec_laws cd1 fits1 rel1" and "codec_laws cd2 fits2 rel2"
  shows "codec_laws (tuple_last zc cd1) (tuple_last_fits cd1 fits1) rel1 \<and>
    codec_laws (tuple_cons zc cd1 cd2) (tuple_fits cd1 fits1 fits2) (tuple_rel rel1 rel2) \<and>
    codec_laws (option_codec pb cd1) (option_fits fits1) (\<lambda>dc. rel_option (rel1 dc)) \<and>
    codec_laws (result_codec pb show read cd1) (result_fits show fits1) (result_rel show read rel1)"
  using assms by (intro conjI zerocopy.tuple_cons_laws zerocopy.tuple_last_laws protobuf.option_laws
      protobuf.result_laws)

lemma le_bytes_numeral: "le_bytes (numeral n) x = word_of_nat x # le_bytes (pred_numeral n) (x div 256)"
  by (simp only: numeral_eq_Suc le_bytes.simps)

theorem container_codecs_witness:
  "fst (encode_to_bytes (tuple_cons zc_std (bool_codec zc_std)
       (tuple_last zc_std (string_codec (\<lambda>_. ''bad''))) :: (bool \<times> bytes, unit, unit) codec) (True, [0x68]) ()) =
     Ok [1, 0, 0, 0, 1, 1, 0, 0, 0, 0x68] \<and>
   cd_decode (tuple_cons zc_std (bool_codec zc_std)
       (tuple_last zc_std (string_codec (\<lambda>_. ''bad''))) :: (bool \<times> bytes, unit, unit) codec) ()
     \<lparr>b_addr = 0, b_bytes = [1, 0, 0, 0, 1, 1, 0, 0, 0, 0x68]\<rparr> = Ok (True, [0x68])"
proof -
  let ?b = "bool_codec zc_std :: (bool, unit, unit) codec"
  let ?s = "string_codec (\<lambda>_. ''bad'') :: (bytes, unit, unit) codec"
  let ?cd = "tuple_cons zc_std ?b (tuple_last zc_std ?s)"
  have laws: "codec_laws ?cd (tuple_fits ?b always (tuple_last_fits ?s (\<lambda>_ v _. valid_utf8 v)))
      (tuple_rel same same)"
    by (rule container_codecs [OF zc_std.zerocopy_axioms pb_std.protobuf_axioms zc_std.bool_laws
          zc_std.tuple_last_laws [OF string_codec.codec_laws_axioms], THEN conjunct2, THEN conjunct1])
  have enc: "encode_to_bytes ?cd (True, [0x68]) () = (Ok [1, 0, 0, 0, 1, 1, 0, 0, 0, 0x68], ())"
    by (simp add: encode_to_bytes_def tuple_cons_def tuple_last_def encode_element_def bool_codec_def
        string_codec_def le_bytes_numeral)
  have "\<exists>w. cd_decode ?cd () \<lparr>b_addr = 0, b_bytes = [1, 0, 0, 0, 1, 1, 0, 0, 0, 0x68]\<rparr> = Ok w \<and>
      tuple_rel same same () (True, [0x68]) w"
    using codec_laws.to_bytes(2) [OF laws enc, where a = 0 and dc = "()"]
    by (simp add: tuple_cons_def tuple_last_def tuple_last_fits_def bool_codec_def string_codec_def)
  with enc show ?thesis by auto
qed

text \<open>C34. Pointer-sized integers survive the wire or are refused, never truncated: a \<open>usize\<close> or \<open>isize\<close> of a
  sender with any pointer width up to 64 bits is decoded on a receiver of any width to the same
  number when the receiver can represent it, and to the range error otherwise.\<close>

theorem pointer_sized_portable:
  fixes v :: "'p::len word"
  assumes "zerocopy zc" and "LENGTH('p) \<le> 64"
    and "fst (encode_to_bytes (usize_codec zc :: ('p word, 'ec, 'dc) codec) v ec) = Ok ub"
    and "fst (encode_to_bytes (isize_codec zc :: ('p word, 'ec, 'dc) codec) v ec) = Ok ib"
  shows "cd_decode (usize_codec zc :: ('q::len word, 'ec, 'dc) codec) dc \<lparr>b_addr = a, b_bytes = ub\<rparr> =
      (if unat v < 2 ^ LENGTH('q) then Ok (word_of_nat (unat v)) else Err int_range_error) \<and>
    cd_decode (isize_codec zc :: ('q word, 'ec, 'dc) codec) dc \<lparr>b_addr = a, b_bytes = ib\<rparr> =
      (if - (2 ^ (LENGTH('q) - 1)) \<le> sint v \<and> sint v < 2 ^ (LENGTH('q) - 1)
       then Ok (word_of_int (sint v)) else Err int_range_error)"
proof -
  have ub: "ub = le_bytes 8 (unat (ucast v :: u64))"
    using assms(3) by (simp add: encode_to_bytes_def usize_codec_def zerocopy.u64_encode [OF assms(1)])
  have ib: "ib = le_bytes 8 (unat (scast v :: u64))"
    using assms(4) by (simp add: encode_to_bytes_def isize_codec_def zerocopy.u64_encode [OF assms(1)])
  show ?thesis
    unfolding ub ib by (intro conjI zerocopy.usize_decode [OF assms(1,2)] zerocopy.isize_decode [OF assms(1,2)])
qed

theorem pointer_sized_portable_witness:
  "cd_decode (usize_codec zc_std :: (32 word, unit, unit) codec) ()
     \<lparr>b_addr = 0, b_bytes = [0, 0, 0, 0, 1, 0, 0, 0]\<rparr> = Err int_range_error"
proof -
  have "fst (encode_to_bytes (usize_codec zc_std :: (64 word, unit, unit) codec) 0x100000000 ()) =
      Ok [0, 0, 0, 0, 1, 0, 0, 0]"
    by (simp add: encode_to_bytes_def usize_codec_def zc_std.u64_encode le_bytes_numeral)
  moreover have "fst (encode_to_bytes (isize_codec zc_std :: (64 word, unit, unit) codec) 0x100000000 ()) =
      Ok (le_bytes 8 (unat (scast (0x100000000 :: 64 word) :: u64)))"
    by (simp add: encode_to_bytes_def isize_codec_def zc_std.u64_encode)
  ultimately show ?thesis
    using pointer_sized_portable [where 'p = 64 and 'q = 32 and zc = zc_std and v = "0x100000000"
        and ec = "()" and dc = "()" and a = 0] zc_std.zerocopy_axioms by simp
qed

text \<open>C32. An address sent to another process leads back: encoding it succeeds exactly with a context, for a
  local actor that is remote addressable, and it registers the actor; the receiver, given a proxy of
  the session, gets a remote address whose local index the sender's registry then resolves to that
  actor, unless another one had the index already. Remote addresses are refused, and nothing else
  is registered.\<close>

theorem address_leads_back:
  assumes "kv_store ops invar" and "protobuf pb" and "invar m"
    and "pb_u64_encode pb (as_local (ca_index v)) = Ok bs"
  shows "case encode_to_bytes (address_codec pb (proxy_register ops index_of)) v (Some m) of (r, ec) \<Rightarrow>
    (is_ok r \<longleftrightarrow> \<not> is_remote (ca_index v) \<and> ca_mailbox v \<noteq> None) \<and>
    (\<not> is_ok r \<longrightarrow> ec = Some m) \<and>
    (\<forall>mb. is_ok r \<and> ca_mailbox v = Some mb \<and> index_of mb = ca_index v \<longrightarrow>
       (\<exists>m'. ec = Some m' \<and>
         (\<forall>j. kv_get ops m' j = (if j = as_local (ca_index v) \<and> kv_get ops m j = None then Some mb
            else kv_get ops m j))) \<and>
       r = Ok bs \<and>
       cd_decode (address_codec pb (proxy_register ops index_of)) (Some (Some session)) \<lparr>b_addr = a, b_bytes = bs\<rparr> =
         Ok \<lparr>ca_index = actor_id_new_remote (as_local (ca_index v)) session, ca_mailbox = None\<rparr>)"
proof -
  note store = mailbox_store.intro [OF assms(1)]
  have dec: "cd_decode (address_codec pb (proxy_register ops index_of)) (Some (Some session)) \<lparr>b_addr = a, b_bytes = bs\<rparr> =
      Ok \<lparr>ca_index = actor_id_new_remote (as_local (ca_index v)) session, ca_mailbox = None\<rparr>"
    using protobuf.u64_roundtrip [OF assms(2,4)]
    by (simp add: address_codec_def address_new_with_decode_context_def)
  have enc: "encode_to_bytes (address_codec pb (proxy_register ops index_of)) v (Some m) =
      (if is_remote (ca_index v) then (Err EncodeRemoteAddress, Some m)
       else case ca_mailbox v of None \<Rightarrow> (Err NotRemoteAddressable, Some m)
         | Some mb \<Rightarrow> (Ok bs, Some (snd (reg_insert ops index_of m mb))))"
    using assms(4) by (simp add: encode_to_bytes_def address_codec_def address_register_def
        proxy_register_def split: option.split)
  show ?thesis
    using dec mailbox_store.reg_insert_view [OF store assms(3)]
    by (auto simp: enc split: option.split)
qed

theorem address_leads_back_witness:
  "cd_decode (address_codec pb_std (proxy_register hm_ops (\<lambda>n. actor_id_new (word_of_nat n))))
     (Some (Some 3)) \<lparr>b_addr = 0, b_bytes = [0x08, 7]\<rparr> =
   Ok \<lparr>ca_index = actor_id_new_remote 7 3, ca_mailbox = None\<rparr>"
proof -
  let ?v = "\<lparr>ca_index = actor_id_new 7, ca_mailbox = Some (7 :: nat)\<rparr>"
  have bs: "pb_u64_encode pb_std (as_local (ca_index ?v)) = Ok [0x08, 7]"
    by (simp add: pb_std_def varint.simps [of 7])
  show ?thesis
    using address_leads_back [OF hm.kv_store_axioms pb_std.protobuf_axioms hm_ok_new bs,
        where index_of = "\<lambda>n. actor_id_new (word_of_nat n)" and session = 3 and a = 0]
    by (auto simp: encode_to_bytes_def address_codec_def address_register_def proxy_register_def bs
        split: prod.splits)
qed

text \<open>C39. The default codec cannot carry a vector of wide integers in front of a tuple: \<open>zerocopy\<close> casts the
  vector's bytes in place, they start four bytes behind the start of the tuple, and so decoding
  fails for every buffer whose start is aligned for the element type, whatever the vector holds.\<close>

theorem vector_in_tuple_misaligned:
  fixes v :: "u64 list"
  assumes "zerocopy zc" and "codec_laws cd fits rel" and "cd_len cd r < 2 ^ 64"
    and "v \<noteq> []" and "length v * 8 < 2 ^ 32" and "a mod 8 = 0"
    and "encode_to_bytes (tuple_cons zc (vec_codec zc) cd) (v, r) ec = (Ok bs, ec')"
  shows "\<exists>e. cd_decode (tuple_cons zc (vec_codec zc :: (u64 list, 'ec, 'dc) codec) cd) dc
    \<lparr>b_addr = a, b_bytes = bs\<rparr> = Err (decode_error_from_str e)"
proof -
  let ?vs = "concat (map (\<lambda>x. le_bytes 8 (unat x)) v)"
  have len: "length ?vs = length v * 8" by (induction v) simp_all
  then have ne: "?vs \<noteq> []" using assms(4) by (metis length_0_conv mult_is_0 zero_neq_numeral)
  let ?l = "le_bytes 4 (unat (word_of_nat (length ?vs) :: u32))"
  have "cd_encode cd r ec (?l @ ?vs) = (Ok (), ec', bs)"
    using assms(7) unfolding len by (simp add: encode_to_bytes_def tuple_cons_def encode_element_def vec_codec_def
        Let_def split: prod.splits result.splits)
  from codec_laws.encodes [OF assms(2) this assms(3)] obtain cs where bs: "bs = ?l @ ?vs @ cs" by auto
  have el: "decode_element zc \<lparr>b_addr = a, b_bytes = bs\<rparr> =
      Ok (\<lparr>b_addr = a + 4, b_bytes = ?vs\<rparr>, \<lparr>b_addr = a + 4 + length ?vs, b_bytes = cs\<rparr>)"
    unfolding bs by (rule zerocopy.decode_element_ok [OF assms(1)]) (simp only: len assms(5))
  have "(a + 4) mod 8 \<noteq> 0" using assms(6) by presburger
  then have "zc_slice zc 8 8 \<lparr>b_addr = a + 4, b_bytes = ?vs\<rparr> \<noteq> Ok x" for x
    using zerocopy.slice_iff [OF assms(1)] by simp
  then obtain e where "zc_slice zc 8 8 \<lparr>b_addr = a + 4, b_bytes = ?vs\<rparr> = Err e"
    by (cases "zc_slice zc 8 8 \<lparr>b_addr = a + 4, b_bytes = ?vs\<rparr>") auto
  then have "cd_decode (vec_codec zc :: (u64 list, 'ec, 'dc) codec) dc \<lparr>b_addr = a + 4, b_bytes = ?vs\<rparr> =
      Err (decode_error_from_str e)"
    using ne by (simp add: vec_codec_def Let_def)
  then show ?thesis by (intro exI [where x = e]) (simp add: tuple_cons_def el)
qed

theorem vector_in_tuple_misaligned_witness:
  "\<exists>e. cd_decode (tuple_cons zc_std (vec_codec zc_std) (tuple_last zc_std unit_codec) ::
        (u64 list \<times> unit, unit, unit) codec) ()
      \<lparr>b_addr = 16, b_bytes = [8, 0, 0, 0, 5, 0, 0, 0, 0, 0, 0, 0, 0, 0, 0, 0]\<rparr> = Err (decode_error_from_str e)"
proof -
  let ?u = "unit_codec :: (unit, unit, unit) codec"
  have enc: "encode_to_bytes (tuple_cons zc_std (vec_codec zc_std) (tuple_last zc_std ?u)) ([5 :: u64], ()) () =
      (Ok [8, 0, 0, 0, 5, 0, 0, 0, 0, 0, 0, 0, 0, 0, 0, 0], ())"
    by (simp add: encode_to_bytes_def tuple_cons_def tuple_last_def encode_element_def vec_codec_def Let_def
        unit_codec_def le_bytes_numeral)
  show ?thesis
    by (rule vector_in_tuple_misaligned [OF zc_std.zerocopy_axioms
          zc_std.tuple_last_laws [OF unit_codec.codec_laws_axioms] _ _ _ _ enc])
      (simp_all add: tuple_last_def unit_codec_def)
qed

end
