(* ===== verification/Wire.thy ===== *)
theory Wire
  imports Codec
begin

text \<open>
  The protobuf wire format. \<open>prost\<close>, which derives the codecs of the generated messages, is a parameter of the
  models that use it, under the locale \<open>proto_message\<close>. This theory states the locale and the format
  that satisfies it for any message type given by its fields; the theories of the messages interpret it.
\<close>

text \<open>What \<open>prost\<close> derives for a message.\<close>

record 'p pm_ops =
  pm_len :: "'p \<Rightarrow> nat"
  pm_encode :: "'p \<Rightarrow> (bytes, box_error) result"
  pm_decode :: "bytes \<Rightarrow> ('p, box_error) result"

locale proto_message =
  fixes pm :: "'p pm_ops"
  assumes roundtrip: "pm_encode pm x = Ok bs \<Longrightarrow> length bs = pm_len pm x \<and> pm_decode pm bs = Ok x"

definition pm_append :: "'p pm_ops \<Rightarrow> 'p \<Rightarrow> 'ec \<Rightarrow> bytes \<Rightarrow> (unit, encode_error) result \<times> 'ec \<times> bytes" where
  "pm_append pm msg ec b =
     (case pm_encode pm msg of
        Err e \<Rightarrow> (Err (EncodeOther e), ec, b)
      | Ok bs \<Rightarrow> (Ok (), ec, b @ bs))"

lemma pm_append_OkD: "pm_append pm msg ec b = (Ok (), ec', b') \<Longrightarrow> \<exists>bs. pm_encode pm msg = Ok bs \<and> b' = b @ bs"
  by (auto simp: pm_append_def split: result.splits)

context proto_message
begin

lemma message_laws:
  assumes "\<And>v ec b ec' b'. cd_encode cd v ec b = (Ok (), ec', b') \<Longrightarrow> \<exists>bs. pm_encode pm (msg v) = Ok bs \<and> b' = b @ bs"
    and "\<And>v. cd_len cd v = pm_len pm (msg v)"
    and "\<And>v dc a b. fits dc v a \<Longrightarrow> pm_decode pm (b_bytes b) = Ok (msg v) \<Longrightarrow> \<exists>w. cd_decode cd dc b = Ok w \<and> rel dc v w"
  shows "codec_laws cd fits rel"
proof
  fix v ec b ec' b'
  assume "cd_encode cd v ec b = (Ok (), ec', b')"
  then obtain bs where "pm_encode pm (msg v) = Ok bs" and "b' = b @ bs" using assms(1) by blast
  moreover from this(1) have "length bs = pm_len pm (msg v)" and dec: "pm_decode pm bs = Ok (msg v)"
    using roundtrip by auto
  moreover have "\<exists>w. cd_decode cd dc \<lparr>b_addr = a, b_bytes = bs\<rparr> = Ok w \<and> rel dc v w" if "fits dc v a" for dc a
    using that dec by (intro assms(3)) simp_all
  ultimately show "\<exists>bs. b' = b @ bs \<and> length bs = cd_len cd v \<and>
      (\<forall>dc a. fits dc v a \<longrightarrow> (\<exists>w. cd_decode cd dc \<lparr>b_addr = a, b_bytes = bs\<rparr> = Ok w \<and> rel dc v w))"
    by (auto simp: assms(2))
qed

end

section \<open>Fields\<close>

text \<open>A message is a sequence of fields: a key byte (field number and wire type, for field numbers up to
  15), and a varint, eight bytes, or the length and the bytes of a payload. A field that occurs again replaces
  the earlier value, an unknown one is ignored.\<close>

datatype wire_field = WInt u8 u64 | WFix u8 u64 | WLen u8 bytes

fun wire_ok :: "wire_field \<Rightarrow> bool" where
  "wire_ok (WInt k x) \<longleftrightarrow> unat k mod 8 = 0"
| "wire_ok (WFix k x) \<longleftrightarrow> unat k mod 8 = 1"
| "wire_ok (WLen k p) \<longleftrightarrow> unat k mod 8 = 2"

fun wire_bytes :: "wire_field \<Rightarrow> bytes" where
  "wire_bytes (WInt k x) = k # varint (unat x)"
| "wire_bytes (WFix k x) = k # le_bytes 8 (unat x)"
| "wire_bytes (WLen k p) = k # varint (length p) @ p"

fun wire_fields :: "nat \<Rightarrow> bytes \<Rightarrow> wire_field list option" where
  "wire_fields n [] = Some []"
| "wire_fields 0 (k # r) = None"
| "wire_fields (Suc n) (k # r) =
     (if unat k mod 8 = 1
      then if length r < 8 then None
           else map_option ((#) (WFix k (word_of_nat (le_nat (take 8 r))))) (wire_fields n (drop 8 r))
      else case un_varint r of
        None \<Rightarrow> None
      | Some (x, q) \<Rightarrow>
          if unat k mod 8 = 0 then map_option ((#) (WInt k (word_of_nat x))) (wire_fields n q)
          else if unat k mod 8 = 2 \<and> x \<le> length q
          then map_option ((#) (WLen k (take x q))) (wire_fields n (drop x q)) else None)"

definition wire_print :: "wire_field list \<Rightarrow> bytes" where
  "wire_print fs = concat (map wire_bytes fs)"

definition wire_parse :: "bytes \<Rightarrow> wire_field list option" where
  "wire_parse bs = wire_fields (length bs) bs"

lemma u64_le_bytes: "word_of_nat (le_nat (le_bytes 8 (unat (x :: u64)))) = x"
  using le_nat_word [of x] by simp

lemma wire_fields_print: "list_all wire_ok fs \<Longrightarrow> length fs \<le> n \<Longrightarrow> wire_fields n (wire_print fs) = Some fs"
proof (induction fs arbitrary: n)
  case (Cons f fs)
  then obtain m where n: "n = Suc m" and IH: "wire_fields m (wire_print fs) = Some fs" by (cases n) auto
  show ?case
    using Cons.prems IH by (cases f) (simp_all add: n wire_print_def un_varint_varint u64_le_bytes)
qed (simp add: wire_print_def)

lemma wire_parse_print: "list_all wire_ok fs \<Longrightarrow> wire_parse (wire_print fs) = Some fs"
proof -
  have "length fs \<le> length (wire_print fs)"
  proof (induction fs)
    case (Cons f fs)
    then show ?case by (cases f) (simp_all add: wire_print_def)
  qed simp
  then show "list_all wire_ok fs \<Longrightarrow> wire_parse (wire_print fs) = Some fs"
    by (simp add: wire_parse_def wire_fields_print)
qed

lemma varint_small: "n < 128 \<Longrightarrow> varint n = [word_of_nat n]"
  by (simp add: varint.simps)

text \<open>Strings of the model are lists of characters with codes below 256, in UTF-8.\<close>

definition char_utf8 :: "char \<Rightarrow> bytes" where
  "char_utf8 c =
     (let n = of_char c :: nat
      in if n < 128 then [word_of_nat n] else [word_of_nat (192 + n div 64), word_of_nat (128 + n mod 64)])"

definition utf8_bytes :: "string \<Rightarrow> bytes" where
  "utf8_bytes s = concat (map char_utf8 s)"

fun from_utf8 :: "bytes \<Rightarrow> string option" where
  "from_utf8 [] = Some []"
| "from_utf8 (a # r) =
     (if unat a < 128 then map_option ((#) (char_of (unat a))) (from_utf8 r)
      else case r of
             [] \<Rightarrow> None
           | b # r' \<Rightarrow> map_option ((#) (char_of ((unat a - 192) * 64 + (unat b - 128)))) (from_utf8 r'))"

lemma unat_u8: "m < 256 \<Longrightarrow> unat (word_of_nat m :: u8) = m"
  by (simp add: unat_of_nat)

lemma from_utf8_char: "from_utf8 (char_utf8 c @ bs) = map_option ((#) c) (from_utf8 bs)"
proof (cases "(of_char c :: nat) < 128")
  case True
  then show ?thesis by (simp add: char_utf8_def unat_u8)
next
  case False
  define a b :: u8 where "a = word_of_nat (192 + of_char c div 64)" and "b = word_of_nat (128 + of_char c mod 64)"
  have "(of_char c :: nat) < 4 * 64" by simp
  then have "(of_char c :: nat) div 64 < 4" by (rule less_mult_imp_div_less)
  then have "unat a = 192 + of_char c div 64" unfolding a_def by (intro unat_u8) simp
  moreover have "(of_char c :: nat) mod 64 < 64" by simp
  then have "unat b = 128 + of_char c mod 64" unfolding b_def by (intro unat_u8) linarith
  moreover have "char_of (of_char c div 64 * 64 + of_char c mod 64 :: nat) = c"
    by (simp only: div_mult_mod_eq char_of_char)
  moreover have "char_utf8 c = [a, b]" using False by (simp only: char_utf8_def Let_def a_def b_def if_False)
  ultimately show ?thesis by simp
qed

lemma from_utf8_string: "from_utf8 (utf8_bytes s) = Some s"
  by (induction s) (simp_all add: utf8_bytes_def from_utf8_char)

definition wire_message :: "('p \<Rightarrow> wire_field list) \<Rightarrow> (wire_field list \<Rightarrow> 'p option) \<Rightarrow> 'p pm_ops" where
  "wire_message to_fields of_fields =
     \<lparr>pm_len = (\<lambda>m. length (wire_print (to_fields m))),
      pm_encode = (\<lambda>m. Ok (wire_print (to_fields m))),
      pm_decode = (\<lambda>bs. case Option.bind (wire_parse bs) of_fields of
         None \<Rightarrow> Err (box_str ''failed to decode Protobuf message'')
       | Some m \<Rightarrow> Ok m)\<rparr>"

lemma wire_message_laws:
  "(\<And>m. list_all wire_ok (to_fields m) \<and> of_fields (to_fields m) = Some m) \<Longrightarrow> proto_message (wire_message to_fields of_fields)"
  by unfold_locales (auto simp: wire_message_def wire_parse_print)

text \<open>The value of the last field with a key.\<close>

fun int_field :: "u8 \<Rightarrow> wire_field list \<Rightarrow> u64 option" where
  "int_field k [] = None"
| "int_field k (WInt l x # fs) = (case int_field k fs of None \<Rightarrow> if k = l then Some x else None | y \<Rightarrow> y)"
| "int_field k (WLen l p # fs) = int_field k fs"
| "int_field k (WFix l x # fs) = int_field k fs"

fun fix_field :: "u8 \<Rightarrow> wire_field list \<Rightarrow> u64 option" where
  "fix_field k [] = None"
| "fix_field k (WFix l x # fs) = (case fix_field k fs of None \<Rightarrow> if k = l then Some x else None | y \<Rightarrow> y)"
| "fix_field k (WInt l x # fs) = fix_field k fs"
| "fix_field k (WLen l p # fs) = fix_field k fs"

fun len_field :: "u8 \<Rightarrow> wire_field list \<Rightarrow> bytes option" where
  "len_field k [] = None"
| "len_field k (WLen l p # fs) = (case len_field k fs of None \<Rightarrow> if k = l then Some p else None | y \<Rightarrow> y)"
| "len_field k (WInt l x # fs) = len_field k fs"
| "len_field k (WFix l x # fs) = len_field k fs"

definition int_to_fields :: "u8 \<Rightarrow> u64 \<Rightarrow> wire_field list" where
  "int_to_fields k x = (if x = 0 then [] else [WInt k x])"

definition str_to_fields :: "u8 \<Rightarrow> string \<Rightarrow> wire_field list" where
  "str_to_fields k s = (if s = [] then [] else [WLen k (utf8_bytes s)])"

definition str_field :: "u8 \<Rightarrow> wire_field list \<Rightarrow> string option" where
  "str_field k fs = (case len_field k fs of None \<Rightarrow> Some [] | Some p \<Rightarrow> from_utf8 p)"

definition fix_to_fields :: "u8 \<Rightarrow> u64 \<Rightarrow> wire_field list" where
  "fix_to_fields k x = (if x = 0 then [] else [WFix k x])"

definition bytes_to_fields :: "u8 \<Rightarrow> bytes \<Rightarrow> wire_field list" where
  "bytes_to_fields k p = (if p = [] then [] else [WLen k p])"

definition or_zero :: "u64 option \<Rightarrow> u64" where
  "or_zero x = (case x of None \<Rightarrow> 0 | Some y \<Rightarrow> y)"

text \<open>The last of the fields of a \<open>oneof\<close>.\<close>

fun wire_key :: "wire_field \<Rightarrow> u8" where
  "wire_key (WInt k x) = k"
| "wire_key (WFix k x) = k"
| "wire_key (WLen k p) = k"

definition oneof_field :: "u8 list \<Rightarrow> wire_field list \<Rightarrow> wire_field option" where
  "oneof_field ks fs = List.find (\<lambda>f. wire_key f \<in> set ks) (rev fs)"

end
