(* ===== verification/Control_Codec.thy ===== *)
theory Control_Codec
  imports Wire Observer Cron
begin

text \<open>
  The codecs of the control messages (\<open>acktor/src/codec/control_message.rs\<close>): \<open>Signal\<close>, \<open>Supervisor\<close>,
  \<open>Observer\<close>, \<open>SupervisionEvent\<close> and \<open>CronSignal\<close>. Each is translated to a message of
  \<open>acktor-ipc-proto/src/control_message.rs\<close>, and \<open>prost\<close> turns that into bytes: the parameter \<open>pm\<close> of
  a codec, under the locale \<open>proto_message\<close>. The last section gives the protobuf encoding of the five
  messages and shows that it satisfies the locale.
\<close>

section \<open>The protobuf messages\<close>

type_synonym i32 = "32 word"

record proto_signal =
  psg_signal :: i32

datatype supervisor_type = SupervisorTypeSet u64 | SupervisorTypeUnset

record proto_supervisor =
  psv_supervisor :: "supervisor_type option"

definition proto_supervisor_set :: "u64 \<Rightarrow> proto_supervisor" where
  "proto_supervisor_set i = \<lparr>psv_supervisor = Some (SupervisorTypeSet i)\<rparr>"

definition proto_supervisor_unset :: proto_supervisor where
  "proto_supervisor_unset = \<lparr>psv_supervisor = Some SupervisorTypeUnset\<rparr>"

datatype observer_type = ObserverTypeRegister u64 | ObserverTypeUnregister u64

record proto_observer =
  pob_observer :: "observer_type option"

definition proto_observer_register :: "u64 \<Rightarrow> proto_observer" where
  "proto_observer_register i = \<lparr>pob_observer = Some (ObserverTypeRegister i)\<rparr>"

definition proto_observer_unregister :: "u64 \<Rightarrow> proto_observer" where
  "proto_observer_unregister i = \<lparr>pob_observer = Some (ObserverTypeUnregister i)\<rparr>"

text \<open>The index of the sender and the error, panic info or state.\<close>

datatype event_type =
  EventWarn u64 string
| EventTerminated u64 "string option"
| EventPanicked u64 string
| EventState u64 i32

record proto_event =
  pev_event :: "event_type option"

definition proto_event_warn :: "u64 \<Rightarrow> string \<Rightarrow> proto_event" where
  "proto_event_warn i err = \<lparr>pev_event = Some (EventWarn i err)\<rparr>"

definition proto_event_terminated :: "u64 \<Rightarrow> string option \<Rightarrow> proto_event" where
  "proto_event_terminated i err = \<lparr>pev_event = Some (EventTerminated i err)\<rparr>"

definition proto_event_panicked :: "u64 \<Rightarrow> string \<Rightarrow> proto_event" where
  "proto_event_panicked i info = \<lparr>pev_event = Some (EventPanicked i info)\<rparr>"

definition proto_event_state :: "u64 \<Rightarrow> i32 \<Rightarrow> proto_event" where
  "proto_event_state i state = \<lparr>pev_event = Some (EventState i state)\<rparr>"

section \<open>Signals\<close>

definition signal_codec :: "proto_signal pm_ops \<Rightarrow> (signal, 'ec, 'dc) codec" where
  "signal_codec pm =
     \<lparr>cd_len = (\<lambda>v. pm_len pm \<lparr>psg_signal = ucast (signal_as_u8 v)\<rparr>),
      cd_encode = (\<lambda>v ec b. pm_append pm \<lparr>psg_signal = ucast (signal_as_u8 v)\<rparr> ec b),
      cd_decode = (\<lambda>_ b. case pm_decode pm (b_bytes b) of
         Err e \<Rightarrow> Err (DecodeOther e)
       | Ok signal \<Rightarrow>
           (case signal_try_from (ucast (psg_signal signal)) of
              Ok s \<Rightarrow> Ok s
            | Err _ \<Rightarrow> Err (decode_error_from_str ''invalid signal value in the `Signal` message'')))\<rparr>"

fun cron_signal_as_u8 :: "cron_signal \<Rightarrow> u8" where
  "cron_signal_as_u8 CronPause = 0"
| "cron_signal_as_u8 CronResume = 1"

definition cron_signal_codec :: "proto_signal pm_ops \<Rightarrow> (cron_signal, 'ec, 'dc) codec" where
  "cron_signal_codec pm =
     \<lparr>cd_len = (\<lambda>v. pm_len pm \<lparr>psg_signal = ucast (cron_signal_as_u8 v)\<rparr>),
      cd_encode = (\<lambda>v ec b. pm_append pm \<lparr>psg_signal = ucast (cron_signal_as_u8 v)\<rparr> ec b),
      cd_decode = (\<lambda>_ b. case pm_decode pm (b_bytes b) of
         Err e \<Rightarrow> Err (DecodeOther e)
       | Ok cron_signal \<Rightarrow>
           (case cron_signal_try_from (ucast (psg_signal cron_signal)) of
              Ok s \<Rightarrow> Ok s
            | Err _ \<Rightarrow> Err (decode_error_from_str ''invalid signal value in the `CronSignal` message'')))\<rparr>"

section \<open>Supervisors and observers\<close>

text \<open>\<open>recipient.register(ctx.ok_or(MissingEncodeContext)?)\<close>.\<close>

definition ctx_register ::
  "('mb \<Rightarrow> 'm \<Rightarrow> (unit, encode_error) result \<times> 'm) \<Rightarrow> 'mb codec_address \<Rightarrow> 'm option \<Rightarrow>
   (unit, encode_error) result \<times> 'm option" where
  "ctx_register register v ec =
     (case ec of
        None \<Rightarrow> (Err MissingEncodeContext, None)
      | Some m \<Rightarrow> (case address_register register v m of (r, m') \<Rightarrow> (r, Some m')))"

definition register_then_append ::
  "('mb \<Rightarrow> 'm \<Rightarrow> (unit, encode_error) result \<times> 'm) \<Rightarrow> 'p pm_ops \<Rightarrow> 'mb codec_address \<Rightarrow> 'p \<Rightarrow>
   'm option \<Rightarrow> bytes \<Rightarrow> (unit, encode_error) result \<times> 'm option \<times> bytes" where
  "register_then_append register pm v msg ec b =
     (case ctx_register register v ec of
        (Err e, ec') \<Rightarrow> (Err e, ec', b)
      | (Ok _, ec') \<Rightarrow> pm_append pm msg ec' b)"

definition supervisor_codec ::
  "proto_supervisor pm_ops \<Rightarrow> ('mb \<Rightarrow> 'm \<Rightarrow> (unit, encode_error) result \<times> 'm) \<Rightarrow>
   ('mb codec_address supervisor_cmd, 'm option, u64 option option) codec" where
  "supervisor_codec pm register =
     \<lparr>cd_len = (\<lambda>v. pm_len pm (case v of
         SupervisorSet recipient \<Rightarrow> proto_supervisor_set (as_local (ca_index recipient))
       | SupervisorUnset \<Rightarrow> proto_supervisor_unset)),
      cd_encode = (\<lambda>v ec b. case v of
         SupervisorSet recipient \<Rightarrow>
           register_then_append register pm recipient (proto_supervisor_set (as_local (ca_index recipient))) ec b
       | SupervisorUnset \<Rightarrow> pm_append pm proto_supervisor_unset ec b),
      cd_decode = (\<lambda>dc b. case dc of
         None \<Rightarrow> Err MissingDecodeContext
       | Some ctx \<Rightarrow>
           (case pm_decode pm (b_bytes b) of
              Err e \<Rightarrow> Err (DecodeOther e)
            | Ok supervisor \<Rightarrow>
                (case psv_supervisor supervisor of
                   Some (SupervisorTypeSet actor_id) \<Rightarrow>
                     map_ok SupervisorSet (address_new_with_decode_context actor_id ctx)
                 | Some SupervisorTypeUnset \<Rightarrow> Ok SupervisorUnset
                 | None \<Rightarrow> Err (decode_error_from_str
                     ''missing field `supervisor` in the `Supervisor` message''))))\<rparr>"

text \<open>The enum \<open>Observer\<close> over a recipient.\<close>

datatype 'r observer_msg = Register 'r | Unregister 'r

definition observer_codec ::
  "proto_observer pm_ops \<Rightarrow> ('mb \<Rightarrow> 'm \<Rightarrow> (unit, encode_error) result \<times> 'm) \<Rightarrow>
   ('mb codec_address observer_msg, 'm option, u64 option option) codec" where
  "observer_codec pm register =
     \<lparr>cd_len = (\<lambda>v. pm_len pm (case v of
         Register recipient \<Rightarrow> proto_observer_register (as_local (ca_index recipient))
       | Unregister recipient \<Rightarrow> proto_observer_unregister (as_local (ca_index recipient)))),
      cd_encode = (\<lambda>v ec b. case v of
         Register recipient \<Rightarrow>
           register_then_append register pm recipient (proto_observer_register (as_local (ca_index recipient))) ec b
       | Unregister recipient \<Rightarrow>
           register_then_append register pm recipient (proto_observer_unregister (as_local (ca_index recipient))) ec b),
      cd_decode = (\<lambda>dc b. case dc of
         None \<Rightarrow> Err MissingDecodeContext
       | Some ctx \<Rightarrow>
           (case pm_decode pm (b_bytes b) of
              Err e \<Rightarrow> Err (DecodeOther e)
            | Ok observer \<Rightarrow>
                (case pob_observer observer of
                   Some (ObserverTypeRegister actor_id) \<Rightarrow>
                     map_ok Register (address_new_with_decode_context actor_id ctx)
                 | Some (ObserverTypeUnregister actor_id) \<Rightarrow>
                     map_ok Unregister (address_new_with_decode_context actor_id ctx)
                 | None \<Rightarrow> Err (decode_error_from_str
                     ''missing field `observer` in the `Observer` message''))))\<rparr>"

section \<open>Supervision events\<close>

fun build_supervision_event_message ::
  "('e \<Rightarrow> string) \<Rightarrow> ('mb codec_address, 'e) supervision_event \<Rightarrow> proto_event \<times> 'mb codec_address" where
  "build_supervision_event_message show (Warn address err) =
     (proto_event_warn (as_local (ca_index address)) (show err), address)"
| "build_supervision_event_message show (Terminated address err) =
     (proto_event_terminated (as_local (ca_index address)) (map_option show err), address)"
| "build_supervision_event_message show (Panicked address info) =
     (proto_event_panicked (as_local (ca_index address)) info, address)"
| "build_supervision_event_message show (State address state) =
     (proto_event_state (as_local (ca_index address)) (ucast (actor_state_as_u8 state)), address)"

definition supervision_event_codec ::
  "proto_event pm_ops \<Rightarrow> ('mb \<Rightarrow> 'm \<Rightarrow> (unit, encode_error) result \<times> 'm) \<Rightarrow> ('e \<Rightarrow> string) \<Rightarrow>
   (string \<Rightarrow> 'e) \<Rightarrow> (('mb codec_address, 'e) supervision_event, 'm option, u64 option option) codec" where
  "supervision_event_codec pm register show read =
     \<lparr>cd_len = (\<lambda>v. pm_len pm (fst (build_supervision_event_message show v))),
      cd_encode = (\<lambda>v ec b.
        let (event, address) = build_supervision_event_message show v
        in register_then_append register pm address event ec b),
      cd_decode = (\<lambda>dc b. case dc of
         None \<Rightarrow> Err MissingDecodeContext
       | Some ctx \<Rightarrow>
           (case pm_decode pm (b_bytes b) of
              Err e \<Rightarrow> Err (DecodeOther e)
            | Ok event \<Rightarrow>
                (case pev_event event of
                   Some (EventWarn actor_id err) \<Rightarrow>
                     map_ok (\<lambda>a. Warn a (read err)) (address_new_with_decode_context actor_id ctx)
                 | Some (EventTerminated actor_id err) \<Rightarrow>
                     map_ok (\<lambda>a. Terminated a (map_option read err)) (address_new_with_decode_context actor_id ctx)
                 | Some (EventPanicked actor_id info) \<Rightarrow>
                     map_ok (\<lambda>a. Panicked a info) (address_new_with_decode_context actor_id ctx)
                 | Some (EventState actor_id state) \<Rightarrow>
                     (case address_new_with_decode_context actor_id ctx of
                        Err e \<Rightarrow> Err e
                      | Ok a \<Rightarrow>
                          (case actor_state_try_from (ucast state) of
                             Ok s \<Rightarrow> Ok (State a s)
                           | Err _ \<Rightarrow> Err (decode_error_from_str
                               ''invalid actor state value in the `SupervisionEvent` message'')))
                 | None \<Rightarrow> Err (decode_error_from_str
                     ''missing field `event` in the `SupervisionEvent` message''))))\<rparr>"

text \<open>Events replace the generic \<open>encode_to_bytes\<close>.\<close>

definition supervision_event_encode_to_bytes ::
  "proto_event pm_ops \<Rightarrow> ('mb \<Rightarrow> 'm \<Rightarrow> (unit, encode_error) result \<times> 'm) \<Rightarrow> ('e \<Rightarrow> string) \<Rightarrow>
   ('mb codec_address, 'e) supervision_event \<Rightarrow> 'm option \<Rightarrow> (bytes, encode_error) result \<times> 'm option" where
  "supervision_event_encode_to_bytes pm register show v ec =
     (let (event, address) = build_supervision_event_message show v
      in case ctx_register register address ec of
           (Err e, ec') \<Rightarrow> (Err e, ec')
         | (Ok _, ec') \<Rightarrow>
             (case pm_encode pm event of
                Err e \<Rightarrow> (Err (EncodeOther e), ec')
              | Ok bs \<Rightarrow> (Ok bs, ec')))"

section \<open>The codecs keep the contract\<close>

lemma register_then_append_OkD:
  "register_then_append register pm v msg ec b = (Ok (), ec', b') \<Longrightarrow> \<exists>bs. pm_encode pm msg = Ok bs \<and> b' = b @ bs"
  by (auto simp: register_then_append_def dest: pm_append_OkD split: result.splits prod.splits)

lemma as_u8_roundtrip [simp]:
  "signal_try_from (ucast (ucast (signal_as_u8 s) :: i32)) = Ok s"
  "cron_signal_try_from (ucast (ucast (cron_signal_as_u8 c) :: i32)) = Ok c"
  "actor_state_try_from (ucast (ucast (actor_state_as_u8 t) :: i32)) = Ok t"
proof -
  show "signal_try_from (ucast (ucast (signal_as_u8 s) :: i32)) = Ok s"
    by (cases s) (simp_all add: signal_try_from_def)
  show "cron_signal_try_from (ucast (ucast (cron_signal_as_u8 c) :: i32)) = Ok c"
    by (cases c) (simp_all add: cron_signal_try_from_def)
  show "actor_state_try_from (ucast (ucast (actor_state_as_u8 t) :: i32)) = Ok t"
    by (cases t) (simp_all add: actor_state_try_from_def)
qed

abbreviation with_proxy :: "u64 option option \<Rightarrow> 'a \<Rightarrow> nat \<Rightarrow> bool" where
  "with_proxy dc v a \<equiv> \<exists>session. dc = Some (Some session)"

lemma address_rel_new:
  "address_rel (Some (Some session)) v w \<longleftrightarrow> address_new_with_decode_context (as_local (ca_index v)) (Some session) = Ok w"
  by (auto simp: address_rel_def address_new_with_decode_context_def)

lemma signal_laws: "proto_message pm \<Longrightarrow> codec_laws (signal_codec pm) always same"
  by (erule proto_message.message_laws [where msg = "\<lambda>v. \<lparr>psg_signal = ucast (signal_as_u8 v)\<rparr>"])
    (auto simp: signal_codec_def dest: pm_append_OkD)

lemma cron_signal_laws: "proto_message pm \<Longrightarrow> codec_laws (cron_signal_codec pm) always same"
  by (erule proto_message.message_laws [where msg = "\<lambda>v. \<lparr>psg_signal = ucast (cron_signal_as_u8 v)\<rparr>"])
    (auto simp: cron_signal_codec_def dest: pm_append_OkD)

lemma supervisor_laws:
  "proto_message pm \<Longrightarrow>
   codec_laws (supervisor_codec pm register) with_proxy (\<lambda>dc. rel_supervisor_cmd (address_rel dc))"
  by (erule proto_message.message_laws [where msg = "\<lambda>v. case v of
        SupervisorSet r \<Rightarrow> proto_supervisor_set (as_local (ca_index r)) | SupervisorUnset \<Rightarrow> proto_supervisor_unset"])
    (auto simp: supervisor_codec_def address_rel_def address_new_with_decode_context_def proto_supervisor_set_def
      proto_supervisor_unset_def dest: pm_append_OkD register_then_append_OkD split: supervisor_cmd.splits)

lemma observer_laws:
  "proto_message pm \<Longrightarrow>
   codec_laws (observer_codec pm register) with_proxy (\<lambda>dc. rel_observer_msg (address_rel dc))"
  by (erule proto_message.message_laws [where msg = "\<lambda>v. case v of
        Register r \<Rightarrow> proto_observer_register (as_local (ca_index r))
      | Unregister r \<Rightarrow> proto_observer_unregister (as_local (ca_index r))"])
    (auto simp: observer_codec_def address_rel_def address_new_with_decode_context_def proto_observer_register_def
      proto_observer_unregister_def dest: register_then_append_OkD split: observer_msg.splits)

lemma supervision_event_laws:
  "proto_message pm \<Longrightarrow> codec_laws
     (supervision_event_codec pm register show read ::
       (('mb codec_address, 'e) supervision_event, 'm option, u64 option option) codec) with_proxy
     (\<lambda>dc. rel_supervision_event (address_rel dc) (\<lambda>e f. f = read (show e)))"
proof (erule proto_message.message_laws [where msg = "\<lambda>v. fst (build_supervision_event_message show v)"])
  fix v :: "('mb codec_address, 'e) supervision_event" and dc :: "u64 option option" and a and b :: buf
  assume "with_proxy dc v a" and dec: "pm_decode pm (b_bytes b) = Ok (fst (build_supervision_event_message show v))"
  then obtain session where "dc = Some (Some session)" by blast
  then show "\<exists>w. cd_decode (supervision_event_codec pm register show read) dc b = Ok w \<and>
      rel_supervision_event (address_rel dc) (\<lambda>e f. f = read (show e)) v w"
    using dec by (cases v) (auto simp: supervision_event_codec_def address_rel_def
        address_new_with_decode_context_def proto_event_warn_def proto_event_terminated_def
        proto_event_panicked_def proto_event_state_def option.rel_map intro: option.rel_refl)
qed (auto simp: supervision_event_codec_def Let_def dest: register_then_append_OkD split: prod.splits)

section \<open>The protobuf wire format\<close>

text \<open>The encodings of the five messages, over the wire format of theory \<open>Wire\<close>.\<close>

definition signal_wire :: "proto_signal pm_ops" where
  "signal_wire = wire_message (\<lambda>m. int_to_fields 0x08 (scast (psg_signal m)))
     (\<lambda>fs. Some \<lparr>psg_signal = ucast (case int_field 0x08 fs of None \<Rightarrow> 0 | Some x \<Rightarrow> x)\<rparr>)"

definition supervisor_wire :: "proto_supervisor pm_ops" where
  "supervisor_wire = wire_message
     (\<lambda>m. case psv_supervisor m of None \<Rightarrow> []
        | Some (SupervisorTypeSet i) \<Rightarrow> [WInt 0x08 i] | Some SupervisorTypeUnset \<Rightarrow> [WLen 0x12 []])
     (\<lambda>fs. Some \<lparr>psv_supervisor = (if fs = [] then None else case last fs of
          WInt k i \<Rightarrow> if k = 0x08 then Some (SupervisorTypeSet i) else None
        | WLen k p \<Rightarrow> if k = 0x12 then Some SupervisorTypeUnset else None
        | WFix k x \<Rightarrow> None)\<rparr>)"

definition observer_wire :: "proto_observer pm_ops" where
  "observer_wire = wire_message
     (\<lambda>m. case pob_observer m of None \<Rightarrow> []
        | Some (ObserverTypeRegister i) \<Rightarrow> [WInt 0x08 i] | Some (ObserverTypeUnregister i) \<Rightarrow> [WInt 0x10 i])
     (\<lambda>fs. Some \<lparr>pob_observer = (if fs = [] then None else case last fs of
          WInt k i \<Rightarrow> if k = 0x08 then Some (ObserverTypeRegister i)
            else if k = 0x10 then Some (ObserverTypeUnregister i) else None
        | _ \<Rightarrow> None)\<rparr>)"

definition event_of_fields :: "u8 \<Rightarrow> wire_field list \<Rightarrow> event_type option" where
  "event_of_fields k fs =
     (let i = (case int_field 0x08 fs of None \<Rightarrow> 0 | Some x \<Rightarrow> x)
      in if k = 0x0A then map_option (EventWarn i) (str_field 0x12 fs)
         else if k = 0x12 then (case len_field 0x12 fs of None \<Rightarrow> Some (EventTerminated i None)
           | Some p \<Rightarrow> map_option (\<lambda>s. EventTerminated i (Some s)) (from_utf8 p))
         else if k = 0x1A then map_option (EventPanicked i) (str_field 0x12 fs)
         else Some (EventState i (ucast (case int_field 0x10 fs of None \<Rightarrow> 0 | Some x \<Rightarrow> x))))"

fun event_to_fields :: "event_type \<Rightarrow> u8 \<times> wire_field list" where
  "event_to_fields (EventWarn i err) = (0x0A, int_to_fields 0x08 i @ str_to_fields 0x12 err)"
| "event_to_fields (EventTerminated i None) = (0x12, int_to_fields 0x08 i)"
| "event_to_fields (EventTerminated i (Some err)) = (0x12, int_to_fields 0x08 i @ [WLen 0x12 (utf8_bytes err)])"
| "event_to_fields (EventPanicked i info) = (0x1A, int_to_fields 0x08 i @ str_to_fields 0x12 info)"
| "event_to_fields (EventState i s) = (0x22, int_to_fields 0x08 i @ int_to_fields 0x10 (scast s))"

definition event_msg_to_fields :: "proto_event \<Rightarrow> wire_field list" where
  "event_msg_to_fields m =
     (case pev_event m of None \<Rightarrow> []
      | Some ev \<Rightarrow> [case event_to_fields ev of (k, fs) \<Rightarrow> WLen k (wire_print fs)])"

definition event_msg_of_fields :: "wire_field list \<Rightarrow> proto_event option" where
  "event_msg_of_fields fs =
     (case fs of
        [WLen k p] \<Rightarrow> if k \<in> {0x0A, 0x12, 0x1A, 0x22}
          then map_option (\<lambda>ev. \<lparr>pev_event = Some ev\<rparr>) (Option.bind (wire_parse p) (event_of_fields k))
          else Some \<lparr>pev_event = None\<rparr>
      | _ \<Rightarrow> Some \<lparr>pev_event = None\<rparr>)"

definition event_wire :: "proto_event pm_ops" where
  "event_wire = wire_message event_msg_to_fields event_msg_of_fields"

lemma ucast_scast_i32 [simp]: "ucast (scast (x :: i32) :: u64) = x"
proof (rule bit_word_eqI)
  fix n assume "n < LENGTH(32)"
  then have "min 31 n = n" and "n < 64" by simp_all
  with \<open>n < LENGTH(32)\<close> show "bit (ucast (scast x :: u64) :: i32) n \<longleftrightarrow> bit x n"
    by (simp add: bit_unsigned_iff bit_signed_iff)
qed

lemma scast_i32_0 [simp]: "(scast (x :: i32) :: u64) = 0 \<longleftrightarrow> x = 0"
  by (metis signed_0 ucast_scast_i32 unsigned_0)

interpretation signal_wire: proto_message signal_wire
  unfolding signal_wire_def
  by (rule wire_message_laws) (auto simp: int_to_fields_def)

interpretation supervisor_wire: proto_message supervisor_wire
  unfolding supervisor_wire_def
  by (rule wire_message_laws) (auto split: option.split supervisor_type.split)

interpretation observer_wire: proto_message observer_wire
  unfolding observer_wire_def
  by (rule wire_message_laws) (auto split: option.split observer_type.split)

lemma event_fields_roundtrip:
  "(case event_to_fields ev of (k, fs) \<Rightarrow> k \<in> {0x0A, 0x12, 0x1A, 0x22} \<and> list_all wire_ok fs \<and> event_of_fields k fs = Some ev)"
  by (induction ev rule: event_to_fields.induct) (auto simp: event_of_fields_def int_to_fields_def str_to_fields_def
      str_field_def from_utf8_string)

lemma event_keys_ok: "k \<in> {0x0A, 0x12, 0x1A, 0x22 :: u8} \<Longrightarrow> unat k mod 8 = 2"
  by auto

interpretation event_wire: proto_message event_wire
  unfolding event_wire_def
proof (rule wire_message_laws)
  fix m :: proto_event
  show "list_all wire_ok (event_msg_to_fields m) \<and> event_msg_of_fields (event_msg_to_fields m) = Some m"
  proof (cases "pev_event m")
    case None
    then show ?thesis by (simp add: event_msg_to_fields_def event_msg_of_fields_def)
  next
    case (Some ev)
    obtain k fs where kfs: "event_to_fields ev = (k, fs)" by (cases "event_to_fields ev")
    with event_fields_roundtrip [of ev] have "k \<in> {0x0A, 0x12, 0x1A, 0x22}" "list_all wire_ok fs"
      and "event_of_fields k fs = Some ev" by auto
    with Some kfs show ?thesis
      using event_keys_ok [of k] by (auto simp: event_msg_to_fields_def event_msg_of_fields_def wire_parse_print)
  qed
qed

section \<open>Properties\<close>

text \<open>C33. Control messages survive the wire: each of the five message types, encoded with success, has
  the announced length and decodes on a session to the same command, signal, state or panic info;
  recipients and addresses become remote ones of that session with the local index of the sent
  actor, and an error becomes what \<open>From<String>\<close> makes of its text.\<close>

theorem control_messages_roundtrip:
  assumes "proto_message pms" and "proto_message pmc" and "proto_message pmv" and "proto_message pmo"
    and "proto_message pme"
  shows "codec_laws (signal_codec pms) always same \<and> codec_laws (cron_signal_codec pmc) always same \<and>
    codec_laws (supervisor_codec pmv register) with_proxy (\<lambda>dc. rel_supervisor_cmd (address_rel dc)) \<and>
    codec_laws (observer_codec pmo register) with_proxy (\<lambda>dc. rel_observer_msg (address_rel dc)) \<and>
    codec_laws (supervision_event_codec pme register show read) with_proxy
      (\<lambda>dc. rel_supervision_event (address_rel dc) (\<lambda>e f. f = read (show e)))"
  using assms by (intro conjI signal_laws cron_signal_laws supervisor_laws observer_laws supervision_event_laws)

theorem control_messages_roundtrip_witness:
  "encode_to_bytes (supervision_event_codec event_wire (\<lambda>mb m. (Ok (), mb # m)) (\<lambda>e. e) (\<lambda>e. e))
     (State \<lparr>ca_index = actor_id_new 7, ca_mailbox = Some (7 :: nat)\<rparr> Running) (Some []) =
     (Ok [0x22, 4, 0x08, 7, 0x10, 2], Some [7]) \<and>
   cd_decode (supervision_event_codec event_wire (\<lambda>mb m. (Ok (), mb # m)) (\<lambda>e. e) (\<lambda>e. e) ::
      ((nat codec_address, string) supervision_event, nat list option, u64 option option) codec) (Some (Some 3))
     \<lparr>b_addr = 0, b_bytes = [0x22, 4, 0x08, 7, 0x10, 2]\<rparr> =
   Ok (State \<lparr>ca_index = actor_id_new_remote 7 3, ca_mailbox = None\<rparr> Running)"
proof -
  let ?cd = "supervision_event_codec event_wire (\<lambda>mb m. (Ok (), mb # m)) (\<lambda>e. e) (\<lambda>e. e) ::
    ((nat codec_address, string) supervision_event, nat list option, u64 option option) codec"
  let ?v = "State \<lparr>ca_index = actor_id_new 7, ca_mailbox = Some (7 :: nat)\<rparr> Running"
  have enc: "encode_to_bytes ?cd ?v (Some []) = (Ok [0x22, 4, 0x08, 7, 0x10, 2], Some [7])"
    by (simp add: encode_to_bytes_def supervision_event_codec_def register_then_append_def ctx_register_def
        address_register_def pm_append_def proto_event_state_def event_wire_def wire_message_def
        event_msg_to_fields_def int_to_fields_def wire_print_def varint_small)
  have laws: "codec_laws ?cd with_proxy (\<lambda>dc. rel_supervision_event (address_rel dc) (\<lambda>e f. f = e))"
    using control_messages_roundtrip [OF signal_wire.proto_message_axioms signal_wire.proto_message_axioms
        supervisor_wire.proto_message_axioms observer_wire.proto_message_axioms event_wire.proto_message_axioms,
        THEN conjunct2, THEN conjunct2, THEN conjunct2, THEN conjunct2] .
  have len: "cd_len ?cd ?v < 2 ^ 64"
    by (simp add: supervision_event_codec_def proto_event_state_def event_wire_def wire_message_def
        event_msg_to_fields_def int_to_fields_def wire_print_def varint_small)
  obtain w where "cd_decode ?cd (Some (Some 3)) \<lparr>b_addr = 0, b_bytes = [0x22, 4, 0x08, 7, 0x10, 2]\<rparr> = Ok w"
    and "rel_supervision_event (address_rel (Some (Some 3))) (\<lambda>e f. f = e) ?v w"
    using codec_laws.to_bytes(2) [OF laws enc len, of "Some (Some 3)" 0] by blast
  then show ?thesis
    using enc by (cases w) (auto simp: address_rel_def)
qed

text \<open>The shortcuts that options, results and supervision events take when they are encoded into
  fresh bytes change nothing: outcome, bytes and the state of the encode context are those of the
  generic \<open>encode_to_bytes\<close>, whatever the codec of the contents, the registration and \<open>prost\<close> do.\<close>

theorem encode_to_bytes_overrides:
  "option_encode_to_bytes pb cd o' ec = encode_to_bytes (option_codec pb cd) o' ec \<and>
   result_encode_to_bytes pb show cd r ec = encode_to_bytes (result_codec pb show read cd) r ec \<and>
   supervision_event_encode_to_bytes pm register shw ev ec' =
     encode_to_bytes (supervision_event_codec pm register shw rd) ev ec'"
proof (intro conjI)
  show "supervision_event_encode_to_bytes pm register shw ev ec' =
      encode_to_bytes (supervision_event_codec pm register shw rd) ev ec'"
    by (auto simp: supervision_event_encode_to_bytes_def encode_to_bytes_def supervision_event_codec_def
        register_then_append_def pm_append_def split: prod.splits result.splits)
qed (auto simp: option_encode_to_bytes_def result_encode_to_bytes_def encode_to_bytes_def option_codec_def
      result_codec_def Let_def split: option.split result.split prod.split)

text \<open>The numbers of signals and states are cut to eight bits before they are checked: 256 is taken for
  \<open>Stop\<close>, and every multiple of 256 above it.\<close>

lemma signal_value_truncated:
  "cd_decode (signal_codec signal_wire) dc \<lparr>b_addr = a, b_bytes = [0x08, 0x80, 0x02]\<rparr> = Ok SignalStop"
  by (simp add: signal_codec_def signal_wire_def wire_message_def wire_parse_def signal_try_from_def)

end
