(* ===== verification/Type_Id.thy ===== *)
theory Type_Id
  imports Wire
begin

unbundle bit_operations_syntax

text \<open>
  Stable type identifiers (\<open>acktor/src/stable_type_id.rs\<close>), what \<open>derive(StableId)\<close> and \<open>derive(MessageId)\<close>
  make of a type (\<open>acktor-derive/src/stable_id.rs\<close>, \<open>message_id.rs\<close>), and the hasher of the map that is keyed
  by the compiler's type ids (\<open>acktor/src/utils/type_map.rs\<close>). SHA-256 comes from another crate: it is the
  parameter \<open>sha\<close> under the locale \<open>digest\<close>, interpreted with the standard's algorithm at the end.
\<close>

section \<open>Identifiers\<close>

datatype stable_type_id = StableTypeId (as_bytes: bytes)

definition take16 :: "bytes \<Rightarrow> bytes" where
  "take16 arr = map ((!) arr) [0, 1, 2, 3, 4, 5, 6, 7, 8, 9, 10, 11, 12, 13, 14, 15]"

definition from_stable_type_name :: "(bytes \<Rightarrow> bytes) \<Rightarrow> string \<Rightarrow> stable_type_id" where
  "from_stable_type_name sha type_name = StableTypeId (take16 (sha (utf8_bytes type_name)))"

definition combine :: "(bytes \<Rightarrow> bytes) \<Rightarrow> stable_type_id \<Rightarrow> bytes \<Rightarrow> stable_type_id" where
  "combine sha self other = StableTypeId (take16 (sha (as_bytes self @ other)))"

definition be_nat :: "bytes \<Rightarrow> nat" where
  "be_nat bs = le_nat (rev bs)"

definition be_bytes :: "nat \<Rightarrow> nat \<Rightarrow> bytes" where
  "be_bytes n x = rev (le_bytes n x)"

definition as_u64 :: "stable_type_id \<Rightarrow> u64" where
  "as_u64 self = word_of_nat (be_nat (map ((!) (as_bytes self)) [0, 1, 2, 3, 4, 5, 6, 7]))"

definition as_u128 :: "stable_type_id \<Rightarrow> 128 word" where
  "as_u128 self = word_of_nat (be_nat (as_bytes self))"

definition box_type_id :: "(bytes \<Rightarrow> bytes) \<Rightarrow> stable_type_id \<Rightarrow> stable_type_id" where
  "box_type_id sha t = combine sha (from_stable_type_name sha ''alloc::boxed::Box'') (as_bytes t)"

definition arc_type_id :: "(bytes \<Rightarrow> bytes) \<Rightarrow> stable_type_id \<Rightarrow> stable_type_id" where
  "arc_type_id sha t = combine sha (from_stable_type_name sha ''alloc::sync::Arc'') (as_bytes t)"

section \<open>Derived identifiers\<close>

text \<open>A constant of a const generic parameter; the signed types share the bit patterns of the unsigned
  ones, \<open>usize\<close> and \<open>isize\<close> are widened to 64 bits.\<close>

datatype const_value =
  Const8 u8
| Const16 "16 word"
| Const32 u32
| Const64 u64
| Const128 "128 word"
| ConstSize u64
| ConstBool bool
| ConstChar u32

fun const_bytes :: "const_value \<Rightarrow> bytes" where
  "const_bytes (Const8 x) = be_bytes 1 (unat x)"
| "const_bytes (Const16 x) = be_bytes 2 (unat x)"
| "const_bytes (Const32 x) = be_bytes 4 (unat x)"
| "const_bytes (Const64 x) = be_bytes 8 (unat x)"
| "const_bytes (Const128 x) = be_bytes 16 (unat x)"
| "const_bytes (ConstSize x) = be_bytes 8 (unat x)"
| "const_bytes (ConstBool b) = [if b then 1 else 0]"
| "const_bytes (ConstChar c) = be_bytes 4 (unat c)"

text \<open>A type: its name with the module path, and its generic parameters.\<close>

datatype type_term = TypeTerm string "type_param list"
and type_param = ParamLifetime | ParamType type_term | ParamConst const_value

fun derived_type_id :: "(bytes \<Rightarrow> bytes) \<Rightarrow> type_term \<Rightarrow> stable_type_id"
and combines :: "(bytes \<Rightarrow> bytes) \<Rightarrow> type_param list \<Rightarrow> stable_type_id \<Rightarrow> stable_type_id" where
  "derived_type_id sha (TypeTerm name params) = combines sha params (from_stable_type_name sha name)"
| "combines sha [] self = self"
| "combines sha (ParamLifetime # ps) self = combines sha ps self"
| "combines sha (ParamType t # ps) self = combines sha ps (combine sha self (as_bytes (derived_type_id sha t)))"
| "combines sha (ParamConst c # ps) self = combines sha ps (combine sha self (take16 (sha (const_bytes c))))"

definition derived_message_id :: "(bytes \<Rightarrow> bytes) \<Rightarrow> u64 option \<Rightarrow> type_term \<Rightarrow> u64" where
  "derived_message_id sha custom_id t =
     (case custom_id of Some value \<Rightarrow> value | None \<Rightarrow> as_u64 (derived_type_id sha t))"

section \<open>The hasher of the type map\<close>

text \<open>With debug assertions a second value is refused unless the first was zero.\<close>

record nop_hasher =
  nh_hash :: u64

definition nop_default :: nop_hasher where
  "nop_default = \<lparr>nh_hash = 0\<rparr>"

definition nop_write :: "bool \<Rightarrow> 'w::len word \<Rightarrow> nop_hasher \<Rightarrow> nop_hasher outcome" where
  "nop_write debug_assertions n self =
     (if debug_assertions \<and> nh_hash self \<noteq> 0 then Panic ''assertion `left == right` failed''
      else Ret (self\<lparr>nh_hash := ucast n\<rparr>))"

definition nop_write_bytes :: "bytes \<Rightarrow> nop_hasher \<Rightarrow> nop_hasher outcome" where
  "nop_write_bytes b self = Panic ''NopHasher is only intended for pre-hashed integer values''"

definition nop_finish :: "nop_hasher \<Rightarrow> u64" where
  "nop_finish self = nh_hash self"

section \<open>What the digest promises\<close>

locale digest =
  fixes sha :: "bytes \<Rightarrow> bytes"
  assumes digest_length: "length (sha bs) = 32"

section \<open>Byte representations\<close>

lemma le_nat_append: "le_nat (xs @ ys) = le_nat xs + 256 ^ length xs * le_nat ys"
  by (induction xs) (simp_all add: algebra_simps)

lemma le_nat_less: "le_nat bs < 256 ^ length bs"
proof (induction bs)
  case (Cons b bs)
  have "unat b < 256" using unsigned_less [of b, where 'a = nat] by simp
  with Cons show ?case by simp
qed simp

lemma le_bytes_le_nat: "le_bytes (length bs) (le_nat bs) = bs"
proof (induction bs)
  case (Cons b bs)
  have b: "unat b < 256" using unsigned_less [of b, where 'a = nat] by simp
  then have "(unat b + 256 * le_nat bs) div 256 = le_nat bs" by simp
  moreover have "(word_of_nat (unat b + 256 * le_nat bs) :: u8) = b"
  proof -
    have "unat (word_of_nat (unat b + 256 * le_nat bs) :: u8) = unat b" using b by (simp only: unat_of_nat) simp
    then show ?thesis by (simp only: word_unat_eq_iff)
  qed
  ultimately show ?case using Cons by simp
qed simp

lemma be_nat_inject: "length xs = length ys \<Longrightarrow> be_nat xs = be_nat ys \<longleftrightarrow> xs = ys"
  unfolding be_nat_def by (metis le_bytes_le_nat length_rev rev_rev_ident)

lemma be_bytes_inject: "x < 256 ^ n \<Longrightarrow> y < 256 ^ n \<Longrightarrow> be_bytes n x = be_bytes n y \<longleftrightarrow> x = y"
  unfolding be_bytes_def by (metis le_nat_le_bytes mod_less rev_rev_ident)

lemma be_bytes_length [simp]: "length (be_bytes n x) = n"
  by (simp add: be_bytes_def)

lemma take16_take: "16 \<le> length arr \<Longrightarrow> take16 arr = take 16 arr"
proof -
  assume "16 \<le> length arr"
  then have "map ((!) arr) [0..<16] = take 16 arr" by (intro nth_equalityI) simp_all
  moreover have "[0..<16] = [0, 1, 2, 3, 4, 5, 6, 7, 8, 9, 10, 11, 12, 13, 14, 15]" by (simp add: upt_rec)
  ultimately show ?thesis by (simp only: take16_def)
qed

lemma take16_length [simp]: "length (take16 arr) = 16"
  by (simp add: take16_def)

lemma utf8_bytes_inject: "utf8_bytes s = utf8_bytes t \<longleftrightarrow> s = t"
  using from_utf8_string by (metis option.inject)

lemma id_length:
  "length (as_bytes (from_stable_type_name sha name)) = 16" "length (as_bytes (combine sha self other)) = 16"
  by (simp_all add: from_stable_type_name_def combine_def)

lemma combines_length: "length (as_bytes self) = 16 \<Longrightarrow> length (as_bytes (combines sha ps self)) = 16"
  by (induction ps arbitrary: self rule: list.induct) (metis combines.simps id_length(2) type_param.exhaust)+

lemma derived_id_length: "length (as_bytes (derived_type_id sha t)) = 16"
  by (cases t) (simp add: combines_length id_length)

lemma as_u128_inject:
  assumes "length (as_bytes x) = 16" and "length (as_bytes y) = 16"
  shows "as_u128 x = as_u128 y \<longleftrightarrow> x = y"
proof -
  have "be_nat (as_bytes z) < 2 ^ 128" if "length (as_bytes z) = 16" for z
    using le_nat_less [of "rev (as_bytes z)"] that by (simp add: be_nat_def)
  then have "as_u128 x = as_u128 y \<longleftrightarrow> be_nat (as_bytes x) = be_nat (as_bytes y)"
    using assms by (auto simp: as_u128_def word_unat_eq_iff unat_of_nat)
  then show ?thesis using assms by (auto simp: be_nat_inject intro: stable_type_id.expand)
qed

section \<open>Distinct types\<close>

text \<open>The generic parameters a type is declared with.\<close>

datatype param_kind = KLifetime | KType | KConst nat

fun const_kind :: "const_value \<Rightarrow> nat" where
  "const_kind (Const8 x) = 0"
| "const_kind (Const16 x) = 1"
| "const_kind (Const32 x) = 2"
| "const_kind (Const64 x) = 3"
| "const_kind (Const128 x) = 4"
| "const_kind (ConstSize x) = 5"
| "const_kind (ConstBool b) = 6"
| "const_kind (ConstChar c) = 7"

fun kind_of :: "type_param \<Rightarrow> param_kind" where
  "kind_of ParamLifetime = KLifetime"
| "kind_of (ParamType t) = KType"
| "kind_of (ParamConst c) = KConst (const_kind c)"

fun type_ok :: "(string \<Rightarrow> param_kind list) \<Rightarrow> type_term \<Rightarrow> bool"
and params_ok :: "(string \<Rightarrow> param_kind list) \<Rightarrow> type_param list \<Rightarrow> bool" where
  "type_ok decl (TypeTerm name params) \<longleftrightarrow> map kind_of params = decl name \<and> params_ok decl params"
| "params_ok decl [] \<longleftrightarrow> True"
| "params_ok decl (ParamLifetime # ps) \<longleftrightarrow> params_ok decl ps"
| "params_ok decl (ParamType t # ps) \<longleftrightarrow> type_ok decl t \<and> params_ok decl ps"
| "params_ok decl (ParamConst c # ps) \<longleftrightarrow> params_ok decl ps"

text \<open>What is hashed for a type: names, constants, and the pairs of an id and what it is combined with.\<close>

fun param_blobs :: "(bytes \<Rightarrow> bytes) \<Rightarrow> type_param list \<Rightarrow> bytes list" where
  "param_blobs sha [] = []"
| "param_blobs sha (ParamLifetime # ps) = param_blobs sha ps"
| "param_blobs sha (ParamType t # ps) = as_bytes (derived_type_id sha t) # param_blobs sha ps"
| "param_blobs sha (ParamConst c # ps) = take16 (sha (const_bytes c)) # param_blobs sha ps"

fun chain :: "(bytes \<Rightarrow> bytes) \<Rightarrow> bytes \<Rightarrow> bytes list \<Rightarrow> bytes" where
  "chain sha i [] = i"
| "chain sha i (b # bs) = chain sha (take16 (sha (i @ b))) bs"

fun chain_inputs :: "(bytes \<Rightarrow> bytes) \<Rightarrow> bytes \<Rightarrow> bytes list \<Rightarrow> bytes set" where
  "chain_inputs sha i [] = {}"
| "chain_inputs sha i (b # bs) = insert (i @ b) (chain_inputs sha (take16 (sha (i @ b))) bs)"

fun hashed_names :: "type_term \<Rightarrow> bytes set" and param_names :: "type_param list \<Rightarrow> bytes set" where
  "hashed_names (TypeTerm name params) = insert (utf8_bytes name) (param_names params)"
| "param_names [] = {}"
| "param_names (ParamLifetime # ps) = param_names ps"
| "param_names (ParamType t # ps) = hashed_names t \<union> param_names ps"
| "param_names (ParamConst c # ps) = param_names ps"

fun hashed_consts :: "type_term \<Rightarrow> bytes set" and param_consts :: "type_param list \<Rightarrow> bytes set" where
  "hashed_consts (TypeTerm name params) = param_consts params"
| "param_consts [] = {}"
| "param_consts (ParamLifetime # ps) = param_consts ps"
| "param_consts (ParamType t # ps) = hashed_consts t \<union> param_consts ps"
| "param_consts (ParamConst c # ps) = insert (const_bytes c) (param_consts ps)"

fun hashed_pairs :: "(bytes \<Rightarrow> bytes) \<Rightarrow> type_term \<Rightarrow> bytes set"
and param_pairs :: "(bytes \<Rightarrow> bytes) \<Rightarrow> type_param list \<Rightarrow> bytes set" where
  "hashed_pairs sha (TypeTerm name params) =
     chain_inputs sha (take16 (sha (utf8_bytes name))) (param_blobs sha params) \<union> param_pairs sha params"
| "param_pairs sha [] = {}"
| "param_pairs sha (ParamLifetime # ps) = param_pairs sha ps"
| "param_pairs sha (ParamType t # ps) = hashed_pairs sha t \<union> param_pairs sha ps"
| "param_pairs sha (ParamConst c # ps) = param_pairs sha ps"

lemma combines_chain: "as_bytes (combines sha ps self) = chain sha (as_bytes self) (param_blobs sha ps)"
proof (induction ps arbitrary: self)
  case (Cons p ps)
  then show ?case by (cases p) (simp_all add: combine_def)
qed simp

lemma chain_snoc:
  "chain sha i (bs @ [b]) = take16 (sha (chain sha i bs @ b))"
  "chain_inputs sha i (bs @ [b]) = insert (chain sha i bs @ b) (chain_inputs sha i bs)"
  by (induction bs arbitrary: i) auto

lemma chain_length: "length i = 16 \<Longrightarrow> length (chain sha i bs) = 16"
  by (induction bs arbitrary: i) simp_all

lemma chain_inject:
  assumes "inj_on (\<lambda>x. take16 (sha x)) I" and "N \<inter> P = {}" and "N \<union> P \<subseteq> I" and "x \<in> N" and "y \<in> N"
    and "chain_inputs sha (take16 (sha x)) bs \<subseteq> P" and "chain_inputs sha (take16 (sha y)) cs \<subseteq> P"
    and "list_all (\<lambda>b. length b = 16) bs" and "list_all (\<lambda>b. length b = 16) cs"
    and "chain sha (take16 (sha x)) bs = chain sha (take16 (sha y)) cs"
  shows "x = y \<and> bs = cs"
  using assms(6-)
proof (induction bs arbitrary: cs rule: rev_induct)
  case Nil
  show ?case
  proof (cases cs rule: rev_cases)
    case Nil
    with Nil.prems assms(1-5) show ?thesis by (auto dest: inj_onD)
  next
    case (snoc cs' c)
    then have "take16 (sha x) = take16 (sha (chain sha (take16 (sha y)) cs' @ c))"
      using Nil.prems by (simp add: chain_snoc)
    moreover have "chain sha (take16 (sha y)) cs' @ c \<in> P" using snoc Nil.prems by (simp add: chain_snoc)
    ultimately have "x \<in> P" using assms(1,3,4) by (metis Un_iff inj_on_def subsetD)
    with assms(2,4) show ?thesis by blast
  qed
next
  case (snoc b bs)
  have b: "chain sha (take16 (sha x)) bs @ b \<in> P" using snoc.prems by (simp add: chain_snoc)
  show ?case
  proof (cases cs rule: rev_cases)
    case Nil
    then have "take16 (sha y) = take16 (sha (chain sha (take16 (sha x)) bs @ b))"
      using snoc.prems by (simp add: chain_snoc)
    then have "y \<in> P" using assms(1,3,5) b by (metis Un_iff inj_on_def subsetD)
    with assms(2,5) show ?thesis by blast
  next
    case cs: (snoc cs' c)
    have c: "chain sha (take16 (sha y)) cs' @ c \<in> P" using cs snoc.prems by (simp add: chain_snoc)
    have "take16 (sha (chain sha (take16 (sha x)) bs @ b)) = take16 (sha (chain sha (take16 (sha y)) cs' @ c))"
      using cs snoc.prems by (simp add: chain_snoc)
    then have "chain sha (take16 (sha x)) bs @ b = chain sha (take16 (sha y)) cs' @ c"
      using assms(1,3) b c by (metis Un_iff inj_on_def subsetD)
    then have "chain sha (take16 (sha x)) bs = chain sha (take16 (sha y)) cs'" and "b = c"
      by (simp_all add: chain_length)
    with cs snoc show ?thesis by (simp add: chain_snoc)
  qed
qed

lemma be_bytes_word:
  fixes x y :: "'w::len word"
  assumes "LENGTH('w) = 8 * n"
  shows "be_bytes n (unat x) = be_bytes n (unat y) \<longleftrightarrow> x = y"
proof -
  have "unat w < 256 ^ n" for w :: "'w word"
    using unsigned_less [of w, where 'a = nat] assms by (simp add: power_mult)
  then show ?thesis by (simp add: be_bytes_inject word_unat_eq_iff)
qed

lemma const_bytes_inject: "const_kind c = const_kind d \<Longrightarrow> const_bytes c = const_bytes d \<Longrightarrow> c = d"
  by (cases c; cases d) (auto simp: be_bytes_word split: if_splits)

lemma param_blobs_length: "list_all (\<lambda>b. length b = 16) (param_blobs sha ps)"
proof (induction ps)
  case (Cons p ps)
  then show ?case by (cases p) (simp_all add: derived_id_length)
qed simp

lemma params_cases:
  obtains "qs = []" | qs' where "qs = ParamLifetime # qs'" | u qs' where "qs = ParamType u # qs'"
    | d qs' where "qs = ParamConst d # qs'"
  by (metis list.exhaust type_param.exhaust)

lemma derived_type_id_inject:
  assumes "inj_on (\<lambda>x. take16 (sha x)) (N \<union> P \<union> C)" and "N \<inter> P = {}"
  shows "type_ok decl t \<Longrightarrow> type_ok decl u \<Longrightarrow> hashed_names t \<union> hashed_names u \<subseteq> N \<Longrightarrow>
      hashed_pairs sha t \<union> hashed_pairs sha u \<subseteq> P \<Longrightarrow> hashed_consts t \<union> hashed_consts u \<subseteq> C \<Longrightarrow>
      derived_type_id sha t = derived_type_id sha u \<Longrightarrow> t = u"
    and "params_ok decl ps \<Longrightarrow> params_ok decl qs \<Longrightarrow> map kind_of ps = map kind_of qs \<Longrightarrow>
      param_names ps \<union> param_names qs \<subseteq> N \<Longrightarrow> param_pairs sha ps \<union> param_pairs sha qs \<subseteq> P \<Longrightarrow>
      param_consts ps \<union> param_consts qs \<subseteq> C \<Longrightarrow> param_blobs sha ps = param_blobs sha qs \<Longrightarrow> ps = qs"
proof (induction decl t and decl ps arbitrary: u and qs rule: type_ok_params_ok.induct)
  case (1 decl name params)
  obtain name' params' where u: "u = TypeTerm name' params'" by (cases u)
  have eq: "chain sha (take16 (sha (utf8_bytes name))) (param_blobs sha params) =
      chain sha (take16 (sha (utf8_bytes name'))) (param_blobs sha params')"
    using arg_cong [OF 1(7), of as_bytes] by (simp add: u combines_chain from_stable_type_name_def)
  have names: "utf8_bytes name \<in> N" "utf8_bytes name' \<in> N"
    and pairs: "chain_inputs sha (take16 (sha (utf8_bytes name))) (param_blobs sha params) \<subseteq> P"
      "chain_inputs sha (take16 (sha (utf8_bytes name'))) (param_blobs sha params') \<subseteq> P"
    using 1(4,5) by (simp_all add: u)
  have "utf8_bytes name = utf8_bytes name' \<and> param_blobs sha params = param_blobs sha params'"
    by (rule chain_inject [OF assms(1,2) _ names pairs param_blobs_length param_blobs_length eq]) simp
  moreover from this have "params = params'" using 1 by (intro 1(1)) (simp_all add: u utf8_bytes_inject)
  ultimately show ?case by (simp add: u utf8_bytes_inject)
next
  case (2 decl)
  then show ?case by simp
next
  case (3 decl ps)
  obtain qs' where qs: "qs = ParamLifetime # qs'"
    using 3(4) by (cases qs rule: params_cases) auto
  have "ps = qs'" using 3(2-8) by (intro 3(1)) (simp_all add: qs)
  then show ?case by (simp add: qs)
next
  case (4 decl t ps)
  obtain u qs' where qs: "qs = ParamType u # qs'"
    using 4(5) by (cases qs rule: params_cases) auto
  have "derived_type_id sha t = derived_type_id sha u" using 4(9) by (simp add: qs stable_type_id.expand)
  then have "t = u" using 4(3-9) by (intro 4(1)) (simp_all add: qs)
  moreover have "ps = qs'" using 4(3-9) by (intro 4(2)) (simp_all add: qs)
  ultimately show ?case by (simp add: qs)
next
  case (5 decl c ps)
  obtain d qs' where qs: "qs = ParamConst d # qs'"
    using 5(4) by (cases qs rule: params_cases) auto
  have "const_bytes c \<in> N \<union> P \<union> C" and "const_bytes d \<in> N \<union> P \<union> C" using 5(7) by (simp_all add: qs)
  moreover have "take16 (sha (const_bytes c)) = take16 (sha (const_bytes d))" using 5(8) by (simp add: qs)
  ultimately have "const_bytes c = const_bytes d" using inj_onD [OF assms(1)] by blast
  then have "c = d" using 5(4) by (intro const_bytes_inject) (simp_all add: qs)
  moreover have "ps = qs'" using 5(2-8) by (intro 5(1)) (simp_all add: qs)
  ultimately show ?case by (simp add: qs)
qed

section \<open>SHA-256\<close>

text \<open>The algorithm of the standard, on words of 32 bits.\<close>

type_synonym w32 = "32 word"

text \<open>The constants are the first 32 bits behind the point of the cube and square roots of the first primes.\<close>

fun root_bits :: "nat \<Rightarrow> int \<Rightarrow> int list \<Rightarrow> int \<Rightarrow> int" where
  "root_bits d n [] r = r"
| "root_bits d n (b # bs) r = root_bits d n bs (if (r + b) ^ d \<le> n then r + b else r)"

definition primes_below :: "int \<Rightarrow> int list" where
  "primes_below n = filter (\<lambda>p. list_all (\<lambda>d. p mod d \<noteq> 0) [2..p - 1]) [2..n - 1]"

definition fraction_bits :: "nat \<Rightarrow> int \<Rightarrow> w32" where
  "fraction_bits d p = word_of_int (root_bits d (p * 2 ^ (32 * d)) (rev (map (\<lambda>k. 2 ^ k) [0..<37])) 0)"

definition sha_K :: "w32 list" where
  "sha_K = map (fraction_bits 3) (primes_below 312)"

definition sha_H :: "w32 list" where
  "sha_H = map (fraction_bits 2) (primes_below 20)"

definition rotr :: "nat \<Rightarrow> w32 \<Rightarrow> w32" where
  "rotr n x = drop_bit n x OR push_bit (32 - n) x"

fun sha_round :: "w32 \<Rightarrow> w32 \<Rightarrow> w32 list \<Rightarrow> w32 list" where
  "sha_round k w [a, b, c, d, e, f, g, h] =
     (let t1 = h + (rotr 6 e XOR rotr 11 e XOR rotr 25 e) + ((e AND f) XOR (NOT e AND g)) + k + w;
          t2 = (rotr 2 a XOR rotr 13 a XOR rotr 22 a) + ((a AND b) XOR (a AND c) XOR (b AND c))
      in [t1 + t2, a, b, c, d + t1, e, f, g])"
| "sha_round k w s = s"

definition sha_extend :: "w32 list \<Rightarrow> w32 list" where
  "sha_extend w =
     (let s0 = rotr 7 (w ! 1) XOR rotr 18 (w ! 1) XOR drop_bit 3 (w ! 1);
          s1 = rotr 17 (w ! 14) XOR rotr 19 (w ! 14) XOR drop_bit 10 (w ! 14)
      in tl w @ [w ! 0 + s0 + w ! 9 + s1])"

fun sha_rounds :: "w32 list \<Rightarrow> w32 list \<Rightarrow> w32 list \<Rightarrow> w32 list" where
  "sha_rounds [] w s = s"
| "sha_rounds (k # ks) w s = sha_rounds ks (sha_extend w) (sha_round k (w ! 0) s)"

fun sha_words :: "bytes \<Rightarrow> w32 list" where
  "sha_words (a # b # c # d # r) =
     (push_bit 24 (ucast a) OR push_bit 16 (ucast b) OR push_bit 8 (ucast c) OR ucast d) # sha_words r"
| "sha_words r = []"

definition sha_bytes :: "w32 \<Rightarrow> bytes" where
  "sha_bytes w = [ucast (drop_bit 24 w), ucast (drop_bit 16 w), ucast (drop_bit 8 w), ucast w]"

definition sha_block :: "bytes \<Rightarrow> w32 list \<Rightarrow> w32 list" where
  "sha_block block s = map2 (+) s (sha_rounds sha_K (sha_words block) s)"

definition sha_pad :: "bytes \<Rightarrow> bytes" where
  "sha_pad bs = bs @ [0x80] @ replicate ((119 - length bs mod 64) mod 64) 0 @ be_bytes 8 (8 * length bs)"

definition sha256 :: "bytes \<Rightarrow> bytes" where
  "sha256 bs =
     (let p = sha_pad bs in concat (map sha_bytes (fold sha_block (chunks 64 (length p div 64) p) sha_H)))"

lemma sha_round_length: "length (sha_round k w s) = length s"
  by (induction k w s rule: sha_round.induct) (simp_all add: Let_def)

lemma sha_rounds_length: "length (sha_rounds ks w s) = length s"
  by (induction ks w s rule: sha_rounds.induct) (simp_all add: sha_round_length)

lemma sha_blocks_length: "length (fold sha_block blocks s) = length s"
  by (induction blocks arbitrary: s) (simp_all add: sha_block_def sha_rounds_length)

interpretation sha256: digest sha256
proof
  fix bs
  have "length (concat (map sha_bytes s)) = 4 * length s" for s by (induction s) (simp_all add: sha_bytes_def)
  then show "length (sha256 bs) = 32" by (simp add: sha256_def Let_def sha_blocks_length sha_H_def primes_below_def upto_rec1)
qed

section \<open>Properties\<close>

text \<open>C40. Different types have different identifiers: let two types use every name with the parameters it is declared with.
  If they differ and the digest does not collide on what is hashed for the two, and no
  name happens to be the concatenation of two identifiers, their identifiers
  differ, as bytes and as numbers of 128 bits. Generic parameters count, in their order; lifetimes do not.\<close>

theorem type_ids_distinct:
  assumes "type_ok decl t" and "type_ok decl u" and "t \<noteq> u"
    and "inj_on (\<lambda>x. take16 (sha x)) (hashed_names t \<union> hashed_names u \<union> (hashed_pairs sha t \<union> hashed_pairs sha u) \<union>
      (hashed_consts t \<union> hashed_consts u))"
    and "(hashed_names t \<union> hashed_names u) \<inter> (hashed_pairs sha t \<union> hashed_pairs sha u) = {}"
  shows "derived_type_id sha t \<noteq> derived_type_id sha u \<and> as_u128 (derived_type_id sha t) \<noteq> as_u128 (derived_type_id sha u)"
  using derived_type_id_inject(1) [OF assms(4,5,1,2)] assms(3) by (auto simp: as_u128_inject derived_id_length)

theorem type_ids_distinct_witness:
  "derived_type_id (\<lambda>bs. take 32 (word_of_nat (length bs) # bs @ replicate 32 0)) (TypeTerm ''A'' []) \<noteq>
   derived_type_id (\<lambda>bs. take 32 (word_of_nat (length bs) # bs @ replicate 32 0)) (TypeTerm ''B'' [ParamType (TypeTerm ''A'' [])])"
proof -
  let ?sha = "\<lambda>bs :: bytes. take 32 (word_of_nat (length bs) # bs @ replicate 32 0)"
  let ?t = "TypeTerm ''A'' []" and ?u = "TypeTerm ''B'' [ParamType (TypeTerm ''A'' [])]"
  have bytes: "utf8_bytes ''A'' = [65]" "utf8_bytes ''B'' = [66]" by (simp_all add: utf8_bytes_def char_utf8_def)
  have hash: "take16 (?sha [65]) = [1, 65, 0, 0, 0, 0, 0, 0, 0, 0, 0, 0, 0, 0, 0, 0]"
    "take16 (?sha [66]) = [1, 66, 0, 0, 0, 0, 0, 0, 0, 0, 0, 0, 0, 0, 0, 0]"
    by (simp_all add: take16_def)
  let ?decl = "\<lambda>n. if n = ''B'' then [KType] else []"
  have "type_ok ?decl ?t" "type_ok ?decl ?u" "?t \<noteq> ?u" by simp_all
  moreover have "inj_on (\<lambda>x. take16 (?sha x)) (hashed_names ?t \<union> hashed_names ?u \<union> (hashed_pairs ?sha ?t \<union> hashed_pairs ?sha ?u) \<union>
      (hashed_consts ?t \<union> hashed_consts ?u))"
    by (simp add: bytes hash from_stable_type_name_def inj_on_def, simp add: take16_def)
  moreover have "(hashed_names ?t \<union> hashed_names ?u) \<inter> (hashed_pairs ?sha ?t \<union> hashed_pairs ?sha ?u) = {}"
    by (simp add: bytes from_stable_type_name_def, simp add: take16_def)
  ultimately show ?thesis using type_ids_distinct [of ?decl ?t ?u ?sha] by blast
qed

context digest
begin

lemma type_name_prefix: "as_bytes (from_stable_type_name sha name) = take 16 (sha (utf8_bytes name))"
  by (simp add: from_stable_type_name_def take16_take digest_length)

lemma combine_prefix: "as_bytes (combine sha self other) = take 16 (sha (as_bytes self @ other))"
  by (simp add: combine_def take16_take digest_length)

end

lemma smart_pointer_ids:
  "box_type_id sha (derived_type_id sha t) = derived_type_id sha (TypeTerm ''alloc::boxed::Box'' [ParamType t])"
  "arc_type_id sha (derived_type_id sha t) = derived_type_id sha (TypeTerm ''alloc::sync::Arc'' [ParamType t])"
  by (simp_all add: box_type_id_def arc_type_id_def)

lemma lifetimes_ignored: "combines sha (ps @ ParamLifetime # qs) self = combines sha (ps @ qs) self"
  by (induction ps arbitrary: self) (simp_all, metis combines.simps(2-4) type_param.exhaust)

text \<open>The number of 64 bits is the upper half of the number of 128 bits.\<close>

lemma as_u64_upper_half:
  assumes "length (as_bytes x) = 16"
  shows "unat (as_u64 x) = unat (as_u128 x) div 2 ^ 64"
proof -
  obtain hi lo where x: "as_bytes x = hi @ lo" and l: "length hi = 8" "length lo = 8"
    by (rule that [of "take 8 (as_bytes x)" "drop 8 (as_bytes x)"]) (use assms in simp_all)
  have hi: "be_nat hi < 2 ^ 64" and lo: "be_nat lo < 2 ^ 64"
    using le_nat_less [of "rev hi"] le_nat_less [of "rev lo"] l by (simp_all add: be_nat_def)
  have full: "be_nat (as_bytes x) = be_nat lo + 2 ^ 64 * be_nat hi"
    using l by (simp add: x be_nat_def le_nat_append)
  have "unat (as_u128 x) = be_nat (as_bytes x)"
    using hi lo by (simp only: as_u128_def unat_of_nat full) simp
  moreover have "(be_nat lo + 2 ^ 64 * be_nat hi) div 2 ^ 64 = be_nat hi" using lo by simp
  moreover have "map ((!) (as_bytes x)) [0, 1, 2, 3, 4, 5, 6, 7] = hi"
  proof -
    have "[0..<8] = [0, 1, 2, 3, 4, 5, 6, 7]" by (simp add: upt_rec)
    moreover have "map ((!) (as_bytes x)) [0..<8] = hi" using l by (intro nth_equalityI) (simp_all add: x nth_append)
    ultimately show ?thesis by (simp only:)
  qed
  ultimately show ?thesis
    using hi by (simp only: as_u64_def full unat_of_nat) simp
qed

text \<open>A single integer passes through the hasher; a second one replaces it, or unwinds when debug
  assertions are on and the first was not zero.\<close>

lemma nop_hasher_single:
  "nop_write debug (n :: u64) nop_default = Ret \<lparr>nh_hash = n\<rparr>"
  "nop_write debug (m :: u64) \<lparr>nh_hash = n\<rparr> =
     (if debug \<and> n \<noteq> 0 then Panic ''assertion `left == right` failed'' else Ret \<lparr>nh_hash = m\<rparr>)"
  by (simp_all add: nop_write_def nop_default_def)

end
