(* ===== verification/Control_Ids.thy ===== *)
theory Control_Ids
  imports Type_Id
begin

text \<open>
  The identifiers of the messages every actor understands: the impls of \<open>StableId\<close> that \<open>acktor/src/signal.rs\<close>, \<open>cron.rs\<close>,
  \<open>supervisor.rs\<close> and \<open>observer.rs\<close> write by hand, and of \<open>MessageId\<close> in \<open>acktor/src/message/index.rs\<close>. They are what the macro would
  have derived.
\<close>

definition signal_type_id :: "(bytes \<Rightarrow> bytes) \<Rightarrow> stable_type_id" where
  "signal_type_id sha = from_stable_type_name sha (''acktor::signal'' @ ''::'' @ ''Signal'')"

definition cron_signal_type_id :: "(bytes \<Rightarrow> bytes) \<Rightarrow> stable_type_id" where
  "cron_signal_type_id sha = from_stable_type_name sha (''acktor::cron'' @ ''::'' @ ''CronSignal'')"

definition supervisor_type_id :: "(bytes \<Rightarrow> bytes) \<Rightarrow> stable_type_id \<Rightarrow> stable_type_id" where
  "supervisor_type_id sha actor =
     combine sha (from_stable_type_name sha (''acktor::supervisor'' @ ''::'' @ ''Supervisor'')) (as_bytes actor)"

definition supervision_event_type_id :: "(bytes \<Rightarrow> bytes) \<Rightarrow> stable_type_id \<Rightarrow> stable_type_id" where
  "supervision_event_type_id sha actor =
     combine sha (from_stable_type_name sha (''acktor::supervisor'' @ ''::'' @ ''SupervisionEvent'')) (as_bytes actor)"

definition observer_type_id :: "(bytes \<Rightarrow> bytes) \<Rightarrow> stable_type_id \<Rightarrow> stable_type_id" where
  "observer_type_id sha event =
     combine sha (from_stable_type_name sha (''acktor::observer'' @ ''::'' @ ''Observer'')) (as_bytes event)"

datatype control_message =
  MsgSignal | MsgCronSignal | MsgSupervisor type_term | MsgSupervisionEvent type_term | MsgObserver type_term

fun control_type_id :: "(bytes \<Rightarrow> bytes) \<Rightarrow> control_message \<Rightarrow> stable_type_id" where
  "control_type_id sha MsgSignal = signal_type_id sha"
| "control_type_id sha MsgCronSignal = cron_signal_type_id sha"
| "control_type_id sha (MsgSupervisor actor) = supervisor_type_id sha (derived_type_id sha actor)"
| "control_type_id sha (MsgSupervisionEvent actor) = supervision_event_type_id sha (derived_type_id sha actor)"
| "control_type_id sha (MsgObserver event) = observer_type_id sha (derived_type_id sha event)"

definition control_message_id :: "(bytes \<Rightarrow> bytes) \<Rightarrow> control_message \<Rightarrow> u64" where
  "control_message_id sha msg = as_u64 (control_type_id sha msg)"

section \<open>As types with parameters\<close>

fun control_term :: "control_message \<Rightarrow> type_term" where
  "control_term MsgSignal = TypeTerm ''acktor::signal::Signal'' []"
| "control_term MsgCronSignal = TypeTerm ''acktor::cron::CronSignal'' []"
| "control_term (MsgSupervisor actor) = TypeTerm ''acktor::supervisor::Supervisor'' [ParamType actor]"
| "control_term (MsgSupervisionEvent actor) = TypeTerm ''acktor::supervisor::SupervisionEvent'' [ParamType actor]"
| "control_term (MsgObserver event) = TypeTerm ''acktor::observer::Observer'' [ParamType event]"

lemmas control_id_defs = signal_type_id_def cron_signal_type_id_def supervisor_type_id_def supervision_event_type_id_def
  observer_type_id_def

lemma control_ids_derived: "control_type_id sha msg = derived_type_id sha (control_term msg)"
  by (cases msg) (simp_all add: control_id_defs)

lemma control_message_ids_derived: "control_message_id sha msg = derived_message_id sha None (control_term msg)"
  by (simp add: control_message_id_def derived_message_id_def control_ids_derived)

lemma control_term_inject: "control_term x = control_term y \<longleftrightarrow> x = y"
  by (cases x; cases y) auto

text \<open>So the control messages differ from each other, for different actors and events too, and from every other
  type, unless the digest collides on what is hashed for them.\<close>

lemma control_ids_distinct:
  assumes "type_ok decl (control_term x)" and "type_ok decl u" and "control_term x \<noteq> u"
    and "inj_on (\<lambda>z. take16 (sha z)) (hashed_names (control_term x) \<union> hashed_names u \<union>
      (hashed_pairs sha (control_term x) \<union> hashed_pairs sha u) \<union> (hashed_consts (control_term x) \<union> hashed_consts u))"
    and "(hashed_names (control_term x) \<union> hashed_names u) \<inter> (hashed_pairs sha (control_term x) \<union> hashed_pairs sha u) = {}"
  shows "control_type_id sha x \<noteq> derived_type_id sha u"
  using derived_type_id_inject(1) [OF assms(4,5,1,2)] assms(3) by (auto simp: control_ids_derived)

end
