(* ===== verification/Derived_Codec.thy ===== *)
theory Derived_Codec
  imports Control_Codec
begin

text \<open>
  The code that \<open>derive(Encode)\<close> and \<open>derive(Decode)\<close> write for a type (\<open>acktor-derive/src/encode.rs\<close>,
  \<open>decode.rs\<close>): one template for each of \<open>prost\<close>, \<open>serde_json\<close>, \<open>zerocopy\<close> and \<open>rkyv\<close>, on the type itself or
  through a bridge type it is converted to and from. The four libraries are parameters; what is relied on is the length
  that \<open>prost\<close> and \<open>zerocopy\<close> announce. Whether a value is read back is asked of the library value by value.
\<close>

section \<open>The libraries\<close>

datatype codec_method = Prost | SerdeJson | Zerocopy | Rkyv

text \<open>\<open>prost\<close> is \<open>pm_ops\<close> of theory \<open>Wire\<close>. \<open>rkyv\<close> reads in place, so it depends on the address.\<close>

record 'b json_ops =
  js_to_vec :: "'b \<Rightarrow> (bytes, box_error) result"
  js_from_slice :: "bytes \<Rightarrow> ('b, box_error) result"

record 'b zerocopy_ops =
  zo_size_of :: nat
  zo_as_bytes :: "'b \<Rightarrow> bytes"
  zo_read_from_bytes :: "bytes \<Rightarrow> ('b, string) result"

record 'b rkyv_ops =
  rk_to_bytes :: "'b \<Rightarrow> (bytes, box_error) result"
  rk_from_bytes :: "buf \<Rightarrow> ('b, box_error) result"

text \<open>An impl of \<open>Encode\<close>, with the \<open>encode_to_bytes\<close> it brings along, and of \<open>Decode\<close>.\<close>

record ('a, 'ec, 'dc) derived_impl =
  dv_codec :: "('a, 'ec, 'dc) codec"
  dv_to_bytes :: "'a \<Rightarrow> 'ec \<Rightarrow> (bytes, encode_error) result \<times> 'ec"

section \<open>The templates\<close>

text \<open>Filling a buffer through the type's own \<open>encode\<close>.\<close>

definition to_bytes_by_encode ::
  "('a \<Rightarrow> 'ec \<Rightarrow> bytes \<Rightarrow> (unit, encode_error) result \<times> 'ec \<times> bytes) \<Rightarrow> 'a \<Rightarrow> 'ec \<Rightarrow> (bytes, encode_error) result \<times> 'ec" where
  "to_bytes_by_encode enc self ctx =
     (case enc self ctx [] of
        (Ok _, ctx', buf) \<Rightarrow> (Ok buf, ctx')
      | (Err e, ctx', _) \<Rightarrow> (Err e, ctx'))"

definition derive_prost :: "'a pm_ops \<Rightarrow> ('a, 'ec, 'dc) derived_impl" where
  "derive_prost pm =
     \<lparr>dv_codec =
        \<lparr>cd_len = (\<lambda>self. pm_len pm self),
         cd_encode = (\<lambda>self ctx buf. pm_append pm self ctx buf),
         cd_decode = (\<lambda>_ buf. map_err DecodeOther (pm_decode pm (b_bytes buf)))\<rparr>,
      dv_to_bytes = to_bytes_by_encode (\<lambda>self ctx buf. pm_append pm self ctx buf)\<rparr>"

definition derive_prost_bridge ::
  "'b pm_ops \<Rightarrow> ('a \<Rightarrow> 'b) \<Rightarrow> ('b \<Rightarrow> ('a, decode_error) result) \<Rightarrow> ('a, 'ec, 'dc) derived_impl" where
  "derive_prost_bridge pm from try_from =
     \<lparr>dv_codec =
        \<lparr>cd_len = (\<lambda>self. let bridge = from self in pm_len pm bridge),
         cd_encode = (\<lambda>self ctx buf. let bridge = from self in pm_append pm bridge ctx buf),
         cd_decode = (\<lambda>_ buf. case pm_decode pm (b_bytes buf) of
            Err e \<Rightarrow> Err (DecodeOther e)
          | Ok bridge \<Rightarrow> try_from bridge)\<rparr>,
      dv_to_bytes = (\<lambda>self ctx. let bridge = from self in case pm_append pm bridge ctx [] of
         (Err e, ctx', _) \<Rightarrow> (Err e, ctx')
       | (Ok _, ctx', buf) \<Rightarrow> (Ok buf, ctx'))\<rparr>"

definition derive_serde_json :: "'a json_ops \<Rightarrow> ('a, 'ec, 'dc) derived_impl" where
  "derive_serde_json js =
     \<lparr>dv_codec =
        \<lparr>cd_len = (\<lambda>self. case js_to_vec js self of Ok vec \<Rightarrow> length vec | Err _ \<Rightarrow> 0),
         cd_encode = (\<lambda>self ctx buf. case js_to_vec js self of
            Ok vec \<Rightarrow> (Ok (), ctx, buf @ vec)
          | Err err \<Rightarrow> (Err (EncodeOther err), ctx, buf)),
         cd_decode = (\<lambda>_ buf. map_err DecodeOther (js_from_slice js (b_bytes buf)))\<rparr>,
      dv_to_bytes = (\<lambda>self ctx. case js_to_vec js self of
         Ok vec \<Rightarrow> (Ok vec, ctx)
       | Err err \<Rightarrow> (Err (EncodeOther err), ctx))\<rparr>"

definition derive_serde_json_bridge ::
  "'b json_ops \<Rightarrow> ('a \<Rightarrow> 'b) \<Rightarrow> ('b \<Rightarrow> ('a, decode_error) result) \<Rightarrow> ('a, 'ec, 'dc) derived_impl" where
  "derive_serde_json_bridge js from try_from =
     \<lparr>dv_codec =
        \<lparr>cd_len = (\<lambda>self. let bridge = from self in case js_to_vec js bridge of Ok vec \<Rightarrow> length vec | Err _ \<Rightarrow> 0),
         cd_encode = (\<lambda>self ctx buf. let bridge = from self in case js_to_vec js bridge of
            Ok vec \<Rightarrow> (Ok (), ctx, buf @ vec)
          | Err err \<Rightarrow> (Err (EncodeOther err), ctx, buf)),
         cd_decode = (\<lambda>_ buf. case js_from_slice js (b_bytes buf) of
            Ok bridge \<Rightarrow> try_from bridge
          | Err err \<Rightarrow> Err (DecodeOther err))\<rparr>,
      dv_to_bytes = (\<lambda>self ctx. let bridge = from self in case js_to_vec js bridge of
         Ok vec \<Rightarrow> (Ok vec, ctx)
       | Err err \<Rightarrow> (Err (EncodeOther err), ctx))\<rparr>"

definition derive_zerocopy :: "'a zerocopy_ops \<Rightarrow> ('a, 'ec, 'dc) derived_impl" where
  "derive_zerocopy zo =
     (let enc = (\<lambda>self ctx buf. (Ok (), ctx, buf @ zo_as_bytes zo self))
      in \<lparr>dv_codec =
            \<lparr>cd_len = (\<lambda>_. zo_size_of zo),
             cd_encode = enc,
             cd_decode = (\<lambda>_ buf. map_err decode_error_from_str (zo_read_from_bytes zo (b_bytes buf)))\<rparr>,
          dv_to_bytes = to_bytes_by_encode enc\<rparr>)"

definition derive_zerocopy_bridge ::
  "'b zerocopy_ops \<Rightarrow> ('a \<Rightarrow> 'b) \<Rightarrow> ('b \<Rightarrow> ('a, decode_error) result) \<Rightarrow> ('a, 'ec, 'dc) derived_impl" where
  "derive_zerocopy_bridge zo from try_from =
     (let enc = (\<lambda>self ctx buf. let bridge = from self in (Ok (), ctx, buf @ zo_as_bytes zo bridge))
      in \<lparr>dv_codec =
            \<lparr>cd_len = (\<lambda>_. zo_size_of zo),
             cd_encode = enc,
             cd_decode = (\<lambda>_ buf. case zo_read_from_bytes zo (b_bytes buf) of
                Err e \<Rightarrow> Err (decode_error_from_str e)
              | Ok bridge \<Rightarrow> try_from bridge)\<rparr>,
          dv_to_bytes = to_bytes_by_encode enc\<rparr>)"

definition derive_rkyv :: "'a rkyv_ops \<Rightarrow> ('a, 'ec, 'dc) derived_impl" where
  "derive_rkyv rk =
     \<lparr>dv_codec =
        \<lparr>cd_len = (\<lambda>self. case rk_to_bytes rk self of Ok vec \<Rightarrow> length vec | Err _ \<Rightarrow> 0),
         cd_encode = (\<lambda>self ctx buf. case rk_to_bytes rk self of
            Ok vec \<Rightarrow> (Ok (), ctx, buf @ vec)
          | Err err \<Rightarrow> (Err (EncodeOther err), ctx, buf)),
         cd_decode = (\<lambda>_ buf. map_err DecodeOther (rk_from_bytes rk buf))\<rparr>,
      dv_to_bytes = (\<lambda>self ctx. case rk_to_bytes rk self of
         Ok vec \<Rightarrow> (Ok ([] @ vec), ctx)
       | Err err \<Rightarrow> (Err (EncodeOther err), ctx))\<rparr>"

definition derive_rkyv_bridge ::
  "'b rkyv_ops \<Rightarrow> ('a \<Rightarrow> 'b) \<Rightarrow> ('b \<Rightarrow> ('a, decode_error) result) \<Rightarrow> ('a, 'ec, 'dc) derived_impl" where
  "derive_rkyv_bridge rk from try_from =
     \<lparr>dv_codec =
        \<lparr>cd_len = (\<lambda>self. let bridge = from self in case rk_to_bytes rk bridge of Ok vec \<Rightarrow> length vec | Err _ \<Rightarrow> 0),
         cd_encode = (\<lambda>self ctx buf. let bridge = from self in case rk_to_bytes rk bridge of
            Ok vec \<Rightarrow> (Ok (), ctx, buf @ vec)
          | Err err \<Rightarrow> (Err (EncodeOther err), ctx, buf)),
         cd_decode = (\<lambda>_ buf. case rk_from_bytes rk buf of
            Ok bridge \<Rightarrow> try_from bridge
          | Err err \<Rightarrow> Err (DecodeOther err))\<rparr>,
      dv_to_bytes = (\<lambda>self ctx. let bridge = from self in case rk_to_bytes rk bridge of
         Ok vec \<Rightarrow> (Ok ([] @ vec), ctx)
       | Err err \<Rightarrow> (Err (EncodeOther err), ctx))\<rparr>"

lemmas derive_defs = derive_prost_def derive_prost_bridge_def derive_serde_json_def derive_serde_json_bridge_def
  derive_zerocopy_def derive_zerocopy_bridge_def derive_rkyv_def derive_rkyv_bridge_def

section \<open>The lengths that libraries announce\<close>

locale prost_len =
  fixes pm :: "'b pm_ops"
  assumes encoded_len: "pm_encode pm v = Ok bs \<Longrightarrow> length bs = pm_len pm v"

locale zerocopy_len =
  fixes zo :: "'b zerocopy_ops"
  assumes size_of: "length (zo_as_bytes zo v) = zo_size_of zo"

sublocale proto_message \<subseteq> prost_len pm
  by unfold_locales (simp add: roundtrip)

definition zerocopy_word :: "zc_ops \<Rightarrow> 'w::len word zerocopy_ops" where
  "zerocopy_word zc =
     (let size = LENGTH('w) div 8
      in \<lparr>zo_size_of = size, zo_as_bytes = (\<lambda>v. le_bytes size (unat v)),
          zo_read_from_bytes = (\<lambda>bs. map_ok (\<lambda>bs. word_of_nat (le_nat bs)) (zc_read zc size \<lparr>b_addr = 0, b_bytes = bs\<rparr>))\<rparr>)"

interpretation event_len: prost_len event_wire
  by (rule event_wire.prost_len_axioms)

interpretation word_len: zerocopy_len "zerocopy_word zc_std :: u64 zerocopy_ops"
  by unfold_locales (simp add: zerocopy_word_def)

section \<open>Properties\<close>

text \<open>An impl is consistent when its \<open>encode_to_bytes\<close> is the generic one, a successful \<open>encode\<close> appends as many bytes as
  were announced, a failed one appends nothing, and the context is left alone.\<close>

definition consistent :: "('a, 'ec, 'dc) derived_impl \<Rightarrow> bool" where
  "consistent d \<longleftrightarrow>
     (\<forall>v ctx. dv_to_bytes d v ctx = encode_to_bytes (dv_codec d) v ctx) \<and>
     (\<forall>v ctx buf. case cd_encode (dv_codec d) v ctx buf of
        (Ok _, ctx', buf') \<Rightarrow> ctx' = ctx \<and> (\<exists>bs. buf' = buf @ bs \<and> length bs = cd_len (dv_codec d) v)
      | (Err _, ctx', buf') \<Rightarrow> ctx' = ctx \<and> buf' = buf)"

lemma consistentI:
  assumes "\<And>v ctx buf. cd_encode (dv_codec d) v ctx buf =
      (case wr v of Ok bs \<Rightarrow> (Ok (), ctx, buf @ bs) | Err e \<Rightarrow> (Err e, ctx, buf))"
    and "\<And>v ctx. dv_to_bytes d v ctx = (case wr v of Ok bs \<Rightarrow> (Ok bs, ctx) | Err e \<Rightarrow> (Err e, ctx))"
    and "\<And>v bs. wr v = Ok bs \<Longrightarrow> length bs = cd_len (dv_codec d) v"
  shows "consistent d"
  using assms(3) by (auto simp: consistent_def encode_to_bytes_def assms(1,2) split: result.split)

text \<open>Whatever the library does, a derived impl is consistent, as long as \<open>prost\<close> and \<open>zerocopy\<close> announce the right
  length.\<close>

theorem derived_codecs:
  assumes "prost_len pm" and "prost_len pm'" and "zerocopy_len zo" and "zerocopy_len zo'"
  shows "consistent (derive_prost pm) \<and> consistent (derive_prost_bridge pm' from try_from) \<and>
    consistent (derive_serde_json js) \<and> consistent (derive_serde_json_bridge js' from try_from) \<and>
    consistent (derive_zerocopy zo) \<and> consistent (derive_zerocopy_bridge zo' from try_from) \<and>
    consistent (derive_rkyv rk) \<and> consistent (derive_rkyv_bridge rk' from try_from)"
proof (intro conjI)
  show "consistent (derive_prost pm)"
    by (rule consistentI [where wr = "\<lambda>v. map_err EncodeOther (pm_encode pm v)"])
      (auto simp: derive_defs pm_append_def to_bytes_by_encode_def prost_len.encoded_len [OF assms(1)] map_err_case split: result.splits)
  show "consistent (derive_prost_bridge pm' from try_from)"
    by (rule consistentI [where wr = "\<lambda>v. map_err EncodeOther (pm_encode pm' (from v))"])
      (auto simp: derive_defs pm_append_def prost_len.encoded_len [OF assms(2)] map_err_case split: result.splits)
  show "consistent (derive_serde_json js)"
    by (rule consistentI [where wr = "\<lambda>v. map_err EncodeOther (js_to_vec js v)"])
      (auto simp: derive_defs map_err_case split: result.splits)
  show "consistent (derive_serde_json_bridge js' from try_from)"
    by (rule consistentI [where wr = "\<lambda>v. map_err EncodeOther (js_to_vec js' (from v))"])
      (auto simp: derive_defs map_err_case split: result.splits)
  show "consistent (derive_zerocopy zo)"
    by (rule consistentI [where wr = "\<lambda>v. Ok (zo_as_bytes zo v)"])
      (auto simp: derive_defs to_bytes_by_encode_def Let_def zerocopy_len.size_of [OF assms(3)])
  show "consistent (derive_zerocopy_bridge zo' from try_from)"
    by (rule consistentI [where wr = "\<lambda>v. Ok (zo_as_bytes zo' (from v))"])
      (auto simp: derive_defs to_bytes_by_encode_def Let_def zerocopy_len.size_of [OF assms(4)])
  show "consistent (derive_rkyv rk)"
    by (rule consistentI [where wr = "\<lambda>v. map_err EncodeOther (rk_to_bytes rk v)"])
      (auto simp: derive_defs map_err_case split: result.splits)
  show "consistent (derive_rkyv_bridge rk' from try_from)"
    by (rule consistentI [where wr = "\<lambda>v. map_err EncodeOther (rk_to_bytes rk' (from v))"])
      (auto simp: derive_defs map_err_case split: result.splits)
qed

text \<open>A bridge to the type itself changes nothing.\<close>

lemma self_bridge:
  "derive_prost_bridge pm (\<lambda>v. v) Ok = derive_prost pm" "derive_serde_json_bridge js (\<lambda>v. v) Ok = derive_serde_json js"
  "derive_zerocopy_bridge zo (\<lambda>v. v) Ok = derive_zerocopy zo" "derive_rkyv_bridge rk (\<lambda>v. v) Ok = derive_rkyv rk"
  by (auto simp: derive_defs to_bytes_by_encode_def map_err_case Let_def fun_eq_iff split: result.split)

text \<open>A value whose bytes the library reads back is decoded to what the conversion from the bridge makes of it.\<close>

lemma derived_roundtrip:
  "pm_decode pm bs = Ok (from v) \<Longrightarrow> try_from (from v) = Ok w \<Longrightarrow>
     cd_decode (dv_codec (derive_prost_bridge pm from try_from)) dc \<lparr>b_addr = a, b_bytes = bs\<rparr> = Ok w"
  "js_from_slice js bs = Ok (from v) \<Longrightarrow> try_from (from v) = Ok w \<Longrightarrow>
     cd_decode (dv_codec (derive_serde_json_bridge js from try_from)) dc \<lparr>b_addr = a, b_bytes = bs\<rparr> = Ok w"
  "zo_read_from_bytes zo bs = Ok (from v) \<Longrightarrow> try_from (from v) = Ok w \<Longrightarrow>
     cd_decode (dv_codec (derive_zerocopy_bridge zo from try_from)) dc \<lparr>b_addr = a, b_bytes = bs\<rparr> = Ok w"
  "rk_from_bytes rk \<lparr>b_addr = a, b_bytes = bs\<rparr> = Ok (from v) \<Longrightarrow> try_from (from v) = Ok w \<Longrightarrow>
     cd_decode (dv_codec (derive_rkyv_bridge rk from try_from)) dc \<lparr>b_addr = a, b_bytes = bs\<rparr> = Ok w"
  by (simp_all add: derive_defs Let_def)

end
