(* ===== verification/Derive_Attr.thy ===== *)
theory Derive_Attr
  imports Type_Id Derived_Codec
begin

text \<open>
  The front end of the derive macros (\<open>acktor-derive/src\<close>): how the attributes of a type are read, which impls are
  generated for which generic parameters, and when a compile error is. Syntax trees are those of the
  crate \<open>syn\<close>, as far as the macros look into them; its parsers and its printer are the record \<open>syn_ops\<close>. What the
  generated code computes is in the theories \<open>Type_Id\<close>, \<open>Derived_Codec\<close> and \<open>Remote_Handler\<close>.
\<close>

section \<open>Syntax trees\<close>

datatype 't path_segment = Segment (seg_ident: string) (seg_args: "'t list option")

datatype 't syn_path = Path (leading_colon: bool) (segments: "'t path_segment list")

datatype 't syn_type = TypePath "'t list option" "'t syn_path" | TypeOther "'t list"

datatype 't meta = MetaPath "'t syn_path" | MetaList "'t syn_path" "'t list" | MetaNameValue "'t syn_path" "'t list"

datatype 't generic_param = GenericLifetime string | GenericType string "'t list" | GenericConst string "'t syn_type"

datatype 't where_clause = WhereClause (predicates: "'t list list") (trailing_comma: bool)

record 't generics =
  gn_params :: "'t generic_param list"
  gn_where :: "'t where_clause option"

record 't derive_input =
  di_attrs :: "'t meta list"
  di_ident :: string
  di_generics :: "'t generics"

fun meta_path :: "'t meta \<Rightarrow> 't syn_path" where
  "meta_path (MetaPath p) = p"
| "meta_path (MetaList p _) = p"
| "meta_path (MetaNameValue p _) = p"

definition is_ident :: "'t syn_path \<Rightarrow> string \<Rightarrow> bool" where
  "is_ident p name \<longleftrightarrow> \<not> leading_colon p \<and> segments p = [Segment name None]"

text \<open>A compile error: one of \<open>syn\<close>, or a message at the macro call or at a piece of the input.\<close>

datatype 't spanned = AtCallSite | AtAttr "'t meta" | AtIdent string | AtType "'t syn_type" | AtPath "'t syn_path"

datatype ('t, 'pe) syn_error = SynParse 'pe | SynError "'t spanned" string

text \<open>The tokens of a where clause; a predicate is one of the type's own or a bound that the macro adds.\<close>

datatype 't predicate = Declared "'t list" | StableIdBound string

datatype 't where_token = WhereTok | CommaTok | PredTok "'t predicate"

text \<open>An integer literal: its digits in base ten and the suffix that names its type.\<close>

datatype lit_int = LitInt (lit_digits: string) (lit_suffix: string)

record ('t, 'pe) syn_ops =
  sy_ident :: "'t list \<Rightarrow> (string \<times> 't list, 'pe) result"
  sy_peek_comma :: "'t list \<Rightarrow> bool"
  sy_comma :: "'t list \<Rightarrow> ('t list, 'pe) result"
  sy_type :: "'t list \<Rightarrow> ('t syn_type \<times> 't list, 'pe) result"
  sy_types :: "'t list \<Rightarrow> ('t syn_type list, 'pe) result"
  sy_lit_int :: "'t list \<Rightarrow> (lit_int \<times> 't list, 'pe) result"
  sy_base10_u64 :: "lit_int \<Rightarrow> (u64, 'pe) result"
  sy_end :: "'t list \<Rightarrow> (unit, 'pe) result"
  sy_no_list :: "'t meta \<Rightarrow> 'pe"
  sy_where :: "'t where_clause \<Rightarrow> 't where_token list"

text \<open>\<open>parse_args\<close> runs a parser on the arguments of an attribute and refuses what is left over.\<close>

definition parse_args ::
  "('t, 'pe) syn_ops \<Rightarrow> ('t list \<Rightarrow> ('v \<times> 't list, 'pe) result) \<Rightarrow> 't list \<Rightarrow> ('v, ('t, 'pe) syn_error) result" where
  "parse_args ops p input =
     (case p input of
        Err e \<Rightarrow> Err (SynParse e)
      | Ok (v, rest) \<Rightarrow> (case sy_end ops rest of Err e \<Rightarrow> Err (SynParse e) | Ok _ \<Rightarrow> Ok v))"

definition find_attr :: "string \<Rightarrow> 't derive_input \<Rightarrow> 't meta option" where
  "find_attr name ast = find (\<lambda>attr. is_ident (meta_path attr) name) (di_attrs ast)"

section \<open>Attributes\<close>

record 't codec_config =
  cc_method :: codec_method
  cc_bridge :: "'t syn_type option"

definition codec_args_parse ::
  "('t, 'pe) syn_ops \<Rightarrow> 't list \<Rightarrow> ((string \<times> 't syn_type option) \<times> 't list, 'pe) result" where
  "codec_args_parse ops input =
     (case sy_ident ops input of
        Err e \<Rightarrow> Err e
      | Ok (ident, input1) \<Rightarrow>
          if sy_peek_comma ops input1
          then (case sy_comma ops input1 of
                  Err e \<Rightarrow> Err e
                | Ok input2 \<Rightarrow>
                    (case sy_type ops input2 of
                       Err e \<Rightarrow> Err e
                     | Ok (bridge, rest) \<Rightarrow> Ok ((ident, Some bridge), rest)))
          else Ok ((ident, None), input1))"

fun is_self_type :: "'t syn_type \<Rightarrow> string \<Rightarrow> bool" where
  "is_self_type (TypePath None path) name \<longleftrightarrow> is_ident path name"
| "is_self_type _ name \<longleftrightarrow> False"

definition method_of_ident :: "string \<Rightarrow> codec_method option" where
  "method_of_ident ident =
     (if ident = ''prost'' then Some Prost
      else if ident = ''serde_json'' then Some SerdeJson
      else if ident = ''zerocopy'' then Some Zerocopy
      else if ident = ''rkyv'' then Some Rkyv
      else None)"

definition detect_codec_config ::
  "('t, 'pe) syn_ops \<Rightarrow> 't derive_input \<Rightarrow> ('t codec_config, ('t, 'pe) syn_error) result" where
  "detect_codec_config ops ast =
     (case find_attr ''codec'' ast of
        None \<Rightarrow> Err (SynError AtCallSite ''missing required attribute `#[codec(method)]`, where `method` is one of `prost`, `serde_json`, `zerocopy`, `rkyv`, optionally followed by a bridge type: `#[codec(method, Bridge)]`'')
      | Some (MetaList _ toks) \<Rightarrow>
          (case parse_args ops (codec_args_parse ops) toks of
             Err e \<Rightarrow> Err e
           | Ok (ident, bridge) \<Rightarrow>
               (case method_of_ident ident of
                  None \<Rightarrow> Err (SynError (AtIdent ident) ''unknown codec method, expected one of: `prost`, `serde_json`, `zerocopy`, `rkyv`'')
                | Some backend \<Rightarrow>
                    (case bridge of
                       Some b \<Rightarrow>
                         if is_self_type b (di_ident ast)
                         then Err (SynError (AtType b) ''bridge type must differ from the derived type'')
                         else Ok \<lparr>cc_method = backend, cc_bridge = bridge\<rparr>
                     | None \<Rightarrow> Ok \<lparr>cc_method = backend, cc_bridge = bridge\<rparr>)))
      | Some attr \<Rightarrow> Err (SynError (AtAttr attr) ''the correct syntax is `#[codec(method)]` or `#[codec(method, Bridge)]`''))"

definition get_result_type ::
  "('t, 'pe) syn_ops \<Rightarrow> 't derive_input \<Rightarrow> ('t syn_type, ('t, 'pe) syn_error) result" where
  "get_result_type ops ast =
     (case find_attr ''result_type'' ast of
        None \<Rightarrow> Err (SynError AtCallSite ''missing required attribute `#[result_type(T)]`'')
      | Some (MetaList _ toks) \<Rightarrow> parse_args ops (sy_type ops) toks
      | Some attr \<Rightarrow> Err (SynError (AtAttr attr) ''the correct syntax is `#[result_type(T)]`''))"

definition get_custom_id ::
  "('t, 'pe) syn_ops \<Rightarrow> 't derive_input \<Rightarrow> (lit_int option, ('t, 'pe) syn_error) result" where
  "get_custom_id ops ast =
     (case find_attr ''custom_id'' ast of
        None \<Rightarrow> Ok None
      | Some (MetaList _ toks) \<Rightarrow>
          (case parse_args ops (sy_lit_int ops) toks of
             Err e \<Rightarrow> Err e
           | Ok lit \<Rightarrow> (case sy_base10_u64 ops lit of Err e \<Rightarrow> Err (SynParse e) | Ok _ \<Rightarrow> Ok (Some lit)))
      | Some attr \<Rightarrow> Err (SynError (AtAttr attr) ''the correct syntax is `#[custom_id(<u64 value>)]`''))"

definition parse_message_list ::
  "('t, 'pe) syn_ops \<Rightarrow> 't derive_input \<Rightarrow> ('t syn_type list, ('t, 'pe) syn_error) result" where
  "parse_message_list ops ast =
     (case find_attr ''message'' ast of
        None \<Rightarrow> Err (SynError AtCallSite ''`#[derive(RemoteAddressable)]` requires a `#[message(..)]` attribute listing at least one message type'')
      | Some attr \<Rightarrow>
          (case (case attr of MetaList _ toks \<Rightarrow> sy_types ops toks | _ \<Rightarrow> Err (sy_no_list ops attr)) of
             Err e \<Rightarrow> Err (SynParse e)
           | Ok tys \<Rightarrow>
               if tys = [] then Err (SynError (AtAttr attr) ''`#[message(..)]` requires at least one message type'')
               else Ok tys))"

section \<open>Generated code\<close>

text \<open>How the bytes of a const parameter are written: \<open>N.to_be_bytes()\<close>, after a cast, or as a byte.\<close>

datatype const_cast = ToBeBytes | AsU64 | AsI64 | AsU8 | AsU32

datatype combine_call = CombineType string | CombineConst const_cast string

text \<open>The parameters of an impl: the declared ones and the two that \<open>MessageResponse\<close> adds.\<close>

datatype 't impl_param = Param "'t generic_param" | ActorParam string | MessageParam string "'t generic_param list"

datatype 't impl_body =
  ResultBody "'t syn_type"
| ResponseBody
| CustomIdBody lit_int
| TypeIdBody
| StableIdBody string "combine_call list"
| EncodeBody "'t codec_config"
| DecodeBody "'t codec_config"
| RemoteAddressableBody
| CodecTableBody "'t syn_type list"
| BinaryHandlerBody "'t syn_type list"

record 't impl_item =
  im_trait :: string
  im_params :: "'t impl_param list"
  im_name :: string
  im_args :: "'t generic_param list"
  im_where :: "'t where_token list"
  im_body :: "'t impl_body"

datatype ('t, 'pe) gen_item = CompileError "('t, 'pe) syn_error" | ImplItem "'t impl_item" | UniquenessCheck "'t syn_type list"

definition where_tokens :: "('t, 'pe) syn_ops \<Rightarrow> 't where_clause option \<Rightarrow> 't where_token list" where
  "where_tokens ops wc = (case wc of Some w \<Rightarrow> sy_where ops w | None \<Rightarrow> [])"

text \<open>An impl with the generics of the type, as \<open>split_for_impl\<close> gives them.\<close>

definition impl_for :: "string \<Rightarrow> 't derive_input \<Rightarrow> 't where_token list \<Rightarrow> 't impl_body \<Rightarrow> 't impl_item" where
  "impl_for tr ast wtoks body =
     \<lparr>im_trait = tr, im_params = map Param (gn_params (di_generics ast)), im_name = di_ident ast,
      im_args = gn_params (di_generics ast), im_where = wtoks, im_body = body\<rparr>"

definition plain_where :: "('t, 'pe) syn_ops \<Rightarrow> 't derive_input \<Rightarrow> 't where_token list" where
  "plain_where ops ast = where_tokens ops (gn_where (di_generics ast))"

definition message_expand :: "('t, 'pe) syn_ops \<Rightarrow> 't derive_input \<Rightarrow> ('t, 'pe) gen_item list" where
  "message_expand ops ast =
     (case get_result_type ops ast of
        Err err \<Rightarrow> [CompileError err]
      | Ok ty \<Rightarrow> [ImplItem (impl_for ''Message'' ast (plain_where ops ast) (ResultBody ty))])"

definition message_response_expand :: "('t, 'pe) syn_ops \<Rightarrow> 't derive_input \<Rightarrow> ('t, 'pe) gen_item list" where
  "message_response_expand ops ast =
     (let gs = gn_params (di_generics ast)
      in [ImplItem ((impl_for ''MessageResponse<_A, _M>'' ast (plain_where ops ast) ResponseBody)
            \<lparr>im_params := map Param gs @ [ActorParam ''_A'', MessageParam ''_M'' gs]\<rparr>)])"

definition encode_expand :: "('t, 'pe) syn_ops \<Rightarrow> 't derive_input \<Rightarrow> ('t, 'pe) gen_item list" where
  "encode_expand ops ast =
     (case detect_codec_config ops ast of
        Err err \<Rightarrow> [CompileError err]
      | Ok config \<Rightarrow> [ImplItem (impl_for ''Encode'' ast (plain_where ops ast) (EncodeBody config))])"

definition decode_expand :: "('t, 'pe) syn_ops \<Rightarrow> 't derive_input \<Rightarrow> ('t, 'pe) gen_item list" where
  "decode_expand ops ast =
     (case detect_codec_config ops ast of
        Err err \<Rightarrow> [CompileError err]
      | Ok config \<Rightarrow> [ImplItem (impl_for ''Decode'' ast (plain_where ops ast) (DecodeBody config))])"

definition remote_addressable_expand :: "('t, 'pe) syn_ops \<Rightarrow> 't derive_input \<Rightarrow> ('t, 'pe) gen_item list" where
  "remote_addressable_expand ops ast =
     (case parse_message_list ops ast of
        Err err \<Rightarrow> [CompileError err]
      | Ok messages \<Rightarrow>
          [ImplItem (impl_for ''RemoteAddressable'' ast (plain_where ops ast) RemoteAddressableBody),
           ImplItem (impl_for ''Codec'' ast (plain_where ops ast) (CodecTableBody messages)),
           ImplItem (impl_for ''Handler<BinaryMessage>'' ast (plain_where ops ast) (BinaryHandlerBody messages)),
           UniquenessCheck messages])"

subsection \<open>Identifiers\<close>

definition const_cast_of :: "string \<Rightarrow> const_cast option" where
  "const_cast_of name =
     (if name \<in> set [''u8'', ''u16'', ''u32'', ''u64'', ''u128'', ''i8'', ''i16'', ''i32'', ''i64'', ''i128''] then Some ToBeBytes
      else if name = ''usize'' then Some AsU64
      else if name = ''isize'' then Some AsI64
      else if name = ''bool'' then Some AsU8
      else if name = ''char'' then Some AsU32
      else None)"

definition unsupported :: "'t syn_type \<Rightarrow> ('t, 'pe) syn_error" where
  "unsupported ty = SynError (AtType ty) ''StableId derive only supports legal const generic parameter types''"

definition combine_const_param ::
  "string \<Rightarrow> 't syn_type \<Rightarrow> (combine_call, ('t, 'pe) syn_error) result outcome" where
  "combine_const_param ident ty =
     (case ty of
        TypePath _ path \<Rightarrow>
          if segments path = [] then Panic ''type syntax should guarantee at least one segment''
          else (case const_cast_of (seg_ident (last (segments path))) of
                  Some cast \<Rightarrow> Ret (Ok (CombineConst cast ident))
                | None \<Rightarrow> Ret (Err (unsupported ty)))
      | _ \<Rightarrow> Ret (Err (unsupported ty)))"

text \<open>The loop over the generic parameters collects the calls of \<open>combine\<close> and the extra bounds.\<close>

fun stable_id_params ::
  "'t generic_param list \<Rightarrow> combine_call list \<Rightarrow> string list \<Rightarrow>
   (combine_call list \<times> string list, ('t, 'pe) syn_error) result outcome" where
  "stable_id_params [] calls extra = Ret (Ok (calls, extra))"
| "stable_id_params (GenericLifetime _ # ps) calls extra = stable_id_params ps calls extra"
| "stable_id_params (GenericType ident _ # ps) calls extra =
     stable_id_params ps (calls @ [CombineType ident]) (extra @ [ident])"
| "stable_id_params (GenericConst ident ty # ps) calls extra =
     (case combine_const_param ident ty of
        Panic msg \<Rightarrow> Panic msg
      | Ret (Err err) \<Rightarrow> Ret (Err err)
      | Ret (Ok call) \<Rightarrow> stable_id_params ps (calls @ [call]) extra)"

fun comma_separated :: "'t predicate list \<Rightarrow> 't where_token list" where
  "comma_separated [] = []"
| "comma_separated [p] = [PredTok p]"
| "comma_separated (p # q # ps) = PredTok p # CommaTok # comma_separated (q # ps)"

definition empty_or_trailing :: "'t where_clause \<Rightarrow> bool" where
  "empty_or_trailing wc \<longleftrightarrow> predicates wc = [] \<or> trailing_comma wc"

definition where_clause_tokens ::
  "('t, 'pe) syn_ops \<Rightarrow> 't where_clause option \<Rightarrow> string list \<Rightarrow> 't where_token list" where
  "where_clause_tokens ops wc extra =
     (case (wc, extra = []) of
        (Some wc, True) \<Rightarrow> sy_where ops wc
      | (Some wc, False) \<Rightarrow>
          sy_where ops wc @ (if empty_or_trailing wc then [] else [CommaTok]) @ comma_separated (map StableIdBound extra)
      | (None, True) \<Rightarrow> []
      | (None, False) \<Rightarrow> WhereTok # comma_separated (map StableIdBound extra))"

definition stable_id_expand ::
  "('t, 'pe) syn_ops \<Rightarrow> 't derive_input \<Rightarrow> ('t, 'pe) gen_item list outcome" where
  "stable_id_expand ops ast =
     (case stable_id_params (gn_params (di_generics ast)) [] [] of
        Panic msg \<Rightarrow> Panic msg
      | Ret (Err err) \<Rightarrow> Ret [CompileError err]
      | Ret (Ok (calls, extra)) \<Rightarrow>
          Ret [ImplItem (impl_for ''StableId'' ast (where_clause_tokens ops (gn_where (di_generics ast)) extra)
            (StableIdBody (di_ident ast) calls))])"

definition type_idents :: "'t generic_param list \<Rightarrow> string list" where
  "type_idents ps = concat (map (\<lambda>p. case p of GenericType ident _ \<Rightarrow> [ident] | _ \<Rightarrow> []) ps)"

definition message_id_expand ::
  "('t, 'pe) syn_ops \<Rightarrow> 't derive_input \<Rightarrow> ('t, 'pe) gen_item list outcome" where
  "message_id_expand ops ast =
     (case get_custom_id ops ast of
        Err err \<Rightarrow> Ret [CompileError err]
      | Ok (Some lit) \<Rightarrow> Ret [ImplItem (impl_for ''MessageId'' ast (plain_where ops ast) (CustomIdBody lit))]
      | Ok None \<Rightarrow>
          (case stable_id_expand ops ast of
             Panic msg \<Rightarrow> Panic msg
           | Ret items \<Rightarrow>
               Ret (ImplItem (impl_for ''MessageId'' ast
                 (where_clause_tokens ops (gn_where (di_generics ast)) (type_idents (gn_params (di_generics ast))))
                 TypeIdBody) # items)))"

subsection \<open>The attribute \<open>remote\<close>\<close>

datatype 't impl_member = Member "'t list" | RemoteMailboxShim

record 't item_impl =
  ii_trait :: "'t syn_path option"
  ii_self :: "'t syn_type"
  ii_items :: "'t impl_member list"

definition remote_expand ::
  "('i \<Rightarrow> ('t item_impl, 'pe) result) \<Rightarrow> 'i \<Rightarrow> ('t item_impl, ('t, 'pe) syn_error) result" where
  "remote_expand parse2 input =
     (case parse2 input of
        Err err \<Rightarrow> Err (SynParse err)
      | Ok item \<Rightarrow>
          (case ii_trait item of
             Some path \<Rightarrow>
               if segments path \<noteq> [] \<and> seg_ident (last (segments path)) = ''Actor''
               then Ok (item\<lparr>ii_items := ii_items item @ [RemoteMailboxShim]\<rparr>)
               else Err (SynError (AtPath path) ''#[remote] must be applied to an `impl Actor for ..` block'')
           | None \<Rightarrow> Err (SynError (AtType (ii_self item)) ''#[remote] must be applied to an `impl Actor for ..` block'')))"

subsection \<open>Entry points\<close>

text \<open>Each macro parses its input, panics when that fails, and expands it.\<close>

definition derive_with ::
  "('i \<Rightarrow> ('t derive_input, 'pe) result) \<Rightarrow> ('t derive_input \<Rightarrow> ('t, 'pe) gen_item list outcome) \<Rightarrow> 'i \<Rightarrow> ('t, 'pe) gen_item list outcome" where
  "derive_with parse expand input =
     (case parse input of
        Err _ \<Rightarrow> Panic ''called `Result::unwrap()` on an `Err` value''
      | Ok ast \<Rightarrow> expand ast)"

definition message_derive ::
  "('t, 'pe) syn_ops \<Rightarrow> ('i \<Rightarrow> ('t derive_input, 'pe) result) \<Rightarrow> 'i \<Rightarrow> ('t, 'pe) gen_item list outcome" where
  "message_derive ops parse = derive_with parse (\<lambda>ast. Ret (message_expand ops ast))"

definition message_response_derive ::
  "('t, 'pe) syn_ops \<Rightarrow> ('i \<Rightarrow> ('t derive_input, 'pe) result) \<Rightarrow> 'i \<Rightarrow> ('t, 'pe) gen_item list outcome" where
  "message_response_derive ops parse = derive_with parse (\<lambda>ast. Ret (message_response_expand ops ast))"

definition stable_id_derive ::
  "('t, 'pe) syn_ops \<Rightarrow> ('i \<Rightarrow> ('t derive_input, 'pe) result) \<Rightarrow> 'i \<Rightarrow> ('t, 'pe) gen_item list outcome" where
  "stable_id_derive ops parse = derive_with parse (\<lambda>ast. stable_id_expand ops ast)"

definition message_id_derive ::
  "('t, 'pe) syn_ops \<Rightarrow> ('i \<Rightarrow> ('t derive_input, 'pe) result) \<Rightarrow> 'i \<Rightarrow> ('t, 'pe) gen_item list outcome" where
  "message_id_derive ops parse = derive_with parse (\<lambda>ast. message_id_expand ops ast)"

definition encode_derive ::
  "('t, 'pe) syn_ops \<Rightarrow> ('i \<Rightarrow> ('t derive_input, 'pe) result) \<Rightarrow> 'i \<Rightarrow> ('t, 'pe) gen_item list outcome" where
  "encode_derive ops parse = derive_with parse (\<lambda>ast. Ret (encode_expand ops ast))"

definition decode_derive ::
  "('t, 'pe) syn_ops \<Rightarrow> ('i \<Rightarrow> ('t derive_input, 'pe) result) \<Rightarrow> 'i \<Rightarrow> ('t, 'pe) gen_item list outcome" where
  "decode_derive ops parse = derive_with parse (\<lambda>ast. Ret (decode_expand ops ast))"

definition remote_addressable_derive ::
  "('t, 'pe) syn_ops \<Rightarrow> ('i \<Rightarrow> ('t derive_input, 'pe) result) \<Rightarrow> 'i \<Rightarrow> ('t, 'pe) gen_item list outcome" where
  "remote_addressable_derive ops parse = derive_with parse (\<lambda>ast. Ret (remote_addressable_expand ops ast))"

section \<open>What the generated code means\<close>

text \<open>The grammar of a where clause: the keyword and predicates with commas between them and possibly
  one behind.\<close>

fun parse_predicates :: "'t where_token list \<Rightarrow> 't predicate list option" where
  "parse_predicates [] = Some []"
| "parse_predicates [PredTok p] = Some [p]"
| "parse_predicates (PredTok p # CommaTok # ts) = map_option ((#) p) (parse_predicates ts)"
| "parse_predicates _ = None"

fun parse_where :: "'t where_token list \<Rightarrow> 't predicate list option" where
  "parse_where [] = Some []"
| "parse_where (WhereTok # ts) = parse_predicates ts"
| "parse_where _ = None"

text \<open>The bytes that a cast gives for a value of the type it is chosen for.\<close>

fun cast_bytes :: "const_cast \<Rightarrow> const_value \<Rightarrow> bytes option" where
  "cast_bytes ToBeBytes (Const8 x) = Some (be_bytes 1 (unat x))"
| "cast_bytes ToBeBytes (Const16 x) = Some (be_bytes 2 (unat x))"
| "cast_bytes ToBeBytes (Const32 x) = Some (be_bytes 4 (unat x))"
| "cast_bytes ToBeBytes (Const64 x) = Some (be_bytes 8 (unat x))"
| "cast_bytes ToBeBytes (Const128 x) = Some (be_bytes 16 (unat x))"
| "cast_bytes AsU64 (ConstSize x) = Some (be_bytes 8 (unat x))"
| "cast_bytes AsI64 (ConstSize x) = Some (be_bytes 8 (unat x))"
| "cast_bytes AsU8 (ConstBool b) = Some [of_bool b]"
| "cast_bytes AsU32 (ConstChar c) = Some (be_bytes 4 (unat c))"
| "cast_bytes _ _ = None"

text \<open>\<open>TYPE_ID\<close> of an instance, whose parameters the generated code names.\<close>

fun call_blob :: "(bytes \<Rightarrow> bytes) \<Rightarrow> (string \<rightharpoonup> type_param) \<Rightarrow> combine_call \<Rightarrow> bytes option" where
  "call_blob sha env (CombineType x) =
     (case env x of Some (ParamType t) \<Rightarrow> Some (as_bytes (derived_type_id sha t)) | _ \<Rightarrow> None)"
| "call_blob sha env (CombineConst cast x) =
     (case env x of Some (ParamConst c) \<Rightarrow> map_option (\<lambda>bs. take16 (sha bs)) (cast_bytes cast c) | _ \<Rightarrow> None)"

fun eval_calls ::
  "(bytes \<Rightarrow> bytes) \<Rightarrow> (string \<rightharpoonup> type_param) \<Rightarrow> combine_call list \<Rightarrow> stable_type_id \<Rightarrow> stable_type_id option" where
  "eval_calls sha env [] self = Some self"
| "eval_calls sha env (call # calls) self =
     (case call_blob sha env call of None \<Rightarrow> None | Some blob \<Rightarrow> eval_calls sha env calls (combine sha self blob))"

fun eval_type_id ::
  "(bytes \<Rightarrow> bytes) \<Rightarrow> string \<Rightarrow> (string \<rightharpoonup> type_param) \<Rightarrow> 't impl_body \<Rightarrow> stable_type_id option" where
  "eval_type_id sha module_path env (StableIdBody name calls) =
     eval_calls sha env calls (from_stable_type_name sha (module_path @ ''::'' @ name))"
| "eval_type_id sha module_path env _ = None"

fun param_ident :: "'t generic_param \<Rightarrow> string" where
  "param_ident (GenericLifetime x) = x"
| "param_ident (GenericType x _) = x"
| "param_ident (GenericConst x _) = x"

text \<open>An argument of the kind and the type that its parameter declares.\<close>

fun const_typed :: "string \<Rightarrow> const_value \<Rightarrow> bool" where
  "const_typed name (Const8 x) \<longleftrightarrow> name \<in> {''u8'', ''i8''}"
| "const_typed name (Const16 x) \<longleftrightarrow> name \<in> {''u16'', ''i16''}"
| "const_typed name (Const32 x) \<longleftrightarrow> name \<in> {''u32'', ''i32''}"
| "const_typed name (Const64 x) \<longleftrightarrow> name \<in> {''u64'', ''i64''}"
| "const_typed name (Const128 x) \<longleftrightarrow> name \<in> {''u128'', ''i128''}"
| "const_typed name (ConstSize x) \<longleftrightarrow> name \<in> {''usize'', ''isize''}"
| "const_typed name (ConstBool b) \<longleftrightarrow> name = ''bool''"
| "const_typed name (ConstChar c) \<longleftrightarrow> name = ''char''"

fun arg_ok :: "'t generic_param \<Rightarrow> type_param \<Rightarrow> bool" where
  "arg_ok (GenericLifetime _) ParamLifetime \<longleftrightarrow> True"
| "arg_ok (GenericType _ _) (ParamType t) \<longleftrightarrow> True"
| "arg_ok (GenericConst _ (TypePath _ path)) (ParamConst c) \<longleftrightarrow>
     segments path \<noteq> [] \<and> const_typed (seg_ident (last (segments path))) c"
| "arg_ok _ _ \<longleftrightarrow> False"

section \<open>What \<open>syn\<close> promises\<close>

text \<open>A where clause with predicates is printed with its keyword and its commas, one without is not printed at all.\<close>

locale syn_printer =
  fixes ops :: "('t, 'pe) syn_ops"
  assumes prints_where: "predicates wc \<noteq> [] \<Longrightarrow> sy_where ops wc =
    WhereTok # comma_separated (map Declared (predicates wc)) @ (if trailing_comma wc then [CommaTok] else [])"
    and prints_empty: "predicates wc = [] \<Longrightarrow> sy_where ops wc = []"

text \<open>The value of \<open>const ID: u64\<close>; a literal with the suffix of another type does not compile.\<close>

fun eval_message_id :: "('t, 'pe) syn_ops \<Rightarrow> stable_type_id option \<Rightarrow> 't impl_body \<Rightarrow> u64 option" where
  "eval_message_id ops type_id (CustomIdBody lit) =
     (if lit_suffix lit \<in> {[], ''u64''} then (case sy_base10_u64 ops lit of Ok n \<Rightarrow> Some n | Err _ \<Rightarrow> None) else None)"
| "eval_message_id ops type_id TypeIdBody = map_option as_u64 type_id"
| "eval_message_id ops type_id _ = None"

definition declared :: "'t derive_input \<Rightarrow> 't predicate list" where
  "declared ast = (case gn_where (di_generics ast) of Some wc \<Rightarrow> map Declared (predicates wc) | None \<Rightarrow> [])"

definition empty_where :: "'t derive_input \<Rightarrow> bool" where
  "empty_where ast \<longleftrightarrow> (case gn_where (di_generics ast) of Some wc \<Rightarrow> predicates wc = [] | None \<Rightarrow> False)"

section \<open>Where clauses\<close>

lemma parse_separated: "parse_predicates (comma_separated ps) = Some ps"
  by (induction ps rule: comma_separated.induct) simp_all

lemma parse_separated_more:
  "ps \<noteq> [] \<Longrightarrow> parse_predicates (comma_separated ps @ CommaTok # ts) = map_option ((@) ps) (parse_predicates ts)"
  by (induction ps rule: comma_separated.induct) (cases "parse_predicates ts"; simp)+

context syn_printer
begin

lemma where_clause_parses:
  "parse_where (where_clause_tokens ops (gn_where (di_generics ast)) extra) =
    (if empty_where ast \<and> extra \<noteq> [] then None else Some (declared ast @ map StableIdBound extra))"
proof (cases "gn_where (di_generics ast)")
  case None
  then show ?thesis by (simp add: where_clause_tokens_def declared_def empty_where_def parse_separated split: bool.split)
next
  case (Some wc)
  show ?thesis
  proof (cases "predicates wc = []")
    case True
    then show ?thesis
      by (cases "map StableIdBound extra :: 't predicate list" rule: comma_separated.cases)
        (simp_all add: Some where_clause_tokens_def prints_empty declared_def empty_where_def empty_or_trailing_def)
  next
    case False
    then show ?thesis
      by (simp add: Some where_clause_tokens_def prints_where declared_def empty_where_def empty_or_trailing_def parse_separated
          parse_separated_more split: bool.split)
  qed
qed

lemma plain_where_parses: "parse_where (plain_where ops ast) = Some (declared ast)"
  using where_clause_parses [of ast "[]"]
  by (simp add: plain_where_def where_tokens_def where_clause_tokens_def split: option.splits)

end

section \<open>Identifiers\<close>

lemma cast_typed:
  assumes "const_typed name c"
  shows "\<exists>cast. const_cast_of name = Some cast \<and> cast_bytes cast c = Some (const_bytes c)"
  using assms by (cases c) (auto simp: const_cast_of_def)

text \<open>For arguments of the declared kinds the collected calls compute what the type's parameters contribute.\<close>

lemma stable_id_calls:
  fixes ps :: "'t generic_param list"
  assumes "list_all2 arg_ok ps args" and "\<forall>(p, a) \<in> set (zip ps args). env (param_ident p) = Some a"
  shows "\<exists>calls'. stable_id_params ps calls extra =
      (Ret (Ok (calls @ calls', extra @ type_idents ps)) :: (combine_call list \<times> string list, ('t, 'pe) syn_error) result outcome) \<and>
    (\<forall>self. eval_calls sha env calls' self = Some (combines sha args self))"
  using assms
proof (induction ps args arbitrary: calls extra rule: list_all2_induct)
  case Nil
  then show ?case by (simp add: type_idents_def)
next
  case (Cons p ps a args)
  then have env: "env (param_ident p) = Some a" and rest: "\<forall>(p, a) \<in> set (zip ps args). env (param_ident p) = Some a"
    by auto
  show ?case
  proof (cases p)
    case (GenericLifetime x)
    with Cons(1) have "a = ParamLifetime" by (cases a) auto
    with GenericLifetime Cons.IH [OF rest, of calls extra] show ?thesis by (simp add: type_idents_def)
  next
    case (GenericType x bounds)
    with Cons(1) obtain t where a: "a = ParamType t" by (cases a) auto
    from Cons.IH [OF rest, of "calls @ [CombineType x]" "extra @ [x]"] obtain calls' where
      "stable_id_params ps (calls @ [CombineType x]) (extra @ [x]) =
         (Ret (Ok ((calls @ [CombineType x]) @ calls', (extra @ [x]) @ type_idents ps)) :: (_, ('t, 'pe) syn_error) result outcome)"
      "\<forall>self. eval_calls sha env calls' self = Some (combines sha args self)" by blast
    with GenericType a env show ?thesis
      by (intro exI [of _ "CombineType x # calls'"]) (simp add: type_idents_def)
  next
    case (GenericConst x ty)
    with Cons(1) obtain q path c where ty: "ty = TypePath q path" and a: "a = ParamConst c"
      and seg: "segments path \<noteq> []" and typed: "const_typed (seg_ident (last (segments path))) c"
      by (cases a; cases ty) auto
    from cast_typed [OF typed] obtain cast where cast: "const_cast_of (seg_ident (last (segments path))) = Some cast"
      "cast_bytes cast c = Some (const_bytes c)" by blast
    from Cons.IH [OF rest, of "calls @ [CombineConst cast x]" extra] obtain calls' where
      "stable_id_params ps (calls @ [CombineConst cast x]) extra =
         (Ret (Ok ((calls @ [CombineConst cast x]) @ calls', extra @ type_idents ps)) :: (_, ('t, 'pe) syn_error) result outcome)"
      "\<forall>self. eval_calls sha env calls' self = Some (combines sha args self)" by blast
    with GenericConst ty a env seg cast show ?thesis
      by (intro exI [of _ "CombineConst cast x # calls'"]) (simp add: type_idents_def combine_const_param_def)
  qed
qed

lemma zip_env:
  assumes "distinct (map param_ident ps)" and "length ps = length args"
  shows "\<forall>(p, a) \<in> set (zip ps args). map_of (zip (map param_ident ps) args) (param_ident p) = Some a"
proof -
  have "map_of (zip (map param_ident ps) args) (map param_ident ps ! i) = Some (args ! i)" if "i < length ps" for i
    using map_of_zip_nth [of "map param_ident ps" args i] assms that by simp
  then show ?thesis by (auto simp: set_zip)
qed

text \<open>A const parameter of another type is refused; no macro panics on a path with a segment.\<close>

lemma stable_id_refused:
  assumes "GenericConst x ty \<in> set ps" and "\<forall>q path. ty = TypePath q path \<longrightarrow> const_cast_of (seg_ident (last (segments path))) = None"
    and "\<forall>y q path. GenericConst y (TypePath q path) \<in> set ps \<longrightarrow> segments path \<noteq> []"
  shows "\<exists>ty'. stable_id_params ps calls extra = Ret (Err (unsupported ty'))"
  using assms
proof (induction ps arbitrary: calls extra)
  case (Cons p ps)
  show ?case
  proof (cases p)
    case (GenericConst y ty2)
    show ?thesis
    proof (cases ty2)
      case (TypePath q path)
      with Cons.prems(3) GenericConst have seg: "segments path \<noteq> []" by auto
      show ?thesis
      proof (cases "const_cast_of (seg_ident (last (segments path)))")
        case (Some cast)
        with Cons.prems(1,2) GenericConst TypePath have "GenericConst x ty \<in> set ps" by auto
        with Cons Some GenericConst TypePath seg show ?thesis by (simp add: combine_const_param_def)
      qed (simp add: GenericConst TypePath seg combine_const_param_def, blast)
    qed (simp add: GenericConst combine_const_param_def, blast)
  qed (use Cons in auto)
qed simp

text \<open>The two codec derives of a type agree: they fail with the same error, or use the same library and the
  same bridge, which is not the type itself.\<close>

lemma codec_derives_agree:
  assumes "parse input = Ok ast"
  shows "(\<exists>err. encode_derive ops parse input = Ret [CompileError err] \<and> decode_derive ops parse input = Ret [CompileError err]) \<or>
   (\<exists>config im. encode_derive ops parse input = Ret [ImplItem im] \<and> im_body im = EncodeBody config \<and>
      decode_derive ops parse input = Ret [ImplItem (im\<lparr>im_trait := ''Decode'', im_body := DecodeBody config\<rparr>)] \<and>
      (\<forall>b. cc_bridge config = Some b \<longrightarrow> \<not> is_self_type b (di_ident ast)))"
proof (cases "detect_codec_config ops ast")
  case (Ok config)
  let ?im = "impl_for ''Encode'' ast (plain_where ops ast) (EncodeBody config)"
  have "\<forall>b. cc_bridge config = Some b \<longrightarrow> \<not> is_self_type b (di_ident ast)"
    using Ok by (auto simp: detect_codec_config_def split: option.splits meta.splits result.splits prod.splits if_splits)
  with assms Ok show ?thesis
    by (intro disjI2 exI [of _ config] exI [of _ ?im])
      (simp add: encode_derive_def decode_derive_def derive_with_def encode_expand_def decode_expand_def impl_for_def)
qed (use assms in \<open>simp add: encode_derive_def decode_derive_def derive_with_def encode_expand_def decode_expand_def\<close>)

section \<open>Properties\<close>

text \<open>C38. The derives of identifiers mean what they say, but for one kind of type. For a type whose const parameters have primitive
  types, \<open>derive(StableId)\<close> generates one impl; for all arguments of the
  declared kinds its \<open>TYPE_ID\<close> is the identifier of the instance; and its where clause parses to the declared predicates followed by one
  bound for each type parameter, whether or not the type's own clause ends in a comma, except that it does not parse at all when the
  type has a type parameter and a where clause without predicates. \<open>derive(MessageId)\<close> generates an impl with the same
  clause next to it, whose \<open>ID\<close> is the derived message id; or, when a custom id is given, an impl with the type's own clause, no
  \<open>StableId\<close> at all, and that number as \<open>ID\<close> if the literal has the type \<open>u64\<close> (with another suffix it does not compile).\<close>

theorem derived_identifiers:
  fixes ops :: "('t, 'pe) syn_ops"
  assumes "syn_printer ops" and "gn_params (di_generics ast) = ps"
    and "distinct (map param_ident ps)" and "list_all2 arg_ok ps args"
    and "get_custom_id ops ast = Ok custom" and "env = map_of (zip (map param_ident ps) args)"
    and "inst = TypeTerm (module_path @ ''::'' @ di_ident ast) args"
    and "parse input = Ok ast"
  shows "\<exists>im mi rest. stable_id_derive ops parse input = Ret [ImplItem im] \<and> message_id_derive ops parse input = Ret (ImplItem mi # rest) \<and>
    im_trait im = ''StableId'' \<and> im_args im = ps \<and> im_trait mi = ''MessageId'' \<and> im_args mi = ps \<and>
    parse_where (im_where im) = (if empty_where ast \<and> type_idents ps \<noteq> [] then None
      else Some (declared ast @ map StableIdBound (type_idents ps))) \<and>
    eval_type_id sha module_path env (im_body im) = Some (derived_type_id sha inst) \<and>
    (case custom of
       None \<Rightarrow> rest = [ImplItem im] \<and> im_where mi = im_where im \<and>
         eval_message_id ops (eval_type_id sha module_path env (im_body im)) (im_body mi) = Some (derived_message_id sha None inst)
     | Some lit \<Rightarrow> rest = [] \<and> parse_where (im_where mi) = Some (declared ast) \<and>
         (\<exists>n. sy_base10_u64 ops lit = Ok n \<and> eval_message_id ops None (im_body mi) =
           (if lit_suffix lit \<in> {[], ''u64''} then Some (derived_message_id sha (Some n) inst) else None)))"
proof -
  note where_ok = syn_printer.where_clause_parses [OF assms(1)] syn_printer.plain_where_parses [OF assms(1)]
  have "length ps = length args" using assms(4) by (rule list_all2_lengthD)
  from stable_id_calls [OF assms(4) zip_env [OF assms(3) this], of "[]" "[]" sha] obtain calls where
    params: "stable_id_params ps [] [] = (Ret (Ok (calls, type_idents ps)) :: (_, ('t, 'pe) syn_error) result outcome)"
    and eval: "\<forall>self. eval_calls sha env calls self = Some (combines sha args self)" by (auto simp: assms(6))
  define im where "im = impl_for ''StableId'' ast (where_clause_tokens ops (gn_where (di_generics ast)) (type_idents ps))
    (StableIdBody (di_ident ast) calls)"
  have sid: "stable_id_expand ops ast = Ret [ImplItem im]" using params assms(2) by (simp add: stable_id_expand_def im_def)
  have tid: "eval_type_id sha module_path env (im_body im) = Some (derived_type_id sha inst)"
    using eval by (simp add: im_def impl_for_def assms(7))
  have "\<exists>n. sy_base10_u64 ops lit = Ok n" if "custom = Some lit" for lit
    using assms(5) that by (auto simp: get_custom_id_def split: option.splits meta.splits result.splits)
  with sid tid show ?thesis
    by (cases custom) (auto simp: stable_id_derive_def message_id_derive_def derive_with_def message_id_expand_def assms(2,5,8) im_def impl_for_def where_ok derived_message_id_def)
qed

text \<open>A \<open>syn\<close> for types and values that are one token.\<close>

definition number_of :: "string \<Rightarrow> nat" where
  "number_of ds = foldl (\<lambda>n d. 10 * n + (of_char d - 48)) 0 ds"

definition is_digit :: "char \<Rightarrow> bool" where
  "is_digit d \<longleftrightarrow> d \<in> set ''0123456789''"

fun token_types :: "string list \<Rightarrow> (string syn_type list, string) result" where
  "token_types [] = Ok []"
| "token_types [t] = Ok [TypePath None (Path False [Segment t None])]"
| "token_types (t # c # ts) =
     (if c = '','' then (case token_types ts of
          Ok tys \<Rightarrow> Ok (TypePath None (Path False [Segment t None]) # tys)
        | Err e \<Rightarrow> Err e)
      else Err ''expected `,`'')"

definition token_syn :: "(string, string) syn_ops" where
  "token_syn =
     \<lparr>sy_ident = (\<lambda>ts. case ts of [] \<Rightarrow> Err ''expected identifier'' | t # rest \<Rightarrow> Ok (t, rest)),
      sy_peek_comma = (\<lambda>ts. ts \<noteq> [] \<and> hd ts = '',''),
      sy_comma = (\<lambda>ts. case ts of [] \<Rightarrow> Err ''expected `,`'' | t # rest \<Rightarrow> Ok rest),
      sy_type = (\<lambda>ts. case ts of [] \<Rightarrow> Err ''expected type'' | t # rest \<Rightarrow> Ok (TypePath None (Path False [Segment t None]), rest)),
      sy_types = token_types,
      sy_lit_int = (\<lambda>ts. case ts of [] \<Rightarrow> Err ''expected integer literal''
         | t # rest \<Rightarrow> Ok (LitInt (takeWhile is_digit t) (dropWhile is_digit t), rest)),
      sy_base10_u64 = (\<lambda>lit. if lit_digits lit \<noteq> [] \<and> number_of (lit_digits lit) < 2 ^ 64
         then Ok (word_of_nat (number_of (lit_digits lit))) else Err ''number too large to fit in target type''),
      sy_end = (\<lambda>ts. if ts = [] then Ok () else Err ''unexpected token''),
      sy_no_list = (\<lambda>_. ''expected attribute arguments in parentheses''),
      sy_where = (\<lambda>wc. if predicates wc = [] then []
         else WhereTok # comma_separated (map Declared (predicates wc)) @ (if trailing_comma wc then [CommaTok] else []))\<rparr>"

interpretation token_syn: syn_printer token_syn
  by unfold_locales (simp_all add: token_syn_def)

definition ex_input :: "string derive_input" where
  "ex_input =
     \<lparr>di_attrs = [], di_ident = ''Wrap'',
      di_generics = \<lparr>gn_params = [GenericLifetime ''a'', GenericType ''T'' [],
          GenericConst ''N'' (TypePath None (Path False [Segment ''usize'' None]))],
        gn_where = Some (WhereClause [[''T'', '':'', ''Clone'']] True)\<rparr>\<rparr>"

theorem derived_identifiers_witness:
  "\<exists>im mi. stable_id_derive token_syn Ok ex_input = Ret [ImplItem im] \<and>
    message_id_derive token_syn Ok ex_input = Ret [ImplItem mi, ImplItem im] \<and>
    parse_where (im_where im) = Some [Declared [''T'', '':'', ''Clone''], StableIdBound ''T''] \<and>
    eval_type_id sha256 ''krate'' (map_of [(''a'', ParamLifetime), (''T'', ParamType (TypeTerm ''u8'' [])), (''N'', ParamConst (ConstSize 3))])
      (im_body im) = Some (derived_type_id sha256 (TypeTerm ''krate::Wrap''
        [ParamLifetime, ParamType (TypeTerm ''u8'' []), ParamConst (ConstSize 3)]))"
proof -
  let ?args = "[ParamLifetime, ParamType (TypeTerm ''u8'' []), ParamConst (ConstSize 3)]"
  have "distinct (map param_ident (gn_params (di_generics ex_input)))"
    "list_all2 arg_ok (gn_params (di_generics ex_input)) ?args" "get_custom_id token_syn ex_input = Ok None"
    by (simp_all add: ex_input_def get_custom_id_def find_attr_def)
  from derived_identifiers [OF token_syn.syn_printer_axioms refl this(1-3) refl refl, where parse = Ok and input = ex_input and sha = sha256 and module_path = "''krate''"]
  show ?thesis by (force simp: ex_input_def declared_def type_idents_def empty_where_def)
qed

text \<open>The exception: \<open>struct S<T>(T) where;\<close> makes the macro write a bound without the keyword.\<close>

theorem empty_where_breaks:
  "\<exists>im. stable_id_derive token_syn Ok (ex_input\<lparr>di_generics :=
      \<lparr>gn_params = [GenericType ''T'' []], gn_where = Some (WhereClause [] False)\<rparr>\<rparr>) = Ret [ImplItem im] \<and>
    im_where im = [PredTok (StableIdBound ''T'')] \<and> parse_where (im_where im) = None"
  by (simp add: stable_id_derive_def derive_with_def stable_id_expand_def ex_input_def where_clause_tokens_def token_syn_def
      empty_or_trailing_def impl_for_def)

end
