(* ===== verification/Ipc_Wire.thy ===== *)
theory Ipc_Wire
  imports Wire Proto
begin

text \<open>
  The codec of \<open>IpcMessage\<close> (\<open>acktor/src/codec/ipc_message.rs\<close>) over what \<open>prost\<close> derives for the message, and
  the encoding itself, field by field as the \<open>.proto\<close> files number them, which satisfies what the
  codec, the sessions and the adaptor rely on.
\<close>

definition ipc_message_codec :: "ipc_message pm_ops \<Rightarrow> (ipc_message, 'ec, 'dc) codec" where
  "ipc_message_codec pm =
     \<lparr>cd_len = pm_len pm,
      cd_encode = pm_append pm,
      cd_decode = (\<lambda>_ buf. case pm_decode pm (b_bytes buf) of Err e \<Rightarrow> Err (DecodeOther e) | Ok m \<Rightarrow> Ok m)\<rparr>"

section \<open>Fields of the messages\<close>

definition actor_ref_to_fields :: "proto_actor_ref \<Rightarrow> wire_field list" where
  "actor_ref_to_fields r =
     (case pref r of
        None \<Rightarrow> []
      | Some (PRefIndex i) \<Rightarrow> [WInt 0x08 i]
      | Some (PRefLabel l) \<Rightarrow> [WLen 0x12 (utf8_bytes l)])"

definition actor_ref_of_fields :: "wire_field list \<Rightarrow> proto_actor_ref option" where
  "actor_ref_of_fields fs =
     (case oneof_field [0x08, 0x12] fs of
        Some (WInt k i) \<Rightarrow> Some \<lparr>pref = Some (PRefIndex i)\<rparr>
      | Some (WLen k p) \<Rightarrow> map_option (\<lambda>l. \<lparr>pref = Some (PRefLabel l)\<rparr>) (from_utf8 p)
      | _ \<Rightarrow> Some \<lparr>pref = None\<rparr>)"

definition create_actor_to_fields :: "create_actor_msg \<Rightarrow> wire_field list" where
  "create_actor_to_fields m =
     fix_to_fields 0x09 (ca_type_id m) @ str_to_fields 0x12 (ca_label m) @ str_to_fields 0x1A (ca_config m) @
     int_to_fields 0x20 (ca_tag m)"

definition create_actor_of_fields :: "wire_field list \<Rightarrow> create_actor_msg option" where
  "create_actor_of_fields fs =
     (case (str_field 0x12 fs, str_field 0x1A fs) of
        (Some label, Some config) \<Rightarrow>
          Some \<lparr>ca_type_id = or_zero (fix_field 0x09 fs), ca_label = label, ca_config = config,
            ca_tag = or_zero (int_field 0x20 fs)\<rparr>
      | _ \<Rightarrow> None)"

definition get_actor_to_fields :: "get_actor_msg \<Rightarrow> wire_field list" where
  "get_actor_to_fields m =
     (case ga_actor m of None \<Rightarrow> [] | Some r \<Rightarrow> [WLen 0x0A (wire_print (actor_ref_to_fields r))]) @
     int_to_fields 0x10 (ga_tag m)"

definition get_actor_of_fields :: "wire_field list \<Rightarrow> get_actor_msg option" where
  "get_actor_of_fields fs =
     (case len_field 0x0A fs of
        None \<Rightarrow> Some \<lparr>ga_actor = None, ga_tag = or_zero (int_field 0x10 fs)\<rparr>
      | Some p \<Rightarrow> map_option (\<lambda>r. \<lparr>ga_actor = Some r, ga_tag = or_zero (int_field 0x10 fs)\<rparr>)
          (Option.bind (wire_parse p) actor_ref_of_fields))"

definition node_message_to_fields :: "node_message \<Rightarrow> wire_field list" where
  "node_message_to_fields m =
     (case nm_message m of
        None \<Rightarrow> []
      | Some (NMCreateActor c) \<Rightarrow> [WLen 0x0A (wire_print (create_actor_to_fields c))]
      | Some (NMGetActor g) \<Rightarrow> [WLen 0x12 (wire_print (get_actor_to_fields g))])"

definition node_message_of_fields :: "wire_field list \<Rightarrow> node_message option" where
  "node_message_of_fields fs =
     (case oneof_field [0x0A, 0x12] fs of
        Some (WLen k p) \<Rightarrow> map_option (\<lambda>t. \<lparr>nm_message = Some t\<rparr>)
          (if k = 0x0A then map_option NMCreateActor (Option.bind (wire_parse p) create_actor_of_fields)
           else map_option NMGetActor (Option.bind (wire_parse p) get_actor_of_fields))
      | _ \<Rightarrow> Some \<lparr>nm_message = None\<rparr>)"

definition actor_message_to_fields :: "actor_message \<Rightarrow> wire_field list" where
  "actor_message_to_fields m =
     int_to_fields 0x08 (am_actor_id m) @ fix_to_fields 0x11 (am_message_id m) @ bytes_to_fields 0x1A (am_message m) @
     (case am_tag m of None \<Rightarrow> [] | Some tag \<Rightarrow> [WInt 0x20 tag])"

definition actor_message_of_fields :: "wire_field list \<Rightarrow> actor_message" where
  "actor_message_of_fields fs =
     \<lparr>am_actor_id = or_zero (int_field 0x08 fs), am_message_id = or_zero (fix_field 0x11 fs),
      am_message = (case len_field 0x1A fs of None \<Rightarrow> [] | Some p \<Rightarrow> p), am_tag = int_field 0x20 fs\<rparr>"

definition message_response_to_fields :: "message_response \<Rightarrow> wire_field list" where
  "message_response_to_fields r =
     int_to_fields 0x08 (mr_tag r) @
     (case mr_response r of
        None \<Rightarrow> []
      | Some (ResponseOk b) \<Rightarrow> [WLen 0x12 b]
      | Some (ResponseErr e) \<Rightarrow> [WLen 0x1A (utf8_bytes e)])"

definition message_response_of_fields :: "wire_field list \<Rightarrow> message_response option" where
  "message_response_of_fields fs =
     map_option (\<lambda>r. \<lparr>mr_tag = or_zero (int_field 0x08 fs), mr_response = r\<rparr>)
       (case oneof_field [0x12, 0x1A] fs of
          Some (WLen k p) \<Rightarrow> if k = 0x12 then Some (Some (ResponseOk p)) else map_option (Some \<circ> ResponseErr) (from_utf8 p)
        | _ \<Rightarrow> Some None)"

definition ipc_message_to_fields :: "ipc_message \<Rightarrow> wire_field list" where
  "ipc_message_to_fields m =
     (case im_message m of
        None \<Rightarrow> []
      | Some (ITActorMessage a) \<Rightarrow> [WLen 0x0A (wire_print (actor_message_to_fields a))]
      | Some (ITNodeMessage n) \<Rightarrow> [WLen 0x12 (wire_print (node_message_to_fields n))]
      | Some (ITMessageResponse r) \<Rightarrow> [WLen 0x1A (wire_print (message_response_to_fields r))])"

definition ipc_message_of_fields :: "wire_field list \<Rightarrow> ipc_message option" where
  "ipc_message_of_fields fs =
     (case oneof_field [0x0A, 0x12, 0x1A] fs of
        Some (WLen k p) \<Rightarrow> map_option (\<lambda>t. \<lparr>im_message = Some t\<rparr>)
          (if k = 0x0A then map_option (ITActorMessage \<circ> actor_message_of_fields) (wire_parse p)
           else if k = 0x12 then map_option ITNodeMessage (Option.bind (wire_parse p) node_message_of_fields)
           else map_option ITMessageResponse (Option.bind (wire_parse p) message_response_of_fields))
      | _ \<Rightarrow> Some \<lparr>im_message = None\<rparr>)"

definition ipc_message_wire :: "ipc_message pm_ops" where
  "ipc_message_wire = wire_message ipc_message_to_fields ipc_message_of_fields"

section \<open>Round trips\<close>

lemmas to_fields_defs = int_to_fields_def fix_to_fields_def bytes_to_fields_def str_to_fields_def or_zero_def
  str_field_def oneof_field_def from_utf8_string

lemma actor_ref_fields:
  "list_all wire_ok (actor_ref_to_fields r)" "actor_ref_of_fields (actor_ref_to_fields r) = Some r"
  by (auto simp: actor_ref_to_fields_def actor_ref_of_fields_def to_fields_defs split: option.split actor_ref_type.split)

lemma create_actor_fields:
  "list_all wire_ok (create_actor_to_fields c)" "create_actor_of_fields (create_actor_to_fields c) = Some c"
  by (auto simp: create_actor_to_fields_def create_actor_of_fields_def to_fields_defs)

lemma get_actor_fields:
  "list_all wire_ok (get_actor_to_fields g)" "get_actor_of_fields (get_actor_to_fields g) = Some g"
  by (auto simp: get_actor_to_fields_def get_actor_of_fields_def to_fields_defs actor_ref_fields wire_parse_print split: option.split)

lemma node_message_fields:
  "list_all wire_ok (node_message_to_fields m)" "node_message_of_fields (node_message_to_fields m) = Some m"
  by (auto simp: node_message_to_fields_def node_message_of_fields_def to_fields_defs create_actor_fields get_actor_fields
      wire_parse_print split: option.split node_message_type.split)

lemma actor_message_fields:
  "list_all wire_ok (actor_message_to_fields a)" "actor_message_of_fields (actor_message_to_fields a) = a"
  by (auto simp: actor_message_to_fields_def actor_message_of_fields_def to_fields_defs split: option.split)

lemma message_response_fields:
  "list_all wire_ok (message_response_to_fields r)" "message_response_of_fields (message_response_to_fields r) = Some r"
  by (auto simp: message_response_to_fields_def message_response_of_fields_def to_fields_defs
      split: option.split response_type.split)

lemma ipc_message_fields:
  "list_all wire_ok (ipc_message_to_fields m) \<and> ipc_message_of_fields (ipc_message_to_fields m) = Some m"
  by (auto simp: ipc_message_to_fields_def ipc_message_of_fields_def to_fields_defs node_message_fields
      actor_message_fields message_response_fields wire_parse_print split: option.split ipc_message_type.split)

interpretation ipc_message_wire: proto_message ipc_message_wire
  unfolding ipc_message_wire_def by (rule wire_message_laws) (rule ipc_message_fields)

lemma ipc_message_codec_laws: "proto_message pm \<Longrightarrow> codec_laws (ipc_message_codec pm) always same"
  by (rule proto_message.message_laws [where msg = "\<lambda>m. m"]) (auto simp: ipc_message_codec_def dest: pm_append_OkD)

end
