(* ===== verification/Adaptor.thy ===== *)
theory Adaptor
  imports Ipc_Wire
begin

text \<open>
  The adaptor for WebAssembly (\<open>acktor-ipc-proto/src/adaptor.rs\<close>): it tags outgoing requests, keeps the
  sender of each waiting caller under its tag, and routes responses. The protobuf codec of
  \<open>IpcMessage\<close> is the parameter \<open>encode\<close>/\<open>decode\<close> under the locale \<open>ipc_wire\<close>; \<open>send_func\<close>, which the caller provides, is
  a function to a result. Tags and the millisecond clock are machine integers that wrap around, as in a release build; a debug build
  panics instead, at a tag only after \<open>2^64\<close> requests, at the clock only for times that are more than \<open>2^63\<close> apart.
\<close>

type_synonym i64 = "64 word"

record parsed_actor_message =
  pa_actor_id :: u64
  pa_message_id :: u64
  pa_message :: bytes

record 'tx actor_adaptor =
  ad_tag :: u64
  ad_result_senders :: "(u64, 'tx \<times> i64) hash_map"

definition adaptor_new :: "'tx actor_adaptor" where
  "adaptor_new = \<lparr>ad_tag = 0, ad_result_senders = hm_new\<rparr>"

definition adaptor_next_tag :: "'tx actor_adaptor \<Rightarrow> u64 \<times> 'tx actor_adaptor" where
  "adaptor_next_tag s = (ad_tag s, s\<lparr>ad_tag := ad_tag s + 1\<rparr>)"

definition adaptor_cleanup :: "i64 \<Rightarrow> i64 \<Rightarrow> 'tx actor_adaptor \<Rightarrow> 'tx actor_adaptor" where
  "adaptor_cleanup now timeout s =
     s\<lparr>ad_result_senders := hm_filter (ad_result_senders s) (\<lambda>_ (_, timestamp). sint (now - timestamp) < sint timeout)\<rparr>"

definition adaptor_do_send ::
  "(ipc_message \<Rightarrow> bytes) \<Rightarrow> u64 \<Rightarrow> u64 \<Rightarrow> bytes \<Rightarrow> (bytes \<Rightarrow> (unit, 'e) result) \<Rightarrow> 'tx actor_adaptor \<Rightarrow>
   (unit, 'e) result \<times> 'tx actor_adaptor" where
  "adaptor_do_send encode actor_id message_id message send_func s =
     (send_func (encode (ipc_actor_message (actor_message_do_send actor_id message_id message))), s)"

definition adaptor_send ::
  "(ipc_message \<Rightarrow> bytes) \<Rightarrow> u64 \<Rightarrow> u64 \<Rightarrow> bytes \<Rightarrow> 'tx \<Rightarrow> i64 \<Rightarrow> (bytes \<Rightarrow> (unit, 'e) result) \<Rightarrow>
   'tx actor_adaptor \<Rightarrow> (unit, 'e) result \<times> 'tx actor_adaptor" where
  "adaptor_send encode actor_id message_id message result_tx timestamp send_func s =
     (let (tag, s1) = adaptor_next_tag s;
          s2 = s1\<lparr>ad_result_senders := snd (hm_insert (ad_result_senders s1) tag (result_tx, timestamp))\<rparr>
      in (send_func (encode (ipc_actor_message (actor_message_send actor_id message_id message tag))), s2))"

text \<open>The result of parsing and the payload that was offered to the channel of a waiting caller, with whether the channel
  (\<open>accepts\<close>) took it: the result of \<open>try_send\<close> is ignored.\<close>

definition adaptor_parse ::
  "('tx \<Rightarrow> bool) \<Rightarrow> (bytes \<Rightarrow> (ipc_message, io_error) result) \<Rightarrow> bytes \<Rightarrow> 'tx actor_adaptor \<Rightarrow>
   (parsed_actor_message option, io_error) result \<times> 'tx actor_adaptor \<times> ('tx \<times> bytes \<times> bool) list" where
  "adaptor_parse accepts decode msg s =
     (let unsupported = Err (IoErr OtherKind (box_str ''unsupported ipc message''))
      in case decode msg of
           Err e \<Rightarrow> (Err e, s, [])
         | Ok ipc_msg \<Rightarrow>
             (case im_message ipc_msg of
                Some (ITActorMessage m) \<Rightarrow>
                  (case am_tag m of
                     None \<Rightarrow>
                       (Ok (Some \<lparr>pa_actor_id = am_actor_id m, pa_message_id = am_message_id m,
                          pa_message = am_message m\<rparr>), s, [])
                   | Some _ \<Rightarrow> (unsupported, s, []))
              | Some (ITMessageResponse r) \<Rightarrow>
                  (case mr_response r of
                     Some (ResponseOk ok) \<Rightarrow>
                       (case hm_remove (ad_result_senders s) (mr_tag r) of
                          (Some (tx, _), m') \<Rightarrow> (Ok None, s\<lparr>ad_result_senders := m'\<rparr>, [(tx, ok, accepts tx)])
                        | (None, m') \<Rightarrow> (Ok None, s\<lparr>ad_result_senders := m'\<rparr>, []))
                   | Some (ResponseErr err) \<Rightarrow> (Err (IoErr OtherKind (box_str err)), s, [])
                   | None \<Rightarrow> (unsupported, s, []))
              | _ \<Rightarrow> (unsupported, s, [])))"

locale ipc_wire =
  fixes encode :: "ipc_message \<Rightarrow> bytes"
    and decode :: "bytes \<Rightarrow> (ipc_message, io_error) result"
  assumes roundtrip: "decode (encode m) = Ok m"

section \<open>Runs\<close>

text \<open>Any sequence of calls, with the history of the callers that asked for a response, in the order of
  their calls, and of the payloads that were offered to them, with the tag of the response and whether they were taken.\<close>

datatype 'tx ad_call =
  AdSend u64 u64 bytes 'tx i64 "bytes \<Rightarrow> (unit, unit) result"
| AdDoSend u64 u64 bytes "bytes \<Rightarrow> (unit, unit) result"
| AdParse "'tx \<Rightarrow> bool" ipc_message
| AdCleanup i64 i64

record 'tx ad_state =
  as_adaptor :: "'tx actor_adaptor"
  as_callers :: "'tx list"
  as_delivered :: "(u64 \<times> 'tx \<times> bytes \<times> bool) list"

definition response_tag :: "ipc_message \<Rightarrow> u64" where
  "response_tag m = (case im_message m of Some (ITMessageResponse r) \<Rightarrow> mr_tag r | _ \<Rightarrow> 0)"

fun ad_exec ::
  "(ipc_message \<Rightarrow> bytes) \<Rightarrow> (bytes \<Rightarrow> (ipc_message, io_error) result) \<Rightarrow> 'tx ad_call \<Rightarrow> 'tx ad_state \<Rightarrow> 'tx ad_state" where
  "ad_exec encode decode (AdSend a i b tx ts f) st =
     st\<lparr>as_adaptor := snd (adaptor_send encode a i b tx ts f (as_adaptor st)), as_callers := as_callers st @ [tx]\<rparr>"
| "ad_exec encode decode (AdDoSend a i b f) st =
     st\<lparr>as_adaptor := snd (adaptor_do_send encode a i b f (as_adaptor st))\<rparr>"
| "ad_exec encode decode (AdParse accepts m) st =
     (case adaptor_parse accepts decode (encode m) (as_adaptor st) of (_, s', out) \<Rightarrow>
        st\<lparr>as_adaptor := s', as_delivered := as_delivered st @ map (\<lambda>(tx, b, taken). (response_tag m, tx, b, taken)) out\<rparr>)"
| "ad_exec encode decode (AdCleanup now timeout) st =
     st\<lparr>as_adaptor := adaptor_cleanup now timeout (as_adaptor st)\<rparr>"

definition ad_run ::
  "(ipc_message \<Rightarrow> bytes) \<Rightarrow> (bytes \<Rightarrow> (ipc_message, io_error) result) \<Rightarrow> 'tx ad_call list \<Rightarrow> 'tx ad_state" where
  "ad_run encode decode calls = fold (ad_exec encode decode) calls
     \<lparr>as_adaptor = adaptor_new, as_callers = [], as_delivered = []\<rparr>"

section \<open>Proofs\<close>

lemma adaptor_parse_response:
  assumes "decode msg = Ok (ipc_message_response (message_response_new tag (Ok b)))"
  shows "adaptor_parse accepts decode msg s =
    (Ok None, s\<lparr>ad_result_senders := hm_del (ad_result_senders s) tag\<rparr>,
     case hm_get (ad_result_senders s) tag of Some (tx, _) \<Rightarrow> [(tx, b, accepts tx)] | None \<Rightarrow> [])"
  using assms by (auto simp: adaptor_parse_def ipc_message_response_def message_response_new_def hm_remove_def split: option.split)

definition ad_inv :: "'tx ad_state \<Rightarrow> bool" where
  "ad_inv st \<longleftrightarrow>
     hm_ok (ad_result_senders (as_adaptor st)) \<and>
     unat (ad_tag (as_adaptor st)) = length (as_callers st) \<and>
     (\<forall>t tx ts. hm_get (ad_result_senders (as_adaptor st)) t = Some (tx, ts) \<longrightarrow>
        unat t < length (as_callers st) \<and> as_callers st ! unat t = tx \<and> t \<notin> fst ` set (as_delivered st)) \<and>
     (\<forall>(t, tx, b, taken) \<in> set (as_delivered st). unat t < length (as_callers st) \<and> as_callers st ! unat t = tx) \<and>
     distinct (map fst (as_delivered st))"

lemma adaptor_parse_error:
  assumes "decode msg = Ok (ipc_message_response (message_response_new tag (Err e)))"
  shows "adaptor_parse accepts decode msg s = (Err (IoErr OtherKind (box_str e)), s, [])"
  using assms by (simp add: adaptor_parse_def ipc_message_response_def message_response_new_def)

lemma ad_inv_senders:
  "ad_inv st \<Longrightarrow> hm_ok m \<Longrightarrow> (\<And>t v. hm_get m t = Some v \<Longrightarrow> hm_get (ad_result_senders (as_adaptor st)) t = Some v) \<Longrightarrow>
   ad_inv (st\<lparr>as_adaptor := (as_adaptor st)\<lparr>ad_result_senders := m\<rparr>\<rparr>)"
  by (auto simp: ad_inv_def)

lemma ad_send_inv:
  assumes "ad_inv st" and "length (as_callers st) < 2 ^ 64 - 1"
  shows "ad_inv (ad_exec encode decode (AdSend a i b tx ts f) st)"
proof -
  have tag: "unat (ad_tag (as_adaptor st) + 1) = Suc (unat (ad_tag (as_adaptor st)))"
    using assms by (simp add: ad_inv_def unat_word_ariths)
  let ?a = "as_adaptor st"
  have old: "unat t < length (as_callers st) \<and> as_callers st ! unat t = c \<and> t \<notin> fst ` set (as_delivered st)"
    if "hm_get (ad_result_senders ?a) t = Some (c, z)" for t c z
    using assms(1) that by (simp add: ad_inv_def)
  have deliv: "unat t < length (as_callers st) \<and> as_callers st ! unat t = c" if "(t, c, b) \<in> set (as_delivered st)" for t c and b :: "bytes \<times> bool"
    using assms(1) that by (fastforce simp: ad_inv_def)
  have len: "unat (ad_tag ?a) = length (as_callers st)" and ok: "hm_ok (ad_result_senders ?a)" and dist: "distinct (map fst (as_delivered st))"
    using assms(1) by (simp_all add: ad_inv_def)
  have "ad_tag ?a \<notin> fst ` set (as_delivered st)" using deliv len by fastforce
  then show ?thesis
    using old deliv dist tag len ok
    by (auto simp: ad_inv_def adaptor_send_def adaptor_next_tag_def hm_insert_def nth_append Let_def split: if_splits dest: deliv old)
qed

lemma ad_parse_inv:
  assumes "ad_inv st" and "decode (encode m) = Ok m"
  shows "ad_inv (ad_exec encode decode (AdParse accepts m) st)"
proof (cases "\<exists>r b. im_message m = Some (ITMessageResponse r) \<and> mr_response r = Some (ResponseOk b)")
  case True
  then obtain r b where m: "im_message m = Some (ITMessageResponse r)" "mr_response r = Some (ResponseOk b)" by blast
  let ?s = "as_adaptor st"
  have p: "adaptor_parse accepts decode (encode m) ?s =
      (Ok None, ?s\<lparr>ad_result_senders := hm_del (ad_result_senders ?s) (mr_tag r)\<rparr>,
       case hm_get (ad_result_senders ?s) (mr_tag r) of Some (tx, _) \<Rightarrow> [(tx, b, accepts tx)] | None \<Rightarrow> [])"
    using m assms(2) by (auto simp: adaptor_parse_def hm_remove_def split: option.split)
  have tag: "response_tag m = mr_tag r" by (simp add: response_tag_def m)
  show ?thesis
    using assms(1) by (auto simp: p tag ad_inv_def split: option.split if_splits)
next
  case False
  then have "snd (adaptor_parse accepts decode (encode m) (as_adaptor st)) = (as_adaptor st, [])"
    using assms(2) by (auto simp: adaptor_parse_def Let_def split: option.split ipc_message_type.split response_type.split)
  then show ?thesis
    using assms(1) by (cases "adaptor_parse accepts decode (encode m) (as_adaptor st)") (simp add: ad_inv_def)
qed

lemma ad_run_callers: "length (as_callers (fold (ad_exec encode decode) calls st)) \<le> length (as_callers st) + length calls"
proof (induction calls arbitrary: st)
  case (Cons c calls)
  have "length (as_callers (ad_exec encode decode c st)) \<le> Suc (length (as_callers st))"
    by (cases c) (auto split: prod.split)
  with Cons.IH [of "ad_exec encode decode c st"] show ?case by simp
qed simp

lemma ad_exec_inv:
  assumes "ipc_wire encode decode" and "ad_inv st" and "length (as_callers st) < 2 ^ 64 - 1"
  shows "ad_inv (ad_exec encode decode c st)"
proof (cases c)
  case (AdSend a i b tx ts f)
  then show ?thesis using ad_send_inv [OF assms(2,3)] by simp
next
  case (AdParse accepts m)
  then show ?thesis using ad_parse_inv [OF assms(2), of decode encode m accepts] ipc_wire.roundtrip [OF assms(1), of m] by simp
next
  case (AdCleanup now timeout)
  then show ?thesis
    using assms(2) by (auto simp: adaptor_cleanup_def hm_get_filter_Some ad_inv_def intro!: ad_inv_senders [OF assms(2)])
qed (use assms(2) in \<open>simp add: adaptor_do_send_def\<close>)

lemma ad_run_inv:
  fixes calls :: "'tx ad_call list"
  assumes "ipc_wire encode decode" and "length calls < 2 ^ 64"
  shows "ad_inv (ad_run encode decode calls)"
  using assms(2) unfolding ad_run_def
proof (induction calls rule: rev_induct)
  case Nil
  then show ?case by (simp add: ad_inv_def adaptor_new_def)
next
  case (snoc c calls)
  let ?st = "fold (ad_exec encode decode) calls (\<lparr>as_adaptor = adaptor_new, as_callers = [], as_delivered = []\<rparr> :: 'tx ad_state)"
  have "length (as_callers ?st) \<le> length calls" using ad_run_callers [of encode decode calls "\<lparr>as_adaptor = adaptor_new, as_callers = [], as_delivered = []\<rparr> :: 'tx ad_state"] by simp
  with snoc have "length (as_callers ?st) < 2 ^ 64 - 1" and "ad_inv ?st" by simp_all
  then show ?case using ad_exec_inv [OF assms(1)] by simp
qed

text \<open>The encoding of theory \<open>Ipc_Wire\<close>, with any error for bytes that are no message.\<close>

definition ipc_encode_to_vec :: "ipc_message \<Rightarrow> bytes" where
  "ipc_encode_to_vec m = wire_print (ipc_message_to_fields m)"

definition ipc_decode :: "io_error \<Rightarrow> bytes \<Rightarrow> (ipc_message, io_error) result" where
  "ipc_decode e bs = (case pm_decode ipc_message_wire bs of Ok m \<Rightarrow> Ok m | Err _ \<Rightarrow> Err e)"

interpretation ipc: ipc_wire ipc_encode_to_vec "ipc_decode e"
  using ipc_message_wire.roundtrip
  by unfold_locales (simp add: ipc_encode_to_vec_def ipc_decode_def ipc_message_wire_def wire_message_def)

section \<open>Properties\<close>

text \<open>C27. Responses are routed to the caller that asked, once: in any sequence of fewer than \<open>2^64\<close> calls of the adaptor, every
  payload under a tag was offered to the channel of the caller of the request with that number, no tag is offered twice,
  and a caller that still waits is registered under the number of its own request and has been offered nothing. A response that
  arrives for a waiting caller is offered to exactly that caller and ends its wait, whether or not its channel takes it; an error response is returned
  by \<open>parse\<close> and leaves the caller waiting, until \<open>cleanup\<close>.\<close>

theorem adaptor_routes_once:
  assumes "ipc_wire encode decode" and "length calls < 2 ^ 64"
  shows "case ad_run encode decode calls of st \<Rightarrow>
    distinct (map fst (as_delivered st)) \<and>
    (\<forall>(t, tx, b, taken) \<in> set (as_delivered st). unat t < length (as_callers st) \<and> as_callers st ! unat t = tx) \<and>
    (\<forall>t tx ts. hm_get (ad_result_senders (as_adaptor st)) t = Some (tx, ts) \<longrightarrow>
       unat t < length (as_callers st) \<and> as_callers st ! unat t = tx \<and> t \<notin> fst ` set (as_delivered st) \<and>
       (\<forall>b accepts. case adaptor_parse accepts decode (encode (ipc_message_response (message_response_new t (Ok b)))) (as_adaptor st) of
          (r, s', out) \<Rightarrow> r = Ok None \<and> out = [(tx, b, accepts tx)] \<and> hm_get (ad_result_senders s') t = None) \<and>
       (\<forall>e accepts. adaptor_parse accepts decode (encode (ipc_message_response (message_response_new t (Err e)))) (as_adaptor st) =
          (Err (IoErr OtherKind (box_str e)), as_adaptor st, [])))"
  using ad_run_inv [OF assms] by (auto simp: ad_inv_def adaptor_parse_response adaptor_parse_error ipc_wire.roundtrip [OF assms(1)])

theorem adaptor_routes_once_witness:
  "let calls = [AdSend 5 6 [] ''a'' 10 (\<lambda>_. Ok ()), AdSend 5 6 [1] ''b'' 20 (\<lambda>_. Err ()),
         AdParse (\<lambda>_. True) (ipc_message_response (message_response_new 1 (Ok [7])))];
       st = ad_run ipc_encode_to_vec (ipc_decode (IoErr OtherKind (box_str ''invalid''))) calls
   in as_delivered st = [(1, ''b'', [7], True)] \<and> hm_get (ad_result_senders (as_adaptor st)) 0 = Some (''a'', 10) \<and>
     distinct (map fst (as_delivered st)) \<and> as_callers st ! unat (0 :: u64) = ''a''"
proof -
  let ?calls = "[AdSend 5 6 [] ''a'' 10 (\<lambda>_. Ok ()), AdSend 5 6 [1] ''b'' 20 (\<lambda>_. Err ()),
         AdParse (\<lambda>_. True) (ipc_message_response (message_response_new 1 (Ok [7])))]"
  let ?st = "ad_run ipc_encode_to_vec (ipc_decode (IoErr OtherKind (box_str ''invalid''))) ?calls"
  have "as_delivered ?st = [(1, ''b'', [7], True)] \<and> hm_get (ad_result_senders (as_adaptor ?st)) 0 = Some (''a'', 10)"
    by (simp add: ad_run_def adaptor_send_def adaptor_next_tag_def adaptor_new_def hm_insert_def adaptor_parse_response
        ipc.roundtrip response_tag_def proto_defs)
  moreover from this have "as_callers ?st ! unat (0 :: u64) = ''a''"
    using adaptor_routes_once [OF ipc.ipc_wire_axioms, of ?calls "IoErr OtherKind (box_str ''invalid'')"] by fastforce
  ultimately show ?thesis by (simp add: Let_def)
qed

end
