(* ===== verification/Prost_Codec.thy ===== *)
theory Prost_Codec
  imports Wire
begin

unbundle bit_operations_syntax

text \<open>
  The protobuf codec of the basic types (\<open>acktor/src/codec/prost_codec.rs\<close>): scalars go through
  \<open>prost\<close>, some after a cast to a wider type; vectors of numbers are packed by hand, signed ones with
  zigzag; tuples are written by hand, field by field. All of them are decoded by \<open>prost\<close>. Floating-point
  values are their bit patterns.
\<close>

section \<open>Packed vectors\<close>

type_synonym int32 = "32 word"
type_synonym int64 = "64 word"

definition zigzag32 :: "int32 \<Rightarrow> u64" where
  "zigzag32 n = ucast (push_bit 1 n XOR signed_drop_bit 31 n)"

definition zigzag64 :: "int64 \<Rightarrow> u64" where
  "zigzag64 n = push_bit 1 n XOR signed_drop_bit 63 n"

definition packed_data_len :: "pb_ops \<Rightarrow> ('a \<Rightarrow> u64) \<Rightarrow> 'a list \<Rightarrow> nat" where
  "packed_data_len pb to_varint values = sum_list (map (\<lambda>v. pb_delimiter_len pb (unat (to_varint v))) values)"

definition encoded_len_packed_varint :: "pb_ops \<Rightarrow> ('a \<Rightarrow> u64) \<Rightarrow> 'a list \<Rightarrow> nat" where
  "encoded_len_packed_varint pb to_varint values =
     (if values = [] then 0 else field_encoded_len pb 1 (packed_data_len pb to_varint values))"

definition encode_packed_varint :: "pb_ops \<Rightarrow> ('a \<Rightarrow> u64) \<Rightarrow> 'a list \<Rightarrow> bytes \<Rightarrow> bytes" where
  "encode_packed_varint pb to_varint values buf =
     (if values = [] then buf
      else buf @ [LENGTH_DELIMITED_TAGS ! 1] @ pb_varint pb (word_of_nat (packed_data_len pb to_varint values)) @
        concat (map (\<lambda>value. pb_varint pb (to_varint value)) values))"

definition encoded_len_packed_fixed :: "pb_ops \<Rightarrow> 'w::len word list \<Rightarrow> nat" where
  "encoded_len_packed_fixed pb values =
     (if values = [] then 0 else field_encoded_len pb 1 (length values * (LENGTH('w) div 8)))"

definition encode_packed_fixed :: "pb_ops \<Rightarrow> ('w::len word \<Rightarrow> bytes) \<Rightarrow> 'w word list \<Rightarrow> bytes \<Rightarrow> bytes" where
  "encode_packed_fixed pb write values buf =
     (if values = [] then buf
      else buf @ [LENGTH_DELIMITED_TAGS ! 1] @ pb_varint pb (word_of_nat (length values * (LENGTH('w) div 8))) @
        concat (map write values))"

section \<open>Scalars\<close>

definition prost_codec :: "'a pm_ops \<Rightarrow> ('a, 'ec, 'dc) codec" where
  "prost_codec pm =
     \<lparr>cd_len = pm_len pm, cd_encode = pm_append pm,
      cd_decode = (\<lambda>_ buf. case pm_decode pm (b_bytes buf) of Err e \<Rightarrow> Err (DecodeOther e) | Ok v \<Rightarrow> Ok v)\<rparr>"

text \<open>\<open>try_from\<close> between integer types.\<close>

definition unsigned_try_from :: "'v::len word \<Rightarrow> ('w::len word, decode_error) result" where
  "unsigned_try_from value = (if unat value < 2 ^ LENGTH('w) then Ok (ucast value) else Err int_range_error)"

definition signed_try_from :: "'v::len word \<Rightarrow> ('w::len word, decode_error) result" where
  "signed_try_from value =
     (if - (2 ^ (LENGTH('w) - 1)) \<le> sint value \<and> sint value < 2 ^ (LENGTH('w) - 1)
      then Ok (scast value) else Err int_range_error)"

definition prost_unsigned_codec :: "'v::len word pm_ops \<Rightarrow> ('w::len word, 'ec, 'dc) codec" where
  "prost_unsigned_codec pm =
     \<lparr>cd_len = (\<lambda>v. pm_len pm (ucast v)), cd_encode = (\<lambda>v. pm_append pm (ucast v)),
      cd_decode = (\<lambda>_ buf. case pm_decode pm (b_bytes buf) of
         Err e \<Rightarrow> Err (DecodeOther e)
       | Ok value \<Rightarrow> unsigned_try_from value)\<rparr>"

definition prost_signed_codec :: "'v::len word pm_ops \<Rightarrow> ('w::len word, 'ec, 'dc) codec" where
  "prost_signed_codec pm =
     \<lparr>cd_len = (\<lambda>v. pm_len pm (scast v)), cd_encode = (\<lambda>v. pm_append pm (scast v)),
      cd_decode = (\<lambda>_ buf. case pm_decode pm (b_bytes buf) of
         Err e \<Rightarrow> Err (DecodeOther e)
       | Ok value \<Rightarrow> signed_try_from value)\<rparr>"

section \<open>Vectors\<close>

text \<open>\<open>decode\<close> is what \<open>prost\<close> derives for the message with the repeated field.\<close>

definition vec_varint_codec ::
  "pb_ops \<Rightarrow> ('a \<Rightarrow> u64) \<Rightarrow> (bytes \<Rightarrow> ('v list, box_error) result) \<Rightarrow> ('v \<Rightarrow> ('a, decode_error) result) \<Rightarrow>
   ('a list, 'ec, 'dc) codec" where
  "vec_varint_codec pb to_varint decode try_from =
     \<lparr>cd_len = encoded_len_packed_varint pb to_varint,
      cd_encode = (\<lambda>v ec b. (Ok (), ec, encode_packed_varint pb to_varint v b)),
      cd_decode = (\<lambda>_ buf. case decode (b_bytes buf) of
         Err e \<Rightarrow> Err (DecodeOther e)
       | Ok values \<Rightarrow> collect_results (map try_from values))\<rparr>"

definition vec_fixed_codec ::
  "pb_ops \<Rightarrow> (bytes \<Rightarrow> ('w::len word list, box_error) result) \<Rightarrow> ('w word list, 'ec, 'dc) codec" where
  "vec_fixed_codec pb decode =
     \<lparr>cd_len = encoded_len_packed_fixed pb,
      cd_encode = (\<lambda>v ec b.
        (Ok (), ec, encode_packed_fixed pb (\<lambda>v. le_bytes (LENGTH('w) div 8) (unat v)) v b)),
      cd_decode = (\<lambda>_ buf. case decode (b_bytes buf) of Err e \<Rightarrow> Err (DecodeOther e) | Ok values \<Rightarrow> Ok values)\<rparr>"

text \<open>The instances of the macro. An unsigned type goes through \<open>VecUint32\<close> or \<open>VecUint64\<close>, a signed
  one through \<open>VecInt32\<close> or \<open>VecInt64\<close>.\<close>

definition vec_prost_bool :: "pb_ops \<Rightarrow> (bytes \<Rightarrow> (bool list, box_error) result) \<Rightarrow> (bool list, 'ec, 'dc) codec" where
  "vec_prost_bool pb decode = vec_varint_codec pb (\<lambda>v. if v then 1 else 0) decode Ok"

definition vec_prost_unsigned ::
  "pb_ops \<Rightarrow> (bytes \<Rightarrow> ('v::len word list, box_error) result) \<Rightarrow> ('w::len word list, 'ec, 'dc) codec" where
  "vec_prost_unsigned pb decode = vec_varint_codec pb ucast decode unsigned_try_from"

definition vec_prost_signed32 ::
  "pb_ops \<Rightarrow> (bytes \<Rightarrow> (int32 list, box_error) result) \<Rightarrow> ('w::len word list, 'ec, 'dc) codec" where
  "vec_prost_signed32 pb decode = vec_varint_codec pb (\<lambda>v. zigzag32 (scast v)) decode signed_try_from"

definition vec_prost_signed64 ::
  "pb_ops \<Rightarrow> (bytes \<Rightarrow> (int64 list, box_error) result) \<Rightarrow> ('w::len word list, 'ec, 'dc) codec" where
  "vec_prost_signed64 pb decode = vec_varint_codec pb (\<lambda>v. zigzag64 (scast v)) decode signed_try_from"

section \<open>Tuples\<close>

text \<open>The macro writes one block per element; a tuple is put together from its elements, and
  \<open>decode\<close> is what \<open>prost\<close> derives for \<open>Tuple\<close>, the list of its ten optional fields.\<close>

record ('a, 'ec, 'dc) tuple_part =
  tp_len :: "'a \<Rightarrow> nat"
  tp_encode :: "'a \<Rightarrow> 'ec \<Rightarrow> bytes \<Rightarrow> (unit, encode_error) result \<times> 'ec \<times> bytes"
  tp_decode :: "'dc \<Rightarrow> buf option list \<Rightarrow> ('a, decode_error) result"

definition tuple_element :: "pb_ops \<Rightarrow> nat \<Rightarrow> ('a, 'ec, 'dc) codec \<Rightarrow> ('a, 'ec, 'dc) tuple_part" where
  "tuple_element pb index cd =
     \<lparr>tp_len = (\<lambda>v. 1 + pb_delimiter_len pb (cd_len cd v) + cd_len cd v),
      tp_encode = (\<lambda>v ec b. cd_encode cd v ec
        (b @ [LENGTH_DELIMITED_TAGS ! (index + 1)] @ pb_varint pb (word_of_nat (cd_len cd v)))),
      tp_decode = (\<lambda>dc message. case message ! index of
         None \<Rightarrow> Err (decode_error_from_str
           (''missing field t'' @ [char_of (48 + index)] @ '' in tuple message''))
       | Some b \<Rightarrow> cd_decode cd dc b)\<rparr>"

definition tuple_then ::
  "('a, 'ec, 'dc) tuple_part \<Rightarrow> ('b, 'ec, 'dc) tuple_part \<Rightarrow> ('a \<times> 'b, 'ec, 'dc) tuple_part" where
  "tuple_then p q =
     \<lparr>tp_len = (\<lambda>(v, r). tp_len p v + tp_len q r),
      tp_encode = (\<lambda>(v, r) ec b. case tp_encode p v ec b of
         (Err e, ec', b') \<Rightarrow> (Err e, ec', b')
       | (Ok _, ec', b') \<Rightarrow> tp_encode q r ec' b'),
      tp_decode = (\<lambda>dc message. case tp_decode p dc message of
         Err e \<Rightarrow> Err e
       | Ok v \<Rightarrow> map_ok (\<lambda>r. (v, r)) (tp_decode q dc message))\<rparr>"

definition prost_tuple_codec ::
  "(buf \<Rightarrow> (buf option list, box_error) result) \<Rightarrow> ('a, 'ec, 'dc) tuple_part \<Rightarrow> ('a, 'ec, 'dc) codec" where
  "prost_tuple_codec decode part =
     \<lparr>cd_len = tp_len part, cd_encode = tp_encode part,
      cd_decode = (\<lambda>dc buf. case decode buf of
         Err e \<Rightarrow> Err (DecodeOther e)
       | Ok message \<Rightarrow> tp_decode part dc message)\<rparr>"

section \<open>What \<open>prost\<close> promises\<close>

text \<open>Zigzag as the protobuf encoding documents it, on integers.\<close>

definition zigzag_spec :: "int \<Rightarrow> nat" where
  "zigzag_spec n = nat (if 0 \<le> n then 2 * n else - 2 * n - 1)"

definition zigzag_inv :: "nat \<Rightarrow> int" where
  "zigzag_inv k = (if even k then int (k div 2) else - int (k div 2) - 1)"

text \<open>A repeated field with the number 1 whose elements are encoded by \<open>enc\<close>.\<close>

locale prost_packed =
  fixes pb :: pb_ops
    and enc :: "'v \<Rightarrow> bytes"
    and decode :: "bytes \<Rightarrow> ('v list, box_error) result"
  assumes decode_empty: "decode [] = Ok []"
    and decode_packed: "length (concat (map enc values)) < 2 ^ 64 \<Longrightarrow> values \<noteq> [] \<Longrightarrow>
      decode (0x0A # pb_varint pb (word_of_nat (length (concat (map enc values)))) @ concat (map enc values)) = Ok values"

abbreviation varint_of :: "pb_ops \<Rightarrow> ('v \<Rightarrow> nat) \<Rightarrow> 'v \<Rightarrow> bytes" where
  "varint_of pb number \<equiv> \<lambda>v. pb_varint pb (word_of_nat (number v))"

text \<open>The fields of \<open>Tuple\<close>, written in order from the number of the first.\<close>

fun tuple_bytes :: "pb_ops \<Rightarrow> nat \<Rightarrow> bytes list \<Rightarrow> bytes" where
  "tuple_bytes pb index [] = []"
| "tuple_bytes pb index (bs # bss) =
     (LENGTH_DELIMITED_TAGS ! (index + 1)) # pb_varint pb (word_of_nat (length bs)) @ bs @ tuple_bytes pb (index + 1) bss"

definition holds_field :: "buf option list \<Rightarrow> nat \<Rightarrow> bytes \<Rightarrow> bool" where
  "holds_field message i bs \<longleftrightarrow> i < length message \<and> map_option b_bytes (message ! i) = Some bs"

locale prost_tuple =
  fixes pb :: pb_ops
    and decode :: "buf \<Rightarrow> (buf option list, box_error) result"
  assumes decode_fields: "length bss \<le> 10 \<Longrightarrow> list_all (\<lambda>bs. length bs < 2 ^ 64) bss \<Longrightarrow>
      \<exists>message. decode \<lparr>b_addr = a, b_bytes = tuple_bytes pb 0 bss\<rparr> = Ok message \<and>
        (\<forall>i < length bss. holds_field message i (bss ! i))"

section \<open>Zigzag\<close>

lemma zigzag_inv_spec: "zigzag_inv (zigzag_spec n) = n"
  by (auto simp: zigzag_inv_def zigzag_spec_def even_nat_iff nat_div_distrib)

lemma signed_drop_bit_sign:
  fixes n :: "'w::len word"
  shows "signed_drop_bit (LENGTH('w) - Suc 0) n = (if sint n < 0 then - 1 else 0)"
proof (rule bit_word_eqI)
  fix i assume "i < LENGTH('w)"
  then show "bit (signed_drop_bit (LENGTH('w) - Suc 0) n) i \<longleftrightarrow> bit (if sint n < 0 then - 1 else 0 :: 'w word) i"
    by (cases i) (auto simp: bit_signed_drop_bit_iff bit_last_iff)
qed

lemma word_zigzag:
  fixes n :: "'w::len word"
  shows "push_bit 1 n XOR signed_drop_bit (LENGTH('w) - 1) n = word_of_nat (zigzag_spec (sint n))"
proof (cases "0 \<le> sint n")
  case True
  then have "signed_drop_bit (LENGTH('w) - 1) n = 0" by (simp add: signed_drop_bit_sign)
  moreover have "(word_of_nat (zigzag_spec (sint n)) :: 'w word) = 2 * n"
    using True by (simp add: zigzag_spec_def)
  ultimately show ?thesis by (simp add: push_bit_eq_mult)
next
  case False
  then have "signed_drop_bit (LENGTH('w) - 1) n = - 1" by (simp add: signed_drop_bit_sign)
  moreover have "(word_of_nat (zigzag_spec (sint n)) :: 'w word) = - 2 * n - 1"
    using False by (simp add: zigzag_spec_def)
  ultimately show ?thesis by (simp add: push_bit_eq_mult not_eq_complement)
qed

lemma zigzag_spec_less:
  fixes n :: "'w::len word"
  shows "zigzag_spec (sint n) < 2 ^ LENGTH('w)"
proof -
  have "(2 :: int) ^ LENGTH('w) = 2 * 2 ^ (LENGTH('w) - 1)" by (simp flip: power_Suc)
  moreover have "(if 0 \<le> sint n then 2 * sint n else - 2 * sint n - 1) < 2 * 2 ^ (LENGTH('w) - 1)"
    using sint_ge [of n] sint_lt [of n] by auto
  ultimately show ?thesis by (simp add: zigzag_spec_def nat_less_iff)
qed

lemma zigzag32_spec: "zigzag32 n = word_of_nat (zigzag_spec (sint n))"
  using word_zigzag [of n] zigzag_spec_less [of n] by (simp add: zigzag32_def ucast_nat unat_of_nat)

lemma zigzag64_spec: "zigzag64 n = word_of_nat (zigzag_spec (sint n))"
  using word_zigzag [of n] by (simp add: zigzag64_def)

section \<open>The codecs keep the contract\<close>

lemma unat_ucast_up:
  assumes "LENGTH('w::len) \<le> LENGTH('v::len)"
  shows "unat (ucast (v :: 'w word) :: 'v word) = unat v"
proof -
  have "unat v < 2 ^ LENGTH('w)" and "(2 :: nat) ^ LENGTH('w) \<le> 2 ^ LENGTH('v)"
    using assms by (simp_all add: unsigned_less)
  then have "unat v < 2 ^ LENGTH('v)" by (rule less_le_trans)
  then show ?thesis by (simp add: unsigned_ucast_eq take_bit_nat_eq_self)
qed

lemma unsigned_try_from_ucast:
  assumes "LENGTH('w::len) \<le> LENGTH('v::len)"
  shows "unsigned_try_from (ucast (v :: 'w word) :: 'v word) = Ok v"
  using ucast_nat [of "ucast v :: 'v word", where 'a = 'w] unat_ucast_up [OF assms, of v]
  by (simp add: unsigned_try_from_def unsigned_less)

lemma signed_try_from_scast:
  assumes "LENGTH('w::len) \<le> LENGTH('v::len)"
  shows "signed_try_from (scast (v :: 'w word) :: 'v word) = Ok v"
proof -
  have "(2 :: int) ^ (LENGTH('w) - 1) \<le> 2 ^ (LENGTH('v) - 1)" using assms by (intro power_increasing) auto
  then have "- (2 ^ (LENGTH('v) - 1)) \<le> sint v" and "sint v < 2 ^ (LENGTH('v) - 1)"
    using sint_ge [of v] sint_lt [of v] by linarith+
  then have "sint (scast v :: 'v word) = sint v"
    by (simp add: signed_scast_eq signed_take_bit_int_eq_self)
  then show ?thesis
    using scast_eq [of "scast v :: 'v word", where 'a = 'w] sint_ge [of v] sint_lt [of v]
    by (simp add: signed_try_from_def)
qed

lemma prost_scalar_laws: "proto_message pm \<Longrightarrow> codec_laws (prost_codec pm) always same"
  by (rule proto_message.message_laws [where msg = "\<lambda>v. v"]) (auto simp: prost_codec_def dest: pm_append_OkD)

lemma prost_unsigned_laws:
  assumes "proto_message (pm :: 'v::len word pm_ops)" and "LENGTH('w::len) \<le> LENGTH('v)"
  shows "codec_laws (prost_unsigned_codec pm :: ('w word, 'ec, 'dc) codec) always same"
  by (rule proto_message.message_laws [OF assms(1), where msg = ucast])
    (auto simp: prost_unsigned_codec_def unsigned_try_from_ucast [OF assms(2)] dest: pm_append_OkD)

lemma prost_signed_laws:
  assumes "proto_message (pm :: 'v::len word pm_ops)" and "LENGTH('w::len) \<le> LENGTH('v)"
  shows "codec_laws (prost_signed_codec pm :: ('w word, 'ec, 'dc) codec) always same"
  by (rule proto_message.message_laws [OF assms(1), where msg = scast])
    (auto simp: prost_signed_codec_def signed_try_from_scast [OF assms(2)] dest: pm_append_OkD)

context protobuf
begin

lemma packed_data_len: "length (concat (map (\<lambda>v. pb_varint pb (f v)) vs)) = packed_data_len pb f vs"
proof (induction vs)
  case (Cons v vs)
  have "length (pb_varint pb (f v)) = pb_delimiter_len pb (unat (f v))"
    using varint_len [of "unat (f v)"] unsigned_less [of "f v"] by simp
  with Cons show ?case by (simp add: packed_data_len_def)
qed (simp add: packed_data_len_def)

lemma vec_varint_laws:
  assumes "prost_packed pb enc decode"
    and "\<And>v. enc (conv v) = pb_varint pb (f v)" and "\<And>v. try_from (conv v) = Ok v"
  shows "codec_laws (vec_varint_codec pb f decode try_from) always same"
proof
  let ?cd = "vec_varint_codec pb f decode try_from"
  fix v ec b ec' b'
  assume enc: "cd_encode ?cd v ec b = (Ok (), ec', b')" and len: "cd_len ?cd v < 2 ^ 64"
  show "\<exists>bs. b' = b @ bs \<and> length bs = cd_len ?cd v \<and> (\<forall>dc a. True \<longrightarrow>
      (\<exists>w. cd_decode ?cd dc \<lparr>b_addr = a, b_bytes = bs\<rparr> = Ok w \<and> v = w))"
  proof (cases "v = []")
    case True
    then show ?thesis using enc prost_packed.decode_empty [OF assms(1)]
      by (auto simp: vec_varint_codec_def encode_packed_varint_def encoded_len_packed_varint_def)
  next
    case False
    let ?n = "packed_data_len pb f v"
    let ?bs = "0x0A # pb_varint pb (word_of_nat ?n) @ concat (map (\<lambda>x. pb_varint pb (f x)) v)"
    have n: "?n < 2 ^ 64"
      using len False by (simp add: vec_varint_codec_def encoded_len_packed_varint_def field_encoded_len_def)
    have data: "concat (map enc (map conv v)) = concat (map (\<lambda>x. pb_varint pb (f x)) v)"
      by (simp add: assms(2) o_def)
    have "decode ?bs = Ok (map conv v)"
      using prost_packed.decode_packed [OF assms(1), of "map conv v"] n False by (simp only: data packed_data_len) simp
    moreover have "collect_results (map try_from (map conv v)) = Ok v"
      by (rule collect_results_Ok [where g = conv]) (simp_all add: assms(3))
    ultimately show ?thesis
      using enc False n
      by (intro exI [where x = ?bs]) (auto simp: vec_varint_codec_def encode_packed_varint_def LENGTH_DELIMITED_TAGS_def
          encoded_len_packed_varint_def field_len [where t = "0x0A"] packed_data_len)
  qed
qed

lemma vec_fixed_laws:
  assumes "prost_packed pb (\<lambda>v :: 'w::len word. le_bytes (LENGTH('w) div 8) (unat v)) decode"
  shows "codec_laws (vec_fixed_codec pb decode) always same"
proof
  let ?cd = "vec_fixed_codec pb decode" and ?enc = "\<lambda>v :: 'w word. le_bytes (LENGTH('w) div 8) (unat v)"
  fix v ec b ec' b'
  assume enc: "cd_encode ?cd v ec b = (Ok (), ec', b')" and len: "cd_len ?cd v < 2 ^ 64"
  have data: "length (concat (map ?enc v)) = length v * (LENGTH('w) div 8)" by (induction v) simp_all
  show "\<exists>bs. b' = b @ bs \<and> length bs = cd_len ?cd v \<and> (\<forall>dc a. True \<longrightarrow>
      (\<exists>w. cd_decode ?cd dc \<lparr>b_addr = a, b_bytes = bs\<rparr> = Ok w \<and> v = w))"
  proof (cases "v = []")
    case True
    then show ?thesis using enc prost_packed.decode_empty [OF assms(1)]
      by (auto simp: vec_fixed_codec_def encode_packed_fixed_def encoded_len_packed_fixed_def)
  next
    case False
    let ?n = "length v * (LENGTH('w) div 8)"
    let ?bs = "0x0A # pb_varint pb (word_of_nat ?n) @ concat (map ?enc v)"
    have n: "?n < 2 ^ 64"
      using len False by (simp add: vec_fixed_codec_def encoded_len_packed_fixed_def field_encoded_len_def)
    have "decode ?bs = Ok v"
      using prost_packed.decode_packed [OF assms(1), of v] n False by (simp only: data) simp
    then show ?thesis
      using enc False n
      by (intro exI [where x = ?bs]) (auto simp: vec_fixed_codec_def encode_packed_fixed_def LENGTH_DELIMITED_TAGS_def
          encoded_len_packed_fixed_def field_len [where t = "0x0A"] data)
  qed
qed

end

subsection \<open>Tuples\<close>

text \<open>A part of a tuple writes \<open>n\<close> fields from number \<open>lo\<close> and reads them back.\<close>

locale tuple_part_laws =
  fixes pb :: pb_ops
    and part :: "('a, 'ec, 'dc) tuple_part"
    and lo n :: nat
    and fits :: "'dc \<Rightarrow> 'a \<Rightarrow> bool"
    and rel :: "'dc \<Rightarrow> 'a \<Rightarrow> 'a \<Rightarrow> bool"
  assumes part_encodes: "tp_encode part v ec b = (Ok (), ec', b') \<Longrightarrow> tp_len part v < 2 ^ 64 \<Longrightarrow>
    \<exists>bss. b' = b @ tuple_bytes pb lo bss \<and> length bss = n \<and> length (tuple_bytes pb lo bss) = tp_len part v \<and>
      list_all (\<lambda>bs. length bs < 2 ^ 64) bss \<and>
      (\<forall>dc message. fits dc v \<longrightarrow> (\<forall>i < n. holds_field message (lo + i) (bss ! i)) \<longrightarrow>
         (\<exists>w. tp_decode part dc message = Ok w \<and> rel dc v w))"

fun pair_rel ::
  "('dc \<Rightarrow> 'a \<Rightarrow> 'a \<Rightarrow> bool) \<Rightarrow> ('dc \<Rightarrow> 'b \<Rightarrow> 'b \<Rightarrow> bool) \<Rightarrow> 'dc \<Rightarrow> 'a \<times> 'b \<Rightarrow> 'a \<times> 'b \<Rightarrow> bool" where
  "pair_rel rel1 rel2 dc (v, r) (w, s) \<longleftrightarrow> rel1 dc v w \<and> rel2 dc r s"

lemma tuple_bytes_append: "tuple_bytes pb lo (xs @ ys) = tuple_bytes pb lo xs @ tuple_bytes pb (lo + length xs) ys"
  by (induction xs arbitrary: lo) simp_all

lemma holds_fieldD: "holds_field message i bs \<Longrightarrow> \<exists>a. message ! i = Some \<lparr>b_addr = a, b_bytes = bs\<rparr>"
proof -
  assume "holds_field message i bs"
  then obtain z where "message ! i = Some z" "b_bytes z = bs" by (auto simp: holds_field_def)
  then show ?thesis by (cases z) simp
qed

context protobuf
begin

lemma tuple_element_laws:
  assumes "codec_laws cd fits rel"
  shows "tuple_part_laws pb (tuple_element pb lo cd) lo 1 (\<lambda>dc v. \<forall>a. fits dc v a) rel"
proof
  let ?p = "tuple_element pb lo cd"
  fix v ec b ec' b'
  let ?h = "[LENGTH_DELIMITED_TAGS ! (lo + 1)] @ pb_varint pb (word_of_nat (cd_len cd v))"
  assume enc: "tp_encode ?p v ec b = (Ok (), ec', b')" and len: "tp_len ?p v < 2 ^ 64"
  then have lv: "cd_len cd v < 2 ^ 64" by (simp add: tuple_element_def)
  obtain bs where bs: "b' = (b @ ?h) @ bs" "length bs = cd_len cd v"
    and dec: "\<forall>dc a. fits dc v a \<longrightarrow> (\<exists>w. cd_decode cd dc \<lparr>b_addr = a, b_bytes = bs\<rparr> = Ok w \<and> rel dc v w)"
    using codec_laws.encodes [OF assms _ lv, of ec "b @ ?h" ec' b'] enc by (auto simp: tuple_element_def)
  have "\<exists>w. tp_decode ?p dc message = Ok w \<and> rel dc v w"
    if "\<forall>a. fits dc v a" and "holds_field message lo bs" for dc message
    using holds_fieldD [OF that(2)] that(1) dec by (auto simp: tuple_element_def)
  then show "\<exists>bss. b' = b @ tuple_bytes pb lo bss \<and> length bss = 1 \<and> length (tuple_bytes pb lo bss) = tp_len ?p v \<and>
      list_all (\<lambda>bs. length bs < 2 ^ 64) bss \<and>
      (\<forall>dc message. (\<forall>a. fits dc v a) \<longrightarrow> (\<forall>i < 1. holds_field message (lo + i) (bss ! i)) \<longrightarrow>
         (\<exists>w. tp_decode ?p dc message = Ok w \<and> rel dc v w))"
    using bs lv by (intro exI [where x = "[bs]"]) (simp add: tuple_element_def varint_len)
qed

end

lemma tuple_then_laws:
  assumes "tuple_part_laws pb p lo m fits1 rel1" and "tuple_part_laws pb q (lo + m) n fits2 rel2"
  shows "tuple_part_laws pb (tuple_then p q) lo (m + n) (\<lambda>dc (v, r). fits1 dc v \<and> fits2 dc r) (pair_rel rel1 rel2)"
proof
  fix v ec b ec' b'
  assume enc: "tp_encode (tuple_then p q) v ec b = (Ok (), ec', b')" and len: "tp_len (tuple_then p q) v < 2 ^ 64"
  obtain x y where v: "v = (x, y)" by (cases v)
  obtain ec1 b1 where e1: "tp_encode p x ec b = (Ok (), ec1, b1)" and e2: "tp_encode q y ec1 b1 = (Ok (), ec', b')"
    using enc by (auto simp: v tuple_then_def split: prod.splits result.splits)
  have l: "tp_len p x < 2 ^ 64" "tp_len q y < 2 ^ 64" using len by (simp_all add: v tuple_then_def)
  obtain xs where xs: "b1 = b @ tuple_bytes pb lo xs" "length xs = m" "length (tuple_bytes pb lo xs) = tp_len p x"
      "list_all (\<lambda>bs. length bs < 2 ^ 64) xs"
    and dx: "\<And>dc message. fits1 dc x \<Longrightarrow> \<forall>i < m. holds_field message (lo + i) (xs ! i) \<Longrightarrow>
         \<exists>w. tp_decode p dc message = Ok w \<and> rel1 dc x w"
    using tuple_part_laws.part_encodes [OF assms(1) e1 l(1)] by blast
  obtain ys where ys: "b' = b1 @ tuple_bytes pb (lo + m) ys" "length ys = n"
      "length (tuple_bytes pb (lo + m) ys) = tp_len q y" "list_all (\<lambda>bs. length bs < 2 ^ 64) ys"
    and dy: "\<And>dc message. fits2 dc y \<Longrightarrow> \<forall>i < n. holds_field message (lo + m + i) (ys ! i) \<Longrightarrow>
         \<exists>w. tp_decode q dc message = Ok w \<and> rel2 dc y w"
    using tuple_part_laws.part_encodes [OF assms(2) e2 l(2)] by blast
  have "\<exists>w. tp_decode (tuple_then p q) dc message = Ok w \<and> pair_rel rel1 rel2 dc v w"
    if "fits1 dc x" "fits2 dc y" and f: "\<forall>i < m + n. holds_field message (lo + i) ((xs @ ys) ! i)" for dc message
  proof -
    have "holds_field message (lo + i) (xs ! i)" if "i < m" for i
      using f [rule_format, of i] that xs(2) by (simp add: nth_append)
    then obtain w where w: "tp_decode p dc message = Ok w" "rel1 dc x w" using dx \<open>fits1 dc x\<close> by blast
    have "holds_field message (lo + m + i) (ys ! i)" if "i < n" for i
      using f [rule_format, of "m + i"] that xs(2) by (simp add: nth_append add.assoc)
    then obtain u where u: "tp_decode q dc message = Ok u" "rel2 dc y u" using dy \<open>fits2 dc y\<close> by blast
    show ?thesis using w u by (intro exI [where x = "(w, u)"]) (simp add: v tuple_then_def)
  qed
  then show "\<exists>bss. b' = b @ tuple_bytes pb lo bss \<and> length bss = m + n \<and>
      length (tuple_bytes pb lo bss) = tp_len (tuple_then p q) v \<and> list_all (\<lambda>bs. length bs < 2 ^ 64) bss \<and>
      (\<forall>dc message. (case v of (v, r) \<Rightarrow> fits1 dc v \<and> fits2 dc r) \<longrightarrow>
         (\<forall>i < m + n. holds_field message (lo + i) (bss ! i)) \<longrightarrow>
         (\<exists>w. tp_decode (tuple_then p q) dc message = Ok w \<and> pair_rel rel1 rel2 dc v w))"
    using xs ys by (intro exI [where x = "xs @ ys"]) (simp add: v tuple_bytes_append tuple_then_def)
qed

lemma prost_tuple_laws:
  assumes "prost_tuple pb decode" and "tuple_part_laws pb part 0 n fits rel" and "n \<le> 10"
  shows "codec_laws (prost_tuple_codec decode part) (\<lambda>dc v a. fits dc v) rel"
proof
  let ?cd = "prost_tuple_codec decode part"
  fix v ec b ec' b'
  assume "cd_encode ?cd v ec b = (Ok (), ec', b')" and "cd_len ?cd v < 2 ^ 64"
  then obtain bss where bss: "b' = b @ tuple_bytes pb 0 bss" "length bss = n"
      "length (tuple_bytes pb 0 bss) = tp_len part v" "list_all (\<lambda>bs. length bs < 2 ^ 64) bss"
    and d: "\<And>dc message. fits dc v \<Longrightarrow> \<forall>i < n. holds_field message (0 + i) (bss ! i) \<Longrightarrow>
         \<exists>w. tp_decode part dc message = Ok w \<and> rel dc v w"
    using tuple_part_laws.part_encodes [OF assms(2), of v ec b ec' b'] by (auto simp: prost_tuple_codec_def)
  have "\<exists>w. cd_decode ?cd dc \<lparr>b_addr = a, b_bytes = tuple_bytes pb 0 bss\<rparr> = Ok w \<and> rel dc v w" if "fits dc v" for dc a
  proof -
    obtain message where "decode \<lparr>b_addr = a, b_bytes = tuple_bytes pb 0 bss\<rparr> = Ok message"
      and "\<forall>i < length bss. holds_field message i (bss ! i)"
      using prost_tuple.decode_fields [OF assms(1), of bss a] bss assms(3) by auto
    then show ?thesis using d [OF that, of message] bss(2) by (auto simp: prost_tuple_codec_def)
  qed
  with bss show "\<exists>bs. b' = b @ bs \<and> length bs = cd_len ?cd v \<and>
      (\<forall>dc a. fits dc v \<longrightarrow> (\<exists>w. cd_decode ?cd dc \<lparr>b_addr = a, b_bytes = bs\<rparr> = Ok w \<and> rel dc v w))"
    by (intro exI [where x = "tuple_bytes pb 0 bss"]) (simp add: prost_tuple_codec_def)
qed

section \<open>The wire format keeps the promises\<close>

fun un_varints :: "nat \<Rightarrow> bytes \<Rightarrow> nat list option" where
  "un_varints n [] = Some []"
| "un_varints 0 (b # bs) = None"
| "un_varints (Suc n) (b # bs) =
     (case un_varint (b # bs) of None \<Rightarrow> None | Some (x, r) \<Rightarrow> map_option ((#) x) (un_varints n r))"

definition repeated_field :: "(bytes \<Rightarrow> 'v list option) \<Rightarrow> bytes \<Rightarrow> ('v list, box_error) result" where
  "repeated_field elements bs =
     (let invalid = Err (box_str ''failed to decode Protobuf message'')
      in case wire_parse bs of
           None \<Rightarrow> invalid
         | Some fs \<Rightarrow> (case len_field 0x0A fs of
             None \<Rightarrow> Ok []
           | Some p \<Rightarrow> (case elements p of None \<Rightarrow> invalid | Some vs \<Rightarrow> Ok vs)))"

definition packed_varints :: "(nat \<Rightarrow> 'v) \<Rightarrow> bytes \<Rightarrow> 'v list option" where
  "packed_varints of_number p = map_option (map of_number) (un_varints (length p) p)"

definition packed_words :: "bytes \<Rightarrow> 'w::len word list option" where
  "packed_words p =
     (let size = LENGTH('w) div 8
      in if size dvd length p then Some (map (\<lambda>c. word_of_nat (le_nat c)) (chunks size (length p div size) p)) else None)"

definition tuple_fields_decode :: "buf \<Rightarrow> (buf option list, box_error) result" where
  "tuple_fields_decode b =
     (case wire_parse (b_bytes b) of
        None \<Rightarrow> Err (box_str ''failed to decode Protobuf message'')
      | Some fs \<Rightarrow> Ok (map (\<lambda>i. map_option (\<lambda>p. \<lparr>b_addr = 0, b_bytes = p\<rparr>) (len_field (LENGTH_DELIMITED_TAGS ! (i + 1)) fs))
          [0..<10]))"

lemma un_varints_concat: "length ns \<le> n \<Longrightarrow> un_varints n (concat (map varint ns)) = Some ns"
proof (induction ns arbitrary: n)
  case (Cons x ns)
  then obtain m where n: "n = Suc m" and IH: "un_varints m (concat (map varint ns)) = Some ns" by (cases n) auto
  obtain c cs where c: "varint x = c # cs" by (cases "varint x") (auto simp: varint.simps [of x] split: if_splits)
  have "un_varint (c # cs @ concat (map varint ns)) = Some (x, concat (map varint ns))"
    using un_varint_varint [of x "concat (map varint ns)"] by (simp add: c)
  then show ?case using IH by (simp add: n c del: un_varint.simps)
qed simp

lemma length_concat_varint: "length ns \<le> length (concat (map varint ns))"
proof (induction ns)
  case (Cons x ns)
  have "1 \<le> length (varint x)" by (subst varint.simps) simp
  with Cons show ?case by simp
qed simp

lemma repeated_field_packed:
  assumes "elements (concat (map enc vs)) = Some vs" and "length (concat (map enc vs)) < 2 ^ 64"
  shows "repeated_field elements (0x0A # pb_varint pb_std (word_of_nat (length (concat (map enc vs)))) @ concat (map enc vs)) = Ok vs"
proof -
  let ?p = "concat (map enc vs)"
  have "0x0A # pb_varint pb_std (word_of_nat (length ?p)) @ ?p = wire_print [WLen 0x0A ?p]"
    using assms(2) by (simp add: pb_std_def wire_print_def unat_of_nat)
  moreover have "wire_parse (wire_print [WLen 0x0A ?p]) = Some [WLen 0x0A ?p]" by (rule wire_parse_print) simp
  ultimately show ?thesis using assms(1) by (simp add: repeated_field_def)
qed

lemma repeated_field_empty: "repeated_field elements [] = Ok []"
  by (simp add: repeated_field_def wire_parse_def)

lemma packed_varints_laws:
  assumes "\<And>v. number v < 2 ^ 64" and "\<And>v. of_number (number v) = v"
  shows "prost_packed pb_std (varint_of pb_std number) (repeated_field (packed_varints of_number))"
proof
  fix vs assume "length (concat (map (varint_of pb_std number) vs)) < 2 ^ 64"
  moreover have "varint_of pb_std number = varint \<circ> number"
    using assms(1) by (simp add: pb_std_def unat_of_nat fun_eq_iff)
  then have "packed_varints of_number (concat (map (varint_of pb_std number) vs)) = Some vs"
    using un_varints_concat [OF length_concat_varint [of "map number vs"]]
    by (simp add: packed_varints_def o_def assms(2))
  ultimately show "repeated_field (packed_varints of_number) (0x0A # pb_varint pb_std (word_of_nat
        (length (concat (map (varint_of pb_std number) vs)))) @ concat (map (varint_of pb_std number) vs)) = Ok vs"
    by (rule repeated_field_packed [rotated])
qed (rule repeated_field_empty)

interpretation packed_bool: prost_packed pb_std "varint_of pb_std (\<lambda>b. if b then 1 else 0)" "repeated_field (packed_varints (\<lambda>n. n \<noteq> 0))"
  by (rule packed_varints_laws) auto

interpretation packed_u32: prost_packed pb_std "varint_of pb_std (unat :: u32 \<Rightarrow> nat)" "repeated_field (packed_varints word_of_nat)"
proof (rule packed_varints_laws)
  fix v :: u32
  show "unat v < 2 ^ 64" using unsigned_less [of v, where 'a = nat] by simp
qed simp

interpretation packed_u64: prost_packed pb_std "varint_of pb_std (unat :: u64 \<Rightarrow> nat)" "repeated_field (packed_varints word_of_nat)"
proof (rule packed_varints_laws)
  fix v :: u64
  show "unat v < 2 ^ 64" using unsigned_less [of v, where 'a = nat] by simp
qed simp

interpretation packed_int32: prost_packed pb_std "varint_of pb_std (\<lambda>n :: int32. zigzag_spec (sint n))"
  "repeated_field (packed_varints (\<lambda>k. word_of_int (zigzag_inv k)))"
proof (rule packed_varints_laws)
  fix v :: int32
  show "zigzag_spec (sint v) < 2 ^ 64" using zigzag_spec_less [of v] by simp
qed (simp add: zigzag_inv_spec)

interpretation packed_int64: prost_packed pb_std "varint_of pb_std (\<lambda>n :: int64. zigzag_spec (sint n))"
  "repeated_field (packed_varints (\<lambda>k. word_of_int (zigzag_inv k)))"
proof (rule packed_varints_laws)
  fix v :: int64
  show "zigzag_spec (sint v) < 2 ^ 64" using zigzag_spec_less [of v] by simp
qed (simp add: zigzag_inv_spec)

lemma packed_words_laws:
  assumes "8 dvd LENGTH('w::len)"
  shows "prost_packed pb_std (\<lambda>v :: 'w word. le_bytes (LENGTH('w) div 8) (unat v)) (repeated_field packed_words)"
proof
  fix vs :: "'w word list"
  let ?n = "LENGTH('w) div 8" and ?bss = "map (\<lambda>v :: 'w word. le_bytes (LENGTH('w) div 8) (unat v)) vs"
  assume small: "length (concat ?bss) < 2 ^ 64"
  have len: "length (concat ?bss) = length vs * ?n" by (induction vs) simp_all
  have "chunks ?n (length vs) (concat ?bss) = ?bss" using chunks_concat [of ?bss ?n] by simp
  then have "packed_words (concat ?bss) = Some vs"
    using LENGTH_pos_div [OF assms] by (simp only: packed_words_def Let_def len)
      (simp add: o_def le_nat_word [OF assms])
  with small show "repeated_field packed_words (0x0A # pb_varint pb_std (word_of_nat (length (concat ?bss))) @ concat ?bss) = Ok vs"
    by (intro repeated_field_packed)
qed (rule repeated_field_empty)

interpretation packed_f32: prost_packed pb_std "\<lambda>v :: 32 word. le_bytes (LENGTH(32) div 8) (unat v)" "repeated_field packed_words"
  by (rule packed_words_laws) simp

interpretation packed_f64: prost_packed pb_std "\<lambda>v :: 64 word. le_bytes (LENGTH(64) div 8) (unat v)" "repeated_field packed_words"
  by (rule packed_words_laws) simp

fun tuple_fields :: "nat \<Rightarrow> bytes list \<Rightarrow> wire_field list" where
  "tuple_fields lo [] = []"
| "tuple_fields lo (bs # bss) = WLen (LENGTH_DELIMITED_TAGS ! (lo + 1)) bs # tuple_fields (lo + 1) bss"

lemma tuple_bytes_print:
  "list_all (\<lambda>bs. length bs < 2 ^ 64) bss \<Longrightarrow> tuple_bytes pb_std lo bss = wire_print (tuple_fields lo bss)"
  by (induction bss arbitrary: lo) (simp_all add: wire_print_def pb_std_def unat_of_nat)

lemma tags_ok: "i < 10 \<Longrightarrow> unat (LENGTH_DELIMITED_TAGS ! (i + 1)) mod 8 = 2"
proof -
  have "list_all (\<lambda>k. unat k mod 8 = 2) (tl LENGTH_DELIMITED_TAGS)" by (simp add: LENGTH_DELIMITED_TAGS_def)
  moreover assume "i < 10"
  ultimately show ?thesis
    by (simp add: list_all_length nth_tl LENGTH_DELIMITED_TAGS_def)
qed

lemma tags_distinct: "i < 10 \<Longrightarrow> j < 10 \<Longrightarrow> LENGTH_DELIMITED_TAGS ! (i + 1) = LENGTH_DELIMITED_TAGS ! (j + 1) \<longleftrightarrow> i = j"
proof -
  have "distinct LENGTH_DELIMITED_TAGS" by (simp add: LENGTH_DELIMITED_TAGS_def)
  moreover have "length LENGTH_DELIMITED_TAGS = 16" by (simp add: LENGTH_DELIMITED_TAGS_def)
  ultimately show "i < 10 \<Longrightarrow> j < 10 \<Longrightarrow> ?thesis" by (simp add: nth_eq_iff_index_eq)
qed

lemma tuple_fields_ok: "lo + length bss \<le> 10 \<Longrightarrow> list_all wire_ok (tuple_fields lo bss)"
  by (induction bss arbitrary: lo) (simp_all add: tags_ok del: One_nat_def add_Suc_right)

lemma tuple_fields_miss: "i < lo \<Longrightarrow> lo + length bss \<le> 10 \<Longrightarrow> len_field (LENGTH_DELIMITED_TAGS ! (i + 1)) (tuple_fields lo bss) = None"
  by (induction bss arbitrary: lo) (simp_all add: tags_distinct del: One_nat_def add_Suc_right)

lemma tuple_fields_hit:
  "i < length bss \<Longrightarrow> lo + length bss \<le> 10 \<Longrightarrow> len_field (LENGTH_DELIMITED_TAGS ! (lo + i + 1)) (tuple_fields lo bss) = Some (bss ! i)"
proof (induction bss arbitrary: lo i)
  case (Cons bs bss)
  show ?case
  proof (cases i)
    case 0
    have "len_field (LENGTH_DELIMITED_TAGS ! (lo + 1)) (tuple_fields (lo + 1) bss) = None"
      using Cons.prems by (intro tuple_fields_miss) simp_all
    with 0 show ?thesis by simp
  next
    case (Suc j)
    then show ?thesis using Cons.IH [of j "lo + 1"] Cons.prems by simp
  qed
qed simp

interpretation tuple_wire: prost_tuple pb_std tuple_fields_decode
proof
  fix bss :: "bytes list" and a :: nat
  assume l: "length bss \<le> 10" and "list_all (\<lambda>bs. length bs < 2 ^ 64) bss"
  then have "tuple_bytes pb_std 0 bss = wire_print (tuple_fields 0 bss)" by (intro tuple_bytes_print)
  moreover have "wire_parse (wire_print (tuple_fields 0 bss)) = Some (tuple_fields 0 bss)"
    using l by (intro wire_parse_print tuple_fields_ok) simp
  moreover have "len_field (LENGTH_DELIMITED_TAGS ! (i + 1)) (tuple_fields 0 bss) = Some (bss ! i)" if "i < length bss" for i
    using tuple_fields_hit [of i bss 0] that l by simp
  ultimately show "\<exists>message. tuple_fields_decode \<lparr>b_addr = a, b_bytes = tuple_bytes pb_std 0 bss\<rparr> = Ok message \<and>
      (\<forall>i < length bss. holds_field message i (bss ! i))"
    using l by (auto simp: tuple_fields_decode_def holds_field_def)
qed

section \<open>Properties\<close>

text \<open>The shifts of \<open>zigzag32\<close> and \<open>zigzag64\<close> compute the documented zigzag number of every integer: its
  twice for a non-negative one, one less than the twice of its magnitude for a negative one. The number has an
  inverse, fits the width of its type and is never above twice the magnitude, so that small
  magnitudes give short varints.\<close>

theorem zigzag_documented:
  "(\<forall>n :: int32. unat (zigzag32 n) = zigzag_spec (sint n) \<and> zigzag_inv (unat (zigzag32 n)) = sint n \<and>
      unat (zigzag32 n) < 2 ^ 32 \<and> int (unat (zigzag32 n)) \<le> 2 * \<bar>sint n\<bar>) \<and>
   (\<forall>n :: int64. unat (zigzag64 n) = zigzag_spec (sint n) \<and> zigzag_inv (unat (zigzag64 n)) = sint n \<and>
      int (unat (zigzag64 n)) \<le> 2 * \<bar>sint n\<bar>)"
proof -
  have le: "int (zigzag_spec k) \<le> 2 * \<bar>k\<bar>" for k by (simp add: zigzag_spec_def)
  have "unat (zigzag32 n) = zigzag_spec (sint n)" for n
    using zigzag_spec_less [of n] by (simp add: zigzag32_spec unat_of_nat)
  moreover have "unat (zigzag64 n) = zigzag_spec (sint n)" for n
    using zigzag_spec_less [of n] by (simp add: zigzag64_spec unat_of_nat)
  moreover have "zigzag_spec (sint n) < 2 ^ 32" for n :: int32
    using zigzag_spec_less [of n] by simp
  ultimately show ?thesis using le by (simp add: zigzag_inv_spec)
qed

text \<open>The protobuf codec of the basic types is a codec: vectors of signed and unsigned integers of any width that
  the wire type can hold, of booleans and of floating-point numbers, packed by hand, are encoded to the announced length and decoded
  by \<open>prost\<close> to the same vector; and a tuple of up to ten elements, written element by element, has
  the announced length and is decoded to elements related to the written ones.\<close>

theorem prost_codecs:
  fixes dec_unsigned :: "bytes \<Rightarrow> ('v::len word list, box_error) result"
    and dec_fixed :: "bytes \<Rightarrow> ('f::len word list, box_error) result"
  assumes "protobuf pb" and "prost_tuple pb dec_tuple"
    and "prost_packed pb (varint_of pb (\<lambda>n :: int32. zigzag_spec (sint n))) dec_int32"
    and "prost_packed pb (varint_of pb (\<lambda>n :: int64. zigzag_spec (sint n))) dec_int64"
    and "prost_packed pb (varint_of pb unat) dec_unsigned"
    and "prost_packed pb (varint_of pb (\<lambda>b. if b then 1 else 0)) dec_bool"
    and "prost_packed pb (\<lambda>v. le_bytes (LENGTH('f) div 8) (unat v)) dec_fixed"
    and "LENGTH('i::len) \<le> 32" and "LENGTH('j::len) \<le> 64" and "LENGTH('u::len) \<le> LENGTH('v)"
    and "codec_laws cd fits rel" and "tuple_part_laws pb rest 1 n fits_rest rel_rest" and "n \<le> 9"
  shows "codec_laws (vec_prost_signed32 pb dec_int32 :: ('i word list, 'ec, 'dc) codec) always same \<and>
    codec_laws (vec_prost_signed64 pb dec_int64 :: ('j word list, 'ec, 'dc) codec) always same \<and>
    codec_laws (vec_prost_unsigned pb dec_unsigned :: ('u word list, 'ec, 'dc) codec) always same \<and>
    codec_laws (vec_prost_bool pb dec_bool :: (bool list, 'ec, 'dc) codec) always same \<and>
    codec_laws (vec_fixed_codec pb dec_fixed :: ('f word list, 'ec, 'dc) codec) always same \<and>
    codec_laws (prost_tuple_codec dec_tuple (tuple_then (tuple_element pb 0 cd) rest))
      (\<lambda>dc (v, r) _. (\<forall>a. fits dc v a) \<and> fits_rest dc r) (pair_rel rel rel_rest)"
proof (intro conjI)
  note vec_laws = protobuf.vec_varint_laws [OF assms(1)]
  show "codec_laws (vec_prost_signed32 pb dec_int32 :: ('i word list, 'ec, 'dc) codec) always same"
    unfolding vec_prost_signed32_def using assms(8)
    by (intro vec_laws [OF assms(3), where conv = scast]) (simp_all add: zigzag32_spec signed_try_from_scast)
  show "codec_laws (vec_prost_signed64 pb dec_int64 :: ('j word list, 'ec, 'dc) codec) always same"
    unfolding vec_prost_signed64_def using assms(9)
    by (intro vec_laws [OF assms(4), where conv = scast]) (simp_all add: zigzag64_spec signed_try_from_scast)
  show "codec_laws (vec_prost_unsigned pb dec_unsigned :: ('u word list, 'ec, 'dc) codec) always same"
    unfolding vec_prost_unsigned_def using assms(10)
    by (intro vec_laws [OF assms(5), where conv = ucast])
      (simp_all add: unat_ucast_up unsigned_try_from_ucast)
  show "codec_laws (vec_prost_bool pb dec_bool :: (bool list, 'ec, 'dc) codec) always same"
    unfolding vec_prost_bool_def by (rule vec_laws [OF assms(6), where conv = "\<lambda>b. b"]) simp_all
  show "codec_laws (vec_fixed_codec pb dec_fixed :: ('f word list, 'ec, 'dc) codec) always same"
    by (rule protobuf.vec_fixed_laws [OF assms(1,7)])
  have "tuple_part_laws pb (tuple_then (tuple_element pb 0 cd) rest) 0 (1 + n)
      (\<lambda>dc (v, r). (\<forall>a. fits dc v a) \<and> fits_rest dc r) (pair_rel rel rel_rest)"
    using assms(12) by (intro tuple_then_laws protobuf.tuple_element_laws [OF assms(1,11)]) simp
  from prost_tuple_laws [OF assms(2) this] assms(13)
  show "codec_laws (prost_tuple_codec dec_tuple (tuple_then (tuple_element pb 0 cd) rest))
      (\<lambda>dc (v, r) _. (\<forall>a. fits dc v a) \<and> fits_rest dc r) (pair_rel rel rel_rest)"
    by (simp add: case_prod_unfold)
qed

theorem prost_codecs_witness:
  "let ints = vec_prost_signed32 pb_std (repeated_field (packed_varints (\<lambda>k. word_of_int (zigzag_inv k)))) ::
         (8 word list, unit, unit) codec;
       bools = vec_prost_bool pb_std (repeated_field (packed_varints (\<lambda>n. n \<noteq> 0))) :: (bool list, unit, unit) codec;
       cd = prost_tuple_codec tuple_fields_decode (tuple_then (tuple_element pb_std 0 ints) (tuple_element pb_std 1 bools));
       bs = [0x0A, 4, 0x0A, 2, 3, 2, 0x12, 3, 0x0A, 1, 1]
   in encode_to_bytes cd ([- 2, 1], [True]) () = (Ok bs, ()) \<and>
     cd_decode cd () \<lparr>b_addr = 0, b_bytes = bs\<rparr> = Ok ([- 2, 1], [True])"
proof -
  let ?ints = "vec_prost_signed32 pb_std (repeated_field (packed_varints (\<lambda>k. word_of_int (zigzag_inv k)))) ::
         (8 word list, unit, unit) codec"
  let ?bools = "vec_prost_bool pb_std (repeated_field (packed_varints (\<lambda>n. n \<noteq> 0))) :: (bool list, unit, unit) codec"
  let ?cd = "prost_tuple_codec tuple_fields_decode (tuple_then (tuple_element pb_std 0 ?ints) (tuple_element pb_std 1 ?bools))"
  let ?bs = "[0x0A, 4, 0x0A, 2, 3, 2, 0x12, 3, 0x0A, 1, 1] :: bytes"
  have bools: "codec_laws ?bools always same" unfolding vec_prost_bool_def
    by (rule pb_std.vec_varint_laws [OF packed_bool.prost_packed_axioms, where conv = "\<lambda>b. b"]) simp_all
  note base = prost_codecs [OF pb_std.protobuf_axioms tuple_wire.prost_tuple_axioms packed_int32.prost_packed_axioms
      packed_int64.prost_packed_axioms packed_u32.prost_packed_axioms packed_bool.prost_packed_axioms
      packed_f32.prost_packed_axioms]
  have ints: "codec_laws ?ints always same"
    using base [where 'i = 8 and 'j = 8 and 'u = 8 and 'ec = unit and 'dc = unit, OF _ _ _ bools
        pb_std.tuple_element_laws [OF bools]] by simp
  have laws: "codec_laws ?cd (\<lambda>dc (v, r) _. (\<forall>a. always dc v a) \<and> (\<forall>a. always dc r a)) (pair_rel same same)"
    using base [where 'i = 8 and 'j = 8 and 'u = 8 and 'ec = unit and 'dc = unit, OF _ _ _ ints
        pb_std.tuple_element_laws [OF bools]] by simp
  have enc: "encode_to_bytes ?cd ([- 2, 1], [True]) () = (Ok ?bs, ())" and len: "cd_len ?cd ([- 2, 1], [True]) < 2 ^ 64"
    by (simp_all add: encode_to_bytes_def prost_tuple_codec_def tuple_then_def tuple_element_def vec_prost_signed32_def
        vec_prost_bool_def vec_varint_codec_def encode_packed_varint_def encoded_len_packed_varint_def packed_data_len_def
        field_encoded_len_def zigzag32_spec zigzag_spec_def pb_std_def LENGTH_DELIMITED_TAGS_def varint_small)
  from codec_laws.to_bytes(2) [OF laws enc len, where dc = "()" and a = 0]
  have "\<exists>w. cd_decode ?cd () \<lparr>b_addr = 0, b_bytes = ?bs\<rparr> = Ok w \<and> pair_rel same same () ([- 2, 1], [True]) w" by simp
  with enc show ?thesis by (auto simp: Let_def)
qed

end
