(* ===== verification/Proto_Containers.thy ===== *)
theory Proto_Containers
  imports Prost_Codec Control_Codec
begin

text \<open>
  The container messages of the protocol crate and their constructors (\<open>acktor-ipc-proto/src/utils.rs\<close>,
  \<open>proto/utils.rs\<close>) and the enumerations of the control messages (\<open>proto/control_message.rs\<close>,
  \<open>control_message.rs\<close>). The codecs of \<open>Option\<close>, \<open>Result\<close>, vectors and tuples write these messages by hand;
  here the bytes are compared with the encoding of the message itself.
\<close>

section \<open>Messages\<close>

datatype proto_result_type = ProtoOk bytes | ProtoErr bytes

record proto_result =
  pres_result :: "proto_result_type option"

record proto_option =
  popt_option :: "bytes option"

record 'v vec_message =
  vec_values :: "'v list"

record tuple_message =
  t0 :: "bytes option"
  t1 :: "bytes option"
  t2 :: "bytes option"
  t3 :: "bytes option"
  t4 :: "bytes option"
  t5 :: "bytes option"
  t6 :: "bytes option"
  t7 :: "bytes option"
  t8 :: "bytes option"
  t9 :: "bytes option"

definition proto_result_ok :: "bytes \<Rightarrow> proto_result" where
  "proto_result_ok ok = \<lparr>pres_result = Some (ProtoOk ok)\<rparr>"

definition proto_result_err :: "bytes \<Rightarrow> proto_result" where
  "proto_result_err err = \<lparr>pres_result = Some (ProtoErr err)\<rparr>"

definition proto_option_some :: "bytes \<Rightarrow> proto_option" where
  "proto_option_some some = \<lparr>popt_option = Some some\<rparr>"

definition proto_option_none :: proto_option where
  "proto_option_none = \<lparr>popt_option = None\<rparr>"

definition vec_message_new :: "'v list \<Rightarrow> 'v vec_message" where
  "vec_message_new vs = \<lparr>vec_values = vs\<rparr>"

text \<open>The macro that makes \<open>tuple2\<close> to \<open>tuple10\<close>: the first fields are set, the others are \<open>None\<close>.\<close>

definition tuple_message_new :: "bytes list \<Rightarrow> tuple_message" where
  "tuple_message_new parts =
     (let field = (\<lambda>i. if i < length parts then Some (parts ! i) else None)
      in \<lparr>t0 = field 0, t1 = field 1, t2 = field 2, t3 = field 3, t4 = field 4, t5 = field 5, t6 = field 6,
          t7 = field 7, t8 = field 8, t9 = field 9\<rparr>)"

section \<open>Enumerations\<close>

definition proto_signal_new :: "i32 \<Rightarrow> proto_signal" where
  "proto_signal_new signal = \<lparr>psg_signal = signal\<rparr>"

datatype signal_type = SignalTypeStop | SignalTypeTerminate

fun signal_type_as_i32 :: "signal_type \<Rightarrow> i32" where
  "signal_type_as_i32 SignalTypeStop = 0"
| "signal_type_as_i32 SignalTypeTerminate = 1"

fun signal_type_as_str_name :: "signal_type \<Rightarrow> string" where
  "signal_type_as_str_name SignalTypeStop = ''STOP''"
| "signal_type_as_str_name SignalTypeTerminate = ''TERMINATE''"

definition signal_type_from_str_name :: "string \<Rightarrow> signal_type option" where
  "signal_type_from_str_name v =
     (if v = ''STOP'' then Some SignalTypeStop
      else if v = ''TERMINATE'' then Some SignalTypeTerminate
      else None)"

definition proto_signal_stop :: proto_signal where
  "proto_signal_stop = \<lparr>psg_signal = signal_type_as_i32 SignalTypeStop\<rparr>"

definition proto_signal_terminate :: proto_signal where
  "proto_signal_terminate = \<lparr>psg_signal = signal_type_as_i32 SignalTypeTerminate\<rparr>"

datatype cron_signal_type = CronTypePause | CronTypeResume

fun cron_signal_type_as_i32 :: "cron_signal_type \<Rightarrow> i32" where
  "cron_signal_type_as_i32 CronTypePause = 0"
| "cron_signal_type_as_i32 CronTypeResume = 1"

fun cron_signal_type_as_str_name :: "cron_signal_type \<Rightarrow> string" where
  "cron_signal_type_as_str_name CronTypePause = ''PAUSE''"
| "cron_signal_type_as_str_name CronTypeResume = ''RESUME''"

definition cron_signal_type_from_str_name :: "string \<Rightarrow> cron_signal_type option" where
  "cron_signal_type_from_str_name v =
     (if v = ''PAUSE'' then Some CronTypePause
      else if v = ''RESUME'' then Some CronTypeResume
      else None)"

definition proto_cron_pause :: proto_signal where
  "proto_cron_pause = \<lparr>psg_signal = cron_signal_type_as_i32 CronTypePause\<rparr>"

definition proto_cron_resume :: proto_signal where
  "proto_cron_resume = \<lparr>psg_signal = cron_signal_type_as_i32 CronTypeResume\<rparr>"

text \<open>The states have the names of the library's enumeration.\<close>

fun proto_state_as_i32 :: "actor_state \<Rightarrow> i32" where
  "proto_state_as_i32 Unstarted = 0"
| "proto_state_as_i32 Starting = 1"
| "proto_state_as_i32 Running = 2"
| "proto_state_as_i32 Stopping = 3"
| "proto_state_as_i32 Stopped = 4"

fun proto_state_as_str_name :: "actor_state \<Rightarrow> string" where
  "proto_state_as_str_name Unstarted = ''UNSTARTED''"
| "proto_state_as_str_name Starting = ''STARTING''"
| "proto_state_as_str_name Running = ''RUNNING''"
| "proto_state_as_str_name Stopping = ''STOPPING''"
| "proto_state_as_str_name Stopped = ''STOPPED''"

definition proto_state_from_str_name :: "string \<Rightarrow> actor_state option" where
  "proto_state_from_str_name v =
     (if v = ''UNSTARTED'' then Some Unstarted
      else if v = ''STARTING'' then Some Starting
      else if v = ''RUNNING'' then Some Running
      else if v = ''STOPPING'' then Some Stopping
      else if v = ''STOPPED'' then Some Stopped
      else None)"

section \<open>The encoding of the messages\<close>

definition proto_result_to_fields :: "proto_result \<Rightarrow> wire_field list" where
  "proto_result_to_fields r =
     (case pres_result r of
        None \<Rightarrow> []
      | Some (ProtoOk b) \<Rightarrow> [WLen 0x0A b]
      | Some (ProtoErr e) \<Rightarrow> [WLen 0x12 e])"

definition proto_option_to_fields :: "proto_option \<Rightarrow> wire_field list" where
  "proto_option_to_fields m = (case popt_option m of None \<Rightarrow> [] | Some b \<Rightarrow> [WLen 0x0A b])"

definition vec_message_to_fields :: "('v \<Rightarrow> bytes) \<Rightarrow> 'v vec_message \<Rightarrow> wire_field list" where
  "vec_message_to_fields enc m =
     (if vec_values m = [] then [] else [WLen 0x0A (concat (map enc (vec_values m)))])"

definition tuple_message_to_fields :: "tuple_message \<Rightarrow> wire_field list" where
  "tuple_message_to_fields m =
     concat (map2 (\<lambda>k f. case f of None \<Rightarrow> [] | Some b \<Rightarrow> [WLen k b])
       [0x0A, 0x12, 0x1A, 0x22, 0x2A, 0x32, 0x3A, 0x42, 0x4A, 0x52]
       [t0 m, t1 m, t2 m, t3 m, t4 m, t5 m, t6 m, t7 m, t8 m, t9 m])"

text \<open>The bytes of a value, as far as its codec promises to read them.\<close>

definition decodes ::
  "('a, 'ec, 'dc) codec \<Rightarrow> ('dc \<Rightarrow> 'a \<Rightarrow> nat \<Rightarrow> bool) \<Rightarrow> ('dc \<Rightarrow> 'a \<Rightarrow> 'a \<Rightarrow> bool) \<Rightarrow> 'a \<Rightarrow> bytes \<Rightarrow> bool" where
  "decodes cd fits rel x bs \<longleftrightarrow> length bs = cd_len cd x \<and>
     (\<forall>dc a. fits dc x a \<longrightarrow> (\<exists>w. cd_decode cd dc \<lparr>b_addr = a, b_bytes = bs\<rparr> = Ok w \<and> rel dc x w))"


section \<open>The enumerations agree with the library's\<close>

text \<open>The discriminants of the protocol are those the library casts from, and the names of the protocol are read back.\<close>

lemma proto_enums_agree:
  "proto_signal_new (signal_type_as_i32 SignalTypeStop) = proto_signal_stop \<and>
   ucast (psg_signal proto_signal_stop) = signal_as_u8 SignalStop \<and>
   ucast (psg_signal proto_signal_terminate) = signal_as_u8 SignalTerminate \<and>
   ucast (psg_signal proto_cron_pause) = cron_signal_as_u8 CronPause \<and>
   ucast (psg_signal proto_cron_resume) = cron_signal_as_u8 CronResume \<and>
   ucast (proto_state_as_i32 st) = actor_state_as_u8 st"
  by (cases st) (simp_all add: proto_signal_new_def proto_signal_stop_def proto_signal_terminate_def
      proto_cron_pause_def proto_cron_resume_def)

lemma proto_names_roundtrip:
  "signal_type_from_str_name (signal_type_as_str_name sg) = Some sg"
  "cron_signal_type_from_str_name (cron_signal_type_as_str_name cs) = Some cs"
  "proto_state_from_str_name (proto_state_as_str_name st) = Some st"
proof -
  show "signal_type_from_str_name (signal_type_as_str_name sg) = Some sg"
    by (cases sg) (simp_all add: signal_type_from_str_name_def)
  show "cron_signal_type_from_str_name (cron_signal_type_as_str_name cs) = Some cs"
    by (cases cs) (simp_all add: cron_signal_type_from_str_name_def)
  show "proto_state_from_str_name (proto_state_as_str_name st) = Some st"
    by (cases st) (simp_all add: proto_state_from_str_name_def)
qed

section \<open>The bytes written by hand\<close>

lemma len_field_print:
  "length p < 2 ^ 64 \<Longrightarrow> wire_print [WLen k p] = k # pb_varint pb_std (word_of_nat (length p)) @ p"
  by (simp add: wire_print_def pb_std_def unat_of_nat)

lemma tuple_message_fields:
  assumes "length bss \<le> 10"
  shows "tuple_message_to_fields (tuple_message_new bss) = tuple_fields 0 bss"
proof -
  have "length bss = 0 \<or> length bss = 1 \<or> length bss = 2 \<or> length bss = 3 \<or> length bss = 4 \<or> length bss = 5 \<or>
      length bss = 6 \<or> length bss = 7 \<or> length bss = 8 \<or> length bss = 9 \<or> length bss = 10"
    using assms by presburger
  then show ?thesis
    by (elim disjE) (auto simp: tuple_message_to_fields_def tuple_message_new_def LENGTH_DELIMITED_TAGS_def
        eval_nat_numeral length_Suc_conv)
qed

lemma option_print:
  assumes "codec_laws cd fits rel" and "cd_encode (option_codec pb_std cd) v ec b = (Ok (), ec', b')"
    and "cd_len (option_codec pb_std cd) v < 2 ^ 64"
  shows "case v of
      None \<Rightarrow> b' = b @ wire_print (proto_option_to_fields proto_option_none)
    | Some x \<Rightarrow> \<exists>bs. decodes cd fits rel x bs \<and> b' = b @ wire_print (proto_option_to_fields (proto_option_some bs))"
proof (cases v)
  case None
  then show ?thesis
    using assms(2) by (simp add: option_codec_def proto_option_none_def proto_option_to_fields_def wire_print_def)
next
  case (Some x)
  let ?h = "0x0A # pb_varint pb_std (word_of_nat (cd_len cd x))"
  have lx: "cd_len cd x < 2 ^ 64" using assms(3) by (simp add: Some option_codec_def field_encoded_len_def)
  have "cd_encode cd x ec (b @ ?h) = (Ok (), ec', b')"
    using assms(2) by (simp add: Some option_codec_def LENGTH_DELIMITED_TAGS_def)
  from codec_laws.encodes [OF assms(1) this lx] obtain bs
    where "b' = (b @ ?h) @ bs" and l: "length bs = cd_len cd x" and "decodes cd fits rel x bs"
    by (auto simp: decodes_def)
  then show ?thesis
    using lx len_field_print [of bs "0x0A"]
    by (intro option.case_eq_if [THEN iffD2]) (auto simp: Some proto_option_some_def proto_option_to_fields_def)
qed

lemma result_print:
  assumes "codec_laws cd fits rel" and "cd_encode (result_codec pb_std show read cd) v ec b = (Ok (), ec', b')"
    and "cd_len (result_codec pb_std show read cd) v < 2 ^ 64"
  shows "case v of
      Err e \<Rightarrow> b' = b @ wire_print (proto_result_to_fields (proto_result_err (show e)))
    | Ok x \<Rightarrow> \<exists>bs. decodes cd fits rel x bs \<and> b' = b @ wire_print (proto_result_to_fields (proto_result_ok bs))"
proof (cases v)
  case (Err e)
  have "length (show e) < 2 ^ 64" using assms(3) by (simp add: Err result_codec_def field_encoded_len_def)
  then show ?thesis
    using assms(2) len_field_print [of "show e" "0x12"]
    by (simp add: Err result_codec_def proto_result_err_def proto_result_to_fields_def LENGTH_DELIMITED_TAGS_def)
next
  case (Ok x)
  let ?h = "0x0A # pb_varint pb_std (word_of_nat (cd_len cd x))"
  have lx: "cd_len cd x < 2 ^ 64" using assms(3) by (simp add: Ok result_codec_def field_encoded_len_def)
  have "cd_encode cd x ec (b @ ?h) = (Ok (), ec', b')"
    using assms(2) by (simp add: Ok result_codec_def LENGTH_DELIMITED_TAGS_def)
  from codec_laws.encodes [OF assms(1) this lx] obtain bs
    where "b' = (b @ ?h) @ bs" and l: "length bs = cd_len cd x" and "decodes cd fits rel x bs"
    by (auto simp: decodes_def)
  then show ?thesis
    using lx len_field_print [of bs "0x0A"]
    by (auto simp: Ok proto_result_ok_def proto_result_to_fields_def)
qed

lemma varint_print:
  assumes "packed_data_len pb_std f vs < 2 ^ 64"
  shows "encode_packed_varint pb_std f vs b =
    b @ wire_print (vec_message_to_fields (\<lambda>v. varint (unat (f v))) (vec_message_new vs))"
proof -
  have "concat (map (\<lambda>v. varint (unat (f v))) vs) = concat (map (\<lambda>v. pb_varint pb_std (f v)) vs)"
    by (simp add: pb_std_def)
  with assms show ?thesis
    using pb_std.packed_data_len [of f vs] len_field_print [of "concat (map (\<lambda>v. pb_varint pb_std (f v)) vs)" "0x0A"]
    by (simp add: encode_packed_varint_def vec_message_to_fields_def vec_message_new_def LENGTH_DELIMITED_TAGS_def
        wire_print_def)
qed

lemma fixed_print:
  fixes ws :: "'w::len word list"
  assumes "length ws * (LENGTH('w) div 8) < 2 ^ 64"
  shows "encode_packed_fixed pb_std (\<lambda>w. le_bytes (LENGTH('w) div 8) (unat w)) ws b =
    b @ wire_print (vec_message_to_fields (\<lambda>w. le_bytes (LENGTH('w) div 8) (unat w)) (vec_message_new ws))"
proof -
  let ?bs = "concat (map (\<lambda>w. le_bytes (LENGTH('w) div 8) (unat w)) ws)"
  have l: "length ?bs = length ws * (LENGTH('w) div 8)" by (induction ws) simp_all
  with assms show ?thesis
    using len_field_print [of ?bs "0x0A"]
    by (simp add: encode_packed_fixed_def vec_message_to_fields_def vec_message_new_def LENGTH_DELIMITED_TAGS_def
        wire_print_def)
qed

lemma tuple_print:
  assumes "tuple_part_laws pb_std part 0 n fits rel" and "n \<le> 10"
    and "tp_encode part t ec b = (Ok (), ec', b')" and "tp_len part t < 2 ^ 64"
  shows "\<exists>bss. length bss = n \<and> b' = b @ wire_print (tuple_message_to_fields (tuple_message_new bss)) \<and>
    (\<forall>dc message. fits dc t \<longrightarrow> (\<forall>i < n. holds_field message i (bss ! i)) \<longrightarrow>
       (\<exists>w. tp_decode part dc message = Ok w \<and> rel dc t w))"
proof -
  obtain bss where "b' = b @ tuple_bytes pb_std 0 bss" and "length bss = n" and "list_all (\<lambda>bs. length bs < 2 ^ 64) bss"
    and "\<forall>dc message. fits dc t \<longrightarrow> (\<forall>i < n. holds_field message (0 + i) (bss ! i)) \<longrightarrow>
       (\<exists>w. tp_decode part dc message = Ok w \<and> rel dc t w)"
    using tuple_part_laws.part_encodes [OF assms(1,3,4)] by blast
  with assms(2) show ?thesis
    by (intro exI [where x = bss]) (simp add: tuple_message_fields tuple_bytes_print)
qed

section \<open>Properties\<close>

text \<open>C37. The containers that the library writes by hand are the messages of the protocol: the bytes of an option, of
  a result, of a packed vector and of a tuple are the encoding of the message that the constructors of the protocol build
  from the encodings of the elements, and each element's bytes decode to the element. A result with an
  error is the message with the text of the error, an empty option is the empty message.\<close>

theorem hand_written_containers:
  fixes ws :: "'w::len word list"
  assumes "codec_laws cd fits rel" and "tuple_part_laws pb_std part 0 n tfits trel" and "n \<le> 10"
    and "cd_encode (option_codec pb_std cd) v ec b = (Ok (), ec1, b1)" and "cd_len (option_codec pb_std cd) v < 2 ^ 64"
    and "cd_encode (result_codec pb_std show read cd) r ec b = (Ok (), ec2, b2)"
    and "cd_len (result_codec pb_std show read cd) r < 2 ^ 64"
    and "cd_encode (prost_tuple_codec decode part) t ec b = (Ok (), ec3, b3)"
    and "cd_len (prost_tuple_codec decode part) t < 2 ^ 64"
    and "packed_data_len pb_std f vs < 2 ^ 64" and "length ws * (LENGTH('w) div 8) < 2 ^ 64"
  shows "(case v of
        None \<Rightarrow> b1 = b @ wire_print (proto_option_to_fields proto_option_none)
      | Some x \<Rightarrow> \<exists>bs. decodes cd fits rel x bs \<and> b1 = b @ wire_print (proto_option_to_fields (proto_option_some bs))) \<and>
    (case r of
        Err e \<Rightarrow> b2 = b @ wire_print (proto_result_to_fields (proto_result_err (show e)))
      | Ok x \<Rightarrow> \<exists>bs. decodes cd fits rel x bs \<and> b2 = b @ wire_print (proto_result_to_fields (proto_result_ok bs))) \<and>
    (\<exists>bss. length bss = n \<and> b3 = b @ wire_print (tuple_message_to_fields (tuple_message_new bss)) \<and>
      (\<forall>dc message. tfits dc t \<longrightarrow> (\<forall>i < n. holds_field message i (bss ! i)) \<longrightarrow>
         (\<exists>w. tp_decode part dc message = Ok w \<and> trel dc t w))) \<and>
    encode_packed_varint pb_std f vs b =
      b @ wire_print (vec_message_to_fields (\<lambda>v. varint (unat (f v))) (vec_message_new vs)) \<and>
    encode_packed_fixed pb_std (\<lambda>w. le_bytes (LENGTH('w) div 8) (unat w)) ws b =
      b @ wire_print (vec_message_to_fields (\<lambda>w. le_bytes (LENGTH('w) div 8) (unat w)) (vec_message_new ws))"
proof -
  have "tp_encode part t ec b = (Ok (), ec3, b3)" and "tp_len part t < 2 ^ 64"
    using assms(8,9) by (simp_all add: prost_tuple_codec_def)
  then show ?thesis
    by (intro conjI option_print [OF assms(1,4,5)] result_print [OF assms(1,6,7)] tuple_print [OF assms(2,3)]
        varint_print [OF assms(10)] fixed_print [OF assms(11)])
qed

theorem hand_written_containers_witness:
  "let bools = vec_prost_bool pb_std (repeated_field (packed_varints (\<lambda>n. n \<noteq> 0))) :: (bool list, unit, unit) codec;
       part = tuple_then (tuple_element pb_std 0 bools) (tuple_element pb_std 1 bools)
   in cd_encode (option_codec pb_std bools) None () [9] = (Ok (), (), [9]) \<and>
     cd_encode (result_codec pb_std (\<lambda>e. e) (\<lambda>e. e) bools) (Err [7]) () [9] =
       (Ok (), (), [9] @ wire_print (proto_result_to_fields (proto_result_err [7]))) \<and>
     (\<exists>bss. length bss = 2 \<and> cd_encode (prost_tuple_codec tuple_fields_decode part) ([True], []) () [9] =
       (Ok (), (), [9] @ wire_print (tuple_message_to_fields (tuple_message_new bss)))) \<and>
     encode_packed_varint pb_std id [300] [9] =
       [9] @ wire_print (vec_message_to_fields (\<lambda>v. varint (unat v)) (vec_message_new [300 :: u64])) \<and>
     encode_packed_fixed pb_std (\<lambda>w :: 32 word. le_bytes 4 (unat w)) [1, 2] [9] =
       [9] @ wire_print (vec_message_to_fields (\<lambda>w. le_bytes 4 (unat w)) (vec_message_new [1, 2 :: 32 word]))"
proof -
  let ?bools = "vec_prost_bool pb_std (repeated_field (packed_varints (\<lambda>n. n \<noteq> 0))) :: (bool list, unit, unit) codec"
  let ?part = "tuple_then (tuple_element pb_std 0 ?bools) (tuple_element pb_std 1 ?bools)"
  let ?tuple = "prost_tuple_codec tuple_fields_decode ?part" and ?t = "([True], []) :: bool list \<times> bool list"
  let ?option = "option_codec pb_std ?bools" and ?result = "result_codec pb_std (\<lambda>e. e) (\<lambda>e. e) ?bools"
  have bools: "codec_laws ?bools always same" unfolding vec_prost_bool_def
    by (rule pb_std.vec_varint_laws [OF packed_bool.prost_packed_axioms, where conv = "\<lambda>b. b"]) simp_all
  have part: "tuple_part_laws pb_std ?part 0 2 (\<lambda>dc (v, r). (\<forall>a. always dc v a) \<and> (\<forall>a. always dc r a)) (pair_rel same same)"
    using tuple_then_laws [OF pb_std.tuple_element_laws [OF bools, of 0], of "tuple_element pb_std 1 ?bools"]
      pb_std.tuple_element_laws [OF bools, of 1] by (simp add: numeral_2_eq_2)
  have e1: "cd_encode ?option None () [9] = (Ok (), (), [9])" and l1: "cd_len ?option None < 2 ^ 64"
    by (simp_all add: option_codec_def)
  have e2: "cd_encode ?result (Err [7]) () [9] = (Ok (), (), [9, 0x12, 1, 7])" and l2: "cd_len ?result (Err [7]) < 2 ^ 64"
    by (simp_all add: result_codec_def pb_std_def field_encoded_len_def LENGTH_DELIMITED_TAGS_def varint_small)
  have e3: "cd_encode ?tuple ?t () [9] = (Ok (), (), [9, 0x0A, 3, 0x0A, 1, 1, 0x12, 0])" and l3: "cd_len ?tuple ?t < 2 ^ 64"
    by (simp_all add: prost_tuple_codec_def tuple_then_def tuple_element_def vec_prost_bool_def vec_varint_codec_def
        encode_packed_varint_def encoded_len_packed_varint_def packed_data_len_def field_encoded_len_def pb_std_def
        LENGTH_DELIMITED_TAGS_def varint_small)
  have l4: "packed_data_len pb_std id [300] < 2 ^ 64"
    by (simp add: packed_data_len_def pb_std_def varint.simps)
  show ?thesis
    using hand_written_containers [where ws = "[1, 2 :: 32 word]" and vs = "[300]" and f = id, OF bools part _ e1 l1 e2 l2 e3 l3 l4]
      e1 e2 e3 by (auto simp: Let_def)
qed

end
