(* ===== verification/Channel.thy ===== *)
theory Channel
  imports Default_Context Session
begin

text \<open>
  Channels (\<open>acktor/src/channel/mpsc.rs\<close>, \<open>acktor/src/channel/oneshot.rs\<close>) and the mailbox
  (\<open>acktor/src/address/mailbox.rs\<close>). The bounded channel of \<open>tokio\<close> is a parameter: its documented
  behaviour is the machine \<open>tokio_mpsc\<close> on the record \<open>chan\<close>, and the locale \<open>mpsc\<close> says that the
  channel in use behaves like that machine through an abstraction. An operation that may wait
  answers \<open>None\<close> when it is polled in a state in which it has to wait; \<open>elapsed\<close> says that the timer of
  an operation with a timeout has fired, \<open>in_async\<close> that a blocking operation is called from within
  the runtime, where it panics.
\<close>

section \<open>The bounded channel\<close>

record ('ch, 'x) mpsc_ops =
  mp_channel :: "nat \<Rightarrow> 'ch outcome"
  mp_send :: "'x \<Rightarrow> 'ch \<Rightarrow> ((unit, 'x) result \<times> 'ch) option"
  mp_try_send :: "'x \<Rightarrow> 'ch \<Rightarrow> (unit, 'x mpsc_try_send_error) result \<times> 'ch"
  mp_send_timeout :: "bool \<Rightarrow> 'x \<Rightarrow> 'ch \<Rightarrow> ((unit, 'x mpsc_send_timeout_error) result \<times> 'ch) option"
  mp_blocking_send :: "bool \<Rightarrow> 'x \<Rightarrow> 'ch \<Rightarrow> ((unit, 'x) result outcome \<times> 'ch) option"
  mp_reserve :: "'ch \<Rightarrow> ((unit, unit) result \<times> 'ch) option"
  mp_try_reserve :: "'ch \<Rightarrow> (unit, unit mpsc_try_send_error) result \<times> 'ch"
  mp_permit_send :: "'x \<Rightarrow> 'ch \<Rightarrow> 'ch"
  mp_permit_drop :: "'ch \<Rightarrow> 'ch"
  mp_clone_tx :: "'ch \<Rightarrow> 'ch"
  mp_drop_tx :: "'ch \<Rightarrow> 'ch"
  mp_recv :: "'ch \<Rightarrow> ('x option \<times> 'ch) option"
  mp_blocking_recv :: "bool \<Rightarrow> 'ch \<Rightarrow> ('x option outcome \<times> 'ch) option"
  mp_recv_many :: "nat \<Rightarrow> 'ch \<Rightarrow> ('x list \<times> 'ch) option"
  mp_blocking_recv_many :: "bool \<Rightarrow> nat \<Rightarrow> 'ch \<Rightarrow> ('x list outcome \<times> 'ch) option"
  mp_try_recv :: "'ch \<Rightarrow> ('x, try_recv_error) result \<times> 'ch"
  mp_close :: "'ch \<Rightarrow> 'ch"
  mp_tx_closed :: "'ch \<Rightarrow> bool"
  mp_rx_closed :: "'ch \<Rightarrow> bool"
  mp_is_empty :: "'ch \<Rightarrow> bool"
  mp_len :: "'ch \<Rightarrow> nat"
  mp_capacity :: "'ch \<Rightarrow> nat"
  mp_max_capacity :: "'ch \<Rightarrow> nat"

text \<open>The documented machine: queued values, slots held by permits, the size, whether the receiver was
  closed, and the number of senders.\<close>

record 'x chan =
  ch_queue :: "'x list"
  ch_reserved :: nat
  ch_max :: nat
  ch_closed :: bool
  ch_senders :: nat

definition ch_free :: "'x chan \<Rightarrow> nat" where
  "ch_free c = ch_max c - length (ch_queue c) - ch_reserved c"

definition ch_drained :: "'x chan \<Rightarrow> bool" where
  "ch_drained c \<longleftrightarrow> ch_queue c = [] \<and> (ch_senders c = 0 \<or> ch_closed c \<and> ch_reserved c = 0)"

definition ch_push :: "'x \<Rightarrow> 'x chan \<Rightarrow> 'x chan" where
  "ch_push x c = c\<lparr>ch_queue := ch_queue c @ [x]\<rparr>"

definition ch_send :: "'x \<Rightarrow> 'x chan \<Rightarrow> ((unit, 'x) result \<times> 'x chan) option" where
  "ch_send x c =
     (if ch_closed c then Some (Err x, c)
      else if 0 < ch_free c then Some (Ok (), ch_push x c) else None)"

definition ch_recv :: "'x chan \<Rightarrow> ('x option \<times> 'x chan) option" where
  "ch_recv c =
     (case ch_queue c of
        x # q \<Rightarrow> Some (Some x, c\<lparr>ch_queue := q\<rparr>)
      | [] \<Rightarrow> if ch_drained c then Some (None, c) else None)"

definition ch_recv_many :: "nat \<Rightarrow> 'x chan \<Rightarrow> ('x list \<times> 'x chan) option" where
  "ch_recv_many limit c =
     (if limit = 0 \<or> ch_drained c then Some ([], c)
      else if ch_queue c = [] then None
      else Some (take limit (ch_queue c), c\<lparr>ch_queue := drop limit (ch_queue c)\<rparr>))"

definition tokio_mpsc :: "('x chan, 'x) mpsc_ops" where
  "tokio_mpsc =
     \<lparr>mp_channel = (\<lambda>capacity.
        if capacity = 0 then Panic ''mpsc bounded channel requires buffer > 0''
        else Ret \<lparr>ch_queue = [], ch_reserved = 0, ch_max = capacity, ch_closed = False, ch_senders = 1\<rparr>),
      mp_send = ch_send,
      mp_try_send = (\<lambda>x c.
        if ch_closed c then (Err (TrySendClosed x), c)
        else if 0 < ch_free c then (Ok (), ch_push x c) else (Err (TrySendFull x), c)),
      mp_send_timeout = (\<lambda>elapsed x c. case ch_send x c of
          Some (r, c') \<Rightarrow> Some (map_err SendTimeoutClosed r, c')
        | None \<Rightarrow> if elapsed then Some (Err (SendTimeoutTimeout x), c) else None),
      mp_blocking_send = (\<lambda>in_async x c.
        if in_async then Some (Panic ''Cannot block the current thread from within a runtime.'', c)
        else map_option (\<lambda>(r, c'). (Ret r, c')) (ch_send x c)),
      mp_reserve = (\<lambda>c.
        if ch_closed c then Some (Err (), c)
        else if 0 < ch_free c then Some (Ok (), c\<lparr>ch_reserved := Suc (ch_reserved c)\<rparr>) else None),
      mp_try_reserve = (\<lambda>c.
        if ch_closed c then (Err (TrySendClosed ()), c)
        else if 0 < ch_free c then (Ok (), c\<lparr>ch_reserved := Suc (ch_reserved c)\<rparr>)
        else (Err (TrySendFull ()), c)),
      mp_permit_send = (\<lambda>x c. ch_push x (c\<lparr>ch_reserved := ch_reserved c - 1\<rparr>)),
      mp_permit_drop = (\<lambda>c. c\<lparr>ch_reserved := ch_reserved c - 1\<rparr>),
      mp_clone_tx = (\<lambda>c. c\<lparr>ch_senders := Suc (ch_senders c)\<rparr>),
      mp_drop_tx = (\<lambda>c. c\<lparr>ch_senders := ch_senders c - 1\<rparr>),
      mp_recv = ch_recv,
      mp_blocking_recv = (\<lambda>in_async c.
        if in_async then Some (Panic ''Cannot block the current thread from within a runtime.'', c)
        else map_option (\<lambda>(v, c'). (Ret v, c')) (ch_recv c)),
      mp_recv_many = ch_recv_many,
      mp_blocking_recv_many = (\<lambda>in_async limit c.
        if in_async then Some (Panic ''Cannot block the current thread from within a runtime.'', c)
        else map_option (\<lambda>(xs, c'). (Ret xs, c')) (ch_recv_many limit c)),
      mp_try_recv = (\<lambda>c. case ch_queue c of
          x # q \<Rightarrow> (Ok x, c\<lparr>ch_queue := q\<rparr>)
        | [] \<Rightarrow> (Err (if ch_drained c then TryRecvDisconnected else TryRecvEmpty), c)),
      mp_close = (\<lambda>c. c\<lparr>ch_closed := True\<rparr>),
      mp_tx_closed = ch_closed,
      mp_rx_closed = (\<lambda>c. ch_closed c \<or> ch_senders c = 0),
      mp_is_empty = (\<lambda>c. ch_queue c = []),
      mp_len = (\<lambda>c. length (ch_queue c)),
      mp_capacity = ch_free,
      mp_max_capacity = ch_max\<rparr>"

locale mpsc =
  fixes ops :: "('ch, 'x) mpsc_ops"
    and view :: "'ch \<Rightarrow> 'x chan"
  assumes channel_view: "map_outcome view (mp_channel ops n) = mp_channel tokio_mpsc n"
    and send_view: "map_option (map_prod id view) (mp_send ops x c) = mp_send tokio_mpsc x (view c)"
    and try_send_view: "map_prod id view (mp_try_send ops x c) = mp_try_send tokio_mpsc x (view c)"
    and send_timeout_view: "map_option (map_prod id view) (mp_send_timeout ops elapsed x c) =
      mp_send_timeout tokio_mpsc elapsed x (view c)"
    and blocking_send_view: "map_option (map_prod id view) (mp_blocking_send ops in_async x c) =
      mp_blocking_send tokio_mpsc in_async x (view c)"
    and reserve_view: "map_option (map_prod id view) (mp_reserve ops c) = mp_reserve tokio_mpsc (view c)"
    and try_reserve_view: "map_prod id view (mp_try_reserve ops c) = mp_try_reserve tokio_mpsc (view c)"
    and permit_view: "view (mp_permit_send ops x c) = mp_permit_send tokio_mpsc x (view c)"
      "view (mp_permit_drop ops c) = mp_permit_drop tokio_mpsc (view c)"
    and senders_view: "view (mp_clone_tx ops c) = mp_clone_tx tokio_mpsc (view c)"
      "view (mp_drop_tx ops c) = mp_drop_tx tokio_mpsc (view c)"
    and recv_view: "map_option (map_prod id view) (mp_recv ops c) = mp_recv tokio_mpsc (view c)"
    and blocking_recv_view: "map_option (map_prod id view) (mp_blocking_recv ops in_async c) =
      mp_blocking_recv tokio_mpsc in_async (view c)"
    and recv_many_view: "map_option (map_prod id view) (mp_recv_many ops limit c) =
      mp_recv_many tokio_mpsc limit (view c)"
    and blocking_recv_many_view: "map_option (map_prod id view) (mp_blocking_recv_many ops in_async limit c) =
      mp_blocking_recv_many tokio_mpsc in_async limit (view c)"
    and try_recv_view: "map_prod id view (mp_try_recv ops c) = mp_try_recv tokio_mpsc (view c)"
    and close_view: "view (mp_close ops c) = mp_close tokio_mpsc (view c)"
    and observe_view: "mp_tx_closed ops c = mp_tx_closed tokio_mpsc (view c)"
      "mp_rx_closed ops c = mp_rx_closed tokio_mpsc (view c)"
      "mp_len ops c = mp_len tokio_mpsc (view c)"
      "mp_capacity ops c = mp_capacity tokio_mpsc (view c)"
      "mp_max_capacity ops c = mp_max_capacity tokio_mpsc (view c)"
      "mp_is_empty ops c = mp_is_empty tokio_mpsc (view c)"

interpretation tokio_mpsc: mpsc tokio_mpsc "\<lambda>c. c"
  by unfold_locales (simp_all add: map_prod.identity [unfolded id_def] id_def option.map_ident outcome.map_ident)

section \<open>The receiver\<close>

definition channel :: "('ch, 'x) mpsc_ops \<Rightarrow> nat \<Rightarrow> 'ch outcome" where
  "channel ops capacity = mp_channel ops capacity"

definition rx_recv :: "('ch, 'x) mpsc_ops \<Rightarrow> 'ch \<Rightarrow> (('x, recv_error) result \<times> 'ch) option" where
  "rx_recv ops c = map_option (\<lambda>(v, c'). (ok_or RecvClosed v, c')) (mp_recv ops c)"

definition rx_try_recv :: "('ch, 'x) mpsc_ops \<Rightarrow> 'ch \<Rightarrow> ('x, recv_error) result \<times> 'ch" where
  "rx_try_recv ops c = (case mp_try_recv ops c of (r, c') \<Rightarrow> (map_err recv_error_from_try r, c'))"

definition rx_recv_timeout :: "('ch, 'x) mpsc_ops \<Rightarrow> bool \<Rightarrow> 'ch \<Rightarrow> (('x, recv_error) result \<times> 'ch) option" where
  "rx_recv_timeout ops elapsed c =
     (case mp_recv ops c of
        Some (Some v, c') \<Rightarrow> Some (Ok v, c')
      | Some (None, c') \<Rightarrow> Some (Err RecvClosed, c')
      | None \<Rightarrow> if elapsed then Some (Err RecvTimeout, c) else None)"

definition rx_blocking_recv ::
  "('ch, 'x) mpsc_ops \<Rightarrow> bool \<Rightarrow> 'ch \<Rightarrow> (('x, recv_error) result outcome \<times> 'ch) option" where
  "rx_blocking_recv ops in_async c =
     map_option (\<lambda>(v, c'). (map_outcome (ok_or RecvClosed) v, c')) (mp_blocking_recv ops in_async c)"

text \<open>A mailbox passes every call to its receiver; the message loops see it as \<open>mb_ops\<close>.\<close>

definition mailbox_of :: "('ch, 'x) mpsc_ops \<Rightarrow> ('ch, 'x) mb_ops" where
  "mailbox_of ops =
     \<lparr>mb_recv = (\<lambda>c. map_option (\<lambda>(r, c'). (case r of Ok x \<Rightarrow> Some x | Err _ \<Rightarrow> None, c')) (rx_recv ops c)),
      mb_try_recv = rx_try_recv ops,
      mb_len = mp_len ops\<rparr>"

section \<open>The response channel\<close>

record ('os, 'v) oneshot_ops =
  op_new :: 'os
  op_send :: "'v \<Rightarrow> 'os \<Rightarrow> (unit, 'v) result \<times> 'os"
  op_closed :: "'os \<Rightarrow> bool"
  op_drop_tx :: "'os \<Rightarrow> 'os"
  op_close :: "'os \<Rightarrow> 'os"
  op_poll :: "'os \<Rightarrow> 'v option option \<times> 'os"
  op_try_recv :: "'os \<Rightarrow> ('v, try_recv_error) result \<times> 'os"

text \<open>The documented machine: the value, and whether the receiver is open and the sender alive. Polling
  answers \<open>None\<close> while it has to wait and \<open>Some None\<close> for the error of a lost sender.\<close>

record 'v oneshot =
  os_value :: "'v option"
  os_rx_open :: bool
  os_tx_alive :: bool

definition tokio_oneshot :: "('v oneshot, 'v) oneshot_ops" where
  "tokio_oneshot =
     \<lparr>op_new = \<lparr>os_value = None, os_rx_open = True, os_tx_alive = True\<rparr>,
      op_send = (\<lambda>v s.
        if os_rx_open s then (Ok (), s\<lparr>os_value := Some v, os_tx_alive := False\<rparr>)
        else (Err v, s\<lparr>os_tx_alive := False\<rparr>)),
      op_closed = (\<lambda>s. \<not> os_rx_open s),
      op_drop_tx = (\<lambda>s. s\<lparr>os_tx_alive := False\<rparr>),
      op_close = (\<lambda>s. s\<lparr>os_rx_open := False\<rparr>),
      op_poll = (\<lambda>s. case os_value s of
          Some v \<Rightarrow> (Some (Some v), s\<lparr>os_value := None, os_rx_open := False\<rparr>)
        | None \<Rightarrow> if os_tx_alive s \<and> os_rx_open s then (None, s) else (Some None, s\<lparr>os_rx_open := False\<rparr>)),
      op_try_recv = (\<lambda>s. case os_value s of
          Some v \<Rightarrow> (Ok v, s\<lparr>os_value := None, os_rx_open := False\<rparr>)
        | None \<Rightarrow> (Err (if os_tx_alive s \<and> os_rx_open s then TryRecvEmpty else TryRecvDisconnected), s))\<rparr>"

locale oneshot =
  fixes ops :: "('os, 'v) oneshot_ops"
    and view :: "'os \<Rightarrow> 'v oneshot"
  assumes new_view: "view (op_new ops) = op_new tokio_oneshot"
    and send_view: "map_prod id view (op_send ops v s) = op_send tokio_oneshot v (view s)"
    and closed_view: "op_closed ops s = op_closed tokio_oneshot (view s)"
    and drop_view: "view (op_drop_tx ops s) = op_drop_tx tokio_oneshot (view s)"
      "view (op_close ops s) = op_close tokio_oneshot (view s)"
    and poll_view: "map_prod id view (op_poll ops s) = op_poll tokio_oneshot (view s)"
    and try_recv_view: "map_prod id view (op_try_recv ops s) = op_try_recv tokio_oneshot (view s)"

interpretation tokio_oneshot: oneshot tokio_oneshot "\<lambda>s. s"
  by unfold_locales (simp_all add: map_prod.identity [unfolded id_def] id_def)

text \<open>The payload is a value or an error; a refused payload comes back and is unwrapped.\<close>

definition os_send ::
  "('os, ('t, box_error) result) oneshot_ops \<Rightarrow> 't \<Rightarrow> 'os \<Rightarrow> (unit, 't send_error) result outcome \<times> 'os" where
  "os_send ops t s =
     (case op_send ops (Ok t) s of
        (Ok _, s') \<Rightarrow> (Ret (Ok ()), s')
      | (Err (Ok t'), s') \<Rightarrow> (Ret (Err (SendClosed t')), s')
      | (Err (Err _), s') \<Rightarrow> (Panic ''called `Result::unwrap()` on an `Err` value'', s'))"

definition os_send_err ::
  "('os, ('t, box_error) result) oneshot_ops \<Rightarrow> box_error \<Rightarrow> 'os \<Rightarrow>
   (unit, box_error send_error) result outcome \<times> 'os" where
  "os_send_err ops e s =
     (case op_send ops (Err e) s of
        (Ok _, s') \<Rightarrow> (Ret (Ok ()), s')
      | (Err (Err e'), s') \<Rightarrow> (Ret (Err (SendClosed e')), s')
      | (Err (Ok _), s') \<Rightarrow> (Panic ''called `Option::unwrap()` on a `None` value'', s'))"

text \<open>Awaiting the receiver, \<open>try_recv\<close> and \<open>recv_timeout\<close>: the double question mark turns a lost sender into
  \<open>Closed\<close> and an error that was sent into \<open>Other\<close>.\<close>

definition os_poll ::
  "('os, ('t, box_error) result) oneshot_ops \<Rightarrow> 'os \<Rightarrow> ('t, recv_error) result option \<times> 'os" where
  "os_poll ops s = (case op_poll ops s of (p, s') \<Rightarrow> (map_option oneshot_recv p, s'))"

definition os_try_recv ::
  "('os, ('t, box_error) result) oneshot_ops \<Rightarrow> 'os \<Rightarrow> ('t, recv_error) result \<times> 'os" where
  "os_try_recv ops s =
     (case op_try_recv ops s of
        (Ok r, s') \<Rightarrow> (map_err RecvOther r, s')
      | (Err e, s') \<Rightarrow> (Err (recv_error_from_try e), s'))"

definition os_recv_timeout ::
  "('os, ('t, box_error) result) oneshot_ops \<Rightarrow> bool \<Rightarrow> 'os \<Rightarrow> ('t, recv_error) result option \<times> 'os" where
  "os_recv_timeout ops elapsed s =
     (case os_poll ops s of
        (Some r, s') \<Rightarrow> (Some r, s')
      | (None, s') \<Rightarrow> if elapsed then (Some (Err RecvTimeout), s') else (None, s'))"

section \<open>Channels as mailboxes\<close>

lemmas tokio_defs = tokio_mpsc_def ch_send_def ch_recv_def ch_recv_many_def ch_push_def

lemma map_prod_view_eqD: "map_prod id f p = (a, b) \<Longrightarrow> fst p = a \<and> f (snd p) = b"
  by (cases p) simp

context mpsc
begin

abbreviation queue :: "'ch \<Rightarrow> 'x list" where
  "queue c \<equiv> ch_queue (view c)"

lemma rx_try_recv_queue:
  "fst (rx_try_recv ops c) =
     (case queue c of x # q \<Rightarrow> Ok x | [] \<Rightarrow> Err (if ch_drained (view c) then RecvClosed else RecvEmpty))"
  "queue (snd (rx_try_recv ops c)) = tl (queue c)"
proof -
  have "fst (mp_try_recv ops c) = fst (mp_try_recv tokio_mpsc (view c))"
    and "view (snd (mp_try_recv ops c)) = snd (mp_try_recv tokio_mpsc (view c))"
    using try_recv_view [of c] by (cases "mp_try_recv ops c", simp add: prod_eq_iff)+
  then show "fst (rx_try_recv ops c) =
     (case queue c of x # q \<Rightarrow> Ok x | [] \<Rightarrow> Err (if ch_drained (view c) then RecvClosed else RecvEmpty))"
    and "queue (snd (rx_try_recv ops c)) = tl (queue c)"
    by (auto simp: rx_try_recv_def tokio_mpsc_def split_beta split: list.split)
qed

end

sublocale mpsc \<subseteq> fifo: fifo_mailbox "mailbox_of ops" "\<lambda>c. ch_queue (view c)"
proof
  fix c
  show "mb_len (mailbox_of ops) c = length (ch_queue (view c))"
    by (simp add: mailbox_of_def observe_view tokio_mpsc_def)
  show "fst (mb_try_recv (mailbox_of ops) c) = Ok (hd (ch_queue (view c))) \<and>
      ch_queue (view (snd (mb_try_recv (mailbox_of ops) c))) = tl (ch_queue (view c))"
    if "ch_queue (view c) \<noteq> []"
    using that by (simp add: mailbox_of_def rx_try_recv_queue split: list.split)
  show "\<not> is_ok (fst (mb_try_recv (mailbox_of ops) c)) \<and> ch_queue (view (snd (mb_try_recv (mailbox_of ops) c))) = []"
    if "ch_queue (view c) = []"
    using that by (simp add: mailbox_of_def rx_try_recv_queue)
qed

lemma map_prod_id_eq: "map_prod id f p = q \<longleftrightarrow> fst p = fst q \<and> f (snd p) = snd q"
  by (cases p; cases q) auto

lemma os_view:
  assumes "oneshot ops view"
  shows "map_prod id view (os_send ops t s) = os_send tokio_oneshot t (view s)"
    and "map_prod id view (os_send_err ops e s) = os_send_err tokio_oneshot e (view s)"
    and "map_prod id view (os_poll ops s) = os_poll tokio_oneshot (view s)"
    and "map_prod id view (os_try_recv ops s) = os_try_recv tokio_oneshot (view s)"
  using oneshot.send_view [OF assms, of "Ok t" s] oneshot.send_view [OF assms, of "Err e" s]
    oneshot.poll_view [OF assms, of s] oneshot.try_recv_view [OF assms, of s]
  by (auto simp: os_send_def os_send_err_def os_poll_def os_try_recv_def map_prod_id_eq
      split: prod.split result.split)

lemma os_recv_timeout_view:
  assumes "oneshot ops view"
  shows "map_prod id view (os_recv_timeout ops b s) = os_recv_timeout tokio_oneshot b (view s)"
  using os_view(3) [OF assms, of s] by (auto simp: os_recv_timeout_def map_prod_id_eq split: prod.split option.split)

lemmas os_view_fst = os_view [unfolded map_prod_id_eq, THEN conjunct1] os_recv_timeout_view [unfolded map_prod_id_eq, THEN conjunct1]
lemmas os_view_snd = os_view [unfolded map_prod_id_eq, THEN conjunct2] os_recv_timeout_view [unfolded map_prod_id_eq, THEN conjunct2]

lemma tokio_oneshot_new: "os_rx_open (op_new tokio_oneshot)"
  by (simp add: tokio_oneshot_def)

section \<open>Properties\<close>

text \<open>A response is delivered once or handed back: sending a value or an error never unwinds; while
  the receiver is open the next poll yields exactly it, later polls find the channel closed, and a
  timeout before does not disturb it. When the receiver is gone the value comes back to the sender. A
  sender dropped without an answer is reported as closed.\<close>

theorem oneshot_answered_once:
  assumes "oneshot ops view"
  shows "(if os_rx_open (view s)
      then fst (os_send ops t s) = Ret (Ok ()) \<and> fst (os_poll ops (snd (os_send ops t s))) = Some (Ok t) \<and>
        fst (os_poll ops (snd (os_poll ops (snd (os_send ops t s))))) = Some (Err RecvClosed) \<and>
        fst (os_send_err ops e s) = Ret (Ok ()) \<and> fst (os_poll ops (snd (os_send_err ops e s))) = Some (Err (RecvOther e))
      else fst (os_send ops t s) = Ret (Err (SendClosed t)) \<and> fst (os_send_err ops e s) = Ret (Err (SendClosed e))) \<and>
    (fst (os_poll ops s) = None \<longrightarrow>
      fst (os_recv_timeout ops True s) = Some (Err RecvTimeout) \<and> view (snd (os_recv_timeout ops True s)) = view s \<and>
      fst (os_try_recv ops s) = Err RecvEmpty \<and> fst (os_poll ops (op_drop_tx ops s)) = Some (Err RecvClosed))"
proof -
  note v = os_view_fst [OF assms] os_view_snd [OF assms] oneshot.drop_view [OF assms]
  show ?thesis
    unfolding v by (simp add: tokio_oneshot_def os_send_def os_send_err_def os_poll_def os_try_recv_def
        os_recv_timeout_def oneshot_recv_def split: option.splits)
qed

theorem oneshot_answered_once_witness:
  "fst (os_poll tokio_oneshot (snd (os_send tokio_oneshot (5 :: nat) (op_new tokio_oneshot)))) = Some (Ok 5)"
  using oneshot_answered_once [OF tokio_oneshot.oneshot_axioms, of "op_new tokio_oneshot" "5 :: nat" "box_str []"]
  by (simp add: tokio_oneshot_new)

end
