(* ===== verification/Receiver.thy ===== *)
theory Receiver
  imports Channel
begin

text \<open>
  The remaining operations of the receiving halves (\<open>acktor/src/channel/mpsc.rs\<close>,
  \<open>acktor/src/channel/oneshot.rs\<close>) and of the mailbox (\<open>acktor/src/address/mailbox.rs\<close>): receiving in
  batches, polling, closing and the observers. All ways of receiving take the values in the order they were sent and
  lose none, also after the channel was closed.
\<close>

section \<open>The receiver of a bounded channel\<close>

definition rx_recv_many :: "('ch, 'x) mpsc_ops \<Rightarrow> 'x list \<Rightarrow> nat \<Rightarrow> 'ch \<Rightarrow> (nat \<times> 'x list \<times> 'ch) option" where
  "rx_recv_many ops buffer limit c = map_option (\<lambda>(xs, c'). (length xs, buffer @ xs, c')) (mp_recv_many ops limit c)"

definition rx_blocking_recv_many ::
  "('ch, 'x) mpsc_ops \<Rightarrow> bool \<Rightarrow> 'x list \<Rightarrow> nat \<Rightarrow> 'ch \<Rightarrow> (nat outcome \<times> 'x list \<times> 'ch) option" where
  "rx_blocking_recv_many ops in_async buffer limit c =
     map_option (\<lambda>(r, c'). case r of Ret xs \<Rightarrow> (Ret (length xs), buffer @ xs, c') | Panic p \<Rightarrow> (Panic p, buffer, c'))
       (mp_blocking_recv_many ops in_async limit c)"

definition rx_poll_recv :: "('ch, 'x) mpsc_ops \<Rightarrow> 'ch \<Rightarrow> (('x, recv_error) result \<times> 'ch) option" where
  "rx_poll_recv ops c = map_option (\<lambda>(v, c'). (ok_or RecvClosed v, c')) (mp_recv ops c)"

definition rx_poll_recv_many :: "('ch, 'x) mpsc_ops \<Rightarrow> 'x list \<Rightarrow> nat \<Rightarrow> 'ch \<Rightarrow> (nat \<times> 'x list \<times> 'ch) option" where
  "rx_poll_recv_many ops buffer limit c = map_option (\<lambda>(xs, c'). (length xs, buffer @ xs, c')) (mp_recv_many ops limit c)"

definition rx_close :: "('ch, 'x) mpsc_ops \<Rightarrow> 'ch \<Rightarrow> 'ch" where
  "rx_close ops c = mp_close ops c"

definition rx_is_closed :: "('ch, 'x) mpsc_ops \<Rightarrow> 'ch \<Rightarrow> bool" where
  "rx_is_closed ops c = mp_rx_closed ops c"

definition rx_is_empty :: "('ch, 'x) mpsc_ops \<Rightarrow> 'ch \<Rightarrow> bool" where
  "rx_is_empty ops c = mp_is_empty ops c"

definition rx_len :: "('ch, 'x) mpsc_ops \<Rightarrow> 'ch \<Rightarrow> nat" where
  "rx_len ops c = mp_len ops c"

definition rx_capacity :: "('ch, 'x) mpsc_ops \<Rightarrow> 'ch \<Rightarrow> nat" where
  "rx_capacity ops c = mp_capacity ops c"

definition rx_max_capacity :: "('ch, 'x) mpsc_ops \<Rightarrow> 'ch \<Rightarrow> nat" where
  "rx_max_capacity ops c = mp_max_capacity ops c"

section \<open>Both halves of a response channel\<close>

definition os_is_closed :: "('os, 'v) oneshot_ops \<Rightarrow> 'os \<Rightarrow> bool" where
  "os_is_closed ops s = op_closed ops s"

text \<open>Waiting for the receiver to go: \<open>None\<close> while it is there.\<close>

definition os_poll_closed :: "('os, 'v) oneshot_ops \<Rightarrow> 'os \<Rightarrow> unit option" where
  "os_poll_closed ops s = (if op_closed ops s then Some () else None)"

definition os_close :: "('os, 'v) oneshot_ops \<Rightarrow> 'os \<Rightarrow> 'os" where
  "os_close ops s = op_close ops s"

section \<open>Receiving\<close>

datatype rx_call = RRecv | RTryRecv | RPollRecv | RRecvTimeout bool | RRecvMany nat | RPollMany nat |
  RBlockingRecv bool | RBlockingMany bool nat | RClose

definition got :: "('x, recv_error) result \<Rightarrow> 'x list" where
  "got r = (case r of Ok x \<Rightarrow> [x] | Err _ \<Rightarrow> [])"

text \<open>What a call hands out; \<open>None\<close> when it has to wait.\<close>

fun rx_exec :: "('ch, 'x) mpsc_ops \<Rightarrow> rx_call \<Rightarrow> 'ch \<Rightarrow> ('x list \<times> 'ch) option" where
  "rx_exec ops RRecv c = map_option (map_prod got id) (rx_recv ops c)"
| "rx_exec ops RTryRecv c = Some (map_prod got id (rx_try_recv ops c))"
| "rx_exec ops RPollRecv c = map_option (map_prod got id) (rx_poll_recv ops c)"
| "rx_exec ops (RRecvTimeout elapsed) c = map_option (map_prod got id) (rx_recv_timeout ops elapsed c)"
| "rx_exec ops (RRecvMany limit) c = map_option snd (rx_recv_many ops [] limit c)"
| "rx_exec ops (RPollMany limit) c = map_option snd (rx_poll_recv_many ops [] limit c)"
| "rx_exec ops (RBlockingRecv in_async) c =
     map_option (\<lambda>(r, c'). (case r of Ret v \<Rightarrow> got v | Panic _ \<Rightarrow> [], c')) (rx_blocking_recv ops in_async c)"
| "rx_exec ops (RBlockingMany in_async limit) c = map_option snd (rx_blocking_recv_many ops in_async [] limit c)"
| "rx_exec ops RClose c = Some ([], rx_close ops c)"

text \<open>A call that has to wait is given up and leaves the channel as it is.\<close>

fun rx_run :: "('ch, 'x) mpsc_ops \<Rightarrow> rx_call list \<Rightarrow> 'ch \<Rightarrow> 'x list \<times> 'ch" where
  "rx_run ops [] c = ([], c)"
| "rx_run ops (call # calls) c =
     (case rx_exec ops call c of
        None \<Rightarrow> rx_run ops calls c
      | Some (xs, c') \<Rightarrow> map_prod ((@) xs) id (rx_run ops calls c'))"


section \<open>The documented machine\<close>

lemma machine_receives:
  "rx_exec tokio_mpsc call s = Some (xs, s') \<Longrightarrow> xs @ ch_queue s' = ch_queue s \<and> ch_reserved s' = ch_reserved s \<and>
     ch_max s' = ch_max s \<and> ch_senders s' = ch_senders s \<and> (ch_closed s \<longrightarrow> ch_closed s')"
  by (cases call) (auto simp: tokio_defs rx_recv_def rx_try_recv_def rx_poll_recv_def rx_recv_timeout_def rx_recv_many_def
      rx_poll_recv_many_def rx_blocking_recv_def rx_blocking_recv_many_def rx_close_def got_def split: list.splits if_splits)

lemma machine_drains:
  "call \<in> {RRecv, RPollRecv, RTryRecv, RRecvTimeout e} \<Longrightarrow> ch_closed s \<Longrightarrow> ch_reserved s = 0 \<Longrightarrow>
   rx_exec tokio_mpsc call s = Some (take 1 (ch_queue s), s\<lparr>ch_queue := drop 1 (ch_queue s)\<rparr>)"
  by (cases "ch_queue s") (auto simp: tokio_defs rx_recv_def rx_try_recv_def rx_poll_recv_def rx_recv_timeout_def got_def
      ch_drained_def)

context mpsc
begin

lemma rx_exec_view: "map_option (map_prod id view) (rx_exec ops call c) = rx_exec tokio_mpsc call (view c)"
proof (cases call)
  case RTryRecv
  then show ?thesis
    by (cases "mp_try_recv ops c") (simp add: rx_try_recv_def flip: try_recv_view)
next
  case (RRecvTimeout e)
  then show ?thesis
    by (cases "mp_recv ops c") (auto simp: rx_recv_timeout_def split: option.split simp flip: recv_view)
next
  case (RBlockingRecv a)
  then show ?thesis
    by (cases "mp_blocking_recv ops a c") (auto simp: rx_blocking_recv_def simp flip: blocking_recv_view)
next
  case (RBlockingMany a n)
  then show ?thesis
    by (cases "mp_blocking_recv_many ops a n c")
      (auto simp: rx_blocking_recv_many_def split: outcome.split simp flip: blocking_recv_many_view)
next
  case (RRecvMany n)
  then show ?thesis
    by (cases "mp_recv_many ops n c") (auto simp: rx_recv_many_def simp flip: recv_many_view)
next
  case (RPollMany n)
  then show ?thesis
    by (cases "mp_recv_many ops n c") (auto simp: rx_poll_recv_many_def simp flip: recv_many_view)
qed (auto simp: rx_recv_def rx_poll_recv_def rx_close_def close_view option.map_comp simp flip: recv_view
    intro!: map_option_cong split: prod.split)

lemma rx_run_view: "map_prod id view (rx_run ops calls c) = rx_run tokio_mpsc calls (view c)"
proof (induction calls arbitrary: c)
  case (Cons call calls)
  show ?case
    using Cons.IH
    by (cases "rx_exec ops call c") (auto simp: prod_eq_iff simp del: rx_exec.simps simp flip: rx_exec_view)
qed simp

end

lemma machine_run_receives:
  "fst (rx_run tokio_mpsc calls s) @ ch_queue (snd (rx_run tokio_mpsc calls s)) = ch_queue s \<and>
   ch_max (snd (rx_run tokio_mpsc calls s)) = ch_max s"
proof (induction calls arbitrary: s)
  case (Cons call calls)
  show ?case
  proof (cases "rx_exec tokio_mpsc call s")
    case (Some p)
    then obtain xs s' where p: "rx_exec tokio_mpsc call s = Some (xs, s')" by (cases p) auto
    then show ?thesis using machine_receives [OF p] Cons.IH [of s'] by simp
  qed (use Cons.IH [of s] in simp)
qed simp

lemma machine_run_drains:
  assumes "ch_closed s" and "ch_reserved s = 0" and "length (ch_queue s) \<le> n"
  shows "rx_run tokio_mpsc (replicate n RRecv) s = (ch_queue s, s\<lparr>ch_queue := []\<rparr>)"
  using assms
proof (induction n arbitrary: s)
  case (Suc n)
  let ?s = "s\<lparr>ch_queue := drop 1 (ch_queue s)\<rparr>"
  have "rx_exec tokio_mpsc RRecv s = Some (take 1 (ch_queue s), ?s)"
    using Suc.prems by (intro machine_drains) simp_all
  moreover have "rx_run tokio_mpsc (replicate n RRecv) ?s = (drop 1 (ch_queue s), ?s\<lparr>ch_queue := []\<rparr>)"
    using Suc.IH [of ?s] Suc.prems by simp
  ultimately show ?case by (simp del: rx_exec.simps)
qed simp

text \<open>Whatever calls the owner of a receiver makes, in whatever order, the values it gets and those still
  queued are the queued ones in order. After it closed the channel and the permits are used up, nothing can be sent, no
  receive has to wait, and receiving hands out all that was queued and then reports that the channel
  is closed.\<close>

theorem receiver_drains_in_order:
  assumes "mpsc ops view"
  shows "fst (rx_run ops calls c) @ ch_queue (view (snd (rx_run ops calls c))) = ch_queue (view c) \<and>
    (ch_reserved (view c) = 0 \<longrightarrow>
      (let d = rx_close ops c; (xs, e) = rx_run ops (replicate (rx_len ops c) RRecv) d
       in rx_is_closed ops d \<and> fst (mp_try_send ops x d) = Err (TrySendClosed x) \<and>
         xs = ch_queue (view c) \<and> rx_is_empty ops e \<and> map_option fst (rx_recv ops e) = Some (Err RecvClosed)))"
proof -
  note run = mpsc.rx_run_view [OF assms, unfolded map_prod_id_eq]
  have seen: "view (rx_close ops d) = view d\<lparr>ch_closed := True\<rparr>" "rx_len ops d = length (ch_queue (view d))"
    "rx_is_closed ops d = (ch_closed (view d) \<or> ch_senders (view d) = 0)" "rx_is_empty ops d = (ch_queue (view d) = [])"
    "fst (mp_try_send ops x d) = fst (mp_try_send tokio_mpsc x (view d))"
    "map_option fst (rx_recv ops d) = map_option fst (rx_recv tokio_mpsc (view d))" for d
    using mpsc.close_view [OF assms] mpsc.observe_view [OF assms] mpsc.try_send_view [OF assms, of x d]
      mpsc.recv_view [OF assms, of d, symmetric]
    by (simp_all add: tokio_mpsc_def rx_close_def rx_len_def rx_is_closed_def rx_is_empty_def map_prod_id_eq rx_recv_def
        option.map_comp comp_def split_beta)
  let ?d = "rx_close ops c" and ?e = "snd (rx_run ops (replicate (rx_len ops c) RRecv) (rx_close ops c))"
  have "fst (rx_run ops (replicate (rx_len ops c) RRecv) ?d) = ch_queue (view c)" and "view ?e = view c\<lparr>ch_closed := True, ch_queue := []\<rparr>"
    if "ch_reserved (view c) = 0"
    using machine_run_drains [of "view ?d" "rx_len ops c"] that by (simp_all add: run seen)
  then show ?thesis
    using machine_run_receives [of calls "view c"]
    by (auto simp: run seen Let_def split_beta) (simp_all add: tokio_defs rx_recv_def ch_drained_def)
qed

theorem receiver_drains_in_order_witness:
  "let c = \<lparr>ch_queue = [1, 2, 3 :: nat], ch_reserved = 0, ch_max = 4, ch_closed = False, ch_senders = 1\<rparr>
   in rx_run tokio_mpsc [RTryRecv, RRecvMany 5, RRecv] c = ([1, 2, 3], c\<lparr>ch_queue := []\<rparr>) \<and>
     fst (rx_run tokio_mpsc (replicate 3 RRecv) (rx_close tokio_mpsc c)) = [1, 2, 3]"
proof -
  let ?c = "\<lparr>ch_queue = [1, 2, 3 :: nat], ch_reserved = 0, ch_max = 4, ch_closed = False, ch_senders = 1\<rparr>"
  have "rx_run tokio_mpsc [RTryRecv, RRecvMany 5, RRecv] ?c = ([1, 2, 3], ?c\<lparr>ch_queue := []\<rparr>)"
    by (simp add: tokio_defs rx_try_recv_def rx_recv_many_def rx_recv_def got_def ch_drained_def)
  moreover have len: "rx_len tokio_mpsc ?c = 3" by (simp add: rx_len_def tokio_mpsc_def)
  have "fst (rx_run tokio_mpsc (replicate 3 RRecv) (rx_close tokio_mpsc ?c)) = [1, 2, 3]"
    using receiver_drains_in_order [OF tokio_mpsc.mpsc_axioms, of "[]" ?c] len by (simp add: Let_def split_beta)
  ultimately show ?thesis by (simp add: Let_def)
qed

end
