(* ===== verification/Envelope.thy ===== *)
theory Envelope
  imports Channel
begin

text \<open>
  Envelopes (\<open>acktor/src/envelope.rs\<close>, \<open>envelope/default_proxy.rs\<close>, \<open>envelope/timed_proxy.rs\<close>) and the
  responses of handlers (\<open>acktor/src/message.rs\<close>, \<open>message/result.rs\<close>, \<open>message/future_result.rs\<close>). A
  mailbox holds messages of every type its actor handles, so a message travels as a boxed proxy
  that remembers its type \<open>'ty\<close>; unpacking downcasts it and unwinds when the type differs. Response
  channels are named. The handler is a parameter: a future that the runtime polls, which may finish, unwind, wait
  for ever or never return from a poll.
\<close>

section \<open>Packing\<close>

datatype ('ty, 'm, 'tx) envelope =
  DefaultEnvelope 'ty "'m option" "'tx option"
| TimedEnvelope 'ty "'m option" "'tx option" nat

text \<open>A message with a time budget.\<close>

datatype 'm timed = Timed (timed_message: 'm) (timed_budget: nat)

definition pack :: "'ty \<Rightarrow> 'm \<Rightarrow> 'tx option \<Rightarrow> ('ty, 'm, 'tx) envelope" where
  "pack ty msg tx = DefaultEnvelope ty (Some msg) tx"

definition pack_timed :: "'ty \<Rightarrow> 'm timed \<Rightarrow> 'tx option \<Rightarrow> ('ty, 'm, 'tx) envelope" where
  "pack_timed ty t tx = TimedEnvelope ty (Some (timed_message t)) tx (timed_budget t)"

definition unpack :: "'ty \<Rightarrow> ('ty, 'm, 'tx) envelope \<Rightarrow> 'm outcome" where
  "unpack ty env =
     (case env of
        DefaultEnvelope ty' message _ \<Rightarrow>
          if ty' = ty
          then case message of
                 Some msg \<Rightarrow> Ret msg
               | None \<Rightarrow> Panic ''message already taken from DefaultEnvelopeProxy''
          else Panic ''envelope proxy mismatch during downcast: expected DefaultEnvelopeProxy''
      | TimedEnvelope _ _ _ _ \<Rightarrow>
          Panic ''envelope proxy mismatch during downcast: expected DefaultEnvelopeProxy'')"

definition unpack_timed :: "'ty \<Rightarrow> ('ty, 'm, 'tx) envelope \<Rightarrow> 'm timed outcome" where
  "unpack_timed ty env =
     (case env of
        TimedEnvelope ty' message _ budget \<Rightarrow>
          if ty' = ty
          then case message of
                 Some msg \<Rightarrow> Ret (Timed msg budget)
               | None \<Rightarrow> Panic ''message already taken from TimedEnvelopeProxy''
          else Panic ''envelope proxy mismatch during downcast: expected TimedEnvelopeProxy''
      | DefaultEnvelope _ _ _ \<Rightarrow>
          Panic ''envelope proxy mismatch during downcast: expected TimedEnvelopeProxy'')"

section \<open>Responses\<close>

text \<open>What handling a message does to the outside: a value or an error sent on a response channel, a
  task that answers when its future completes, the error of a lost answer written to the log.\<close>

datatype ('tx, 'r) reply =
  Reply 'tx 'r
| ReplyErr 'tx box_error
| SpawnReply "'tx option" 'r
| LogDropped box_error

text \<open>Every plain type, \<open>Option\<close>, \<open>Box\<close>, \<open>Arc\<close>, \<open>Vec\<close> and \<open>MessageResult\<close>.\<close>

definition respond :: "'r \<Rightarrow> 'tx option \<Rightarrow> ('tx, 'r) reply list" where
  "respond result tx = (case tx of Some t \<Rightarrow> [Reply t result] | None \<Rightarrow> [])"

text \<open>A \<open>Result\<close> writes the error that could not be delivered to the log.\<close>

definition respond_result ::
  "('tx \<Rightarrow> bool) \<Rightarrow> ('e \<Rightarrow> box_error) \<Rightarrow> ('t, 'e) result \<Rightarrow> 'tx option \<Rightarrow> ('tx, ('t, 'e) result) reply list" where
  "respond_result tx_closed into_box result tx =
     (case tx of
        Some t \<Rightarrow>
          Reply t result # (if tx_closed t then case result of Err e \<Rightarrow> [LogDropped (into_box e)] | Ok _ \<Rightarrow> [] else [])
      | None \<Rightarrow> [])"

definition respond_future :: "'r \<Rightarrow> 'tx option \<Rightarrow> ('tx, 'r) reply list" where
  "respond_future future_result tx = [SpawnReply tx future_result]"

section \<open>Handling\<close>

text \<open>
  The handler's future: the outcome of its \<open>k\<close>-th poll and the time since the start at which the poll returns. A pending
  poll leaves the actor as it is if the future is dropped there. Awaiting the response of the result may never end.
\<close>

datatype ('res, 's) handler_poll = PollReady "'res outcome" 's | PollPending 's | PollBlocked

type_synonym ('res, 's) polls = "nat \<Rightarrow> nat \<times> ('res, 's) handler_poll"

record ('tx, 'm, 's, 'res, 'r) handling =
  hd_closed :: "'tx \<Rightarrow> 's \<Rightarrow> bool"
  hd_polls :: "'m \<Rightarrow> 's \<Rightarrow> ('res, 's) polls"
  hd_respond :: "'res \<Rightarrow> 'tx option \<Rightarrow> ('tx, 'r) reply list option"

text \<open>Awaiting the future, from its \<open>k\<close>-th poll on.\<close>

partial_function (option) run_handler :: "('res, 's) polls \<Rightarrow> nat \<Rightarrow> ('res outcome \<times> 's) option" where
  "run_handler polls k =
     (case snd (polls k) of
        PollReady out s \<Rightarrow> Some (out, s)
      | PollPending s \<Rightarrow> run_handler polls (Suc k)
      | PollBlocked \<Rightarrow> None)"

text \<open>\<open>tokio::time::timeout\<close> around it: the future is polled first, and only when it is pending the timer is looked at; nothing
  interrupts a poll.\<close>

partial_function (option) run_timeout :: "('res, 's) polls \<Rightarrow> nat \<Rightarrow> nat \<Rightarrow> (('res outcome, unit) result \<times> 's) option" where
  "run_timeout polls budget k =
     (case polls k of
        (_, PollReady out s) \<Rightarrow> Some (Ok out, s)
      | (time, PollPending s) \<Rightarrow> if budget \<le> time then Some (Err (), s) else run_timeout polls budget (Suc k)
      | (_, PollBlocked) \<Rightarrow> None)"

definition elapsed_error :: box_error where
  "elapsed_error = box_str ''deadline has elapsed''"

type_synonym ('tx, 's, 'r) handled = "(('tx, 'r) reply list outcome \<times> 's) option"

definition respond_with ::
  "('tx, 'm, 's, 'res, 'r) handling \<Rightarrow> 'tx option \<Rightarrow> 'res outcome \<Rightarrow> 's \<Rightarrow> ('tx, 's, 'r) handled" where
  "respond_with h tx out s =
     (case out of
        Panic p \<Rightarrow> Some (Panic p, s)
      | Ret result \<Rightarrow> map_option (\<lambda>replies. (Ret replies, s)) (hd_respond h result tx))"

definition default_handle ::
  "('tx, 'm, 's, 'res, 'r) handling \<Rightarrow> 'm option \<Rightarrow> 'tx option \<Rightarrow> 's \<Rightarrow> ('tx, 's, 'r) handled" where
  "default_handle h message tx s =
     (case message of
        None \<Rightarrow> Some (Ret [], s)
      | Some msg \<Rightarrow>
          if (case tx of Some t \<Rightarrow> hd_closed h t s | None \<Rightarrow> False) then Some (Ret [], s)
          else case run_handler (hd_polls h msg s) 0 of
                 None \<Rightarrow> None
               | Some (out, s') \<Rightarrow> respond_with h tx out s')"

definition timed_handle ::
  "('tx, 'm, 's, 'res, 'r) handling \<Rightarrow> 'm option \<Rightarrow> 'tx option \<Rightarrow> nat \<Rightarrow> 's \<Rightarrow> ('tx, 's, 'r) handled" where
  "timed_handle h message tx budget s =
     (case message of
        None \<Rightarrow> Some (Ret [], s)
      | Some msg \<Rightarrow>
          if (case tx of Some t \<Rightarrow> hd_closed h t s | None \<Rightarrow> False) then Some (Ret [], s)
          else case run_timeout (hd_polls h msg s) budget 0 of
                 None \<Rightarrow> None
               | Some (Ok out, s') \<Rightarrow> respond_with h tx out s'
               | Some (Err _, s') \<Rightarrow> Some (Ret (case tx of Some t \<Rightarrow> [ReplyErr t elapsed_error] | None \<Rightarrow> []), s'))"

text \<open>Handling takes the message and the response channel out of the proxy.\<close>

fun envelope_handle ::
  "('tx, 'm, 's, 'res, 'r) handling \<Rightarrow> ('ty, 'm, 'tx) envelope \<Rightarrow> 's \<Rightarrow>
   ('ty, 'm, 'tx) envelope \<times> ('tx, 's, 'r) handled" where
  "envelope_handle h (DefaultEnvelope ty message tx) s =
     (DefaultEnvelope ty None None, default_handle h message tx s)"
| "envelope_handle h (TimedEnvelope ty message tx budget) s =
     (TimedEnvelope ty None None budget, timed_handle h message tx budget s)"

section \<open>Properties\<close>

lemma handled_envelope_empty:
  "envelope_handle h (fst (envelope_handle h env s)) s' = (fst (envelope_handle h env s), Some (Ret [], s'))"
  by (cases env) (simp_all add: default_handle_def timed_handle_def)

lemma run_handler_at:
  assumes "\<forall>j < k. \<exists>s. snd (polls j) = PollPending s"
  shows "run_handler polls 0 = run_handler polls k"
  using assms
proof (induction k)
  case (Suc k)
  then obtain s where "snd (polls k) = PollPending s" by blast
  with Suc show ?case by (simp add: run_handler.simps [of polls k])
qed simp

lemma run_timeout_at:
  assumes "\<forall>j < k. \<exists>time s. polls j = (time, PollPending s) \<and> time < budget"
  shows "run_timeout polls budget 0 = run_timeout polls budget k"
  using assms
proof (induction k)
  case (Suc k)
  then obtain time s where "polls k = (time, PollPending s)" "time < budget" by blast
  with Suc show ?case by (simp add: run_timeout.simps [of polls budget k])
qed simp

lemma default_handle_eq:
  "default_handle h (Some msg) tx s =
     (if \<exists>t. tx = Some t \<and> hd_closed h t s then Some (Ret [], s)
      else Option.bind (run_handler (hd_polls h msg s) 0) (\<lambda>(out, s'). respond_with h tx out s'))"
  by (auto simp: default_handle_def split: option.split)

text \<open>C35. A message is handled at most once, and only for a sender that still waits: unpacking an
  envelope that was just packed gives the message back and never unwinds; handling runs the
  handler and answers through its response, unless the waiting sender is gone, in which case nothing
  happens; handling the envelope again does nothing.\<close>

theorem envelope_handled_once:
  "unpack ty (pack ty msg tx) = Ret msg \<and> unpack_timed ty (pack_timed ty (Timed msg budget) tx) = Ret (Timed msg budget) \<and>
   (case envelope_handle h (pack ty msg tx) s of (env, r) \<Rightarrow>
      r = (if \<exists>t. tx = Some t \<and> hd_closed h t s then Some (Ret [], s)
        else case run_handler (hd_polls h msg s) 0 of
          None \<Rightarrow> None
        | Some (Panic p, s') \<Rightarrow> Some (Panic p, s')
        | Some (Ret result, s') \<Rightarrow> map_option (\<lambda>replies. (Ret replies, s')) (hd_respond h result tx)) \<and>
      envelope_handle h env s2 = (env, Some (Ret [], s2)))"
  using handled_envelope_empty [of h "pack ty msg tx" s s2]
  by (auto simp: pack_def unpack_def pack_timed_def unpack_timed_def default_handle_eq respond_with_def split: option.split outcome.split)


definition slow_handling :: "(nat, nat, nat, nat, nat) handling" where
  "slow_handling = \<lparr>hd_closed = (\<lambda>_ _. False), hd_polls = (\<lambda>m s k. (3 * k, if k < m then PollPending (s + k) else PollReady (Ret m) s)),
     hd_respond = (\<lambda>r tx. Some (respond r tx))\<rparr>"


end
