(* ===== verification/Address.thy ===== *)
theory Address
  imports Envelope Codec "HOL-Library.Multiset"
begin

text \<open>
  Addresses of actors in this process (\<open>acktor/src/address/local.rs\<close>, \<open>address/permit.rs\<close>), the trait
  \<open>Sender\<close> (\<open>address/sender.rs\<close>) and the recipients that are backed by a channel
  (\<open>address/recipient.rs\<close>). The trait is the record \<open>sender_ops\<close>, and the locale \<open>sender\<close> is what its users
  rely on: a message is accepted once or handed back. Its world \<open>'w\<close> is the state of the channels the
  sender writes to; the first argument of a send with a response names the response channel that
  the call creates.
\<close>

section \<open>Actor indices\<close>

text \<open>The global counter, with wrap-around.\<close>

definition next_actor_id :: "u64 \<Rightarrow> u64 \<times> u64" where
  "next_actor_id counter = (counter, counter + 1)"

fun allocate_ids :: "nat \<Rightarrow> u64 \<Rightarrow> u64 list \<times> u64" where
  "allocate_ids 0 counter = ([], counter)"
| "allocate_ids (Suc n) counter =
     (case next_actor_id counter of (i, counter') \<Rightarrow>
        (case allocate_ids n counter' of (ids, counter'') \<Rightarrow> (i # ids, counter'')))"

section \<open>The trait\<close>

type_synonym ('r, 'm) sent = "('r, 'm send_error) result outcome"

record ('w, 'm, 'r) sender_ops =
  sd_index :: actor_id
  sd_is_closed :: "'w \<Rightarrow> bool"
  sd_capacity :: "'w \<Rightarrow> nat"
  sd_send :: "'r \<Rightarrow> 'm \<Rightarrow> 'w \<Rightarrow> ('r, 'm) sent option \<times> 'w"
  sd_do_send :: "'m \<Rightarrow> 'w \<Rightarrow> (unit, 'm) sent option \<times> 'w"
  sd_try_send :: "'r \<Rightarrow> 'm \<Rightarrow> 'w \<Rightarrow> ('r, 'm) sent \<times> 'w"
  sd_try_do_send :: "'m \<Rightarrow> 'w \<Rightarrow> (unit, 'm) sent \<times> 'w"
  sd_send_timeout :: "bool \<Rightarrow> 'r \<Rightarrow> 'm \<Rightarrow> 'w \<Rightarrow> ('r, 'm) sent option \<times> 'w"
  sd_do_send_timeout :: "bool \<Rightarrow> 'm \<Rightarrow> 'w \<Rightarrow> (unit, 'm) sent option \<times> 'w"
  sd_blocking_send :: "bool \<Rightarrow> 'r \<Rightarrow> 'm \<Rightarrow> 'w \<Rightarrow> ('r, 'm) sent option \<times> 'w"
  sd_blocking_do_send :: "bool \<Rightarrow> 'm \<Rightarrow> 'w \<Rightarrow> (unit, 'm) sent option \<times> 'w"

section \<open>Local addresses\<close>

text \<open>The index and the type of the message that is sent; the channel is the state.\<close>

record local_address =
  la_index :: u64

definition local_address_new :: "u64 \<Rightarrow> local_address \<times> u64" where
  "local_address_new counter = (case next_actor_id counter of (i, counter') \<Rightarrow> (\<lparr>la_index = i\<rparr>, counter'))"

definition local_index :: "local_address \<Rightarrow> actor_id" where
  "local_index a = actor_id_new (la_index a)"

definition send_result :: "'ty \<Rightarrow> 'r \<Rightarrow> (unit, ('ty, 'm, 'tx) envelope) result \<Rightarrow> ('r, 'm) sent" where
  "send_result ty rx r =
     (case r of Ok _ \<Rightarrow> Ret (Ok rx) | Err env \<Rightarrow> map_outcome (\<lambda>m. Err (SendClosed m)) (unpack ty env))"

definition try_send_result ::
  "'ty \<Rightarrow> 'r \<Rightarrow> (unit, ('ty, 'm, 'tx) envelope mpsc_try_send_error) result \<Rightarrow> ('r, 'm) sent" where
  "try_send_result ty rx r =
     (case r of
        Ok _ \<Rightarrow> Ret (Ok rx)
      | Err (TrySendClosed env) \<Rightarrow> map_outcome (\<lambda>m. Err (SendClosed m)) (unpack ty env)
      | Err (TrySendFull env) \<Rightarrow> map_outcome (\<lambda>m. Err (SendFull m)) (unpack ty env))"

definition timeout_send_result ::
  "'ty \<Rightarrow> 'r \<Rightarrow> (unit, ('ty, 'm, 'tx) envelope mpsc_send_timeout_error) result \<Rightarrow> ('r, 'm) sent" where
  "timeout_send_result ty rx r =
     (case r of
        Ok _ \<Rightarrow> Ret (Ok rx)
      | Err (SendTimeoutClosed env) \<Rightarrow> map_outcome (\<lambda>m. Err (SendClosed m)) (unpack ty env)
      | Err (SendTimeoutTimeout env) \<Rightarrow> map_outcome (\<lambda>m. Err (SendTimeout m)) (unpack ty env))"

definition blocking_send_result ::
  "'ty \<Rightarrow> 'r \<Rightarrow> (unit, ('ty, 'm, 'tx) envelope) result outcome \<Rightarrow> ('r, 'm) sent" where
  "blocking_send_result ty rx out = (case out of Panic p \<Rightarrow> Panic p | Ret r \<Rightarrow> send_result ty rx r)"

text \<open>Polling an operation that may wait: no result leaves the channel as it is.\<close>

definition polled :: "('a \<Rightarrow> 'b) \<Rightarrow> 'w \<Rightarrow> ('a \<times> 'w) option \<Rightarrow> 'b option \<times> 'w" where
  "polled f w p = (case p of None \<Rightarrow> (None, w) | Some (a, w') \<Rightarrow> (Some (f a), w'))"

type_synonym ('ch, 'ty, 'm, 'r) mailbox_ops = "('ch, ('ty, 'm, 'r) envelope) mpsc_ops"

definition local_send ::
  "('ch, 'ty, 'm, 'r) mailbox_ops \<Rightarrow> 'ty \<Rightarrow> 'r \<Rightarrow> 'm \<Rightarrow> 'ch \<Rightarrow> ('r, 'm) sent option \<times> 'ch" where
  "local_send ops ty rx msg c = polled (send_result ty rx) c (mp_send ops (pack ty msg (Some rx)) c)"

definition local_do_send ::
  "('ch, 'ty, 'm, 'r) mailbox_ops \<Rightarrow> 'ty \<Rightarrow> 'm \<Rightarrow> 'ch \<Rightarrow> (unit, 'm) sent option \<times> 'ch" where
  "local_do_send ops ty msg c = polled (send_result ty ()) c (mp_send ops (pack ty msg None) c)"

definition local_try_send ::
  "('ch, 'ty, 'm, 'r) mailbox_ops \<Rightarrow> 'ty \<Rightarrow> 'r \<Rightarrow> 'm \<Rightarrow> 'ch \<Rightarrow> ('r, 'm) sent \<times> 'ch" where
  "local_try_send ops ty rx msg c =
     (case mp_try_send ops (pack ty msg (Some rx)) c of (r, c') \<Rightarrow> (try_send_result ty rx r, c'))"

definition local_try_do_send ::
  "('ch, 'ty, 'm, 'r) mailbox_ops \<Rightarrow> 'ty \<Rightarrow> 'm \<Rightarrow> 'ch \<Rightarrow> (unit, 'm) sent \<times> 'ch" where
  "local_try_do_send ops ty msg c =
     (case mp_try_send ops (pack ty msg None) c of (r, c') \<Rightarrow> (try_send_result ty () r, c'))"

definition local_send_timeout ::
  "('ch, 'ty, 'm, 'r) mailbox_ops \<Rightarrow> 'ty \<Rightarrow> bool \<Rightarrow> 'r \<Rightarrow> 'm \<Rightarrow> 'ch \<Rightarrow> ('r, 'm) sent option \<times> 'ch" where
  "local_send_timeout ops ty elapsed rx msg c =
     polled (timeout_send_result ty rx) c (mp_send_timeout ops elapsed (pack ty msg (Some rx)) c)"

definition local_do_send_timeout ::
  "('ch, 'ty, 'm, 'r) mailbox_ops \<Rightarrow> 'ty \<Rightarrow> bool \<Rightarrow> 'm \<Rightarrow> 'ch \<Rightarrow> (unit, 'm) sent option \<times> 'ch" where
  "local_do_send_timeout ops ty elapsed msg c =
     polled (timeout_send_result ty ()) c (mp_send_timeout ops elapsed (pack ty msg None) c)"

definition local_blocking_send ::
  "('ch, 'ty, 'm, 'r) mailbox_ops \<Rightarrow> 'ty \<Rightarrow> bool \<Rightarrow> 'r \<Rightarrow> 'm \<Rightarrow> 'ch \<Rightarrow> ('r, 'm) sent option \<times> 'ch" where
  "local_blocking_send ops ty in_async rx msg c =
     polled (blocking_send_result ty rx) c (mp_blocking_send ops in_async (pack ty msg (Some rx)) c)"

definition local_blocking_do_send ::
  "('ch, 'ty, 'm, 'r) mailbox_ops \<Rightarrow> 'ty \<Rightarrow> bool \<Rightarrow> 'm \<Rightarrow> 'ch \<Rightarrow> (unit, 'm) sent option \<times> 'ch" where
  "local_blocking_do_send ops ty in_async msg c =
     polled (blocking_send_result ty ()) c (mp_blocking_send ops in_async (pack ty msg None) c)"

definition local_sender :: "('ch, 'ty, 'm, 'r) mailbox_ops \<Rightarrow> 'ty \<Rightarrow> local_address \<Rightarrow> ('ch, 'm, 'r) sender_ops" where
  "local_sender ops ty a =
     \<lparr>sd_index = local_index a, sd_is_closed = mp_tx_closed ops, sd_capacity = mp_capacity ops,
      sd_send = local_send ops ty, sd_do_send = local_do_send ops ty,
      sd_try_send = local_try_send ops ty, sd_try_do_send = local_try_do_send ops ty,
      sd_send_timeout = local_send_timeout ops ty, sd_do_send_timeout = local_do_send_timeout ops ty,
      sd_blocking_send = local_blocking_send ops ty, sd_blocking_do_send = local_blocking_do_send ops ty\<rparr>"

section \<open>Permits\<close>

definition local_reserve :: "('ch, 'x) mpsc_ops \<Rightarrow> 'ch \<Rightarrow> (unit, unit send_error) result option \<times> 'ch" where
  "local_reserve ops c = polled (map_err send_error_from_mpsc) c (mp_reserve ops c)"

definition local_try_reserve :: "('ch, 'x) mpsc_ops \<Rightarrow> 'ch \<Rightarrow> (unit, unit send_error) result \<times> 'ch" where
  "local_try_reserve ops c = (case mp_try_reserve ops c of (r, c') \<Rightarrow> (map_err send_error_from_try r, c'))"

text \<open>The owned variants work on a clone of the sender, which the permit keeps and a failure drops.\<close>

definition local_reserve_owned :: "('ch, 'x) mpsc_ops \<Rightarrow> 'ch \<Rightarrow> (unit, unit send_error) result option \<times> 'ch" where
  "local_reserve_owned ops c =
     (case mp_reserve ops (mp_clone_tx ops c) of
        None \<Rightarrow> (None, c)
      | Some (Ok _, c') \<Rightarrow> (Some (Ok ()), c')
      | Some (Err e, c') \<Rightarrow> (Some (Err (send_error_from_mpsc e)), mp_drop_tx ops c'))"

definition local_try_reserve_owned :: "('ch, 'x) mpsc_ops \<Rightarrow> 'ch \<Rightarrow> (unit, unit send_error) result \<times> 'ch" where
  "local_try_reserve_owned ops c =
     (case mp_try_reserve ops (mp_clone_tx ops c) of
        (Ok _, c') \<Rightarrow> (Ok (), c')
      | (Err (TrySendClosed _), c') \<Rightarrow> (Err (SendClosed ()), mp_drop_tx ops c')
      | (Err (TrySendFull _), c') \<Rightarrow> (Err (SendFull ()), mp_drop_tx ops c'))"

definition permit_send :: "('ch, 'ty, 'm, 'r) mailbox_ops \<Rightarrow> 'ty \<Rightarrow> 'r \<Rightarrow> 'm \<Rightarrow> 'ch \<Rightarrow> 'r \<times> 'ch" where
  "permit_send ops ty rx msg c = (rx, mp_permit_send ops (pack ty msg (Some rx)) c)"

definition permit_do_send :: "('ch, 'ty, 'm, 'r) mailbox_ops \<Rightarrow> 'ty \<Rightarrow> 'm \<Rightarrow> 'ch \<Rightarrow> 'ch" where
  "permit_do_send ops ty msg c = mp_permit_send ops (pack ty msg None) c"

definition owned_permit_send :: "('ch, 'ty, 'm, 'r) mailbox_ops \<Rightarrow> 'ty \<Rightarrow> 'r \<Rightarrow> 'm \<Rightarrow> 'ch \<Rightarrow> 'r \<times> 'ch" where
  "owned_permit_send ops ty rx msg c = (rx, mp_drop_tx ops (mp_permit_send ops (pack ty msg (Some rx)) c))"

definition owned_permit_do_send :: "('ch, 'ty, 'm, 'r) mailbox_ops \<Rightarrow> 'ty \<Rightarrow> 'm \<Rightarrow> 'ch \<Rightarrow> 'ch" where
  "owned_permit_do_send ops ty msg c = mp_drop_tx ops (mp_permit_send ops (pack ty msg None) c)"

section \<open>Recipients backed by a channel\<close>

text \<open>\<open>SenderProxy\<close> and \<open>RemoteAddressableProxy\<close> put the bare message into their channel and refuse the
  variants with a response.\<close>

definition refuse :: "string \<Rightarrow> 'm \<Rightarrow> ('r, 'm) sent" where
  "refuse op msg = Ret (Err (SendOther
     (box_str (''Recipient created with Recipient::create does not support '' @ op)) msg))"

definition proxy_blocking :: "(unit, 'm) result outcome \<Rightarrow> (unit, 'm) sent" where
  "proxy_blocking out = map_outcome (map_err send_error_from_mpsc) out"

definition sender_proxy :: "('ch, 'm) mpsc_ops \<Rightarrow> u64 \<Rightarrow> ('ch, 'm, 'r) sender_ops" where
  "sender_proxy ops index =
     \<lparr>sd_index = actor_id_new index, sd_is_closed = mp_tx_closed ops, sd_capacity = mp_capacity ops,
      sd_send = (\<lambda>rx msg c. (Some (refuse ''send'' msg), c)),
      sd_do_send = (\<lambda>msg c. polled (\<lambda>r. Ret (map_err send_error_from_mpsc r)) c (mp_send ops msg c)),
      sd_try_send = (\<lambda>rx msg c. (refuse ''try_send'' msg, c)),
      sd_try_do_send = (\<lambda>msg c. case mp_try_send ops msg c of
         (r, c') \<Rightarrow> (Ret (map_err send_error_from_try r), c')),
      sd_send_timeout = (\<lambda>elapsed rx msg c. (Some (refuse ''send_timeout'' msg), c)),
      sd_do_send_timeout = (\<lambda>elapsed msg c.
         polled (\<lambda>r. Ret (map_err send_error_from_timeout r)) c (mp_send_timeout ops elapsed msg c)),
      sd_blocking_send = (\<lambda>in_async rx msg c. (Some (refuse ''blocking_send'' msg), c)),
      sd_blocking_do_send = (\<lambda>in_async msg c. polled proxy_blocking c (mp_blocking_send ops in_async msg c))\<rparr>"

text \<open>\<open>RemoteAddressableProxy\<close> differs from \<open>SenderProxy\<close> only in its bounds and in \<open>remote_mailbox\<close>.\<close>

definition remote_addressable_proxy :: "('ch, 'm) mpsc_ops \<Rightarrow> u64 \<Rightarrow> ('ch, 'm, 'r) sender_ops" where
  "remote_addressable_proxy ops index = sender_proxy ops index"

text \<open>A recipient passes every call to the sender it holds.\<close>

definition recipient_of :: "('w, 'm, 'r) sender_ops \<Rightarrow> ('w, 'm, 'r) sender_ops" where
  "recipient_of tx =
     \<lparr>sd_index = sd_index tx, sd_is_closed = (\<lambda>w. sd_is_closed tx w), sd_capacity = (\<lambda>w. sd_capacity tx w),
      sd_send = (\<lambda>rx msg w. sd_send tx rx msg w), sd_do_send = (\<lambda>msg w. sd_do_send tx msg w),
      sd_try_send = (\<lambda>rx msg w. sd_try_send tx rx msg w), sd_try_do_send = (\<lambda>msg w. sd_try_do_send tx msg w),
      sd_send_timeout = (\<lambda>b rx msg w. sd_send_timeout tx b rx msg w),
      sd_do_send_timeout = (\<lambda>b msg w. sd_do_send_timeout tx b msg w),
      sd_blocking_send = (\<lambda>b rx msg w. sd_blocking_send tx b rx msg w),
      sd_blocking_do_send = (\<lambda>b msg w. sd_blocking_do_send tx b msg w)\<rparr>"

text \<open>Recipients and addresses are compared and hashed by their index.\<close>

definition recipient_eq :: "('w, 'm, 'r) sender_ops \<Rightarrow> ('v, 'n, 's) sender_ops \<Rightarrow> bool" where
  "recipient_eq a b \<longleftrightarrow> sd_index a = sd_index b"

definition recipient_hash :: "(actor_id \<Rightarrow> 'h \<Rightarrow> 'h) \<Rightarrow> ('w, 'm, 'r) sender_ops \<Rightarrow> 'h \<Rightarrow> 'h" where
  "recipient_hash hash_id a state = hash_id (sd_index a) state"

definition recipient_create ::
  "('ch, 'm) mpsc_ops \<Rightarrow> nat \<Rightarrow> u64 \<Rightarrow> (('ch, 'm, 'r) sender_ops \<times> 'ch) outcome \<times> u64" where
  "recipient_create ops capacity counter =
     (case channel ops capacity of
        Panic p \<Rightarrow> (Panic p, counter)
      | Ret c \<Rightarrow> (case next_actor_id counter of (i, counter') \<Rightarrow> (Ret (recipient_of (sender_proxy ops i), c), counter')))"

definition recipient_create_remote ::
  "('ch, 'm) mpsc_ops \<Rightarrow> nat \<Rightarrow> u64 \<Rightarrow> (('ch, 'm, 'r) sender_ops \<times> 'ch) outcome \<times> u64" where
  "recipient_create_remote ops capacity counter =
     (case channel ops capacity of
        Panic p \<Rightarrow> (Panic p, counter)
      | Ret c \<Rightarrow> (case next_actor_id counter of (i, counter') \<Rightarrow>
          (Ret (recipient_of (remote_addressable_proxy ops i), c), counter')))"

section \<open>The contract of a sender\<close>

fun send_error_msg :: "'m send_error \<Rightarrow> 'm" where
  "send_error_msg (SendClosed m) = m"
| "send_error_msg (SendFull m) = m"
| "send_error_msg (SendTimeout m) = m"
| "send_error_msg (SendNoEncodeFn m) = m"
| "send_error_msg (SendOther _ m) = m"

text \<open>The outcome of one call: \<open>log\<close> is what the receiving side has been given. A message is accepted
  once, as an element that carries it, or it is handed back and nothing changes.\<close>

fun settled ::
  "('w \<Rightarrow> 'x list) \<Rightarrow> ('x \<Rightarrow> bool) \<Rightarrow> 'r \<Rightarrow> 'm \<Rightarrow> 'w \<Rightarrow> ('r, 'm) sent option \<times> 'w \<Rightarrow> bool" where
  "settled log carries r msg w (None, w') \<longleftrightarrow> log w' = log w"
| "settled log carries r msg w (Some (Panic p), w') \<longleftrightarrow> False"
| "settled log carries r msg w (Some (Ret (Ok r')), w') \<longleftrightarrow> r' = r \<and> (\<exists>x. carries x \<and> log w' = log w @ [x])"
| "settled log carries r msg w (Some (Ret (Err e)), w') \<longleftrightarrow> send_error_msg e = msg \<and> log w' = log w"

fun returned :: "('r, 'm) sent option \<times> 'w \<Rightarrow> bool" where
  "returned (p, w) \<longleftrightarrow> p \<noteq> None"

definition now :: "'a \<times> 'w \<Rightarrow> 'a option \<times> 'w" where
  "now p = (Some (fst p), snd p)"

text \<open>Sending with a timeout comes back when the timer has fired; blocking outside the runtime behaves
  like sending, inside the runtime nothing is accepted.\<close>

locale sender =
  fixes s :: "('w, 'm, 'r) sender_ops"
    and log :: "'w \<Rightarrow> 'x list"
    and carries :: "'m \<Rightarrow> 'r option \<Rightarrow> 'x \<Rightarrow> bool"
  assumes send: "settled log (carries msg (Some rx)) rx msg w (sd_send s rx msg w)"
    and do_send: "settled log (carries msg None) () msg w (sd_do_send s msg w)"
    and try_send: "settled log (carries msg (Some rx)) rx msg w (now (sd_try_send s rx msg w))"
    and try_do_send: "settled log (carries msg None) () msg w (now (sd_try_do_send s msg w))"
    and send_timeout: "settled log (carries msg (Some rx)) rx msg w (sd_send_timeout s elapsed rx msg w)"
    and do_send_timeout: "settled log (carries msg None) () msg w (sd_do_send_timeout s elapsed msg w)"
    and timeout_returns: "returned (sd_send_timeout s True rx msg w)" "returned (sd_do_send_timeout s True msg w)"
    and blocking_send: "settled log (carries msg (Some rx)) rx msg w (sd_blocking_send s False rx msg w)"
    and blocking_do_send: "settled log (carries msg None) () msg w (sd_blocking_do_send s False msg w)"
    and blocking_in_async: "log (snd (sd_blocking_send s True rx msg w)) = log w"
      "log (snd (sd_blocking_do_send s True msg w)) = log w"

section \<open>Simulation\<close>

lemma polled_view:
  "map_option (map_prod id view) p = q \<Longrightarrow> map_prod id view (polled f c p) = polled f (view c) q"
  by (cases p) (auto simp: polled_def split: prod.split)

lemma settled_view: "settled (\<lambda>c. log (view c)) carries r msg c p = settled log carries r msg (view c) (map_prod id view p)"
  by (cases "(log, carries, r, msg, view c, map_prod id view p)" rule: settled.cases; cases p) auto

lemma settled_polled:
  assumes "map_option (map_prod id view) p = q" and "settled log carries r msg (view c) (polled f (view c) q)"
  shows "settled (\<lambda>c. log (view c)) carries r msg c (polled f c p)"
  using assms by (simp add: settled_view polled_view)

lemma settled_now:
  assumes "map_prod id view p = q" and "settled log carries r msg (view c) (now (map_prod f id q))"
  shows "settled (\<lambda>c. log (view c)) carries r msg c (now (map_prod f id p))"
  using assms by (cases p) (auto simp: settled_view now_def)

lemma now_case: "now (case p of (r, c) \<Rightarrow> (f r, c)) = now (map_prod f id p)"
  by (cases p) (simp add: now_def)

lemmas result_defs = send_result_def try_send_result_def timeout_send_result_def blocking_send_result_def
  polled_def pack_def unpack_def proxy_blocking_def

lemma returned_polled: "returned (polled f w p) \<longleftrightarrow> p \<noteq> None"
  by (auto simp: polled_def split: option.split)

lemma snd_polled_view:
  "map_option (map_prod id view) p = q \<Longrightarrow> view (snd (polled f c p)) = snd (polled f (view c) q)"
  using polled_view [of view p q f c] unfolding map_prod_id_eq by simp

context mpsc
begin

lemma timeout_fires: "mp_send_timeout ops True x c \<noteq> None"
  using send_timeout_view [of True x c] by (auto simp: tokio_mpsc_def split: option.splits)

lemma blocking_in_async_queue:
  "ch_queue (view (snd (polled f c (mp_blocking_send ops True x c)))) = ch_queue (view c)"
  using snd_polled_view [OF blocking_send_view [of True x c], of f] by (simp add: tokio_mpsc_def polled_def)

lemma sender_proxy_contract:
  "sender (sender_proxy ops index :: ('ch, 'x, 'r) sender_ops) (\<lambda>c. ch_queue (view c)) (\<lambda>m ro x. ro = None \<and> x = m)"
proof
  fix msg :: 'x and c :: 'ch and rx :: 'r and elapsed :: bool
  let ?s = "sender_proxy ops index :: ('ch, 'x, 'r) sender_ops"
  show "settled (\<lambda>c. ch_queue (view c)) (\<lambda>x. None = None \<and> x = msg) () msg c (sd_do_send ?s msg c)"
    by (simp add: sender_proxy_def, rule settled_polled [OF send_view])
      (simp add: tokio_mpsc_def ch_send_def ch_push_def polled_def send_error_from_mpsc_def)
  show "settled (\<lambda>c. ch_queue (view c)) (\<lambda>x. None = None \<and> x = msg) () msg c (sd_do_send_timeout ?s elapsed msg c)"
    by (simp add: sender_proxy_def, rule settled_polled [OF send_timeout_view])
      (simp add: tokio_mpsc_def ch_send_def ch_push_def polled_def)
  show "settled (\<lambda>c. ch_queue (view c)) (\<lambda>x. None = None \<and> x = msg) () msg c (now (sd_try_do_send ?s msg c))"
    by (simp add: sender_proxy_def now_case, rule settled_now [OF try_send_view])
      (simp add: tokio_mpsc_def ch_push_def now_def)
  show "settled (\<lambda>c. ch_queue (view c)) (\<lambda>x. None = None \<and> x = msg) () msg c (sd_blocking_do_send ?s False msg c)"
    by (simp add: sender_proxy_def, rule settled_polled [OF blocking_send_view])
      (simp add: tokio_mpsc_def ch_send_def ch_push_def polled_def proxy_blocking_def send_error_from_mpsc_def)
qed (simp_all add: sender_proxy_def refuse_def now_def returned_polled timeout_fires blocking_in_async_queue)

end

lemma recipient_of_contract: "sender tx log carries \<Longrightarrow> sender (recipient_of tx) log carries"
  by (cases tx) (simp add: recipient_of_def)

lemma recipient_hash_eq: "recipient_eq a b \<Longrightarrow> recipient_hash hash_id a = recipient_hash hash_id b"
  by (simp add: recipient_eq_def recipient_hash_def fun_eq_iff)

lemma local_sender_contract:
  assumes "mpsc ops view"
  shows "sender (local_sender ops ty a :: ('ch, 'm, 'r) sender_ops) (\<lambda>c. ch_queue (view c)) (\<lambda>m ro x. x = pack ty m ro)"
proof
  fix msg :: 'm and c :: 'ch and rx :: 'r and elapsed :: bool
  let ?s = "local_sender ops ty a :: ('ch, 'm, 'r) sender_ops" and ?q = "\<lambda>c. ch_queue (view c)"
  note tokio = tokio_mpsc_def ch_send_def ch_push_def result_defs
  note views = mpsc.send_view [OF assms] mpsc.try_send_view [OF assms] mpsc.send_timeout_view [OF assms]
    mpsc.blocking_send_view [OF assms]
  show "settled ?q (\<lambda>x. x = pack ty msg (Some rx)) rx msg c (sd_send ?s rx msg c)"
    by (simp add: local_sender_def local_send_def, rule settled_polled [OF views(1)]) (simp add: tokio)
  show "settled ?q (\<lambda>x. x = pack ty msg None) () msg c (sd_do_send ?s msg c)"
    by (simp add: local_sender_def local_do_send_def, rule settled_polled [OF views(1)]) (simp add: tokio)
  show "settled ?q (\<lambda>x. x = pack ty msg (Some rx)) rx msg c (now (sd_try_send ?s rx msg c))"
    by (simp add: local_sender_def local_try_send_def now_case, rule settled_now [OF views(2)]) (simp add: tokio now_def)
  show "settled ?q (\<lambda>x. x = pack ty msg None) () msg c (now (sd_try_do_send ?s msg c))"
    by (simp add: local_sender_def local_try_do_send_def now_case, rule settled_now [OF views(2)]) (simp add: tokio now_def)
  show "settled ?q (\<lambda>x. x = pack ty msg (Some rx)) rx msg c (sd_send_timeout ?s elapsed rx msg c)"
    by (simp add: local_sender_def local_send_timeout_def, rule settled_polled [OF views(3)]) (simp add: tokio)
  show "settled ?q (\<lambda>x. x = pack ty msg None) () msg c (sd_do_send_timeout ?s elapsed msg c)"
    by (simp add: local_sender_def local_do_send_timeout_def, rule settled_polled [OF views(3)]) (simp add: tokio)
  show "settled ?q (\<lambda>x. x = pack ty msg (Some rx)) rx msg c (sd_blocking_send ?s False rx msg c)"
    by (simp add: local_sender_def local_blocking_send_def, rule settled_polled [OF views(4)]) (simp add: tokio)
  show "settled ?q (\<lambda>x. x = pack ty msg None) () msg c (sd_blocking_do_send ?s False msg c)"
    by (simp add: local_sender_def local_blocking_do_send_def, rule settled_polled [OF views(4)]) (simp add: tokio)
qed (simp_all add: local_sender_def local_send_timeout_def local_do_send_timeout_def returned_polled
      mpsc.timeout_fires [OF assms] local_blocking_send_def local_blocking_do_send_def mpsc.blocking_in_async_queue [OF assms])

text \<open>Both kinds of sender on the channel of the runtime.\<close>

interpretation proxy: sender "sender_proxy tokio_mpsc index" ch_queue "\<lambda>m ro x. ro = None \<and> x = m"
  by (rule tokio_mpsc.sender_proxy_contract)

interpretation local: sender "local_sender tokio_mpsc ty a" ch_queue "\<lambda>m ro x. x = pack ty m ro"
  by (rule local_sender_contract [OF tokio_mpsc.mpsc_axioms])

section \<open>Interleavings of senders and the actor\<close>

text \<open>Any number of holders of the address call its operations and use their permits while the actor
  receives from its mailbox or closes it. A permit is used at most once, so a permit step needs a
  permit that is out. The state keeps what was accepted, received and handed back.\<close>

datatype ('m, 'r) mb_step =
  MSend 'r 'm | MDoSend 'm | MTrySend 'r 'm | MTryDoSend 'm
| MSendTimeout bool 'r 'm | MDoSendTimeout bool 'm
| MReserve | MTryReserve | MPermitSend 'r 'm | MPermitDoSend 'm | MPermitDrop
| MRecv | MTryRecv | MClose

record ('ch, 'ty, 'm, 'r) mb_state =
  ms_chan :: 'ch
  ms_permits :: nat
  ms_accepted :: "('ty, 'm, 'r) envelope list"
  ms_received :: "('ty, 'm, 'r) envelope list"
  ms_handed_back :: "'m list"
  ms_submitted :: "'m list"
  ms_panicked :: bool

fun mb_sent ::
  "('ty, 'm, 'r) envelope \<Rightarrow> 'm \<Rightarrow> ('a, 'm) sent option \<times> 'ch \<Rightarrow> ('ch, 'ty, 'm, 'r) mb_state \<Rightarrow> ('ch, 'ty, 'm, 'r) mb_state" where
  "mb_sent env msg (None, c) st = st\<lparr>ms_chan := c\<rparr>"
| "mb_sent env msg (Some (Panic p), c) st = st\<lparr>ms_chan := c, ms_panicked := True\<rparr>"
| "mb_sent env msg (Some (Ret (Ok _)), c) st =
     st\<lparr>ms_chan := c, ms_accepted := ms_accepted st @ [env], ms_submitted := ms_submitted st @ [msg]\<rparr>"
| "mb_sent env msg (Some (Ret (Err e)), c) st =
     st\<lparr>ms_chan := c, ms_handed_back := ms_handed_back st @ [send_error_msg e],
       ms_submitted := ms_submitted st @ [msg]\<rparr>"

definition mb_permit :: "(unit, unit send_error) result option \<times> 'ch \<Rightarrow> ('ch, 'ty, 'm, 'r) mb_state \<Rightarrow>
  ('ch, 'ty, 'm, 'r) mb_state" where
  "mb_permit p st = st\<lparr>ms_chan := snd p,
     ms_permits := (if fst p = Some (Ok ()) then Suc (ms_permits st) else ms_permits st)\<rparr>"

definition mb_got :: "(('ty, 'm, 'r) envelope, recv_error) result \<times> 'ch \<Rightarrow> ('ch, 'ty, 'm, 'r) mb_state \<Rightarrow>
  ('ch, 'ty, 'm, 'r) mb_state" where
  "mb_got p st = st\<lparr>ms_chan := snd p,
     ms_received := ms_received st @ (case fst p of Ok env \<Rightarrow> [env] | Err _ \<Rightarrow> [])\<rparr>"

definition mb_used :: "('ty, 'm, 'r) envelope \<Rightarrow> 'm \<Rightarrow> 'ch \<Rightarrow> ('ch, 'ty, 'm, 'r) mb_state \<Rightarrow> ('ch, 'ty, 'm, 'r) mb_state" where
  "mb_used env msg c st = st\<lparr>ms_chan := c, ms_permits := ms_permits st - 1,
     ms_accepted := ms_accepted st @ [env], ms_submitted := ms_submitted st @ [msg]\<rparr>"

fun mb_exec ::
  "('ch, 'ty, 'm, 'r) mailbox_ops \<Rightarrow> 'ty \<Rightarrow> ('m, 'r) mb_step \<Rightarrow> ('ch, 'ty, 'm, 'r) mb_state \<Rightarrow> ('ch, 'ty, 'm, 'r) mb_state" where
  "mb_exec ops ty (MSend rx m) st = mb_sent (pack ty m (Some rx)) m (local_send ops ty rx m (ms_chan st)) st"
| "mb_exec ops ty (MDoSend m) st = mb_sent (pack ty m None) m (local_do_send ops ty m (ms_chan st)) st"
| "mb_exec ops ty (MTrySend rx m) st = mb_sent (pack ty m (Some rx)) m (now (local_try_send ops ty rx m (ms_chan st))) st"
| "mb_exec ops ty (MTryDoSend m) st = mb_sent (pack ty m None) m (now (local_try_do_send ops ty m (ms_chan st))) st"
| "mb_exec ops ty (MSendTimeout b rx m) st =
     mb_sent (pack ty m (Some rx)) m (local_send_timeout ops ty b rx m (ms_chan st)) st"
| "mb_exec ops ty (MDoSendTimeout b m) st = mb_sent (pack ty m None) m (local_do_send_timeout ops ty b m (ms_chan st)) st"
| "mb_exec ops ty MReserve st = mb_permit (local_reserve ops (ms_chan st)) st"
| "mb_exec ops ty MTryReserve st = mb_permit (now (local_try_reserve ops (ms_chan st))) st"
| "mb_exec ops ty (MPermitSend rx m) st =
     (if ms_permits st = 0 then st
      else mb_used (pack ty m (Some rx)) m (snd (permit_send ops ty rx m (ms_chan st))) st)"
| "mb_exec ops ty (MPermitDoSend m) st =
     (if ms_permits st = 0 then st else mb_used (pack ty m None) m (permit_do_send ops ty m (ms_chan st)) st)"
| "mb_exec ops ty MPermitDrop st =
     (if ms_permits st = 0 then st
      else st\<lparr>ms_chan := mp_permit_drop ops (ms_chan st), ms_permits := ms_permits st - 1\<rparr>)"
| "mb_exec ops ty MRecv st = (case rx_recv ops (ms_chan st) of None \<Rightarrow> st | Some p \<Rightarrow> mb_got p st)"
| "mb_exec ops ty MTryRecv st = mb_got (rx_try_recv ops (ms_chan st)) st"
| "mb_exec ops ty MClose st = st\<lparr>ms_chan := mp_close ops (ms_chan st)\<rparr>"

definition mb_run ::
  "('ch, 'ty, 'm, 'r) mailbox_ops \<Rightarrow> 'ty \<Rightarrow> ('m, 'r) mb_step list \<Rightarrow> 'ch \<Rightarrow> ('ch, 'ty, 'm, 'r) mb_state" where
  "mb_run ops ty steps c = fold (mb_exec ops ty) steps
     \<lparr>ms_chan = c, ms_permits = 0, ms_accepted = [], ms_received = [], ms_handed_back = [],
      ms_submitted = [], ms_panicked = False\<rparr>"

definition env_msg :: "('ty, 'm, 'r) envelope \<Rightarrow> 'm option" where
  "env_msg env = (case env of DefaultEnvelope _ m _ \<Rightarrow> m | TimedEnvelope _ m _ _ \<Rightarrow> m)"

definition mb_inv :: "nat \<Rightarrow> (('ty, 'm, 'r) envelope chan, 'ty, 'm, 'r) mb_state \<Rightarrow> bool" where
  "mb_inv n st \<longleftrightarrow>
     (let c = ms_chan st
      in ch_max c = n \<and> ch_reserved c = ms_permits st \<and> length (ch_queue c) + ch_reserved c \<le> n \<and>
         ms_received st @ ch_queue c = ms_accepted st \<and> \<not> ms_panicked st \<and>
         mset (map Some (ms_submitted st)) =
           mset (map env_msg (ms_accepted st)) + mset (map Some (ms_handed_back st)))"

definition mb_map :: "('ch \<Rightarrow> 'd) \<Rightarrow> ('ch, 'ty, 'm, 'r) mb_state \<Rightarrow> ('d, 'ty, 'm, 'r) mb_state" where
  "mb_map f st = \<lparr>ms_chan = f (ms_chan st), ms_permits = ms_permits st, ms_accepted = ms_accepted st,
     ms_received = ms_received st, ms_handed_back = ms_handed_back st, ms_submitted = ms_submitted st,
     ms_panicked = ms_panicked st\<rparr>"

lemma mb_map_sel [simp]:
  "ms_chan (mb_map f st) = f (ms_chan st)" "ms_permits (mb_map f st) = ms_permits st"
  "ms_accepted (mb_map f st) = ms_accepted st" "ms_received (mb_map f st) = ms_received st"
  "ms_handed_back (mb_map f st) = ms_handed_back st" "ms_submitted (mb_map f st) = ms_submitted st"
  "ms_panicked (mb_map f st) = ms_panicked st"
  by (simp_all add: mb_map_def)

lemma mb_map_sent: "mb_map f (mb_sent env m p st) = mb_sent env m (map_prod id f p) (mb_map f st)"
  by (cases "(env, m, p, st)" rule: mb_sent.cases) (simp_all add: mb_map_def)

lemma mb_map_permit: "mb_map f (mb_permit p st) = mb_permit (map_prod id f p) (mb_map f st)"
  by (simp add: mb_permit_def mb_map_def)

lemma mb_map_got: "mb_map f (mb_got p st) = mb_got (map_prod id f p) (mb_map f st)"
  by (simp add: mb_got_def mb_map_def)

lemma mb_map_used: "mb_map f (mb_used env m c st) = mb_used env m (f c) (mb_map f st)"
  by (simp add: mb_used_def mb_map_def)

lemma map_prod_now: "map_prod id f (now p) = now (map_prod id f p)"
  by (simp add: now_def)

lemma local_views:
  assumes "mpsc ops view"
  shows "map_prod id view (local_send ops ty rx m c) = local_send tokio_mpsc ty rx m (view c)"
    and "map_prod id view (local_do_send ops ty m c) = local_do_send tokio_mpsc ty m (view c)"
    and "map_prod id view (local_send_timeout ops ty b rx m c) = local_send_timeout tokio_mpsc ty b rx m (view c)"
    and "map_prod id view (local_do_send_timeout ops ty b m c) = local_do_send_timeout tokio_mpsc ty b m (view c)"
    and "map_prod id view (local_try_send ops ty rx m c) = local_try_send tokio_mpsc ty rx m (view c)"
    and "map_prod id view (local_try_do_send ops ty m c) = local_try_do_send tokio_mpsc ty m (view c)"
    and "map_prod id view (local_reserve ops c) = local_reserve tokio_mpsc (view c)"
    and "map_prod id view (local_try_reserve ops c) = local_try_reserve tokio_mpsc (view c)"
    and "map_prod id view (rx_try_recv ops c) = rx_try_recv tokio_mpsc (view c)"
    and "map_option (map_prod id view) (rx_recv ops c) = rx_recv tokio_mpsc (view c)"
proof -
  note v = mpsc.send_view [OF assms] mpsc.send_timeout_view [OF assms] mpsc.reserve_view [OF assms]
  show "map_prod id view (local_send ops ty rx m c) = local_send tokio_mpsc ty rx m (view c)"
    and "map_prod id view (local_do_send ops ty m c) = local_do_send tokio_mpsc ty m (view c)"
    and "map_prod id view (local_send_timeout ops ty b rx m c) = local_send_timeout tokio_mpsc ty b rx m (view c)"
    and "map_prod id view (local_do_send_timeout ops ty b m c) = local_do_send_timeout tokio_mpsc ty b m (view c)"
    and "map_prod id view (local_reserve ops c) = local_reserve tokio_mpsc (view c)"
    unfolding local_send_def local_do_send_def local_send_timeout_def local_do_send_timeout_def local_reserve_def
    by (rule polled_view, rule v)+
  show "map_prod id view (local_try_send ops ty rx m c) = local_try_send tokio_mpsc ty rx m (view c)"
    using mpsc.try_send_view [OF assms, of "pack ty m (Some rx)" c]
    by (auto simp: local_try_send_def split_beta map_prod_id_eq)
  show "map_prod id view (local_try_do_send ops ty m c) = local_try_do_send tokio_mpsc ty m (view c)"
    using mpsc.try_send_view [OF assms, of "pack ty m None" c]
    by (auto simp: local_try_do_send_def split_beta map_prod_id_eq)
  show "map_prod id view (local_try_reserve ops c) = local_try_reserve tokio_mpsc (view c)"
    using mpsc.try_reserve_view [OF assms, of c] by (auto simp: local_try_reserve_def split_beta map_prod_id_eq)
  show "map_prod id view (rx_try_recv ops c) = rx_try_recv tokio_mpsc (view c)"
    using mpsc.try_recv_view [OF assms, of c] by (auto simp: rx_try_recv_def split_beta map_prod_id_eq)
  show "map_option (map_prod id view) (rx_recv ops c) = rx_recv tokio_mpsc (view c)"
    by (simp add: rx_recv_def mpsc.recv_view [OF assms, symmetric] option.map_comp o_def split_beta id_def)
qed

lemma mb_exec_view:
  assumes "mpsc ops view"
  shows "mb_map view (mb_exec ops ty step st) = mb_exec tokio_mpsc ty step (mb_map view st)"
proof (cases step)
  case MRecv
  then show ?thesis
    using local_views(10) [OF assms, of "ms_chan st"]
    by (auto simp: mb_map_got split: option.splits)
qed (simp_all add: mb_map_sent mb_map_permit mb_map_got mb_map_used map_prod_now local_views [OF assms] permit_send_def
      permit_do_send_def mpsc.permit_view [OF assms] mpsc.close_view [OF assms])

lemma mb_sent_inv:
  assumes "mb_inv n st" and "env_msg env = Some m"
    and "settled ch_queue (\<lambda>x. x = env) r m (ms_chan st) p"
    and "ch_max (snd p) = n" and "ch_reserved (snd p) = ms_permits st" and "length (ch_queue (snd p)) + ch_reserved (snd p) \<le> n"
  shows "mb_inv n (mb_sent env m p st)"
  using assms by (cases "(env, m, p, st)" rule: mb_sent.cases) (auto simp: mb_inv_def Let_def)

text \<open>What an operation of the address keeps of the documented channel.\<close>

definition ch_kept :: "'x chan \<Rightarrow> 'x chan \<Rightarrow> bool" where
  "ch_kept c c' \<longleftrightarrow> ch_max c' = ch_max c \<and> ch_reserved c' = ch_reserved c \<and>
     (length (ch_queue c) + ch_reserved c \<le> ch_max c \<longrightarrow> length (ch_queue c') + ch_reserved c' \<le> ch_max c')"

lemma local_kept:
  "ch_kept c (snd (local_send tokio_mpsc ty rx m c))" "ch_kept c (snd (local_do_send tokio_mpsc ty m c))"
  "ch_kept c (snd (now (local_try_send tokio_mpsc ty rx m c)))" "ch_kept c (snd (now (local_try_do_send tokio_mpsc ty m c)))"
  "ch_kept c (snd (local_send_timeout tokio_mpsc ty b rx m c))" "ch_kept c (snd (local_do_send_timeout tokio_mpsc ty b m c))"
  unfolding local_send_def local_do_send_def local_try_send_def local_try_do_send_def local_send_timeout_def
    local_do_send_timeout_def
  by (auto simp: ch_kept_def tokio_mpsc_def ch_send_def ch_push_def ch_free_def polled_def now_def)

lemma mb_sent_kept:
  assumes "mb_inv n st" and "env_msg env = Some m" and "settled ch_queue (\<lambda>x. x = env) r m (ms_chan st) p"
    and "ch_kept (ms_chan st) (snd p)"
  shows "mb_inv n (mb_sent env m p st)"
  using assms by (intro mb_sent_inv) (auto simp: ch_kept_def mb_inv_def Let_def)

lemma env_msg_pack [simp]: "env_msg (pack ty m tx) = Some m"
  by (simp add: env_msg_def pack_def)

lemma mb_reserve_inv:
  "mb_inv n st \<Longrightarrow> mb_inv n (mb_permit (local_reserve tokio_mpsc (ms_chan st)) st)"
  "mb_inv n st \<Longrightarrow> mb_inv n (mb_permit (now (local_try_reserve tokio_mpsc (ms_chan st))) st)"
  by (auto simp: mb_inv_def Let_def mb_permit_def local_reserve_def local_try_reserve_def tokio_mpsc_def
      polled_def now_def ch_free_def split: if_splits)

lemma mb_used_inv:
  "mb_inv n st \<Longrightarrow> 0 < ms_permits st \<Longrightarrow> env_msg env = Some m \<Longrightarrow>
   mb_inv n (mb_used env m (mp_permit_send tokio_mpsc env (ms_chan st)) st)"
  by (auto simp: mb_inv_def Let_def mb_used_def tokio_mpsc_def ch_push_def)

lemma mb_got_inv: "mb_inv n st \<Longrightarrow> mb_inv n (mb_got (rx_try_recv tokio_mpsc (ms_chan st)) st)"
  by (auto simp: mb_inv_def Let_def mb_got_def rx_try_recv_def tokio_mpsc_def split: list.split)

lemma mb_recv_inv:
  assumes "mb_inv n st" and "rx_recv tokio_mpsc (ms_chan st) = Some p"
  shows "mb_inv n (mb_got p st)"
  using assms by (auto simp: mb_inv_def Let_def mb_got_def rx_recv_def tokio_mpsc_def ch_recv_def split: list.splits if_splits)

lemma mb_exec_inv:
  assumes "mb_inv n st"
  shows "mb_inv n (mb_exec tokio_mpsc ty step st)"
proof -
  note laws = local.send local.do_send local.try_send local.try_do_send local.send_timeout local.do_send_timeout
  note laws = laws [where a = "\<lparr>la_index = 0\<rparr>", unfolded local_sender_def sender_ops.select_convs]
  note sent = mb_sent_kept [OF assms env_msg_pack]
  show ?thesis
  proof (cases step)
    case (MSend rx m)
    then show ?thesis using sent [OF laws(1) local_kept(1)] by simp
  next
    case (MTrySend rx m)
    then show ?thesis using sent [OF laws(3) local_kept(3)] by simp
  next
    case (MSendTimeout b rx m)
    then show ?thesis using sent [OF laws(5) local_kept(5)] by simp
  next
    case MRecv
    then show ?thesis using assms mb_recv_inv by (auto split: option.split)
  next
    case MPermitDrop
    then show ?thesis using assms by (auto simp: mb_inv_def Let_def tokio_mpsc_def)
  next
    case MClose
    then show ?thesis using assms by (auto simp: mb_inv_def Let_def tokio_mpsc_def)
  qed (use assms in \<open>simp_all add: sent laws local_kept mb_reserve_inv mb_used_inv mb_got_inv permit_send_def permit_do_send_def\<close>)
qed

lemma mb_run_inv:
  assumes "mpsc ops view" and "ch_queue (view c) = []" and "ch_reserved (view c) = 0" and "ch_max (view c) = n"
  shows "mb_inv n (mb_map view (mb_run ops ty steps c))"
proof -
  have "mb_inv n (mb_map view (fold (mb_exec ops ty) steps st))" if "mb_inv n (mb_map view st)" for st
    using that by (induction steps arbitrary: st) (simp_all add: mb_exec_view [OF assms(1)] mb_exec_inv)
  from this [of "\<lparr>ms_chan = c, ms_permits = 0, ms_accepted = [], ms_received = [], ms_handed_back = [],
      ms_submitted = [], ms_panicked = False\<rparr>"] show ?thesis
    by (simp add: mb_run_def mb_inv_def Let_def assms)
qed

section \<open>Properties\<close>

text \<open>C7. A mailbox is bounded and loses nothing: whatever the holders of an address and the actor do, in
  whatever order, the messages in the mailbox and the permits that are out never exceed the capacity
  it was created with; what the actor has received and what is still queued is, in this order, exactly
  what was accepted; every other message that was submitted was handed back in an error; and no
  operation unwinds.\<close>

theorem mailbox_bounded_lossless:
  assumes "mpsc ops view" and "channel ops n = Ret c"
  shows "case mb_run ops ty steps c of st \<Rightarrow>
    mp_len ops (ms_chan st) + ms_permits st \<le> n \<and>
    ms_received st @ ch_queue (view (ms_chan st)) = ms_accepted st \<and>
    mset (map Some (ms_submitted st)) = mset (map env_msg (ms_accepted st)) + mset (map Some (ms_handed_back st)) \<and>
    \<not> ms_panicked st"
proof -
  have "map_outcome view (channel ops n) = mp_channel tokio_mpsc n"
    by (simp add: channel_def mpsc.channel_view [OF assms(1)])
  then have c: "ch_queue (view c) = []" "ch_reserved (view c) = 0" "ch_max (view c) = n"
    by (auto simp: assms(2) tokio_mpsc_def split: if_splits)
  show ?thesis
    using mb_run_inv [OF assms(1) c, of ty steps] mpsc.observe_view(3) [OF assms(1)]
    by (auto simp: mb_inv_def Let_def tokio_mpsc_def)
qed

theorem mailbox_bounded_lossless_witness:
  "case mb_run tokio_mpsc () [MDoSend (1 :: nat), MTryDoSend 2, MRecv, MTrySend (0 :: nat) 3, MClose, MTryDoSend 4]
     \<lparr>ch_queue = [], ch_reserved = 0, ch_max = 1, ch_closed = False, ch_senders = 1\<rparr> of st \<Rightarrow>
    ms_received st @ ch_queue (ms_chan st) = ms_accepted st \<and> ms_handed_back st = [2, 4]"
proof -
  let ?c = "\<lparr>ch_queue = [], ch_reserved = 0, ch_max = 1, ch_closed = False, ch_senders = 1\<rparr> :: (unit, nat, nat) envelope chan"
  have "channel tokio_mpsc 1 = Ret ?c" by (simp add: channel_def tokio_mpsc_def)
  from mailbox_bounded_lossless [OF tokio_mpsc.mpsc_axioms this]
  show ?thesis
    by (simp add: mb_run_def local_do_send_def local_try_do_send_def local_try_send_def rx_recv_def tokio_mpsc_def
        ch_send_def ch_recv_def ch_push_def ch_free_def polled_def now_def mb_got_def result_defs)
qed

text \<open>C29. Every sender keeps one promise: each of the eight ways to send through the address of an actor,
  through a recipient made from it, or through a recipient made from a channel, either appends exactly one element that carries the
  message, or hands the same message back and changes nothing. A send with a timeout always comes
  back once the timer has fired.\<close>

theorem senders_deliver_or_return:
  assumes "mpsc ops view" and "mpsc ops' view'"
  shows "sender (local_sender ops ty a) (\<lambda>c. ch_queue (view c)) (\<lambda>m ro x. x = pack ty m ro) \<and>
    sender (recipient_of (local_sender ops ty a)) (\<lambda>c. ch_queue (view c)) (\<lambda>m ro x. x = pack ty m ro) \<and>
    sender (recipient_of (sender_proxy ops' index)) (\<lambda>c. ch_queue (view' c)) (\<lambda>m ro x. ro = None \<and> x = m)"
  by (intro conjI recipient_of_contract local_sender_contract [OF assms(1)] mpsc.sender_proxy_contract [OF assms(2)])

theorem senders_deliver_or_return_witness:
  "settled ch_queue (\<lambda>x. x = pack () (5 :: nat) (Some (0 :: nat))) 0 5
     \<lparr>ch_queue = [], ch_reserved = 0, ch_max = 1, ch_closed = False, ch_senders = 1\<rparr>
     (now (local_try_send tokio_mpsc () 0 5 \<lparr>ch_queue = [], ch_reserved = 0, ch_max = 1, ch_closed = False, ch_senders = 1\<rparr>))"
  using senders_deliver_or_return [OF tokio_mpsc.mpsc_axioms tokio_mpsc.mpsc_axioms, THEN conjunct1, THEN sender.try_send]
  by (simp add: local_sender_def)

lemma allocate_ids_eq:
  "allocate_ids n counter = (map (\<lambda>i. counter + word_of_nat i) [0..<n], counter + word_of_nat n)"
proof (induction n arbitrary: counter)
  case (Suc n)
  have "[0..<Suc n] = 0 # map Suc [0..<n]" by (simp add: map_Suc_upt upt_conv_Cons)
  then show ?case by (simp add: Suc next_actor_id_def o_def add.assoc)
qed simp

lemma word_of_nat_inj_64: "i < 2 ^ 64 \<Longrightarrow> j < 2 ^ 64 \<Longrightarrow> (word_of_nat i :: u64) = word_of_nat j \<Longrightarrow> i = j"
  by (drule arg_cong [where f = unat]) (simp add: unat_of_nat)

text \<open>Actor indices do not repeat: fewer than \<open>2^64\<close> allocations, from any value of the counter, give
  distinct indices, and from the start of the process only the very first one is zero, which is what
  makes the index of a session, created after its node, a valid \<open>NonZeroU64\<close>.\<close>

theorem actor_ids_distinct:
  assumes "n \<le> 2 ^ 64"
  shows "distinct (fst (allocate_ids n counter)) \<and> 0 \<notin> set (tl (fst (allocate_ids n 0)))"
proof
  show "distinct (fst (allocate_ids n counter))"
    using assms by (auto simp: allocate_ids_eq distinct_map inj_on_def intro: word_of_nat_inj_64)
  have "tl [0..<n] = [1..<n]" by (cases n) (simp_all add: upt_conv_Cons del: upt_Suc)
  then have "tl (fst (allocate_ids n 0)) = map word_of_nat [1..<n]" by (simp add: allocate_ids_eq map_tl [symmetric])
  moreover have "(word_of_nat i :: u64) \<noteq> 0" if "i \<in> set [1..<n]" for i
    using that assms word_of_nat_inj_64 [of i 0] by auto
  ultimately show "0 \<notin> set (tl (fst (allocate_ids n 0)))" by fastforce
qed

theorem actor_ids_distinct_witness: "distinct (fst (allocate_ids 3 0xFFFFFFFFFFFFFFFE))"
  using actor_ids_distinct [of 3 "0xFFFFFFFFFFFFFFFE"] by simp

end
