(* ===== verification/Remote_Address.thy ===== *)
theory Remote_Address
  imports Address Proto
begin

text \<open>
  Addresses of actors in another process (\<open>acktor/src/address/remote.rs\<close>), the address that is one of
  the two kinds (\<open>acktor/src/address.rs\<close>), the remote mailbox of a recipient
  (\<open>acktor/src/address/recipient.rs\<close>), the codec table (\<open>acktor/src/codec/table.rs\<close>) and the proxy of a
  session (\<open>acktor-ipc/src/session/proxy.rs\<close>). A message to a remote actor is encoded by the entry of its
  type in the codec table and handed to the proxy as a \<open>BinaryMessage\<close>; a task decodes the answer. The
  world of a remote address is the state of the encode context, of the proxy and the list of tasks
  that were spawned.
\<close>

section \<open>Codec tables and proxies\<close>

text \<open>Messages and results are dynamically typed here (\<open>dyn Any\<close>).\<close>

record ('m, 'd, 'ec, 'dc) message_codec =
  mc_message_id :: u64
  mc_encode_msg :: "'m \<Rightarrow> 'ec \<Rightarrow> (bytes, encode_error) result \<times> 'ec"
  mc_decode_res :: "'dc \<Rightarrow> buf \<Rightarrow> ('d, decode_error) result"

type_synonym ('ty, 'm, 'd, 'ec, 'dc) codec_table = "'ty \<Rightarrow> ('m, 'd, 'ec, 'dc) message_codec option"

record ('q, 'b) proxy_ops =
  px_index :: "u64 outcome"
  px_is_closed :: "'q \<Rightarrow> bool"
  px_capacity :: "'q \<Rightarrow> nat"
  px_do_send :: "'b \<Rightarrow> 'q \<Rightarrow> (unit, unit) sent option \<times> 'q"
  px_try_do_send :: "'b \<Rightarrow> 'q \<Rightarrow> (unit, unit) sent \<times> 'q"
  px_do_send_timeout :: "bool \<Rightarrow> 'b \<Rightarrow> 'q \<Rightarrow> (unit, unit) sent option \<times> 'q"
  px_blocking_do_send :: "bool \<Rightarrow> 'b \<Rightarrow> 'q \<Rightarrow> (unit, unit) sent option \<times> 'q"

text \<open>The proxy of a session sends to the session's own address and forgets the message of an error.\<close>

definition drop_msg :: "(unit, 'b) sent \<Rightarrow> (unit, unit) sent" where
  "drop_msg = map_outcome (map_err without_msg)"

definition session_proxy_ops :: "('q, 'b, 'r) sender_ops \<Rightarrow> ('q, 'b) proxy_ops" where
  "session_proxy_ops session =
     \<lparr>px_index = (if as_local (sd_index session) = 0
        then Panic ''session index is always non-zero since it can only be created by a node''
        else Ret (as_local (sd_index session))),
      px_is_closed = sd_is_closed session, px_capacity = sd_capacity session,
      px_do_send = (\<lambda>b q. map_prod (map_option drop_msg) id (sd_do_send session b q)),
      px_try_do_send = (\<lambda>b q. map_prod drop_msg id (sd_try_do_send session b q)),
      px_do_send_timeout = (\<lambda>elapsed b q. map_prod (map_option drop_msg) id (sd_do_send_timeout session elapsed b q)),
      px_blocking_do_send = (\<lambda>in_async b q.
        map_prod (map_option drop_msg) id (sd_blocking_do_send session in_async b q))\<rparr>"

section \<open>Remote addresses\<close>

record ('ty, 'm, 'd, 'ec, 'dc, 'q, 'b) remote_address =
  ra_actor_id :: actor_id
  ra_codec_table :: "('ty, 'm, 'd, 'ec, 'dc) codec_table"
  ra_proxy :: "('q, 'b) proxy_ops"

definition remote_address_new ::
  "u64 \<Rightarrow> ('ty, 'm, 'd, 'ec, 'dc) codec_table \<Rightarrow> ('q, 'b) proxy_ops \<Rightarrow>
   ('ty, 'm, 'd, 'ec, 'dc, 'q, 'b) remote_address outcome" where
  "remote_address_new index tbl px =
     map_outcome (\<lambda>session. \<lparr>ra_actor_id = actor_id_new_remote index session, ra_codec_table = tbl, ra_proxy = px\<rparr>)
       (px_index px)"

text \<open>The tasks that wait for an answer: with the codec of the table, or with the bound of a recipient.\<close>

datatype ('r, 'ty, 'codec) decode_task = DecodeRes 'r 'ty 'codec | DecodeResWithBound 'r

record ('ec, 'q, 'task) remote_world =
  rw_ctx :: 'ec
  rw_proxy :: 'q
  rw_tasks :: "'task list"

type_synonym ('ty, 'm, 'd, 'ec, 'dc, 'q, 'r) rw =
  "('ec, 'q, ('r, 'ty, ('m, 'd, 'ec, 'dc) message_codec) decode_task) remote_world"

definition remote_encode ::
  "('ty, 'm, 'd, 'ec, 'dc) codec_table \<Rightarrow> 'ty \<Rightarrow> 'm \<Rightarrow> 'ec \<Rightarrow>
   (bytes \<times> ('m, 'd, 'ec, 'dc) message_codec, 'm send_error) result \<times> 'ec" where
  "remote_encode tbl ty msg ec =
     (case tbl ty of
        Some codec \<Rightarrow>
          (case mc_encode_msg codec msg ec of
             (Ok bytes, ec') \<Rightarrow> (Ok (bytes, codec), ec')
           | (Err e, ec') \<Rightarrow> (Err (SendOther (encode_error_box e) msg), ec'))
      | None \<Rightarrow> (Err (SendNoEncodeFn msg), ec))"

text \<open>What is done with the answer of the proxy: an error gets the message back, success spawns the
  tasks and returns the receiver. \<open>tokio::spawn\<close> panics outside a runtime (\<open>rt\<close> tells whether the caller is in one);
  the blocking operations spawn on the runtime of the proxy.\<close>

definition NO_RUNTIME :: string where
  "NO_RUNTIME = ''there is no reactor running, must be called from the context of a Tokio 1.x runtime''"

definition proxy_answer ::
  "bool \<Rightarrow> 'r \<Rightarrow> 'task list \<Rightarrow> 'm \<Rightarrow> (unit, unit) sent \<Rightarrow> ('ec, 'q, 'task) remote_world \<Rightarrow>
   ('r, 'm) sent \<times> ('ec, 'q, 'task) remote_world" where
  "proxy_answer rt rx tasks msg out w =
     (case out of
        Panic p \<Rightarrow> (Panic p, w)
      | Ret (Err e) \<Rightarrow> (Ret (Err (with_msg e msg)), w)
      | Ret (Ok _) \<Rightarrow>
          if tasks \<noteq> [] \<and> \<not> rt then (Panic NO_RUNTIME, w)
          else (Ret (Ok rx), w\<lparr>rw_tasks := rw_tasks w @ tasks\<rparr>))"

definition proxy_polled ::
  "bool \<Rightarrow> 'r \<Rightarrow> 'task list \<Rightarrow> 'm \<Rightarrow> (unit, unit) sent option \<times> 'q \<Rightarrow> ('ec, 'q, 'task) remote_world \<Rightarrow>
   ('r, 'm) sent option \<times> ('ec, 'q, 'task) remote_world" where
  "proxy_polled rt rx tasks msg p w =
     (case p of
        (None, q) \<Rightarrow> (None, w\<lparr>rw_proxy := q\<rparr>)
      | (Some out, q) \<Rightarrow> map_prod Some id (proxy_answer rt rx tasks msg out (w\<lparr>rw_proxy := q\<rparr>)))"

text \<open>Sending with a response; the message names the raw response channel after the receiver.\<close>

definition remote_send ::
  "bool \<Rightarrow> ('ty, 'm, 'd, 'ec, 'dc, 'q, ('r, 'ctx) binary_message) remote_address \<Rightarrow> 'ty \<Rightarrow> 'r \<Rightarrow> 'm \<Rightarrow>
   ('ty, 'm, 'd, 'ec, 'dc, 'q, 'r) rw \<Rightarrow> ('r, 'm) sent option \<times> ('ty, 'm, 'd, 'ec, 'dc, 'q, 'r) rw" where
  "remote_send rt a ty rx msg w =
     (case remote_encode (ra_codec_table a) ty msg (rw_ctx w) of
        (Err e, ec) \<Rightarrow> (Some (Ret (Err e)), w\<lparr>rw_ctx := ec\<rparr>)
      | (Ok (bytes, codec), ec) \<Rightarrow>
          proxy_polled rt rx [DecodeRes rx ty codec] msg
            (px_do_send (ra_proxy a) (binary_send (as_local (ra_actor_id a)) (mc_message_id codec) bytes rx) (rw_proxy w))
            (w\<lparr>rw_ctx := ec\<rparr>))"

definition remote_do_send ::
  "('ty, 'm, 'd, 'ec, 'dc, 'q, ('r, 'ctx) binary_message) remote_address \<Rightarrow> 'ty \<Rightarrow> 'm \<Rightarrow>
   ('ty, 'm, 'd, 'ec, 'dc, 'q, 'r) rw \<Rightarrow> (unit, 'm) sent option \<times> ('ty, 'm, 'd, 'ec, 'dc, 'q, 'r) rw" where
  "remote_do_send a ty msg w =
     (case remote_encode (ra_codec_table a) ty msg (rw_ctx w) of
        (Err e, ec) \<Rightarrow> (Some (Ret (Err e)), w\<lparr>rw_ctx := ec\<rparr>)
      | (Ok (bytes, codec), ec) \<Rightarrow>
          proxy_polled True () [] msg
            (px_do_send (ra_proxy a) (binary_do_send (as_local (ra_actor_id a)) (mc_message_id codec) bytes) (rw_proxy w))
            (w\<lparr>rw_ctx := ec\<rparr>))"

definition remote_try_send ::
  "bool \<Rightarrow> ('ty, 'm, 'd, 'ec, 'dc, 'q, ('r, 'ctx) binary_message) remote_address \<Rightarrow> 'ty \<Rightarrow> 'r \<Rightarrow> 'm \<Rightarrow>
   ('ty, 'm, 'd, 'ec, 'dc, 'q, 'r) rw \<Rightarrow> ('r, 'm) sent \<times> ('ty, 'm, 'd, 'ec, 'dc, 'q, 'r) rw" where
  "remote_try_send rt a ty rx msg w =
     (case remote_encode (ra_codec_table a) ty msg (rw_ctx w) of
        (Err e, ec) \<Rightarrow> (Ret (Err e), w\<lparr>rw_ctx := ec\<rparr>)
      | (Ok (bytes, codec), ec) \<Rightarrow>
          (case px_try_do_send (ra_proxy a) (binary_send (as_local (ra_actor_id a)) (mc_message_id codec) bytes rx)
             (rw_proxy w) of
             (out, q) \<Rightarrow> proxy_answer rt rx [DecodeRes rx ty codec] msg out (w\<lparr>rw_ctx := ec, rw_proxy := q\<rparr>)))"

definition remote_try_do_send ::
  "('ty, 'm, 'd, 'ec, 'dc, 'q, ('r, 'ctx) binary_message) remote_address \<Rightarrow> 'ty \<Rightarrow> 'm \<Rightarrow>
   ('ty, 'm, 'd, 'ec, 'dc, 'q, 'r) rw \<Rightarrow> (unit, 'm) sent \<times> ('ty, 'm, 'd, 'ec, 'dc, 'q, 'r) rw" where
  "remote_try_do_send a ty msg w =
     (case remote_encode (ra_codec_table a) ty msg (rw_ctx w) of
        (Err e, ec) \<Rightarrow> (Ret (Err e), w\<lparr>rw_ctx := ec\<rparr>)
      | (Ok (bytes, codec), ec) \<Rightarrow>
          (case px_try_do_send (ra_proxy a) (binary_do_send (as_local (ra_actor_id a)) (mc_message_id codec) bytes)
             (rw_proxy w) of
             (out, q) \<Rightarrow> proxy_answer True () [] msg out (w\<lparr>rw_ctx := ec, rw_proxy := q\<rparr>)))"

definition remote_send_timeout ::
  "bool \<Rightarrow> ('ty, 'm, 'd, 'ec, 'dc, 'q, ('r, 'ctx) binary_message) remote_address \<Rightarrow> 'ty \<Rightarrow> bool \<Rightarrow> 'r \<Rightarrow> 'm \<Rightarrow>
   ('ty, 'm, 'd, 'ec, 'dc, 'q, 'r) rw \<Rightarrow> ('r, 'm) sent option \<times> ('ty, 'm, 'd, 'ec, 'dc, 'q, 'r) rw" where
  "remote_send_timeout rt a ty elapsed rx msg w =
     (case remote_encode (ra_codec_table a) ty msg (rw_ctx w) of
        (Err e, ec) \<Rightarrow> (Some (Ret (Err e)), w\<lparr>rw_ctx := ec\<rparr>)
      | (Ok (bytes, codec), ec) \<Rightarrow>
          proxy_polled rt rx [DecodeRes rx ty codec] msg
            (px_do_send_timeout (ra_proxy a) elapsed
              (binary_send (as_local (ra_actor_id a)) (mc_message_id codec) bytes rx) (rw_proxy w))
            (w\<lparr>rw_ctx := ec\<rparr>))"

definition remote_do_send_timeout ::
  "('ty, 'm, 'd, 'ec, 'dc, 'q, ('r, 'ctx) binary_message) remote_address \<Rightarrow> 'ty \<Rightarrow> bool \<Rightarrow> 'm \<Rightarrow>
   ('ty, 'm, 'd, 'ec, 'dc, 'q, 'r) rw \<Rightarrow> (unit, 'm) sent option \<times> ('ty, 'm, 'd, 'ec, 'dc, 'q, 'r) rw" where
  "remote_do_send_timeout a ty elapsed msg w =
     (case remote_encode (ra_codec_table a) ty msg (rw_ctx w) of
        (Err e, ec) \<Rightarrow> (Some (Ret (Err e)), w\<lparr>rw_ctx := ec\<rparr>)
      | (Ok (bytes, codec), ec) \<Rightarrow>
          proxy_polled True () [] msg
            (px_do_send_timeout (ra_proxy a) elapsed
              (binary_do_send (as_local (ra_actor_id a)) (mc_message_id codec) bytes) (rw_proxy w))
            (w\<lparr>rw_ctx := ec\<rparr>))"

definition remote_blocking_send ::
  "('ty, 'm, 'd, 'ec, 'dc, 'q, ('r, 'ctx) binary_message) remote_address \<Rightarrow> 'ty \<Rightarrow> bool \<Rightarrow> 'r \<Rightarrow> 'm \<Rightarrow>
   ('ty, 'm, 'd, 'ec, 'dc, 'q, 'r) rw \<Rightarrow> ('r, 'm) sent option \<times> ('ty, 'm, 'd, 'ec, 'dc, 'q, 'r) rw" where
  "remote_blocking_send a ty in_async rx msg w =
     (case remote_encode (ra_codec_table a) ty msg (rw_ctx w) of
        (Err e, ec) \<Rightarrow> (Some (Ret (Err e)), w\<lparr>rw_ctx := ec\<rparr>)
      | (Ok (bytes, codec), ec) \<Rightarrow>
          proxy_polled True rx [DecodeRes rx ty codec] msg
            (px_blocking_do_send (ra_proxy a) in_async
              (binary_send (as_local (ra_actor_id a)) (mc_message_id codec) bytes rx) (rw_proxy w))
            (w\<lparr>rw_ctx := ec\<rparr>))"

definition remote_blocking_do_send ::
  "('ty, 'm, 'd, 'ec, 'dc, 'q, ('r, 'ctx) binary_message) remote_address \<Rightarrow> 'ty \<Rightarrow> bool \<Rightarrow> 'm \<Rightarrow>
   ('ty, 'm, 'd, 'ec, 'dc, 'q, 'r) rw \<Rightarrow> (unit, 'm) sent option \<times> ('ty, 'm, 'd, 'ec, 'dc, 'q, 'r) rw" where
  "remote_blocking_do_send a ty in_async msg w =
     (case remote_encode (ra_codec_table a) ty msg (rw_ctx w) of
        (Err e, ec) \<Rightarrow> (Some (Ret (Err e)), w\<lparr>rw_ctx := ec\<rparr>)
      | (Ok (bytes, codec), ec) \<Rightarrow>
          proxy_polled True () [] msg
            (px_blocking_do_send (ra_proxy a) in_async
              (binary_do_send (as_local (ra_actor_id a)) (mc_message_id codec) bytes) (rw_proxy w))
            (w\<lparr>rw_ctx := ec\<rparr>))"

definition remote_sender ::
  "bool \<Rightarrow> ('ty, 'm, 'd, 'ec, 'dc, 'q, ('r, 'ctx) binary_message) remote_address \<Rightarrow> 'ty \<Rightarrow>
   (('ty, 'm, 'd, 'ec, 'dc, 'q, 'r) rw, 'm, 'r) sender_ops" where
  "remote_sender rt a ty =
     \<lparr>sd_index = ra_actor_id a, sd_is_closed = (\<lambda>w. px_is_closed (ra_proxy a) (rw_proxy w)),
      sd_capacity = (\<lambda>w. px_capacity (ra_proxy a) (rw_proxy w)),
      sd_send = remote_send rt a ty, sd_do_send = remote_do_send a ty,
      sd_try_send = remote_try_send rt a ty, sd_try_do_send = remote_try_do_send a ty,
      sd_send_timeout = remote_send_timeout rt a ty, sd_do_send_timeout = remote_do_send_timeout a ty,
      sd_blocking_send = remote_blocking_send a ty, sd_blocking_do_send = remote_blocking_do_send a ty\<rparr>"

section \<open>Decoding the answer\<close>

text \<open>What the \<open>select!\<close> of a task sees first: the raw answer or the end of the waiting receiver.\<close>

datatype decode_input = RawAnswer "(bytes, recv_error) result" nat | TxClosed

definition decode_res ::
  "('d \<Rightarrow> 'r option) \<Rightarrow> ('m, 'd, 'ec, 'dc) message_codec \<Rightarrow> 'dc \<Rightarrow> 'tx \<Rightarrow> decode_input \<Rightarrow> ('tx, 'r) reply list" where
  "decode_res downcast codec dc tx input =
     (case input of
        TxClosed \<Rightarrow> []
      | RawAnswer (Err e) _ \<Rightarrow> [ReplyErr tx (recv_error_box e)]
      | RawAnswer (Ok bytes) addr \<Rightarrow>
          (case mc_decode_res codec dc \<lparr>b_addr = addr, b_bytes = bytes\<rparr> of
             Ok boxed \<Rightarrow>
               (case downcast boxed of
                  Some res \<Rightarrow> [Reply tx res]
                | None \<Rightarrow> [ReplyErr tx (decode_error_box (decode_error_from_str ''downcast failed''))])
           | Err e \<Rightarrow> [ReplyErr tx (decode_error_box (DecodeOther (decode_error_box e)))]))"

definition decode_res_with_bound ::
  "('res, 'ec, 'dc) codec \<Rightarrow> 'dc \<Rightarrow> 'tx \<Rightarrow> decode_input \<Rightarrow> ('tx, 'res) reply list" where
  "decode_res_with_bound cd dc tx input =
     (case input of
        TxClosed \<Rightarrow> []
      | RawAnswer (Err e) _ \<Rightarrow> [ReplyErr tx (recv_error_box e)]
      | RawAnswer (Ok bytes) addr \<Rightarrow>
          (case cd_decode cd dc \<lparr>b_addr = addr, b_bytes = bytes\<rparr> of
             Ok result \<Rightarrow> [Reply tx result]
           | Err e \<Rightarrow> [ReplyErr tx (decode_error_box (DecodeOther (decode_error_box e)))]))"

section \<open>Remote recipients\<close>

text \<open>The message type is known here: its codec and its id are \<open>cd\<close> and \<open>mid\<close>. The task that decodes the answer
  is spawned before the message is sent.\<close>

record ('q, 'b) remote_recipient =
  rr_actor_id :: actor_id
  rr_proxy :: "('q, 'b) proxy_ops"

definition remote_recipient_new :: "u64 \<Rightarrow> ('q, 'b) proxy_ops \<Rightarrow> ('q, 'b) remote_recipient outcome" where
  "remote_recipient_new index px =
     map_outcome (\<lambda>session. \<lparr>rr_actor_id = actor_id_new_remote index session, rr_proxy = px\<rparr>) (px_index px)"

type_synonym ('ec, 'q, 'r) rrw = "('ec, 'q, ('r, unit, unit) decode_task) remote_world"

definition recipient_encode ::
  "('m, 'ec, 'dc) codec \<Rightarrow> 'm \<Rightarrow> 'ec \<Rightarrow> (bytes, 'm send_error) result \<times> 'ec" where
  "recipient_encode cd msg ec =
     (case encode_to_bytes cd msg ec of
        (Ok bytes, ec') \<Rightarrow> (Ok bytes, ec')
      | (Err e, ec') \<Rightarrow> (Err (SendOther (encode_error_box e) msg), ec'))"

text \<open>A send that waits, with or without a response: \<open>call\<close> is the operation of the proxy.\<close>

definition recipient_send ::
  "bool \<Rightarrow> ('m, 'ec, 'dc) codec \<Rightarrow> u64 \<Rightarrow> actor_id \<Rightarrow> (('r, 'ctx) binary_message \<Rightarrow> 'q \<Rightarrow> (unit, unit) sent option \<times> 'q) \<Rightarrow>
   'r \<Rightarrow> 'm \<Rightarrow> ('ec, 'q, 'r) rrw \<Rightarrow> ('r, 'm) sent option \<times> ('ec, 'q, 'r) rrw" where
  "recipient_send rt cd mid actor call rx msg w =
     (case recipient_encode cd msg (rw_ctx w) of
        (Err e, ec) \<Rightarrow> (Some (Ret (Err e)), w\<lparr>rw_ctx := ec\<rparr>)
      | (Ok bytes, ec) \<Rightarrow>
          if \<not> rt then (Some (Panic NO_RUNTIME), w\<lparr>rw_ctx := ec\<rparr>)
          else
            let w1 = w\<lparr>rw_ctx := ec, rw_tasks := rw_tasks w @ [DecodeResWithBound rx]\<rparr>
            in proxy_polled True rx [] msg (call (binary_send (as_local actor) mid bytes rx) (rw_proxy w1)) w1)"

definition recipient_do_send ::
  "('m, 'ec, 'dc) codec \<Rightarrow> u64 \<Rightarrow> actor_id \<Rightarrow> (('r, 'ctx) binary_message \<Rightarrow> 'q \<Rightarrow> (unit, unit) sent option \<times> 'q) \<Rightarrow>
   'm \<Rightarrow> ('ec, 'q, 'r) rrw \<Rightarrow> (unit, 'm) sent option \<times> ('ec, 'q, 'r) rrw" where
  "recipient_do_send cd mid actor call msg w =
     (case recipient_encode cd msg (rw_ctx w) of
        (Err e, ec) \<Rightarrow> (Some (Ret (Err e)), w\<lparr>rw_ctx := ec\<rparr>)
      | (Ok bytes, ec) \<Rightarrow>
          proxy_polled True () [] msg (call (binary_do_send (as_local actor) mid bytes) (rw_proxy w)) (w\<lparr>rw_ctx := ec\<rparr>))"

definition recipient_try_send ::
  "bool \<Rightarrow> ('m, 'ec, 'dc) codec \<Rightarrow> u64 \<Rightarrow> ('q, ('r, 'ctx) binary_message) remote_recipient \<Rightarrow> 'r \<Rightarrow> 'm \<Rightarrow>
   ('ec, 'q, 'r) rrw \<Rightarrow> ('r, 'm) sent \<times> ('ec, 'q, 'r) rrw" where
  "recipient_try_send rt cd mid a rx msg w =
     (case recipient_encode cd msg (rw_ctx w) of
        (Err e, ec) \<Rightarrow> (Ret (Err e), w\<lparr>rw_ctx := ec\<rparr>)
      | (Ok bytes, ec) \<Rightarrow>
          if \<not> rt then (Panic NO_RUNTIME, w\<lparr>rw_ctx := ec\<rparr>)
          else
            let w1 = w\<lparr>rw_ctx := ec, rw_tasks := rw_tasks w @ [DecodeResWithBound rx]\<rparr>
            in case px_try_do_send (rr_proxy a) (binary_send (as_local (rr_actor_id a)) mid bytes rx) (rw_proxy w1) of
                 (out, q) \<Rightarrow> proxy_answer True rx [] msg out (w1\<lparr>rw_proxy := q\<rparr>))"

definition recipient_try_do_send ::
  "('m, 'ec, 'dc) codec \<Rightarrow> u64 \<Rightarrow> ('q, ('r, 'ctx) binary_message) remote_recipient \<Rightarrow> 'm \<Rightarrow>
   ('ec, 'q, 'r) rrw \<Rightarrow> (unit, 'm) sent \<times> ('ec, 'q, 'r) rrw" where
  "recipient_try_do_send cd mid a msg w =
     (case recipient_encode cd msg (rw_ctx w) of
        (Err e, ec) \<Rightarrow> (Ret (Err e), w\<lparr>rw_ctx := ec\<rparr>)
      | (Ok bytes, ec) \<Rightarrow>
          (case px_try_do_send (rr_proxy a) (binary_do_send (as_local (rr_actor_id a)) mid bytes) (rw_proxy w) of
             (out, q) \<Rightarrow> proxy_answer True () [] msg out (w\<lparr>rw_ctx := ec, rw_proxy := q\<rparr>)))"

definition recipient_sender ::
  "bool \<Rightarrow> ('m, 'ec, 'dc) codec \<Rightarrow> u64 \<Rightarrow> ('q, ('r, 'ctx) binary_message) remote_recipient \<Rightarrow>
   (('ec, 'q, 'r) rrw, 'm, 'r) sender_ops" where
  "recipient_sender rt cd mid a =
     \<lparr>sd_index = rr_actor_id a, sd_is_closed = (\<lambda>w. px_is_closed (rr_proxy a) (rw_proxy w)),
      sd_capacity = (\<lambda>w. px_capacity (rr_proxy a) (rw_proxy w)),
      sd_send = recipient_send rt cd mid (rr_actor_id a) (px_do_send (rr_proxy a)),
      sd_do_send = recipient_do_send cd mid (rr_actor_id a) (px_do_send (rr_proxy a)),
      sd_try_send = recipient_try_send rt cd mid a,
      sd_try_do_send = recipient_try_do_send cd mid a,
      sd_send_timeout = (\<lambda>elapsed. recipient_send rt cd mid (rr_actor_id a) (px_do_send_timeout (rr_proxy a) elapsed)),
      sd_do_send_timeout = (\<lambda>elapsed. recipient_do_send cd mid (rr_actor_id a) (px_do_send_timeout (rr_proxy a) elapsed)),
      sd_blocking_send = (\<lambda>in_async. recipient_send True cd mid (rr_actor_id a) (px_blocking_do_send (rr_proxy a) in_async)),
      sd_blocking_do_send = (\<lambda>in_async.
        recipient_do_send cd mid (rr_actor_id a) (px_blocking_do_send (rr_proxy a) in_async))\<rparr>"

section \<open>Addresses\<close>

text \<open>An address is local or remote and every method goes to that one; the world is the mailbox of the
  actor and the world of its proxy.\<close>

datatype ('l, 'q) address = Local 'l | Remote 'q

definition on_local :: "('c \<Rightarrow> 'a \<times> 'c) \<Rightarrow> 'c \<times> 'w \<Rightarrow> 'a \<times> 'c \<times> 'w" where
  "on_local f cw = (case f (fst cw) of (a, c) \<Rightarrow> (a, c, snd cw))"

definition on_remote :: "('w \<Rightarrow> 'a \<times> 'w) \<Rightarrow> 'c \<times> 'w \<Rightarrow> 'a \<times> 'c \<times> 'w" where
  "on_remote f cw = (case f (snd cw) of (a, w) \<Rightarrow> (a, fst cw, w))"

definition address_sender ::
  "(('c, 'm, 'r) sender_ops, ('w, 'm, 'r) sender_ops) address \<Rightarrow> ('c \<times> 'w, 'm, 'r) sender_ops" where
  "address_sender inner =
     \<lparr>sd_index = (case inner of Local a \<Rightarrow> sd_index a | Remote a \<Rightarrow> sd_index a),
      sd_is_closed = (case inner of Local a \<Rightarrow> sd_is_closed a \<circ> fst | Remote a \<Rightarrow> sd_is_closed a \<circ> snd),
      sd_capacity = (case inner of Local a \<Rightarrow> sd_capacity a \<circ> fst | Remote a \<Rightarrow> sd_capacity a \<circ> snd),
      sd_send = (\<lambda>rx msg. case inner of
         Local a \<Rightarrow> on_local (sd_send a rx msg) | Remote a \<Rightarrow> on_remote (sd_send a rx msg)),
      sd_do_send = (\<lambda>msg. case inner of
         Local a \<Rightarrow> on_local (sd_do_send a msg) | Remote a \<Rightarrow> on_remote (sd_do_send a msg)),
      sd_try_send = (\<lambda>rx msg. case inner of
         Local a \<Rightarrow> on_local (sd_try_send a rx msg) | Remote a \<Rightarrow> on_remote (sd_try_send a rx msg)),
      sd_try_do_send = (\<lambda>msg. case inner of
         Local a \<Rightarrow> on_local (sd_try_do_send a msg) | Remote a \<Rightarrow> on_remote (sd_try_do_send a msg)),
      sd_send_timeout = (\<lambda>elapsed rx msg. case inner of
         Local a \<Rightarrow> on_local (sd_send_timeout a elapsed rx msg) | Remote a \<Rightarrow> on_remote (sd_send_timeout a elapsed rx msg)),
      sd_do_send_timeout = (\<lambda>elapsed msg. case inner of
         Local a \<Rightarrow> on_local (sd_do_send_timeout a elapsed msg) | Remote a \<Rightarrow> on_remote (sd_do_send_timeout a elapsed msg)),
      sd_blocking_send = (\<lambda>in_async rx msg. case inner of
         Local a \<Rightarrow> on_local (sd_blocking_send a in_async rx msg)
       | Remote a \<Rightarrow> on_remote (sd_blocking_send a in_async rx msg)),
      sd_blocking_do_send = (\<lambda>in_async msg. case inner of
         Local a \<Rightarrow> on_local (sd_blocking_do_send a in_async msg)
       | Remote a \<Rightarrow> on_remote (sd_blocking_do_send a in_async msg))\<rparr>"

text \<open>The traits \<open>SenderInfo\<close> and \<open>Sender\<close> of an address call its methods; \<open>From<Address>\<close> wraps it in a recipient.\<close>

definition address_as_sender ::
  "(('c, 'm, 'r) sender_ops, ('w, 'm, 'r) sender_ops) address \<Rightarrow> ('c \<times> 'w, 'm, 'r) sender_ops" where
  "address_as_sender inner =
     (let a = address_sender inner
      in \<lparr>sd_index = sd_index a, sd_is_closed = sd_is_closed a, sd_capacity = sd_capacity a,
          sd_send = sd_send a, sd_do_send = sd_do_send a, sd_try_send = sd_try_send a,
          sd_try_do_send = sd_try_do_send a, sd_send_timeout = sd_send_timeout a,
          sd_do_send_timeout = sd_do_send_timeout a, sd_blocking_send = sd_blocking_send a,
          sd_blocking_do_send = sd_blocking_do_send a\<rparr>)"

definition recipient_from_address ::
  "(('c, 'm, 'r) sender_ops, ('w, 'm, 'r) sender_ops) address \<Rightarrow> ('c \<times> 'w, 'm, 'r) sender_ops" where
  "recipient_from_address inner = recipient_of (address_as_sender inner)"

definition address_reserve ::
  "('c, 'x) mpsc_ops \<Rightarrow> ('l, 'q) address \<Rightarrow> 'c \<Rightarrow> (unit, unit send_error) result option \<times> 'c" where
  "address_reserve ops inner c =
     (case inner of
        Local _ \<Rightarrow> local_reserve ops c
      | Remote _ \<Rightarrow> (Some (Err (SendOther (box_str ''remote address does not support reserve'') ())), c))"

definition address_try_reserve ::
  "('c, 'x) mpsc_ops \<Rightarrow> ('l, 'q) address \<Rightarrow> 'c \<Rightarrow> (unit, unit send_error) result \<times> 'c" where
  "address_try_reserve ops inner c =
     (case inner of
        Local _ \<Rightarrow> local_try_reserve ops c
      | Remote _ \<Rightarrow> (Err (SendOther (box_str ''remote address does not support reserve'') ()), c))"

definition address_reserve_owned ::
  "('c, 'x) mpsc_ops \<Rightarrow> ('l, 'q) address \<Rightarrow> 'c \<Rightarrow> (unit, unit send_error) result option \<times> 'c" where
  "address_reserve_owned ops inner c =
     (case inner of
        Local _ \<Rightarrow> local_reserve_owned ops c
      | Remote _ \<Rightarrow> (Some (Err (SendOther (box_str ''remote address does not support reserve'') ())), c))"

definition address_try_reserve_owned ::
  "('c, 'x) mpsc_ops \<Rightarrow> ('l, 'q) address \<Rightarrow> 'c \<Rightarrow> (unit, unit send_error) result \<times> 'c" where
  "address_try_reserve_owned ops inner c =
     (case inner of
        Local _ \<Rightarrow> local_try_reserve_owned ops c
      | Remote _ \<Rightarrow> (Err (SendOther (box_str ''remote address does not support reserve'') ()), c))"

text \<open>\<open>mailbox_of_actor\<close> is \<open>Actor::remote_mailbox\<close>, which the actor type provides.\<close>

definition remote_addressable :: "('l \<Rightarrow> 'mb option) \<Rightarrow> ('l, 'q) address \<Rightarrow> 'mb option" where
  "remote_addressable mailbox_of_actor inner =
     (case inner of Local a \<Rightarrow> mailbox_of_actor a | Remote _ \<Rightarrow> None)"

section \<open>The remote mailbox of a recipient\<close>

text \<open>
  \<open>RemoteAddressableProxy::remote_mailbox\<close> makes a channel for binary messages and spawns a task that
  relays them. The state of the relay: the messages in the inbound channel and whether its senders
  are gone, the recipient's own channel, what the task is doing, and as history the messages that
  arrived, those it took, what was put into the recipient's channel (\<open>True\<close> when the task did, \<open>False\<close> when another
  sender did) and what the consumer received. \<open>decode\<close> is the decoder of the message type, with the decode context
  of the message.
\<close>

datatype 'm relay_phase = Selecting | Forwarding 'm | Finished

record ('ch, 'm, 'b) relay_state =
  rl_in :: "'b list"
  rl_in_closed :: bool
  rl_out :: 'ch
  rl_phase :: "'m relay_phase"
  rl_arrived :: "'b list"
  rl_taken :: "'b list"
  rl_log :: "(bool \<times> 'm) list"
  rl_consumed :: "'m list"

definition relay_accepts ::
  "u64 \<Rightarrow> u64 \<Rightarrow> ('ctx option \<Rightarrow> bytes \<Rightarrow> ('m, decode_error) result) \<Rightarrow> ('r, 'ctx) binary_message \<Rightarrow> 'm option" where
  "relay_accepts index mid decode message =
     (if bm_actor_id message \<noteq> index \<or> bm_message_id message \<noteq> mid \<or> bm_result_tx message \<noteq> None then None
      else case decode (bm_decode_msg_ctx message) (bm_bytes message) of
             Ok m \<Rightarrow> Some m
           | Err _ \<Rightarrow> None)"

inductive relay_step ::
  "('ch, 'm) mpsc_ops \<Rightarrow> (('r, 'ctx) binary_message \<Rightarrow> 'm option) \<Rightarrow>
   ('ch, 'm, ('r, 'ctx) binary_message) relay_state \<Rightarrow> ('ch, 'm, ('r, 'ctx) binary_message) relay_state \<Rightarrow> bool"
  for ops :: "('ch, 'm) mpsc_ops" and accepts :: "('r, 'ctx) binary_message \<Rightarrow> 'm option" where
  skip: "rl_phase s = Selecting \<Longrightarrow> rl_in s = b # bs \<Longrightarrow> accepts b = None \<Longrightarrow>
    relay_step ops accepts s (s\<lparr>rl_in := bs, rl_taken := rl_taken s @ [b]\<rparr>)"
| take: "rl_phase s = Selecting \<Longrightarrow> rl_in s = b # bs \<Longrightarrow> accepts b = Some m \<Longrightarrow>
    relay_step ops accepts s (s\<lparr>rl_in := bs, rl_taken := rl_taken s @ [b], rl_phase := Forwarding m\<rparr>)"
| forward: "rl_phase s = Forwarding m \<Longrightarrow> mp_send ops m (rl_out s) = Some (Ok u, c) \<Longrightarrow>
    relay_step ops accepts s (s\<lparr>rl_out := c, rl_phase := Selecting, rl_log := rl_log s @ [(True, m)]\<rparr>)"
| lost: "rl_phase s = Forwarding m \<Longrightarrow> mp_send ops m (rl_out s) = Some (Err m', c) \<Longrightarrow>
    relay_step ops accepts s (s\<lparr>rl_out := c, rl_phase := Finished\<rparr>)"
| in_closed: "rl_phase s = Selecting \<Longrightarrow> rl_in s = [] \<Longrightarrow> rl_in_closed s \<Longrightarrow>
    relay_step ops accepts s (s\<lparr>rl_phase := Finished\<rparr>)"
| out_closed: "rl_phase s = Selecting \<Longrightarrow> mp_tx_closed ops (rl_out s) \<Longrightarrow>
    relay_step ops accepts s (s\<lparr>rl_phase := Finished\<rparr>)"

text \<open>The surroundings: a peer's message arrives while the task holds the inbound channel, the peers go away, another
  sender of the recipient's channel sends, the consumer receives or closes its receiver.\<close>

inductive relay_env ::
  "('ch, 'm) mpsc_ops \<Rightarrow> ('ch, 'm, 'b) relay_state \<Rightarrow> ('ch, 'm, 'b) relay_state \<Rightarrow> bool"
  for ops :: "('ch, 'm) mpsc_ops" where
  arrive: "\<not> rl_in_closed s \<Longrightarrow> rl_phase s \<noteq> Finished \<Longrightarrow>
    relay_env ops s (s\<lparr>rl_in := rl_in s @ [b], rl_arrived := rl_arrived s @ [b]\<rparr>)"
| leave: "relay_env ops s (s\<lparr>rl_in_closed := True\<rparr>)"
| other: "mp_send ops m (rl_out s) = Some (Ok u, c) \<Longrightarrow>
    relay_env ops s (s\<lparr>rl_out := c, rl_log := rl_log s @ [(False, m)]\<rparr>)"
| consume: "mp_recv ops (rl_out s) = Some (Some m, c) \<Longrightarrow>
    relay_env ops s (s\<lparr>rl_out := c, rl_consumed := rl_consumed s @ [m]\<rparr>)"
| close: "relay_env ops s (s\<lparr>rl_out := mp_close ops (rl_out s)\<rparr>)"

inductive relay_reachable ::
  "('ch, 'm) mpsc_ops \<Rightarrow> (('r, 'ctx) binary_message \<Rightarrow> 'm option) \<Rightarrow> 'ch \<Rightarrow>
   ('ch, 'm, ('r, 'ctx) binary_message) relay_state \<Rightarrow> bool"
  for ops :: "('ch, 'm) mpsc_ops" and accepts :: "('r, 'ctx) binary_message \<Rightarrow> 'm option" and c0 :: 'ch where
  start: "relay_reachable ops accepts c0
    \<lparr>rl_in = [], rl_in_closed = False, rl_out = c0, rl_phase = Selecting, rl_arrived = [], rl_taken = [],
     rl_log = [], rl_consumed = []\<rparr>"
| own: "relay_reachable ops accepts c0 s \<Longrightarrow> relay_step ops accepts s s' \<Longrightarrow> relay_reachable ops accepts c0 s'"
| env: "relay_reachable ops accepts c0 s \<Longrightarrow> relay_env ops s s' \<Longrightarrow> relay_reachable ops accepts c0 s'"

section \<open>The contract of a proxy\<close>

locale proxy =
  fixes px :: "('q, 'b) proxy_ops"
    and plog :: "'q \<Rightarrow> 'x list"
    and pcarries :: "'b \<Rightarrow> 'x \<Rightarrow> bool"
  assumes do_send: "settled plog (pcarries b) () () q (px_do_send px b q)"
    and try_do_send: "settled plog (pcarries b) () () q (now (px_try_do_send px b q))"
    and do_send_timeout: "settled plog (pcarries b) () () q (px_do_send_timeout px elapsed b q)"
    and timeout_returns: "returned (px_do_send_timeout px True b q)"
    and blocking_do_send: "settled plog (pcarries b) () () q (px_blocking_do_send px False b q)"
    and blocking_in_async: "plog (snd (px_blocking_do_send px True b q)) = plog q"

lemma settled_drop_msg:
  "settled log carries () msg w p \<Longrightarrow> settled log carries () () w (map_prod (map_option drop_msg) id p)"
  by (cases "(log, carries, (), msg, w, p)" rule: settled.cases) (auto simp: drop_msg_def)

lemma now_map: "now (map_prod f id p) = map_prod (map_option f) id (now p)"
  by (simp add: now_def)

lemma returned_map: "returned (map_prod (map_option f) id p) = returned p"
  by (cases p) simp

lemma session_proxy_contract:
  assumes "sender session log carries"
  shows "proxy (session_proxy_ops session) log (\<lambda>b x. carries b None x)"
proof -
  note settled = settled_drop_msg [OF sender.do_send [OF assms]] settled_drop_msg [OF sender.try_do_send [OF assms]]
    settled_drop_msg [OF sender.do_send_timeout [OF assms]] settled_drop_msg [OF sender.blocking_do_send [OF assms]]
  show ?thesis
    by unfold_locales (simp_all add: session_proxy_ops_def now_map returned_map settled sender.timeout_returns [OF assms]
        sender.blocking_in_async [OF assms])
qed

lemma with_msg_msg [simp]: "send_error_msg (with_msg e msg) = msg"
  by (cases e) simp_all

lemma proxy_answer_world [simp]:
  "rw_proxy (snd (proxy_answer True rx tasks msg out w)) = rw_proxy w"
  by (auto simp: proxy_answer_def split: outcome.split result.split)

lemma settled_answer:
  assumes "settled plog carries () () (rw_proxy w0) (Some out, rw_proxy w)"
  shows "settled (\<lambda>w. plog (rw_proxy w)) carries rx msg w0 (map_prod Some id (proxy_answer True rx tasks msg out w))"
  using assms by (auto simp: proxy_answer_def split: outcome.split result.split)

lemma settled_polled_proxy:
  assumes "settled plog carries () () (rw_proxy w0) p"
  shows "settled (\<lambda>w. plog (rw_proxy w)) carries rx msg w0 (proxy_polled True rx tasks msg p w)"
proof (cases p)
  case (Pair out q)
  with assms show ?thesis
    using settled_answer [of plog carries w0 _ "w\<lparr>rw_proxy := q\<rparr>" rx msg tasks]
    by (cases out) (auto simp: proxy_polled_def)
qed

lemma returned_Some: "returned (map_prod Some id p)"
  by (cases p) simp

lemma returned_polled_proxy: "returned p \<Longrightarrow> returned (proxy_polled True rx tasks msg p w)"
  by (auto simp: proxy_polled_def returned_Some split: prod.splits option.splits)

lemma proxy_polled_log: "rw_proxy (snd (proxy_polled True rx tasks msg p w)) = snd p"
  by (auto simp: proxy_polled_def split: prod.splits option.splits)

lemma settled_refused: "settled (\<lambda>w. plog (rw_proxy w)) carries rx (send_error_msg e) w (Some (Ret (Err e)), w\<lparr>rw_ctx := ec\<rparr>)"
  by simp

text \<open>The binary message for a call with or without a response.\<close>

definition binary_of :: "u64 \<Rightarrow> u64 \<Rightarrow> bytes \<Rightarrow> 'r option \<Rightarrow> ('r, 'ctx) binary_message" where
  "binary_of actor mid bytes ro = (case ro of Some rx \<Rightarrow> binary_send actor mid bytes rx | None \<Rightarrow> binary_do_send actor mid bytes)"

lemma binary_of_simps [simp]:
  "binary_of actor mid bytes (Some rx) = binary_send actor mid bytes rx"
  "binary_of actor mid bytes None = binary_do_send actor mid bytes"
  by (simp_all add: binary_of_def)

text \<open>What a remote address puts into the log of its proxy for a message.\<close>

definition remote_carries ::
  "('b \<Rightarrow> 'x \<Rightarrow> bool) \<Rightarrow> ('ty, 'm, 'd, 'ec, 'dc, 'q, 'b) remote_address \<Rightarrow> 'ty \<Rightarrow> ('r option \<Rightarrow> u64 \<Rightarrow> bytes \<Rightarrow> 'b) \<Rightarrow>
   'm \<Rightarrow> 'r option \<Rightarrow> 'x \<Rightarrow> bool" where
  "remote_carries pcarries a ty binary msg ro x \<longleftrightarrow>
     (\<exists>codec ec ec' bytes. ra_codec_table a ty = Some codec \<and> mc_encode_msg codec msg ec = (Ok bytes, ec') \<and>
        pcarries (binary ro (mc_message_id codec) bytes) x)"

lemma remote_encode_Ok:
  "remote_encode tbl ty msg ec = (Ok (bytes, codec), ec') \<Longrightarrow> tbl ty = Some codec \<and> mc_encode_msg codec msg ec = (Ok bytes, ec')"
  by (auto simp: remote_encode_def split: option.splits prod.splits result.splits)

lemma remote_encode_Err: "remote_encode tbl ty msg ec = (Err e, ec') \<Longrightarrow> send_error_msg e = msg"
  by (auto simp: remote_encode_def split: option.splits prod.splits result.splits)

lemma settled_mono:
  "settled log P r msg w p \<Longrightarrow> (\<And>x. P x \<Longrightarrow> Q x) \<Longrightarrow> settled log Q r msg w p"
  by (cases "(log, P, r, msg, w, p)" rule: settled.cases) auto

lemma remote_call_settled:
  assumes "\<And>b. settled plog (pcarries b) () () (rw_proxy w) (call b (rw_proxy w))"
  shows "settled (\<lambda>w. plog (rw_proxy w)) (remote_carries pcarries a ty binary msg ro) r msg w
    (case remote_encode (ra_codec_table a) ty msg (rw_ctx w) of
       (Err e, ec) \<Rightarrow> (Some (Ret (Err e)), w\<lparr>rw_ctx := ec\<rparr>)
     | (Ok (bytes, codec), ec) \<Rightarrow>
         proxy_polled True r (tasks codec) msg (call (binary ro (mc_message_id codec) bytes) (rw_proxy w)) (w\<lparr>rw_ctx := ec\<rparr>))"
proof (cases "remote_encode (ra_codec_table a) ty msg (rw_ctx w)")
  case (Pair r' ec)
  show ?thesis
  proof (cases r')
    case (Err e)
    then show ?thesis using Pair remote_encode_Err by fastforce
  next
    case (Ok bc)
    obtain bytes codec where bc: "bc = (bytes, codec)" by (cases bc)
    with Pair Ok have "ra_codec_table a ty = Some codec" "mc_encode_msg codec msg (rw_ctx w) = (Ok bytes, ec)"
      using remote_encode_Ok by fastforce+
    then have "remote_carries pcarries a ty binary msg ro x" if "pcarries (binary ro (mc_message_id codec) bytes) x" for x
      using that by (auto simp: remote_carries_def)
    then show ?thesis
      unfolding Pair Ok bc
      using settled_mono [OF settled_polled_proxy [OF assms, where rx = r and msg = msg and tasks = "tasks codec" and w = "w\<lparr>rw_ctx := ec\<rparr>"]]
      by simp
  qed
qed

lemma proxy_polled_now:
  "map_prod Some id (case call of (out, q) \<Rightarrow> proxy_answer True r tasks msg out (w\<lparr>rw_proxy := q\<rparr>)) = proxy_polled True r tasks msg (now call) w"
  by (cases call) (simp add: proxy_polled_def now_def)

lemma now_Some: "now p = map_prod Some id p"
  by (simp add: now_def prod_eq_iff)

lemma now_remote_try:
  "now (remote_try_send True a ty rx msg w) =
    (case remote_encode (ra_codec_table a) ty msg (rw_ctx w) of
       (Err e, ec) \<Rightarrow> (Some (Ret (Err e)), w\<lparr>rw_ctx := ec\<rparr>)
     | (Ok (bytes, codec), ec) \<Rightarrow> proxy_polled True rx [DecodeRes rx ty codec] msg
         (now (px_try_do_send (ra_proxy a) (binary_send (as_local (ra_actor_id a)) (mc_message_id codec) bytes rx) (rw_proxy w)))
         (w\<lparr>rw_ctx := ec\<rparr>))"
  "now (remote_try_do_send a ty msg w) =
    (case remote_encode (ra_codec_table a) ty msg (rw_ctx w) of
       (Err e, ec) \<Rightarrow> (Some (Ret (Err e)), w\<lparr>rw_ctx := ec\<rparr>)
     | (Ok (bytes, codec), ec) \<Rightarrow> proxy_polled True () [] msg
         (now (px_try_do_send (ra_proxy a) (binary_do_send (as_local (ra_actor_id a)) (mc_message_id codec) bytes) (rw_proxy w)))
         (w\<lparr>rw_ctx := ec\<rparr>))"
  by (auto simp: remote_try_send_def remote_try_do_send_def now_Some proxy_polled_def split: prod.split result.split)

abbreviation remote_binary ::
  "('ty, 'm, 'd, 'ec, 'dc, 'q, ('r, 'ctx) binary_message) remote_address \<Rightarrow> 'r option \<Rightarrow> u64 \<Rightarrow> bytes \<Rightarrow> ('r, 'ctx) binary_message" where
  "remote_binary a ro mid bytes \<equiv> binary_of (as_local (ra_actor_id a)) mid bytes ro"

lemma remote_sender_contract:
  assumes "proxy (ra_proxy a) plog pcarries"
  shows "sender (remote_sender True a ty) (\<lambda>w. plog (rw_proxy w)) (remote_carries pcarries a ty (remote_binary a))"
proof
  let ?c = "\<lambda>msg ro. remote_carries pcarries a ty (remote_binary a) msg ro" and ?s = "remote_sender True a ty"
  note call = remote_call_settled [where pcarries = pcarries and plog = plog and a = a and ty = ty and binary = "remote_binary a"]
  note fold_defs = remote_sender_def sender_ops.select_convs remote_send_def remote_do_send_def remote_send_timeout_def
    remote_do_send_timeout_def remote_blocking_send_def remote_blocking_do_send_def now_remote_try
  fix msg rx w elapsed
  show "settled (\<lambda>w. plog (rw_proxy w)) (?c msg (Some rx)) rx msg w (sd_send ?s rx msg w)"
    using call [where call = "px_do_send (ra_proxy a)" and ro = "Some rx" and r = rx and msg = msg and w = w
        and tasks = "\<lambda>codec. [DecodeRes rx ty codec]", OF proxy.do_send [OF assms]] unfolding fold_defs binary_of_simps .
  show "settled (\<lambda>w. plog (rw_proxy w)) (?c msg None) () msg w (sd_do_send ?s msg w)"
    using call [where call = "px_do_send (ra_proxy a)" and ro = None and r = "()" and msg = msg and w = w
        and tasks = "\<lambda>codec. []", OF proxy.do_send [OF assms]] unfolding fold_defs binary_of_simps .
  show "settled (\<lambda>w. plog (rw_proxy w)) (?c msg (Some rx)) rx msg w (now (sd_try_send ?s rx msg w))"
    using call [where call = "\<lambda>b q. now (px_try_do_send (ra_proxy a) b q)" and ro = "Some rx" and r = rx and msg = msg and w = w
        and tasks = "\<lambda>codec. [DecodeRes rx ty codec]", OF proxy.try_do_send [OF assms]] unfolding fold_defs binary_of_simps .
  show "settled (\<lambda>w. plog (rw_proxy w)) (?c msg None) () msg w (now (sd_try_do_send ?s msg w))"
    using call [where call = "\<lambda>b q. now (px_try_do_send (ra_proxy a) b q)" and ro = None and r = "()" and msg = msg and w = w
        and tasks = "\<lambda>codec. []", OF proxy.try_do_send [OF assms]] unfolding fold_defs binary_of_simps .
  show "settled (\<lambda>w. plog (rw_proxy w)) (?c msg (Some rx)) rx msg w (sd_send_timeout ?s elapsed rx msg w)"
    using call [where call = "px_do_send_timeout (ra_proxy a) elapsed" and ro = "Some rx" and r = rx and msg = msg and w = w
        and tasks = "\<lambda>codec. [DecodeRes rx ty codec]", OF proxy.do_send_timeout [OF assms]] unfolding fold_defs binary_of_simps .
  show "settled (\<lambda>w. plog (rw_proxy w)) (?c msg None) () msg w (sd_do_send_timeout ?s elapsed msg w)"
    using call [where call = "px_do_send_timeout (ra_proxy a) elapsed" and ro = None and r = "()" and msg = msg and w = w
        and tasks = "\<lambda>codec. []", OF proxy.do_send_timeout [OF assms]] unfolding fold_defs binary_of_simps .
  show "settled (\<lambda>w. plog (rw_proxy w)) (?c msg (Some rx)) rx msg w (sd_blocking_send ?s False rx msg w)"
    using call [where call = "px_blocking_do_send (ra_proxy a) False" and ro = "Some rx" and r = rx and msg = msg and w = w
        and tasks = "\<lambda>codec. [DecodeRes rx ty codec]", OF proxy.blocking_do_send [OF assms]] unfolding fold_defs binary_of_simps .
  show "settled (\<lambda>w. plog (rw_proxy w)) (?c msg None) () msg w (sd_blocking_do_send ?s False msg w)"
    using call [where call = "px_blocking_do_send (ra_proxy a) False" and ro = None and r = "()" and msg = msg and w = w
        and tasks = "\<lambda>codec. []", OF proxy.blocking_do_send [OF assms]] unfolding fold_defs binary_of_simps .
  show "returned (sd_send_timeout ?s True rx msg w)" "returned (sd_do_send_timeout ?s True msg w)"
    using proxy.timeout_returns [OF assms]
    by (auto simp: fold_defs returned_polled_proxy split: prod.split result.split)
  show "plog (rw_proxy (snd (sd_blocking_send ?s True rx msg w))) = plog (rw_proxy w)"
    "plog (rw_proxy (snd (sd_blocking_do_send ?s True msg w))) = plog (rw_proxy w)"
    using proxy.blocking_in_async [OF assms]
    by (auto simp: fold_defs proxy_polled_log split: prod.split result.split)
qed

definition recipient_carries ::
  "('b \<Rightarrow> 'x \<Rightarrow> bool) \<Rightarrow> ('m, 'ec, 'dc) codec \<Rightarrow> ('r option \<Rightarrow> bytes \<Rightarrow> 'b) \<Rightarrow> 'm \<Rightarrow> 'r option \<Rightarrow> 'x \<Rightarrow> bool" where
  "recipient_carries pcarries cd binary msg ro x \<longleftrightarrow>
     (\<exists>ec ec' bytes. encode_to_bytes cd msg ec = (Ok bytes, ec') \<and> pcarries (binary ro bytes) x)"

lemma recipient_encode_cases:
  obtains (refused) e ec where "recipient_encode cd msg ec0 = (Err e, ec)" "send_error_msg e = msg"
  | (encoded) bytes ec where "recipient_encode cd msg ec0 = (Ok bytes, ec)" "encode_to_bytes cd msg ec0 = (Ok bytes, ec)"
  by (cases "encode_to_bytes cd msg ec0"; cases "fst (encode_to_bytes cd msg ec0)") (auto simp: recipient_encode_def)

lemma recipient_polled:
  assumes "encode_to_bytes cd msg ec = (Ok bytes, ec')"
    and "settled plog (pcarries (binary ro bytes)) () () (rw_proxy w0) p"
  shows "settled (\<lambda>w. plog (rw_proxy w)) (recipient_carries pcarries cd binary msg ro) r msg w0 (proxy_polled True r [] msg p w)"
  by (rule settled_mono [OF settled_polled_proxy [OF assms(2)]]) (use assms(1) in \<open>auto simp: recipient_carries_def\<close>)

lemma recipient_sender_contract:
  fixes a :: "('q, ('r, 'ctx) binary_message) remote_recipient"
  assumes "proxy (rr_proxy a) plog pcarries"
  shows "sender (recipient_sender True cd mid a) (\<lambda>w. plog (rw_proxy w))
    (recipient_carries pcarries cd (\<lambda>ro bytes. binary_of (as_local (rr_actor_id a)) mid bytes ro))"
proof -
  let ?b = "\<lambda>ro bytes. binary_of (as_local (rr_actor_id a)) mid bytes ro :: ('r, 'ctx) binary_message"
  have send: "settled (\<lambda>w. plog (rw_proxy w)) (recipient_carries pcarries cd ?b msg (Some rx)) rx msg w
      (recipient_send True cd mid (rr_actor_id a) call rx msg w)"
    if "\<And>b q. settled plog (pcarries b) () () q (call b q)" for call msg rx w
  proof (cases rule: recipient_encode_cases [of cd msg "rw_ctx w"])
    case (encoded bytes ec)
    then show ?thesis
      by (simp add: recipient_send_def Let_def) (rule recipient_polled [OF encoded(2)], simp add: that)
  qed (simp add: recipient_send_def)
  have do_send: "settled (\<lambda>w. plog (rw_proxy w)) (recipient_carries pcarries cd ?b msg None) () msg w
      (recipient_do_send cd mid (rr_actor_id a) call msg w)"
    if "\<And>b q. settled plog (pcarries b) () () q (call b q)" for call msg w
  proof (cases rule: recipient_encode_cases [of cd msg "rw_ctx w"])
    case (encoded bytes ec)
    then show ?thesis
      by (simp add: recipient_do_send_def) (rule recipient_polled [OF encoded(2)], simp add: that)
  qed (simp add: recipient_do_send_def)
  have try_send: "now (recipient_try_send True cd mid a rx msg w) =
      recipient_send True cd mid (rr_actor_id a) (\<lambda>b q. now (px_try_do_send (rr_proxy a) b q)) rx msg w" for rx msg w
    by (auto simp: recipient_try_send_def recipient_send_def now_Some proxy_polled_def Let_def split: prod.split result.split)
  have try_do_send: "now (recipient_try_do_send cd mid a msg w) =
      recipient_do_send cd mid (rr_actor_id a) (\<lambda>b q. now (px_try_do_send (rr_proxy a) b q)) msg w" for msg w
    by (auto simp: recipient_try_do_send_def recipient_do_send_def now_Some proxy_polled_def split: prod.split result.split)
  have ret: "returned (recipient_send True cd mid (rr_actor_id a) call rx msg w)" "returned (recipient_do_send cd mid (rr_actor_id a) call msg w)"
    if "\<And>b q. returned (call b q)" for call :: "('r, 'ctx) binary_message \<Rightarrow> 'q \<Rightarrow> (unit, unit) sent option \<times> 'q" and rx msg w
    using that by (auto simp: recipient_send_def recipient_do_send_def Let_def returned_polled_proxy split: prod.split result.split)
  have kept: "plog (rw_proxy (snd (recipient_send True cd mid (rr_actor_id a) call rx msg w))) = plog (rw_proxy w)"
    "plog (rw_proxy (snd (recipient_do_send cd mid (rr_actor_id a) call msg w))) = plog (rw_proxy w)"
    if "\<And>b q. plog (snd (call b q)) = plog q" for call :: "('r, 'ctx) binary_message \<Rightarrow> 'q \<Rightarrow> (unit, unit) sent option \<times> 'q" and rx msg w
    using that by (auto simp: recipient_send_def recipient_do_send_def Let_def proxy_polled_log split: prod.split result.split)
  show ?thesis
    by unfold_locales (simp_all add: recipient_sender_def try_send try_do_send send do_send ret kept
        proxy.do_send [OF assms] proxy.try_do_send [OF assms] proxy.do_send_timeout [OF assms] proxy.timeout_returns [OF assms]
        proxy.blocking_do_send [OF assms] proxy.blocking_in_async [OF assms])
qed

section \<open>Addresses keep the contract\<close>

lemma settled_on_local: "settled (\<lambda>cw. log (fst cw)) carries r msg cw (on_local f cw) = settled log carries r msg (fst cw) (f (fst cw))"
  by (cases "(log, carries, r, msg, fst cw, f (fst cw))" rule: settled.cases) (auto simp: on_local_def)

lemma settled_on_remote: "settled (\<lambda>cw. log (snd cw)) carries r msg cw (on_remote f cw) = settled log carries r msg (snd cw) (f (snd cw))"
  by (cases "(log, carries, r, msg, snd cw, f (snd cw))" rule: settled.cases) (auto simp: on_remote_def)

lemma now_on: "now (on_local f cw) = on_local (\<lambda>c. now (f c)) cw" "now (on_remote g dw) = on_remote (\<lambda>c. now (g c)) dw"
  by (simp_all add: now_def on_local_def on_remote_def split_beta)

lemma returned_on: "returned (on_local f cw) = returned (f (fst cw))" "returned (on_remote g dw) = returned (g (snd dw))"
  by (cases "f (fst cw)", simp add: on_local_def) (cases "g (snd dw)", simp add: on_remote_def)

lemma snd_on: "fst (snd (on_local f cw)) = snd (f (fst cw))" "snd (snd (on_remote g dw)) = snd (g (snd dw))"
  by (simp_all add: on_local_def on_remote_def split_beta)

lemma address_local_contract:
  assumes "sender a log carries"
  shows "sender (address_sender (Local a)) (\<lambda>cw. log (fst cw)) carries"
  by unfold_locales (simp_all add: address_sender_def settled_on_local now_on returned_on snd_on
      sender.send [OF assms] sender.do_send [OF assms] sender.try_send [OF assms] sender.try_do_send [OF assms]
      sender.send_timeout [OF assms] sender.do_send_timeout [OF assms] sender.timeout_returns [OF assms]
      sender.blocking_send [OF assms] sender.blocking_do_send [OF assms] sender.blocking_in_async [OF assms])

lemma address_remote_contract:
  assumes "sender a log carries"
  shows "sender (address_sender (Remote a)) (\<lambda>cw. log (snd cw)) carries"
  by unfold_locales (simp_all add: address_sender_def settled_on_remote now_on returned_on snd_on
      sender.send [OF assms] sender.do_send [OF assms] sender.try_send [OF assms] sender.try_do_send [OF assms]
      sender.send_timeout [OF assms] sender.do_send_timeout [OF assms] sender.timeout_returns [OF assms]
      sender.blocking_send [OF assms] sender.blocking_do_send [OF assms] sender.blocking_in_async [OF assms])

text \<open>The address of a session, its proxy, and a remote address through it, on the channel of the runtime.\<close>

interpretation session_px: proxy "session_proxy_ops (local_sender tokio_mpsc ty a)" ch_queue "\<lambda>b x. x = pack ty b None"
  by (rule session_proxy_contract [OF local_sender_contract [OF tokio_mpsc.mpsc_axioms]])

section \<open>Relaying\<close>

fun relay_pending :: "'m relay_phase \<Rightarrow> 'm list" where
  "relay_pending (Forwarding m) = [m]"
| "relay_pending _ = []"

definition relayed :: "('ch, 'm, 'b) relay_state \<Rightarrow> 'm list" where
  "relayed s = map snd (filter fst (rl_log s))"

text \<open>Nothing is lost while the task runs. It ends with messages left only when the consumer has closed its receiver,
  and then at most the message in hand is dropped.\<close>

definition relay_inv ::
  "('ch \<Rightarrow> 'm chan) \<Rightarrow> (('r, 'ctx) binary_message \<Rightarrow> 'm option) \<Rightarrow> 'm list \<Rightarrow> ('ch, 'm, ('r, 'ctx) binary_message) relay_state \<Rightarrow> bool" where
  "relay_inv view accepts q0 s \<longleftrightarrow>
     rl_arrived s = rl_taken s @ rl_in s \<and>
     rl_consumed s @ ch_queue (view (rl_out s)) = q0 @ map snd (rl_log s) \<and>
     (if rl_phase s = Finished
      then \<exists>dropped. length dropped \<le> 1 \<and> List.map_filter accepts (rl_taken s) = relayed s @ dropped \<and>
        (ch_closed (view (rl_out s)) \<or> rl_in s = [] \<and> rl_in_closed s \<and> dropped = [])
      else List.map_filter accepts (rl_taken s) = relayed s @ relay_pending (rl_phase s))"

lemma map_filter_snoc: "List.map_filter f (xs @ [x]) = List.map_filter f xs @ (case f x of None \<Rightarrow> [] | Some y \<Rightarrow> [y])"
  by (simp add: List.map_filter_def split: option.split)

context mpsc
begin

lemma mp_send_queue:
  "mp_send ops x c = Some (Ok u, c') \<Longrightarrow> queue c' = queue c @ [x] \<and> ch_closed (view c') = ch_closed (view c)"
  "mp_send ops x c = Some (Err y, c') \<Longrightarrow> queue c' = queue c \<and> ch_closed (view c) \<and> ch_closed (view c')"
  using send_view [of x c] by (auto simp: tokio_defs split: if_splits)

lemma mp_recv_queue:
  "mp_recv ops c = Some (Some x, c') \<Longrightarrow> queue c = x # queue c' \<and> ch_closed (view c') = ch_closed (view c)"
  using recv_view [of c] by (auto simp: tokio_defs split: if_splits list.splits)

lemma mp_close_queue: "queue (mp_close ops c) = queue c" "ch_closed (view (mp_close ops c))"
  by (simp_all add: close_view tokio_mpsc_def)

lemma mp_tx_closed_view: "mp_tx_closed ops c = ch_closed (view c)"
  by (simp add: observe_view tokio_mpsc_def)

lemma relay_step_inv: "relay_step ops accepts s s' \<Longrightarrow> relay_inv view accepts q0 s \<Longrightarrow> relay_inv view accepts q0 s'"
proof (induction rule: relay_step.induct)
  case (forward s m u c)
  then show ?case using mp_send_queue(1) [OF forward(2)] by (simp add: relay_inv_def relayed_def append_assoc [symmetric] del: append_assoc)
next
  case (lost s m m' c)
  then show ?case using mp_send_queue(2) [OF lost(2)] by (simp add: relay_inv_def relayed_def)
qed (auto simp: relay_inv_def relayed_def map_filter_snoc mp_tx_closed_view)

lemma relay_env_inv: "relay_env ops s s' \<Longrightarrow> relay_inv view accepts q0 s \<Longrightarrow> relay_inv view accepts q0 s'"
proof (induction rule: relay_env.induct)
  case (other m s u c)
  then have "rl_consumed s @ queue c = q0 @ map snd (rl_log s @ [(False, m)])" and "ch_closed (view c) = ch_closed (view (rl_out s))"
    using mp_send_queue(1) [OF other(1)] by (simp_all add: relay_inv_def append_assoc [symmetric] del: append_assoc)
  with other(2) show ?case by (auto simp: relay_inv_def relayed_def split: if_splits)
next
  case (consume s m c)
  then show ?case using mp_recv_queue [OF consume(1)] by (auto simp: relay_inv_def relayed_def split: if_splits)
qed (auto simp: relay_inv_def relayed_def mp_close_queue)

lemma relay_reachable_inv: "relay_reachable ops accepts c0 s \<Longrightarrow> relay_inv view accepts (queue c0) s"
proof (induction rule: relay_reachable.induct)
  case start
  then show ?case by (simp add: relay_inv_def relayed_def List.map_filter_def)
qed (auto intro: relay_step_inv relay_env_inv)

end

fun relay_weight :: "'m relay_phase \<Rightarrow> nat" where
  "relay_weight Finished = 0"
| "relay_weight Selecting = 1"
| "relay_weight (Forwarding _) = 2"

definition relay_measure :: "('ch, 'm, 'b) relay_state \<Rightarrow> nat" where
  "relay_measure s = 2 * length (rl_in s) + relay_weight (rl_phase s)"

lemma relay_step_decreases: "relay_step ops accepts s s' \<Longrightarrow> relay_measure s' < relay_measure s"
  by (induction rule: relay_step.induct) (auto simp: relay_measure_def)

text \<open>Enough room for everything that may still be forwarded, or no consumer.\<close>

definition relay_room :: "('ch \<Rightarrow> 'm chan) \<Rightarrow> ('ch, 'm, 'b) relay_state \<Rightarrow> bool" where
  "relay_room view s \<longleftrightarrow> ch_closed (view (rl_out s)) \<or>
     length (rl_in s) + length (relay_pending (rl_phase s)) \<le> ch_free (view (rl_out s))"

text \<open>With an open consumer the own steps move what is left into the channel, in order.\<close>

definition relay_total :: "(('r, 'ctx) binary_message \<Rightarrow> 'm option) \<Rightarrow> ('ch, 'm, ('r, 'ctx) binary_message) relay_state \<Rightarrow> (bool \<times> 'm) list" where
  "relay_total accepts s = rl_log s @ map (Pair True) (relay_pending (rl_phase s) @ List.map_filter accepts (rl_in s))"

context mpsc
begin

lemma relay_room_step: "relay_step ops accepts s s' \<Longrightarrow> relay_room view s \<Longrightarrow> relay_room view s'"
proof (induction rule: relay_step.induct)
  case (forward s m u c)
  then show ?case
    using send_view [of m "rl_out s"] by (auto simp: relay_room_def tokio_defs ch_free_def split: if_splits)
next
  case (lost s m m' c)
  then show ?case
    using send_view [of m "rl_out s"] by (auto simp: relay_room_def tokio_defs split: if_splits)
qed (auto simp: relay_room_def)

lemma relay_step_closed:
  "relay_step ops accepts s s' \<Longrightarrow> rl_in_closed s' = rl_in_closed s \<and> ch_closed (view (rl_out s')) = ch_closed (view (rl_out s))"
  by (induction rule: relay_step.induct) (auto dest: mp_send_queue)

lemma relay_step_total:
  "relay_step ops accepts s s' \<Longrightarrow> \<not> ch_closed (view (rl_out s)) \<Longrightarrow>
     relay_total accepts s' = relay_total accepts s \<and> (rl_phase s' = Finished \<longrightarrow> rl_in s' = [])"
  by (induction rule: relay_step.induct)
    (auto simp: relay_total_def List.map_filter_def mp_tx_closed_view dest: mp_send_queue)

lemma relay_steps_kept:
  assumes "(relay_step ops accepts)\<^sup>*\<^sup>* s s'" and "relay_room view s" and "rl_in_closed s" and "rl_phase s \<noteq> Finished"
  shows "relay_room view s' \<and> rl_in_closed s' \<and> ch_closed (view (rl_out s')) = ch_closed (view (rl_out s)) \<and>
    (\<not> ch_closed (view (rl_out s)) \<longrightarrow> relay_total accepts s' = relay_total accepts s \<and> (rl_phase s' = Finished \<longrightarrow> rl_in s' = []))"
  using assms
proof (induction rule: rtranclp_induct)
  case (step s1 s2)
  then show ?case
    using relay_room_step [OF step(2)] relay_step_closed [OF step(2)] relay_step_total [OF step(2)] by simp
qed simp

lemma relay_progress:
  assumes "relay_room view s" and "rl_in_closed s" and "rl_phase s \<noteq> Finished"
  shows "\<exists>s'. relay_step ops accepts s s'"
proof (cases "rl_phase s")
  case Selecting
  show ?thesis
  proof (cases "rl_in s")
    case Nil
    with Selecting assms(2) show ?thesis by (blast intro: relay_step.in_closed)
  next
    case (Cons b bs)
    with Selecting show ?thesis
      by (cases "accepts b") (blast intro: relay_step.skip relay_step.take)+
  qed
next
  case (Forwarding m)
  with assms(1) have "mp_send tokio_mpsc m (view (rl_out s)) \<noteq> None"
    by (auto simp: relay_room_def tokio_defs)
  then have "mp_send ops m (rl_out s) \<noteq> None" using send_view [of m "rl_out s"] by auto
  then obtain r c where rc: "mp_send ops m (rl_out s) = Some (r, c)" by auto
  show ?thesis
  proof (cases r)
    case (Ok u)
    from relay_step.forward [OF Forwarding rc [unfolded Ok]] show ?thesis by blast
  next
    case (Err m')
    from relay_step.lost [OF Forwarding rc [unfolded Err]] show ?thesis by blast
  qed
qed (use assms(3) in simp)

end

lemma relay_steps_bounded:
  "(relay_step ops accepts ^^ n) s s' \<Longrightarrow> n + relay_measure s' \<le> relay_measure s"
proof (induction n arbitrary: s')
  case (Suc n)
  then obtain s1 where "(relay_step ops accepts ^^ n) s s1" "relay_step ops accepts s1 s'" by auto
  with Suc.IH relay_step_decreases show ?case by fastforce
qed auto

lemma recipient_from_address_contract:
  "sender (address_sender inner) log carries \<Longrightarrow> sender (recipient_from_address inner) log carries"
  unfolding recipient_from_address_def address_as_sender_def
  by (rule recipient_of_contract) (cases "address_sender inner", simp)

section \<open>Properties\<close>

text \<open>The worlds that the eight calls leave.\<close>

definition worlds_after :: "('w, 'm, 'r) sender_ops \<Rightarrow> bool \<Rightarrow> bool \<Rightarrow> 'r \<Rightarrow> 'm \<Rightarrow> 'w \<Rightarrow> 'w set" where
  "worlds_after s elapsed in_async rx msg w =
     {snd (sd_send s rx msg w), snd (sd_do_send s msg w), snd (sd_try_send s rx msg w), snd (sd_try_do_send s msg w),
      snd (sd_send_timeout s elapsed rx msg w), snd (sd_do_send_timeout s elapsed msg w),
      snd (sd_blocking_send s in_async rx msg w), snd (sd_blocking_do_send s in_async msg w)}"

lemma proxy_ctx [simp]:
  "rw_ctx (snd (proxy_answer rt rx tasks msg out w)) = rw_ctx w" "rw_ctx (snd (proxy_polled rt rx tasks msg p w)) = rw_ctx w"
  by (auto simp: proxy_answer_def proxy_polled_def split: outcome.split result.split prod.split option.split)

lemma recipient_encode_ctx: "snd (recipient_encode cd msg ec) = snd (encode_to_bytes cd msg ec)"
  by (auto simp: recipient_encode_def split: prod.split result.split)

lemma remote_contexts:
  "rw_ctx ` worlds_after (remote_sender rt a ty) elapsed in_async rx msg w = {snd (remote_encode (ra_codec_table a) ty msg (rw_ctx w))}"
  by (cases "remote_encode (ra_codec_table a) ty msg (rw_ctx w)"; cases "fst (remote_encode (ra_codec_table a) ty msg (rw_ctx w))")
    (simp_all add: worlds_after_def remote_sender_def remote_send_def remote_do_send_def remote_try_send_def remote_try_do_send_def
      remote_send_timeout_def remote_do_send_timeout_def remote_blocking_send_def remote_blocking_do_send_def split_beta)

lemma recipient_contexts:
  "rw_ctx ` worlds_after (recipient_sender rt cd mid a) elapsed in_async rx msg w = {snd (encode_to_bytes cd msg (rw_ctx w))}"
  unfolding recipient_encode_ctx [symmetric]
  by (cases "recipient_encode cd msg (rw_ctx w)"; cases "fst (recipient_encode cd msg (rw_ctx w))")
    (simp_all add: worlds_after_def recipient_sender_def recipient_send_def recipient_do_send_def recipient_try_send_def
      recipient_try_do_send_def split_beta Let_def)

text \<open>C10. A message to an actor in another process is handed to its session once or returned: each of the
  eight ways to send through a remote address, a recipient made from it or a remote recipient, over the proxy of a session,
  appends exactly one envelope to the mailbox of the session, holding the bytes that the codec of the
  message's type made of it, under the local index of the actor and the message's id, with a response
  channel exactly when one was asked for; or it returns the message and leaves the mailbox alone. Encoding comes first and its
  effect stays: after each of these calls, whether or not the message was accepted, the encode context (the mailboxes registered for the
  addresses in the message) is as encoding left it. (The caller is in a runtime, or uses a blocking operation.)\<close>

theorem remote_address_delivers:
  fixes a :: "('ty, 'm, 'd, 'ec, 'dc, 'ch, ('r, 'ctx) binary_message) remote_address"
    and rr :: "('ch, ('r, 'ctx) binary_message) remote_recipient"
  assumes "mpsc ops view" and "ra_proxy a = session_proxy_ops (local_sender ops sty sa)"
    and "rr_proxy rr = session_proxy_ops (local_sender ops sty sa)"
  shows "sender (address_sender (Remote (remote_sender True a ty)) ::
        ('c \<times> ('ty, 'm, 'd, 'ec, 'dc, 'ch, 'r) rw, 'm, 'r) sender_ops)
      (\<lambda>cw. ch_queue (view (rw_proxy (snd cw))))
      (\<lambda>msg ro x. \<exists>codec ec ec' bytes. ra_codec_table a ty = Some codec \<and> mc_encode_msg codec msg ec = (Ok bytes, ec') \<and>
         x = pack sty (binary_of (as_local (ra_actor_id a)) (mc_message_id codec) bytes ro) None) \<and>
    sender (recipient_from_address (Remote (remote_sender True a ty)) ::
        ('c \<times> ('ty, 'm, 'd, 'ec, 'dc, 'ch, 'r) rw, 'm, 'r) sender_ops)
      (\<lambda>cw. ch_queue (view (rw_proxy (snd cw))))
      (\<lambda>msg ro x. \<exists>codec ec ec' bytes. ra_codec_table a ty = Some codec \<and> mc_encode_msg codec msg ec = (Ok bytes, ec') \<and>
         x = pack sty (binary_of (as_local (ra_actor_id a)) (mc_message_id codec) bytes ro) None) \<and>
    sender (recipient_sender True cd mid rr) (\<lambda>w. ch_queue (view (rw_proxy w)))
      (\<lambda>msg ro x. \<exists>ec ec' bytes. encode_to_bytes cd msg ec = (Ok bytes, ec') \<and>
         x = pack sty (binary_of (as_local (rr_actor_id rr)) mid bytes ro) None) \<and>
    (\<forall>rx msg elapsed in_async w. rw_ctx ` worlds_after (remote_sender rt a ty) elapsed in_async rx msg w =
       {snd (remote_encode (ra_codec_table a) ty msg (rw_ctx w))}) \<and>
    (\<forall>rx msg elapsed in_async w. rw_ctx ` worlds_after (recipient_sender rt cd mid rr) elapsed in_async rx msg w =
       {snd (encode_to_bytes cd msg (rw_ctx w))})"
proof (intro conjI)
  have px: "proxy (session_proxy_ops (local_sender ops sty sa)) (\<lambda>c. ch_queue (view c)) (\<lambda>b x. x = pack sty b None)"
    by (rule session_proxy_contract [OF local_sender_contract [OF assms(1)]])
  note r = address_remote_contract [OF remote_sender_contract [OF px [folded assms(2)]]]
  show "sender (address_sender (Remote (remote_sender True a ty)) ::
        ('c \<times> ('ty, 'm, 'd, 'ec, 'dc, 'ch, 'r) rw, 'm, 'r) sender_ops)
      (\<lambda>cw. ch_queue (view (rw_proxy (snd cw))))
      (\<lambda>msg ro x. \<exists>codec ec ec' bytes. ra_codec_table a ty = Some codec \<and> mc_encode_msg codec msg ec = (Ok bytes, ec') \<and>
         x = pack sty (binary_of (as_local (ra_actor_id a)) (mc_message_id codec) bytes ro) None)"
    using r [of ty] unfolding remote_carries_def .
  then show "sender (recipient_from_address (Remote (remote_sender True a ty)) ::
        ('c \<times> ('ty, 'm, 'd, 'ec, 'dc, 'ch, 'r) rw, 'm, 'r) sender_ops)
      (\<lambda>cw. ch_queue (view (rw_proxy (snd cw))))
      (\<lambda>msg ro x. \<exists>codec ec ec' bytes. ra_codec_table a ty = Some codec \<and> mc_encode_msg codec msg ec = (Ok bytes, ec') \<and>
         x = pack sty (binary_of (as_local (ra_actor_id a)) (mc_message_id codec) bytes ro) None)"
    by (rule recipient_from_address_contract)
  show "sender (recipient_sender True cd mid rr) (\<lambda>w. ch_queue (view (rw_proxy w)))
      (\<lambda>msg ro x. \<exists>ec ec' bytes. encode_to_bytes cd msg ec = (Ok bytes, ec') \<and>
         x = pack sty (binary_of (as_local (rr_actor_id rr)) mid bytes ro) None)"
    using recipient_sender_contract [OF px [folded assms(3)], of cd mid] unfolding recipient_carries_def .
  show "\<forall>rx msg elapsed in_async w. rw_ctx ` worlds_after (remote_sender rt a ty) elapsed in_async rx msg w =
       {snd (remote_encode (ra_codec_table a) ty msg (rw_ctx w))}"
    by (simp add: remote_contexts)
  show "\<forall>rx msg elapsed in_async w. rw_ctx ` worlds_after (recipient_sender rt cd mid rr) elapsed in_async rx msg w =
       {snd (encode_to_bytes cd msg (rw_ctx w))}"
    by (simp add: recipient_contexts)
qed

text \<open>Outside a runtime, \<open>try_send\<close> of a remote address has queued the message when it panics.\<close>

theorem try_send_outside_runtime:
  assumes "remote_encode (ra_codec_table a) ty msg (rw_ctx w) = (Ok (bytes, codec), ec)"
    and "px_try_do_send (ra_proxy a) (binary_send (as_local (ra_actor_id a)) (mc_message_id codec) bytes rx) (rw_proxy w) = (Ret (Ok u), q)"
  shows "fst (remote_try_send False a ty rx msg w) = Panic NO_RUNTIME \<and> rw_proxy (snd (remote_try_send False a ty rx msg w)) = q"
  using assms by (simp add: remote_try_send_def proxy_answer_def)

definition demo_address :: "(unit, u8, unit, unit, unit, (unit, (nat, unit) binary_message, unit) envelope chan,
    (nat, unit) binary_message) remote_address" where
  "demo_address = \<lparr>ra_actor_id = actor_id_new_remote 7 3,
     ra_codec_table = (\<lambda>_. Some \<lparr>mc_message_id = 9, mc_encode_msg = (\<lambda>m ec. (Ok [m], ec)), mc_decode_res = (\<lambda>_ _. Ok ())\<rparr>),
     ra_proxy = session_proxy_ops (local_sender tokio_mpsc () \<lparr>la_index = 3\<rparr>)\<rparr>"

definition demo_world :: "(unit, u8, unit, unit, unit, (unit, (nat, unit) binary_message, unit) envelope chan, nat) rw" where
  "demo_world = \<lparr>rw_ctx = (), rw_proxy = \<lparr>ch_queue = [], ch_reserved = 0, ch_max = 1, ch_closed = False, ch_senders = 1\<rparr>,
     rw_tasks = []\<rparr>"

theorem remote_address_delivers_witness:
  "settled (\<lambda>cw. ch_queue (rw_proxy (snd cw)))
     (\<lambda>x. \<exists>codec ec ec' bytes. ra_codec_table demo_address () = Some codec \<and> mc_encode_msg codec 5 ec = (Ok bytes, ec') \<and>
        x = pack () (binary_of 7 (mc_message_id codec) bytes None) None) () 5 ((), demo_world)
     (now (sd_try_do_send (address_sender (Remote (remote_sender True demo_address ()))) 5 ((), demo_world))) \<and>
   is_ok (case fst (sd_try_do_send (address_sender (Remote (remote_sender True demo_address ()))) 5 ((), demo_world)) of Ret r \<Rightarrow> r)"
proof -
  have px: "ra_proxy demo_address = session_proxy_ops (local_sender tokio_mpsc () \<lparr>la_index = 3\<rparr>)"
    and idx: "as_local (ra_actor_id demo_address) = 7"
    by (simp_all add: demo_address_def actor_id_new_remote_def as_local_def)
  let ?rr = "\<lparr>rr_actor_id = actor_id_new_remote 7 3, rr_proxy = session_proxy_ops (local_sender tokio_mpsc () \<lparr>la_index = 3\<rparr>)\<rparr>"
  have rr: "rr_proxy ?rr = session_proxy_ops (local_sender tokio_mpsc () \<lparr>la_index = 3\<rparr>)" by simp
  have "is_ok (case fst (sd_try_do_send (address_sender (Remote (remote_sender True demo_address ()))) 5 ((), demo_world)) of Ret r \<Rightarrow> r)"
    by (simp add: address_sender_def on_remote_def remote_sender_def remote_try_do_send_def remote_encode_def demo_address_def
        demo_world_def session_proxy_ops_def local_sender_def local_try_do_send_def tokio_mpsc_def ch_free_def drop_msg_def
        proxy_answer_def result_defs)
  with remote_address_delivers [OF tokio_mpsc.mpsc_axioms px rr, where ty = "()", THEN conjunct1, THEN sender.try_do_send]
  show ?thesis unfolding idx by blast
qed

text \<open>The answer of a remote actor reaches the waiting caller as one reply: what the peer encoded is
  decoded, by the table's codec or by the message's own, to the value it stands for; a lost connection
  and an undecodable answer become an error; and only a caller that went away gets nothing.\<close>

theorem remote_answer_decoded:
  assumes "codec_laws cd fits rel" and "encode_to_bytes cd res ec = (Ok bytes, ec')" and "cd_len cd res < 2 ^ 64"
    and "fits dc res addr"
    and "mc_decode_res codec = (\<lambda>dc b. map_ok inject (cd_decode cd dc b))" and "\<And>v. downcast (inject v) = Some v"
  shows "\<exists>v. rel dc res v \<and> decode_res_with_bound cd dc tx (RawAnswer (Ok bytes) addr) = [Reply tx v] \<and>
      decode_res downcast codec dc tx (RawAnswer (Ok bytes) addr) = [Reply tx v] \<and>
      decode_res downcast codec dc tx (RawAnswer (Err e) addr) = [ReplyErr tx (recv_error_box e)] \<and>
      (\<forall>input. length (decode_res downcast codec dc tx input) = (if input = TxClosed then 0 else 1) \<and>
        decode_res downcast codec dc tx input = decode_res_with_bound cd dc tx input)"
proof -
  obtain v where v: "cd_decode cd dc \<lparr>b_addr = addr, b_bytes = bytes\<rparr> = Ok v" "rel dc res v"
    using codec_laws.to_bytes(2) [OF assms(1-3)] assms(4) by blast
  have eq: "decode_res downcast codec dc tx input = decode_res_with_bound cd dc tx input" for input
    by (auto simp: decode_res_def decode_res_with_bound_def assms(5,6) split: decode_input.split result.split)
  have "length (decode_res_with_bound cd dc tx input) = (if input = TxClosed then 0 else 1)" for input
    by (auto simp: decode_res_with_bound_def split: decode_input.split result.split)
  with v show ?thesis
    by (intro exI [where x = v]) (simp add: eq, simp add: decode_res_with_bound_def)
qed

theorem remote_answer_decoded_witness:
  "\<exists>v. v = (513 :: 16 word) \<and> decode_res_with_bound (word_codec zc_std :: (16 word, unit, unit) codec) () (0 :: nat) (RawAnswer (Ok [1, 2]) 0) = [Reply 0 v]"
proof -
  let ?cd = "word_codec zc_std :: (16 word, unit, unit) codec"
  let ?codec = "\<lparr>mc_message_id = 0, mc_encode_msg = (\<lambda>(_ :: unit) ec. (Ok [], ec)), mc_decode_res = (\<lambda>dc b. map_ok (\<lambda>v. v) (cd_decode ?cd dc b))\<rparr>"
  have laws: "codec_laws ?cd always same" by (rule zc_std.word_laws) simp
  have enc: "encode_to_bytes ?cd 513 () = (Ok [1, 2], ())"
    by (simp add: encode_to_bytes_def word_codec_def Let_def le_bytes_numeral)
  have len: "cd_len ?cd 513 < 2 ^ 64" by (simp add: word_codec_def Let_def)
  show ?thesis
    using remote_answer_decoded [OF laws enc len TrueI, where codec = ?codec and inject = "\<lambda>v. v" and downcast = Some
        and tx = "0 :: nat" and e = RecvClosed and dc = "()" and addr = 0] by auto
qed

text \<open>C18. A recipient that was sent to another process relays faithfully, next to the other senders of its channel. In every
  reachable state of its relay: what arrived was taken in order; the consumer has received, and its channel holds, what was in the
  channel at first and then what the relay and the other senders put there, in that order; and the relay put there, in order
  and each once, the decodable messages for this recipient among those it took, but for the one it is
  forwarding. It ends only when the peers are gone and everything that arrived has been relayed, or when the consumer has closed its
  receiver, and then at most one message that it took is dropped.\<close>

theorem relay_faithful:
  assumes "mpsc ops view" and "relay_reachable ops (relay_accepts index mid decode) c0 s"
  shows "rl_arrived s = rl_taken s @ rl_in s \<and>
    rl_consumed s @ ch_queue (view (rl_out s)) = ch_queue (view c0) @ map snd (rl_log s) \<and>
    (\<exists>rest. List.map_filter (relay_accepts index mid decode) (rl_taken s) = map snd (filter fst (rl_log s)) @ rest \<and>
      (if rl_phase s = Finished then length rest \<le> 1 else rest = relay_pending (rl_phase s))) \<and>
    (rl_phase s = Finished \<and> \<not> ch_closed (view (rl_out s)) \<longrightarrow> rl_in s = [] \<and> rl_in_closed s \<and>
      map snd (filter fst (rl_log s)) = List.map_filter (relay_accepts index mid decode) (rl_arrived s))"
  using mpsc.relay_reachable_inv [OF assms] by (auto simp: relay_inv_def relayed_def split: if_splits)

text \<open>A channel with a message in it; a foreign message and one for the recipient arrive, and another sender sends.\<close>

abbreviation relay_c0 :: "bytes chan" where
  "relay_c0 \<equiv> \<lparr>ch_queue = [[1]], ch_reserved = 0, ch_max = 3, ch_closed = False, ch_senders = 1\<rparr>"

theorem relay_faithful_witness:
  "let b = binary_do_send 7 9 [5] :: (nat, unit) binary_message; b' = binary_do_send 8 9 [6];
       s = \<lparr>rl_in = [], rl_in_closed = False, rl_out = relay_c0\<lparr>ch_queue := [[1], [2]]\<rparr>, rl_phase = Forwarding [5], rl_arrived = [b', b],
         rl_taken = [b', b], rl_log = [(False, [2])], rl_consumed = []\<rparr>
   in relay_reachable tokio_mpsc (relay_accepts 7 9 (\<lambda>_ bs. Ok bs)) relay_c0 s \<and>
      (\<exists>rest. List.map_filter (relay_accepts 7 9 (\<lambda>_ bs. Ok bs)) (rl_taken s) = rest \<and> rest = [[5]])"
proof -
  let ?b = "binary_do_send 7 9 [5] :: (nat, unit) binary_message" and ?b' = "binary_do_send 8 9 [6] :: (nat, unit) binary_message"
  let ?acc = "relay_accepts 7 9 (\<lambda>_ bs. Ok bs) :: (nat, unit) binary_message \<Rightarrow> bytes option"
  let ?r = "relay_reachable tokio_mpsc ?acc relay_c0"
  let ?c = "relay_c0\<lparr>ch_queue := [[1], [2]]\<rparr>"
  let ?s = "\<lambda>i c ph a t l. \<lparr>rl_in = i, rl_in_closed = False, rl_out = c, rl_phase = ph, rl_arrived = a, rl_taken = t, rl_log = l, rl_consumed = []\<rparr>"
  have acc: "?acc ?b = Some [5]" "?acc ?b' = None" by (simp_all add: relay_accepts_def binary_do_send_def)
  have "?r (?s [?b'] relay_c0 Selecting [?b'] [] [])"
    using relay_reachable.env [OF relay_reachable.start relay_env.arrive [where b = ?b']] by simp
  from relay_reachable.env [OF this relay_env.arrive [where b = ?b]] have "?r (?s [?b', ?b] relay_c0 Selecting [?b', ?b] [] [])" by simp
  from relay_reachable.own [OF this relay_step.skip [of _ ?b' "[?b]"]] acc(2) have "?r (?s [?b] relay_c0 Selecting [?b', ?b] [?b'] [])" by simp
  from relay_reachable.own [OF this relay_step.take [of _ ?b "[]" _ "[5]"]] acc(1)
  have "?r (?s [] relay_c0 (Forwarding [5]) [?b', ?b] [?b', ?b] [])" by simp
  moreover have "mp_send tokio_mpsc [2] relay_c0 = Some (Ok (), ?c)" by (simp add: tokio_defs ch_free_def)
  ultimately have reach: "?r (?s [] ?c (Forwarding [5]) [?b', ?b] [?b', ?b] [(False, [2])])"
    using relay_reachable.env [OF _ relay_env.other [where m = "[2]" and u = "()" and c = ?c]] by fastforce
  with relay_faithful [OF tokio_mpsc.mpsc_axioms reach] show ?thesis by simp
qed



end
