(* ===== verification/Address_Keys.thy ===== *)
theory Address_Keys
  imports Remote_Address
begin

text \<open>
  How addresses and recipients are made, copied, converted and compared (\<open>acktor/src/address.rs\<close>,
  \<open>address/recipient.rs\<close>, \<open>address/remote.rs\<close>). They are the keys of the maps and sets that hold children, sessions and
  observers, by their index.
\<close>

section \<open>Making addresses\<close>

text \<open>Types of the handles that the constructors give: the sender of a mailbox, and the sender of a proxy, used within
  a runtime.\<close>

definition address_new ::
  "('ch, 'ty, 'm, 'r) mailbox_ops \<Rightarrow> 'ty \<Rightarrow> u64 \<Rightarrow> (('ch, 'm, 'r) sender_ops, 'q) address \<times> u64" where
  "address_new ops ty counter =
     (case local_address_new counter of (a, counter') \<Rightarrow> (Local (local_sender ops ty a), counter'))"

definition address_new_remote ::
  "('ty, 'm, 'd, 'ec, 'dc) codec_table \<Rightarrow> 'ty \<Rightarrow> u64 \<Rightarrow> ('q, ('r, 'ctx) binary_message) proxy_ops \<Rightarrow>
   ('l, (('ty, 'm, 'd, 'ec, 'dc, 'q, 'r) rw, 'm, 'r) sender_ops) address outcome" where
  "address_new_remote codec_table ty index px =
     map_outcome (\<lambda>a. Remote (remote_sender True a ty)) (remote_address_new index codec_table px)"

definition recipient_new :: "('w, 'm, 'r) sender_ops \<Rightarrow> ('w, 'm, 'r) sender_ops" where
  "recipient_new tx = recipient_of tx"

definition recipient_new_remote ::
  "('m, 'ec, 'dc) codec \<Rightarrow> u64 \<Rightarrow> u64 \<Rightarrow> ('q, ('r, 'ctx) binary_message) proxy_ops \<Rightarrow>
   (('ec, 'q, 'r) rrw, 'm, 'r) sender_ops outcome" where
  "recipient_new_remote cd mid index px =
     map_outcome (\<lambda>a. recipient_new (recipient_sender True cd mid a)) (remote_recipient_new index px)"

definition address_from_local :: "('c, 'm, 'r) sender_ops \<Rightarrow> (('c, 'm, 'r) sender_ops, 'q) address" where
  "address_from_local addr = Local addr"

definition address_from_remote :: "('w, 'm, 'r) sender_ops \<Rightarrow> ('l, ('w, 'm, 'r) sender_ops) address" where
  "address_from_remote addr = Remote addr"

text \<open>Copying a local address makes one more sender of its channel.\<close>

definition address_clone :: "('c, 'x) mpsc_ops \<Rightarrow> ('l, 'q) address \<Rightarrow> 'c \<Rightarrow> ('l, 'q) address \<times> 'c" where
  "address_clone ops inner c = (case inner of Local a \<Rightarrow> (Local a, mp_clone_tx ops c) | Remote a \<Rightarrow> (Remote a, c))"

section \<open>Comparing\<close>

abbreviation address_index :: "(('c, 'm, 'r) sender_ops, ('w, 'm, 'r) sender_ops) address \<Rightarrow> actor_id" where
  "address_index inner \<equiv> sd_index (address_sender inner)"

definition address_eq ::
  "(('c, 'm, 'r) sender_ops, ('w, 'm, 'r) sender_ops) address \<Rightarrow> (('c, 'm, 'r) sender_ops, ('w, 'm, 'r) sender_ops) address \<Rightarrow> bool" where
  "address_eq a b \<longleftrightarrow> address_index a = address_index b"

definition address_hash ::
  "(actor_id \<Rightarrow> 'h \<Rightarrow> 'h) \<Rightarrow> (('c, 'm, 'r) sender_ops, ('w, 'm, 'r) sender_ops) address \<Rightarrow> 'h \<Rightarrow> 'h" where
  "address_hash hash_id a state = hash_id (address_index a) state"

text \<open>The addresses of \<open>n\<close> actors started one after the other.\<close>

fun addresses_new ::
  "('ch, 'ty, 'm, 'r) mailbox_ops \<Rightarrow> 'ty \<Rightarrow> nat \<Rightarrow> u64 \<Rightarrow> (('ch, 'm, 'r) sender_ops, 'q) address list" where
  "addresses_new ops ty 0 counter = []"
| "addresses_new ops ty (Suc n) counter =
     (case address_new ops ty counter of (a, counter') \<Rightarrow> a # addresses_new ops ty n counter')"

section \<open>Addresses as keys\<close>

lemma address_new_index:
  "address_index (fst (address_new ops ty counter)) = actor_id_new counter"
  "snd (address_new ops ty counter) = counter + 1"
  by (simp_all add: address_new_def address_sender_def local_address_new_def next_actor_id_def local_sender_def local_index_def)

lemma addresses_new_indices:
  "map address_index (addresses_new ops ty n counter) = map actor_id_new (fst (allocate_ids n counter))"
proof (induction n arbitrary: counter)
  case (Suc n)
  show ?case
    by (simp add: split_beta next_actor_id_def address_new_index Suc.IH [of "counter + 1"])
qed simp

lemma remote_index_differs: "session \<noteq> 0 \<Longrightarrow> actor_id_new_remote index session \<noteq> actor_id_new i"
  by (simp add: actor_id_new_remote_def actor_id_new_def)

text \<open>Addresses are good keys. Equality is by the index, an equivalence, and equal addresses have equal
  hashes; a copy and the recipient made from an address are equal to it. The addresses of fewer
  than \<open>2^64\<close> actors of this process are pairwise different; the address of an actor of another process differs from all of
  them, and two such addresses are equal exactly when both the index and the session agree.\<close>

theorem addresses_as_keys:
  fixes a b :: "(('ch, 'm, 'r) sender_ops, (('ty, 'm, 'd, 'ec, 'dc, 'q, 'r) rw, 'm, 'r) sender_ops) address"
  assumes "n \<le> 2 ^ 64" and "px_index px = Ret session" and "session \<noteq> 0" and "px_index px' = Ret session'"
    and "address_new_remote tbl ty i px = Ret a" and "address_new_remote tbl' ty' j px' = Ret b"
  shows "equivp (address_eq :: (('ch, 'm, 'r) sender_ops, (('ty, 'm, 'd, 'ec, 'dc, 'q, 'r) rw, 'm, 'r) sender_ops) address \<Rightarrow> _) \<and>
    (address_eq x y \<longrightarrow> address_hash h x = address_hash h y) \<and>
    address_eq (fst (address_clone cops x c)) x \<and> recipient_eq (recipient_from_address x) (address_sender x) \<and>
    (let as = addresses_new ops ty n counter
     in (\<forall>k < n. \<forall>l < n. address_eq (as ! k) (as ! l) \<longleftrightarrow> k = l) \<and> (\<forall>x \<in> set as. \<not> address_eq a x)) \<and>
    (address_eq a b \<longleftrightarrow> i = j \<and> session = session')"
proof -
  let ?as = "addresses_new ops ty n counter :: (('ch, 'm, 'r) sender_ops, (('ty, 'm, 'd, 'ec, 'dc, 'q, 'r) rw, 'm, 'r) sender_ops) address list"
  have ia: "address_index a = actor_id_new_remote i session" and ib: "address_index b = actor_id_new_remote j session'"
    using assms by (auto simp: address_new_remote_def remote_address_new_def address_sender_def remote_sender_def)
  have ids: "map address_index ?as = map actor_id_new (fst (allocate_ids n counter))" by (rule addresses_new_indices)
  have "inj actor_id_new" by (rule injI) (simp add: actor_id_new_def)
  moreover have "distinct (fst (allocate_ids n counter))"
    using assms(1) by (auto simp: allocate_ids_eq distinct_map inj_on_def intro: word_of_nat_inj_64)
  ultimately have d: "distinct (map address_index ?as)" unfolding ids by (auto simp: distinct_map intro: inj_on_subset)
  have len: "length ?as = n" using arg_cong [OF ids, of length] by (simp add: allocate_ids_eq)
  have other: "\<not> address_eq a x" if "x \<in> set ?as" for x
  proof -
    have "address_index x \<in> set (map address_index ?as)" using that by auto
    then show ?thesis using remote_index_differs [OF assms(3)] by (auto simp: ids address_eq_def ia)
  qed
  have "equivp (address_eq :: (('ch, 'm, 'r) sender_ops, (('ty, 'm, 'd, 'ec, 'dc, 'q, 'r) rw, 'm, 'r) sender_ops) address \<Rightarrow> _)"
    by (rule equivpI) (auto simp: address_eq_def reflp_def symp_def transp_def)
  moreover have "address_eq (?as ! k) (?as ! l) \<longleftrightarrow> k = l" if "k < n" "l < n" for k l
    using nth_eq_iff_index_eq [OF d, of k l] that by (simp add: address_eq_def len)
  moreover have "(address_eq x y \<longrightarrow> address_hash h x = address_hash h y) \<and> address_eq (fst (address_clone cops x c)) x \<and>
      recipient_eq (recipient_from_address x) (address_sender x)"
    by (auto simp: address_hash_def address_eq_def address_clone_def recipient_eq_def recipient_from_address_def
        recipient_of_def address_as_sender_def Let_def split: address.split)
  moreover have "address_eq a b \<longleftrightarrow> i = j \<and> session = session'"
    by (simp add: address_eq_def ia ib actor_id_new_remote_def)
  ultimately show ?thesis using other by (simp only: Let_def) blast
qed

theorem addresses_as_keys_witness:
  "let px = \<lambda>s. session_proxy_ops (local_sender tokio_mpsc () \<lparr>la_index = s\<rparr>) ::
         ((unit, (nat, unit) binary_message, unit) envelope chan, (nat, unit) binary_message) proxy_ops;
       tbl = (\<lambda>_. None) :: (unit, u8, unit, unit, unit) codec_table
   in case (address_new_remote tbl () 7 (px 3), address_new_remote tbl () 7 (px 4)) of
        (Ret a, Ret b) \<Rightarrow> \<not> address_eq a b \<and> \<not> address_eq a (addresses_new tokio_mpsc () 9 0 ! 7)
      | _ \<Rightarrow> False"
proof -
  let ?px = "\<lambda>s. session_proxy_ops (local_sender tokio_mpsc () \<lparr>la_index = s\<rparr>) ::
         ((unit, (nat, unit) binary_message, unit) envelope chan, (nat, unit) binary_message) proxy_ops"
  let ?tbl = "(\<lambda>_. None) :: (unit, u8, unit, unit, unit) codec_table"
  have px: "px_index (?px 3) = Ret 3" "px_index (?px 4) = Ret 4"
    by (simp_all add: session_proxy_ops_def local_sender_def local_index_def)
  obtain a b :: "(((unit, u8, nat) envelope chan, u8, nat) sender_ops, ((unit, u8, unit, unit, unit,
      (unit, (nat, unit) binary_message, unit) envelope chan, nat) rw, u8, nat) sender_ops) address"
    where a: "address_new_remote ?tbl () 7 (?px 3) = Ret a" and b: "address_new_remote ?tbl () 7 (?px 4) = Ret b"
    by (simp add: address_new_remote_def remote_address_new_def px)
  note keys = addresses_as_keys [OF _ px(1) _ px(2) a b, where n = 9 and ops = tokio_mpsc and counter = 0,
    unfolded Let_def, THEN conjunct2, THEN conjunct2, THEN conjunct2, THEN conjunct2]
  have "addresses_new tokio_mpsc () 9 0 ! 7 \<in> set (addresses_new tokio_mpsc () 9 0)"
    by (intro nth_mem) (simp add: eval_nat_numeral split_beta)
  with keys have "\<not> address_eq a b" and "\<not> address_eq a (addresses_new tokio_mpsc () 9 0 ! 7)" by auto
  then show ?thesis by (simp add: Let_def a b)
qed

end
