(* ===== verification/Local_Call.thy ===== *)
theory Local_Call
  imports Address
begin

text \<open>
  Calls to an actor in this process, across the components that take part in one: the address packs the
  message with the sender of a fresh response channel and puts it into the mailbox
  (\<open>address/local.rs\<close>), the context takes one envelope per turn of its loop (\<open>context.rs\<close>), the
  envelope runs the handler unless the caller has gone (\<open>envelope/default_proxy.rs\<close>), the response is sent
  (\<open>message.rs\<close>) and the caller polls it (\<open>channel/oneshot.rs\<close>). Callers and the actor take steps in any
  order.
\<close>

section \<open>Handling an envelope in the loop\<close>

text \<open>Sending a response; the channels of all callers are a function from their names. The task of a
  future result answers later in the same way.\<close>

fun deliver_reply :: "('os, ('t, box_error) result) oneshot_ops \<Rightarrow> ('r, 't) reply \<Rightarrow> ('r \<Rightarrow> 'os) \<Rightarrow> 'r \<Rightarrow> 'os" where
  "deliver_reply os (Reply t r) chans = chans(t := snd (os_send os r (chans t)))"
| "deliver_reply os (ReplyErr t e) chans = chans(t := snd (os_send_err os e (chans t)))"
| "deliver_reply os (SpawnReply (Some t) r) chans = chans(t := snd (os_send os r (chans t)))"
| "deliver_reply os (SpawnReply None r) chans = chans"
| "deliver_reply os (LogDropped e) chans = chans"

text \<open>An actor whose handler \<open>hf\<close> returns a plain type.\<close>

definition actor_handling ::
  "('os, ('res, box_error) result) oneshot_ops \<Rightarrow> ('m \<Rightarrow> 'a \<Rightarrow> 'res \<times> 'a) \<Rightarrow>
   ('r, 'm, 'a \<times> ('r \<Rightarrow> 'os), 'res, 'res) handling" where
  "actor_handling os hf =
     \<lparr>hd_closed = (\<lambda>t (a, chans). op_closed os (chans t)),
      hd_polls = (\<lambda>m (a, chans) k. case hf m a of (res, a') \<Rightarrow> (0, PollReady (Ret res) (a', chans))),
      hd_respond = (\<lambda>result tx. Some (respond result tx))\<rparr>"

definition loop_handle ::
  "('os, ('res, box_error) result) oneshot_ops \<Rightarrow> ('m \<Rightarrow> 'a \<Rightarrow> 'res \<times> 'a) \<Rightarrow> ('ty, 'm, 'r) envelope \<Rightarrow>
   'a \<times> ('r \<Rightarrow> 'os) \<Rightarrow> 'c \<Rightarrow> 'mb \<Rightarrow> unit outcome \<times> ('a \<times> ('r \<Rightarrow> 'os)) \<times> 'c \<times> 'mb" where
  "loop_handle os hf env actor c mb =
     (case snd (envelope_handle (actor_handling os hf) env actor) of
        Some (Ret replies, a, chans) \<Rightarrow> (Ret (), (a, fold (deliver_reply os) replies chans), c, mb)
      | Some (Panic p, a, chans) \<Rightarrow> (Panic p, (a, chans), c, mb)
      | None \<Rightarrow> (Panic ''handlers of this actor return'', actor, c, mb))"

definition actor_loop ::
  "('ch, 'ty, 'm, 'r) mailbox_ops \<Rightarrow> ('d, 'ch) drain_ops \<Rightarrow> ('os, ('res, box_error) result) oneshot_ops \<Rightarrow>
   ('m \<Rightarrow> 'a \<Rightarrow> 'res \<times> 'a) \<Rightarrow> ('a \<times> ('r \<Rightarrow> 'os), 'c, stopping, 'e) hook \<Rightarrow>
   ('a \<times> ('r \<Rightarrow> 'os), 'c, 'e, ('ty, 'm, 'r) envelope, 'ch, 'd) loop_env" where
  "actor_loop ops dr os hf stop =
     \<lparr>le_mb = mailbox_of ops, le_drain = dr, le_handle = loop_handle os hf, le_stopping = stop\<rparr>"

section \<open>Runs\<close>

text \<open>A caller sends and waits, sends without waiting, or gives up by dropping its receiver; the actor
  takes a turn of its loop. A response channel belongs to one call. The state keeps the calls that were
  accepted and those that had their turn, with whether the handler was run.\<close>

datatype ('m, 'r) call_step = CSend 'r 'm | CDoSend 'm | CGiveUp 'r | CTurn

record ('ch, 'a, 'c, 'os, 'm, 'r) call_world =
  cw_mb :: 'ch
  cw_actor :: 'a
  cw_ctx :: 'c
  cw_chans :: "'r \<Rightarrow> 'os"
  cw_given_up :: "'r set"
  cw_accepted :: "('r option \<times> 'm) list"
  cw_turns :: "(('r option \<times> 'm) \<times> bool) list"
  cw_over :: bool

definition cw_accept :: "'r option \<times> 'm \<Rightarrow> ('x, 'm) sent option \<times> 'ch \<Rightarrow>
  ('ch, 'a, 'c, 'os, 'm, 'r) call_world \<Rightarrow> ('ch, 'a, 'c, 'os, 'm, 'r) call_world" where
  "cw_accept call p w =
     w\<lparr>cw_mb := snd p,
       cw_accepted := (case fst p of Some (Ret (Ok _)) \<Rightarrow> cw_accepted w @ [call] | _ \<Rightarrow> cw_accepted w)\<rparr>"

definition call_waits :: "('os, 'v) oneshot_ops \<Rightarrow> ('r \<Rightarrow> 'os) \<Rightarrow> 'r option \<Rightarrow> bool" where
  "call_waits os chans tx = (case tx of Some t \<Rightarrow> \<not> op_closed os (chans t) | None \<Rightarrow> True)"

definition cw_turn ::
  "('ch, 'ty, 'm, 'r) mailbox_ops \<Rightarrow> ('d, 'ch) drain_ops \<Rightarrow> ('os, ('res, box_error) result) oneshot_ops \<Rightarrow>
   ('m \<Rightarrow> 'a \<Rightarrow> 'res \<times> 'a) \<Rightarrow> ('a \<times> ('r \<Rightarrow> 'os), ('s, 'e, 'd, 'ch) actor_ctx, stopping, 'e) hook \<Rightarrow>
   ('ch, 'a, ('s, 'e, 'd, 'ch) actor_ctx, 'os, 'm, 'r) call_world \<Rightarrow>
   ('ch, 'a, ('s, 'e, 'd, 'ch) actor_ctx, 'os, 'm, 'r) call_world" where
  "cw_turn ops dr os hf stop w =
     (case context_iter (actor_loop ops dr os hf stop) (cw_actor w, cw_chans w) (cw_ctx w) (cw_mb w) of
        None \<Rightarrow> w
      | Some (r, (a, chans), c, mb) \<Rightarrow>
          let call = cw_accepted w ! length (cw_turns w)
          in w\<lparr>cw_mb := mb, cw_actor := a, cw_ctx := c, cw_chans := chans,
               cw_turns := cw_turns w @ [(call, call_waits os (cw_chans w) (fst call))], cw_over := (r \<noteq> None)\<rparr>)"

fun call_exec ::
  "('ch, 'ty, 'm, 'r) mailbox_ops \<Rightarrow> ('d, 'ch) drain_ops \<Rightarrow> ('os, ('res, box_error) result) oneshot_ops \<Rightarrow> 'ty \<Rightarrow>
   ('m \<Rightarrow> 'a \<Rightarrow> 'res \<times> 'a) \<Rightarrow> ('a \<times> ('r \<Rightarrow> 'os), ('s, 'e, 'd, 'ch) actor_ctx, stopping, 'e) hook \<Rightarrow> ('m, 'r) call_step \<Rightarrow>
   ('ch, 'a, ('s, 'e, 'd, 'ch) actor_ctx, 'os, 'm, 'r) call_world \<Rightarrow>
   ('ch, 'a, ('s, 'e, 'd, 'ch) actor_ctx, 'os, 'm, 'r) call_world" where
  "call_exec ops dr os ty hf stop (CSend rx m) w =
     (if Some rx \<in> fst ` set (cw_accepted w) then w
      else cw_accept (Some rx, m) (local_send ops ty rx m (cw_mb w)) w)"
| "call_exec ops dr os ty hf stop (CDoSend m) w = cw_accept (None, m) (local_do_send ops ty m (cw_mb w)) w"
| "call_exec ops dr os ty hf stop (CGiveUp rx) w =
     w\<lparr>cw_chans := (cw_chans w)(rx := op_close os (cw_chans w rx)), cw_given_up := insert rx (cw_given_up w)\<rparr>"
| "call_exec ops dr os ty hf stop CTurn w = (if cw_over w then w else cw_turn ops dr os hf stop w)"

definition call_start ::
  "('os, 'v) oneshot_ops \<Rightarrow> 'ch \<Rightarrow> 'a \<Rightarrow> 'c \<Rightarrow> ('ch, 'a, 'c, 'os, 'm, 'r) call_world" where
  "call_start os mb a c =
     \<lparr>cw_mb = mb, cw_actor = a, cw_ctx = c, cw_chans = (\<lambda>_. op_new os), cw_given_up = {},
      cw_accepted = [], cw_turns = [], cw_over = False\<rparr>"

text \<open>The specification: a server that runs its handler on one call after the other.\<close>

fun serve :: "('m \<Rightarrow> 'a \<Rightarrow> 'res \<times> 'a) \<Rightarrow> ('k \<times> 'm) list \<Rightarrow> 'a \<Rightarrow> ('k \<times> 'res) list \<times> 'a" where
  "serve hf [] a = ([], a)"
| "serve hf ((k, m) # calls) a =
     (case hf m a of (res, a') \<Rightarrow> (case serve hf calls a' of (answers, a'') \<Rightarrow> ((k, res) # answers, a'')))"

definition served :: "(('r option \<times> 'm) \<times> bool) list \<Rightarrow> ('r option \<times> 'm) list" where
  "served turns = map fst (filter snd turns)"


section \<open>One turn\<close>

lemma serve_snoc:
  "serve hf (calls @ [(k, m)]) a =
     (fst (serve hf calls a) @ [(k, fst (hf m (snd (serve hf calls a))))], snd (hf m (snd (serve hf calls a))))"
  by (induction calls arbitrary: a) (auto split: prod.split)

lemma serve_keys: "map fst (fst (serve hf calls a)) = map fst calls"
  by (induction calls arbitrary: a) (auto simp: split_beta)

definition quiet :: "('d \<Rightarrow> bool) \<Rightarrow> ('s, 'e, 'd, 'mb) actor_ctx \<Rightarrow> bool" where
  "quiet wants c \<longleftrightarrow> c_state c = Running \<and> c_error c = None \<and> \<not> wants (c_drain c)"

definition answered :: "'v oneshot \<Rightarrow> 'v \<Rightarrow> 'v oneshot" where
  "answered s v = s\<lparr>os_value := Some v, os_tx_alive := False\<rparr>"

lemma answered_polls:
  "fst (os_poll tokio_oneshot (op_new tokio_oneshot)) = None"
  "fst (os_poll tokio_oneshot (answered (op_new tokio_oneshot) (Ok res))) = Some (Ok res)"
  by (simp_all add: os_poll_def tokio_oneshot_def answered_def oneshot_recv_def)

lemma loop_handle_pack:
  "loop_handle os hf (pack ty m tx) (a, chans) c mb =
     (Ret (),
      if call_waits os chans tx
      then (snd (hf m a), case tx of Some t \<Rightarrow> chans(t := snd (os_send os (fst (hf m a)) (chans t))) | None \<Rightarrow> chans)
      else (a, chans), c, mb)"
  by (auto simp: loop_handle_def pack_def default_handle_def respond_with_def run_handler.simps actor_handling_def call_waits_def respond_def split_beta
      split: option.split)

text \<open>The parts of a call: a channel for the mailbox, one for each response, and a policy of the context.\<close>

locale local_calls = mpsc ops view + response: oneshot os osview + drain_policy dr wants
  for ops :: "('ch, ('ty, 'm, 'r) envelope) mpsc_ops" and view :: "'ch \<Rightarrow> ('ty, 'm, 'r) envelope chan"
    and os :: "('os, ('res, box_error) result) oneshot_ops" and osview :: "'os \<Rightarrow> ('res, box_error) result oneshot"
    and dr :: "('d, 'ch) drain_ops" and wants :: "'d \<Rightarrow> bool"
begin

lemma mailbox_recv_view:
  "map_option (map_prod id view) (mb_recv (mailbox_of ops) c) = mp_recv tokio_mpsc (view c)"
  unfolding recv_view [symmetric]
  by (cases "mp_recv ops c"; cases "fst (the (mp_recv ops c))") (auto simp: mailbox_of_def rx_recv_def)

lemma recv_next:
  assumes "ch_queue (view mb) = x # q"
  shows "\<exists>mb'. mb_recv (mailbox_of ops) mb = Some (Some x, mb') \<and> view mb' = (view mb)\<lparr>ch_queue := q\<rparr>"
  using mailbox_recv_view [of mb] assms by (auto simp: tokio_mpsc_def ch_recv_def)

lemma recv_waits:
  assumes "ch_queue (view mb) = []" and "\<not> ch_closed (view mb)" and "ch_senders (view mb) \<noteq> 0"
  shows "mb_recv (mailbox_of ops) mb = None"
  using mailbox_recv_view [of mb] assms by (auto simp: tokio_mpsc_def ch_recv_def ch_drained_def)

lemma handle_one_quiet:
  assumes "quiet wants c" and "loop_handle os hf env actor (c\<lparr>c_drain := dr_snapshot dr (c_drain c) mb\<rparr>) mb =
      (Ret (), actor', c\<lparr>c_drain := dr_snapshot dr (c_drain c) mb\<rparr>, mb)"
  shows "\<exists>c'. context_handle_one (actor_loop ops dr os hf stop) env actor c mb = (Ret (), actor', c', mb) \<and> quiet wants c'"
  using assms handled_without_request [of "c_drain c" mb mb] snapshot_wants [of "c_drain c" mb]
  by (auto simp: context_handle_one_def actor_loop_def quiet_def apply_idle)

lemma turn_next:
  assumes "quiet wants c" and "ch_queue (view mb) = pack ty m tx # q"
  shows "\<exists>c' mb'. context_iter (actor_loop ops dr os hf stop) (a, chans) c mb =
      Some (None, if call_waits os chans tx
        then (snd (hf m a), case tx of Some t \<Rightarrow> chans(t := snd (os_send os (fst (hf m a)) (chans t))) | None \<Rightarrow> chans)
        else (a, chans), c', mb') \<and>
    quiet wants c' \<and> view mb' = (view mb)\<lparr>ch_queue := q\<rparr>"
proof -
  obtain mb' where recv: "mb_recv (mailbox_of ops) mb = Some (Some (pack ty m tx), mb')"
    and mb': "view mb' = (view mb)\<lparr>ch_queue := q\<rparr>"
    using recv_next [OF assms(2)] by blast
  obtain c' where one: "context_handle_one (actor_loop ops dr os hf stop) (pack ty m tx) (a, chans) c mb' =
      (Ret (), if call_waits os chans tx
        then (snd (hf m a), case tx of Some t \<Rightarrow> chans(t := snd (os_send os (fst (hf m a)) (chans t))) | None \<Rightarrow> chans)
        else (a, chans), c', mb')" and c': "quiet wants c'"
    using handle_one_quiet [OF assms(1) loop_handle_pack [where ty = ty and m = m and tx = tx and a = a and chans = chans and hf = hf], where stop = stop and mb = mb']
    by blast
  have "context_after (actor_loop ops dr os hf stop) x c' = (None, x, c')" for x
    using c' by (simp add: context_after_def quiet_def)
  then show ?thesis
    using recv one c' mb' by (auto simp: context_iter_def actor_loop_def Let_def)
qed

lemma turn_waits:
  assumes "ch_queue (view mb) = []" and "\<not> ch_closed (view mb)" and "ch_senders (view mb) \<noteq> 0"
  shows "context_iter (actor_loop ops dr os hf stop) actor c mb = None"
  using recv_waits [OF assms] by (simp add: context_iter_def actor_loop_def)

end

section \<open>The invariant of a run\<close>

definition cw_pending :: "('ch, 'a, 'c, 'os, 'm, 'r) call_world \<Rightarrow> ('r option \<times> 'm) list" where
  "cw_pending w = drop (length (cw_turns w)) (cw_accepted w)"

definition cw_answers ::
  "('m \<Rightarrow> 'a \<Rightarrow> 'res \<times> 'a) \<Rightarrow> 'a \<Rightarrow> ('ch, 'a, 'c, 'os, 'm, 'r) call_world \<Rightarrow> ('r option \<times> 'res) list" where
  "cw_answers hf a0 w = fst (serve hf (served (cw_turns w)) a0)"

definition mailbox_inv :: "('ch \<Rightarrow> ('ty, 'm, 'r) envelope chan) \<Rightarrow> 'ty \<Rightarrow> ('ch, 'a, 'c, 'os, 'm, 'r) call_world \<Rightarrow> bool" where
  "mailbox_inv view ty w \<longleftrightarrow>
     map fst (cw_turns w) @ cw_pending w = cw_accepted w \<and>
     ch_queue (view (cw_mb w)) = map (\<lambda>(tx, m). pack ty m tx) (cw_pending w) \<and>
     \<not> ch_closed (view (cw_mb w)) \<and> ch_senders (view (cw_mb w)) \<noteq> 0 \<and>
     distinct (filter (\<lambda>k. k \<noteq> None) (map fst (cw_accepted w)))"

definition response_inv ::
  "('os \<Rightarrow> ('res, box_error) result oneshot) \<Rightarrow> ('m \<Rightarrow> 'a \<Rightarrow> 'res \<times> 'a) \<Rightarrow> 'a \<Rightarrow>
   ('ch, 'a, 'c, 'os, 'm, 'r) call_world \<Rightarrow> bool" where
  "response_inv osview hf a0 w \<longleftrightarrow>
     cw_actor w = snd (serve hf (served (cw_turns w)) a0) \<and>
     (\<forall>r. if r \<in> cw_given_up w then \<not> os_rx_open (osview (cw_chans w r))
        else osview (cw_chans w r) = (case map_of (cw_answers hf a0 w) (Some r) of
          Some res \<Rightarrow> answered (op_new tokio_oneshot) (Ok res) | None \<Rightarrow> op_new tokio_oneshot)) \<and>
     (\<forall>(call, handled) \<in> set (cw_turns w). \<not> handled \<longrightarrow> fst call \<in> Some ` cw_given_up w)"

definition call_inv where
  "call_inv view osview wants ty hf a0 w \<longleftrightarrow>
     mailbox_inv view ty w \<and> response_inv osview hf a0 w \<and> quiet wants (cw_ctx w) \<and> \<not> cw_over w"

lemma pending_key_fresh:
  assumes "mailbox_inv view ty w" and "cw_pending w = (Some r, m) # ps"
  shows "map_of (cw_answers hf a0 w) (Some r) = None"
proof -
  have acc: "cw_accepted w = map fst (cw_turns w) @ (Some r, m) # ps" using assms by (simp add: mailbox_inv_def)
  have "distinct (filter (\<lambda>k. k \<noteq> None) (map fst (cw_accepted w)))" using assms(1) by (simp add: mailbox_inv_def)
  then have "Some r \<notin> set (map fst (map fst (cw_turns w)))" unfolding acc by simp
  then have "Some r \<notin> set (map fst (served (cw_turns w)))" by (auto simp: served_def)
  then have "Some r \<notin> set (map fst (cw_answers hf a0 w))" by (simp only: cw_answers_def serve_keys) simp
  then show ?thesis by (simp add: map_of_eq_None_iff)
qed

lemma sent_on_tokio:
  "\<not> ch_closed c \<Longrightarrow>
     local_send tokio_mpsc ty rx m c \<in> {(Some (Ret (Ok rx)), ch_push (pack ty m (Some rx)) c), (None, c)}"
  "\<not> ch_closed c \<Longrightarrow>
     local_do_send tokio_mpsc ty m c \<in> {(Some (Ret (Ok ())), ch_push (pack ty m None) c), (None, c)}"
  by (auto simp: local_send_def local_do_send_def tokio_mpsc_def ch_send_def polled_def send_result_def)

lemma accept_inv:
  assumes "mailbox_inv view ty w" and "tx \<noteq> None \<Longrightarrow> tx \<notin> fst ` set (cw_accepted w)"
    and "map_prod id view p \<in> {(Some (Ret (Ok x)), ch_push (pack ty m tx) (view (cw_mb w))), (None, view (cw_mb w))}"
  shows "mailbox_inv view ty (cw_accept (tx, m) p w)"
proof -
  have "length (cw_turns w) \<le> length (cw_accepted w)"
    using assms(1) by (metis mailbox_inv_def length_append length_map le_add1)
  then show ?thesis using assms by (cases p) (auto simp: mailbox_inv_def cw_accept_def cw_pending_def ch_push_def)
qed

context local_calls
begin

lemma call_inv_send:
  assumes "call_inv view osview wants ty hf a0 w"
  shows "call_inv view osview wants ty hf a0 (call_exec ops dr os ty hf stop (CSend rx m) w)"
    and "call_inv view osview wants ty hf a0 (call_exec ops dr os ty hf stop (CDoSend m) w)"
proof -
  have open_mb: "\<not> ch_closed (view (cw_mb w))" and mb: "mailbox_inv view ty w"
    using assms by (simp_all add: call_inv_def mailbox_inv_def)
  have frame: "call_inv view osview wants ty hf a0 (cw_accept call p w) = mailbox_inv view ty (cw_accept call p w)" for call p
    using assms by (simp add: call_inv_def response_inv_def cw_accept_def cw_answers_def)
  note sent = sent_on_tokio [OF open_mb, folded local_views [OF mpsc_axioms]]
  show "call_inv view osview wants ty hf a0 (call_exec ops dr os ty hf stop (CSend rx m) w)"
    using assms accept_inv [OF mb _ sent(1)] by (auto simp: frame)
  show "call_inv view osview wants ty hf a0 (call_exec ops dr os ty hf stop (CDoSend m) w)"
    using accept_inv [OF mb _ sent(2)] by (simp add: frame)
qed

lemma call_inv_give_up:
  assumes "call_inv view osview wants ty hf a0 w"
  shows "call_inv view osview wants ty hf a0 (call_exec ops dr os ty hf stop (CGiveUp rx) w)"
  using assms by (auto simp: call_inv_def mailbox_inv_def response_inv_def cw_pending_def cw_answers_def
      response.drop_view tokio_oneshot_def)

end

lemma rx_open_new:
  "os_rx_open (op_new tokio_oneshot)" "os_rx_open (answered (op_new tokio_oneshot) v)"
  by (simp_all add: tokio_oneshot_def answered_def)

lemma sent_answered:
  "snd (os_send tokio_oneshot res (op_new tokio_oneshot)) = answered (op_new tokio_oneshot) (Ok res)"
  by (simp add: os_send_def tokio_oneshot_def answered_def)

lemma drop_Suc_eq: "drop n xs = y # ys \<Longrightarrow> drop (Suc n) xs = ys"
  by (metis drop_Suc list.sel(3) tl_drop)

text \<open>What a turn does to the calls, the actor and the response channels.\<close>

lemma mailbox_inv_turn:
  assumes "mailbox_inv view ty w" and "cw_pending w = call # ps"
    and "cw_accepted w' = cw_accepted w" and "cw_turns w' = cw_turns w @ [(call, handled)]"
    and "view (cw_mb w') = (view (cw_mb w))\<lparr>ch_queue := map (\<lambda>(tx, m). pack ty m tx) ps\<rparr>"
  shows "mailbox_inv view ty w'"
proof -
  have "cw_pending w' = ps" using assms(2-4) by (simp add: cw_pending_def drop_Suc_eq)
  then show ?thesis using assms by (simp add: mailbox_inv_def)
qed

context local_calls
begin

lemma waits_given_up:
  assumes "response_inv osview hf a0 w"
  shows "call_waits os (cw_chans w) tx \<longleftrightarrow> tx \<notin> Some ` cw_given_up w"
proof (cases tx)
  case (Some t)
  have "os_rx_open (osview (cw_chans w t)) \<longleftrightarrow> t \<notin> cw_given_up w"
    using assms by (auto simp: response_inv_def rx_open_new split: option.splits if_splits dest!: spec [of _ t])
  then show ?thesis by (auto simp: Some call_waits_def response.closed_view tokio_oneshot_def)
qed (auto simp: call_waits_def)

lemma response_inv_ran:
  assumes "response_inv osview hf a0 w" and "tx \<notin> Some ` cw_given_up w"
    and "\<And>t. tx = Some t \<Longrightarrow> map_of (cw_answers hf a0 w) (Some t) = None"
    and "cw_turns w' = cw_turns w @ [((tx, m), True)]" and "cw_given_up w' = cw_given_up w"
    and "cw_actor w' = snd (hf m (cw_actor w))"
    and "cw_chans w' = (case tx of
      Some t \<Rightarrow> (cw_chans w)(t := snd (os_send os (fst (hf m (cw_actor w))) (cw_chans w t))) | None \<Rightarrow> cw_chans w)"
  shows "response_inv osview hf a0 w'"
proof -
  have served: "served (cw_turns w') = served (cw_turns w) @ [(tx, m)]" by (simp add: served_def assms(4))
  have actor: "cw_actor w = snd (serve hf (served (cw_turns w)) a0)" using assms(1) by (simp add: response_inv_def)
  have ans: "map_of (cw_answers hf a0 w') (Some r) =
      (case map_of (cw_answers hf a0 w) (Some r) of
         Some res \<Rightarrow> Some res | None \<Rightarrow> if tx = Some r then Some (fst (hf m (cw_actor w))) else None)" for r
    by (simp add: cw_answers_def served serve_snoc actor map_of_append map_add_def split: option.split)
  have chan: "if r \<in> cw_given_up w then \<not> os_rx_open (osview (cw_chans w r))
      else osview (cw_chans w r) = (case map_of (cw_answers hf a0 w) (Some r) of
        Some res \<Rightarrow> answered (op_new tokio_oneshot) (Ok res) | None \<Rightarrow> op_new tokio_oneshot)" for r
    using assms(1) by (simp add: response_inv_def)
  have "if r \<in> cw_given_up w' then \<not> os_rx_open (osview (cw_chans w' r))
      else osview (cw_chans w' r) = (case map_of (cw_answers hf a0 w') (Some r) of
        Some res \<Rightarrow> answered (op_new tokio_oneshot) (Ok res) | None \<Rightarrow> op_new tokio_oneshot)" for r
  proof (cases "tx = Some r")
    case True
    then have "r \<notin> cw_given_up w" and none: "map_of (cw_answers hf a0 w) (Some r) = None" using assms(2,3) by auto
    with chan [of r] have "osview (cw_chans w r) = op_new tokio_oneshot" by simp
    with True none \<open>r \<notin> cw_given_up w\<close> show ?thesis
      by (simp add: assms(5,7) ans os_view_snd(1) [OF response.oneshot_axioms] sent_answered)
  next
    case False
    with chan [of r] show ?thesis by (auto simp: assms(5,7) ans split: option.splits)
  qed
  moreover have "cw_actor w' = snd (serve hf (served (cw_turns w')) a0)" by (simp add: served serve_snoc assms(6) actor)
  moreover have "\<forall>(call, handled) \<in> set (cw_turns w'). \<not> handled \<longrightarrow> fst call \<in> Some ` cw_given_up w'"
    using assms(1) by (simp add: response_inv_def assms(4,5))
  ultimately show ?thesis unfolding response_inv_def by simp
qed

lemma response_inv_skipped:
  assumes "response_inv osview hf a0 w" and "tx \<in> Some ` cw_given_up w"
    and "cw_turns w' = cw_turns w @ [((tx, m), False)]" and "cw_given_up w' = cw_given_up w"
    and "cw_actor w' = cw_actor w" and "cw_chans w' = cw_chans w"
  shows "response_inv osview hf a0 w'"
proof -
  have "served (cw_turns w') = served (cw_turns w)" by (simp add: served_def assms(3))
  then show ?thesis using assms(1,2) by (auto simp: response_inv_def cw_answers_def assms(3-6))
qed

lemma turn_idle:
  assumes "call_inv view osview wants ty hf a0 w" and "cw_pending w = []"
  shows "call_exec ops dr os ty hf stop CTurn w = w"
  using assms turn_waits [of "cw_mb w" hf stop "(cw_actor w, cw_chans w)" "cw_ctx w"]
  by (simp add: cw_turn_def call_inv_def mailbox_inv_def)

lemma turn_effect:
  assumes "call_inv view osview wants ty hf a0 w" and "cw_pending w = (tx, m) # ps"
  shows "\<exists>c mb a chans. call_exec ops dr os ty hf stop CTurn w =
      w\<lparr>cw_mb := mb, cw_actor := a, cw_ctx := c, cw_chans := chans,
        cw_turns := cw_turns w @ [((tx, m), call_waits os (cw_chans w) tx)], cw_over := False\<rparr> \<and>
    (a, chans) = (if call_waits os (cw_chans w) tx
      then (snd (hf m (cw_actor w)), case tx of
        Some t \<Rightarrow> (cw_chans w)(t := snd (os_send os (fst (hf m (cw_actor w))) (cw_chans w t))) | None \<Rightarrow> cw_chans w)
      else (cw_actor w, cw_chans w)) \<and>
    quiet wants c \<and> view mb = (view (cw_mb w))\<lparr>ch_queue := map (\<lambda>(tx, m). pack ty m tx) ps\<rparr>"
proof -
  have quiet: "quiet wants (cw_ctx w)" "\<not> cw_over w"
    and queue: "ch_queue (view (cw_mb w)) = pack ty m tx # map (\<lambda>(tx, m). pack ty m tx) ps"
    using assms by (simp_all add: call_inv_def mailbox_inv_def)
  have nth: "cw_accepted w ! length (cw_turns w) = (tx, m)"
    using assms(2) unfolding cw_pending_def by (metis nth_via_drop)
  define st where "st = (if call_waits os (cw_chans w) tx
      then (snd (hf m (cw_actor w)), case tx of
        Some t \<Rightarrow> (cw_chans w)(t := snd (os_send os (fst (hf m (cw_actor w))) (cw_chans w t))) | None \<Rightarrow> cw_chans w)
      else (cw_actor w, cw_chans w))"
  obtain c mb where iter: "context_iter (actor_loop ops dr os hf stop) (cw_actor w, cw_chans w) (cw_ctx w) (cw_mb w) = Some (None, st, c, mb)"
    and c: "quiet wants c" and mb: "view mb = (view (cw_mb w))\<lparr>ch_queue := map (\<lambda>(tx, m). pack ty m tx) ps\<rparr>"
    using turn_next [OF quiet(1) queue, of hf stop "cw_actor w" "cw_chans w", folded st_def] by blast
  have "call_exec ops dr os ty hf stop CTurn w =
      w\<lparr>cw_mb := mb, cw_actor := fst st, cw_ctx := c, cw_chans := snd st,
        cw_turns := cw_turns w @ [((tx, m), call_waits os (cw_chans w) tx)], cw_over := False\<rparr>"
    by (simp add: cw_turn_def nth Let_def iter quiet split_beta)
  then show ?thesis using c mb prod.collapse [of st] unfolding st_def [symmetric] by blast
qed

lemma call_inv_turn:
  assumes "call_inv view osview wants ty hf a0 w"
  shows "call_inv view osview wants ty hf a0 (call_exec ops dr os ty hf stop CTurn w)"
proof (cases "cw_pending w")
  case Nil
  then show ?thesis using assms turn_idle [OF assms] by simp
next
  case (Cons call ps)
  obtain tx m where pend: "cw_pending w = (tx, m) # ps" using Cons by (cases call) simp
  let ?w' = "call_exec ops dr os ty hf stop CTurn w"
  have mb: "mailbox_inv view ty w" and resp: "response_inv osview hf a0 w" using assms by (simp_all add: call_inv_def)
  from turn_effect [OF assms pend, of stop] obtain c mb' a chans where
    w': "?w' = w\<lparr>cw_mb := mb', cw_actor := a, cw_ctx := c, cw_chans := chans,
        cw_turns := cw_turns w @ [((tx, m), call_waits os (cw_chans w) tx)], cw_over := False\<rparr>"
    and st: "(a, chans) = (if call_waits os (cw_chans w) tx
      then (snd (hf m (cw_actor w)), case tx of
        Some t \<Rightarrow> (cw_chans w)(t := snd (os_send os (fst (hf m (cw_actor w))) (cw_chans w t))) | None \<Rightarrow> cw_chans w)
      else (cw_actor w, cw_chans w))"
    and c: "quiet wants c" and mb': "view mb' = (view (cw_mb w))\<lparr>ch_queue := map (\<lambda>(tx, m). pack ty m tx) ps\<rparr>"
    by blast
  have "mailbox_inv view ty ?w'" by (rule mailbox_inv_turn [OF mb pend]) (simp_all add: w' mb' del: call_exec.simps)
  moreover have "response_inv osview hf a0 ?w'"
  proof (cases "call_waits os (cw_chans w) tx")
    case True
    with waits_given_up [OF resp] have "tx \<notin> Some ` cw_given_up w" by blast
    with True show ?thesis using pending_key_fresh [OF mb, of _ m ps hf a0] pend st
      by (intro response_inv_ran [OF resp, where tx = tx and m = m]) (simp_all add: w' del: call_exec.simps)
  next
    case False
    with waits_given_up [OF resp] have "tx \<in> Some ` cw_given_up w" by blast
    with False show ?thesis using st
      by (intro response_inv_skipped [OF resp, where tx = tx and m = m]) (simp_all add: w' del: call_exec.simps)
  qed
  ultimately show ?thesis using c by (simp add: call_inv_def w' del: call_exec.simps)
qed

lemma call_inv_exec:
  "call_inv view osview wants ty hf a0 w \<Longrightarrow> call_inv view osview wants ty hf a0 (call_exec ops dr os ty hf stop s w)"
  by (cases s) (simp_all only: call_inv_send call_inv_give_up call_inv_turn)

lemma call_inv_run:
  "call_inv view osview wants ty hf a0 w \<Longrightarrow> call_inv view osview wants ty hf a0 (fold (call_exec ops dr os ty hf stop) steps w)"
  by (induction steps arbitrary: w) (simp_all add: call_inv_exec del: call_exec.simps)

lemma call_inv_start:
  assumes "channel ops n = Ret mb" and "quiet wants c"
  shows "call_inv view osview wants ty hf a0 (call_start os mb a0 c)"
proof -
  have "map_outcome view (channel ops n) = mp_channel tokio_mpsc n" by (simp add: channel_def channel_view)
  then have "ch_queue (view mb) = []" "\<not> ch_closed (view mb)" "ch_senders (view mb) \<noteq> 0"
    by (auto simp: assms(1) tokio_mpsc_def split: if_splits)
  then show ?thesis
    using assms(2) by (simp add: call_inv_def mailbox_inv_def response_inv_def call_start_def cw_pending_def
        cw_answers_def served_def response.new_view)
qed

text \<open>Enough turns serve everything that was accepted.\<close>

lemma turns_catch_up:
  assumes "call_inv view osview wants ty hf a0 w"
  shows "cw_accepted (fold (call_exec ops dr os ty hf stop) (replicate (length (cw_pending w)) CTurn) w) = cw_accepted w \<and>
    cw_pending (fold (call_exec ops dr os ty hf stop) (replicate (length (cw_pending w)) CTurn) w) = []"
  using assms
proof (induction "cw_pending w" arbitrary: w)
  case Nil
  then show ?case by simp
next
  case (Cons call ps)
  obtain tx m where pend: "cw_pending w = (tx, m) # ps" using Cons(2) [symmetric] by (cases call) simp
  let ?w' = "call_exec ops dr os ty hf stop CTurn w"
  have inv: "call_inv view osview wants ty hf a0 ?w'" by (rule call_inv_turn [OF Cons(3)])
  have acc: "cw_accepted ?w' = cw_accepted w" and "length (cw_turns ?w') = Suc (length (cw_turns w))"
    using turn_effect [OF Cons(3) pend, of stop] by (auto simp del: call_exec.simps)
  then have "cw_pending ?w' = ps" using pend by (simp add: cw_pending_def drop_Suc_eq)
  with Cons(1) [OF _ inv] acc show ?case by (simp add: pend del: call_exec.simps)
qed

end

text \<open>The channels of the runtime with both policies of the context.\<close>

interpretation plain_calls: local_calls tokio_mpsc "\<lambda>c. c" tokio_oneshot "\<lambda>s. s" no_drain "\<lambda>_. False"
  by (intro local_calls.intro tokio_mpsc.mpsc_axioms tokio_oneshot.oneshot_axioms nodrain.drain_policy_axioms)

interpretation drained_calls: local_calls tokio_mpsc "\<lambda>c. c" tokio_oneshot "\<lambda>s. s" "drainable mbx" requested for mbx
  by (intro local_calls.intro tokio_mpsc.mpsc_axioms tokio_oneshot.oneshot_axioms drainable_policy.drain_policy_axioms)

section \<open>Properties\<close>

text \<open>C3. Calls to an actor are answered as by a sequential server, however callers and actor interleave: the
  accepted calls get their turns in the order of acceptance; the actor's state is that of running its
  handler on the served calls one after the other; a caller that still waits polls exactly the result the
  sequential run gives its call, or nothing yet; only calls whose caller has given up are skipped; the
  loop goes on; and one turn for each queued message serves everything that was accepted.\<close>

theorem local_calls_linearized:
  assumes "mpsc ops view" and "oneshot os osview" and "drain_policy dr wants"
    and "channel ops n = Ret mb" and "quiet wants c"
  shows "let w = fold (call_exec ops dr os ty hf stop) steps (call_start os mb init c);
      w' = fold (call_exec ops dr os ty hf stop) (replicate (mp_len ops (cw_mb w)) CTurn) w
    in (\<exists>pending. map fst (cw_turns w) @ pending = cw_accepted w \<and> mp_len ops (cw_mb w) = length pending) \<and>
       cw_actor w = snd (serve hf (served (cw_turns w)) init) \<and>
       (\<forall>r. r \<notin> cw_given_up w \<longrightarrow> fst (os_poll os (cw_chans w r)) =
          map_option Ok (map_of (fst (serve hf (served (cw_turns w)) init)) (Some r))) \<and>
       (\<forall>(call, handled) \<in> set (cw_turns w). handled \<or> fst call \<in> Some ` cw_given_up w) \<and>
       \<not> cw_over w \<and> cw_accepted w' = cw_accepted w \<and> map fst (cw_turns w') = cw_accepted w"
proof -
  have lc: "local_calls ops view os osview dr wants" using assms(1-3) by (intro local_calls.intro)
  define w where "w = fold (call_exec ops dr os ty hf stop) steps (call_start os mb init c)"
  have inv: "call_inv view osview wants ty hf init w"
    unfolding w_def by (intro local_calls.call_inv_run [OF lc] local_calls.call_inv_start [OF lc assms(4,5)])
  then have mb: "mailbox_inv view ty w" and resp: "response_inv osview hf init w" and over: "\<not> cw_over w"
    by (simp_all add: call_inv_def)
  have len: "mp_len ops (cw_mb w) = length (cw_pending w)"
    using mb by (simp add: mpsc.observe_view [OF assms(1)] tokio_mpsc_def mailbox_inv_def)
  define w' where "w' = fold (call_exec ops dr os ty hf stop) (replicate (mp_len ops (cw_mb w)) CTurn) w"
  have acc: "cw_accepted w' = cw_accepted w" "cw_pending w' = []"
    using local_calls.turns_catch_up [OF lc inv, of stop] by (simp_all add: w'_def len)
  have "call_inv view osview wants ty hf init w'" unfolding w'_def by (rule local_calls.call_inv_run [OF lc inv])
  then have "map fst (cw_turns w') = cw_accepted w" using acc by (simp add: call_inv_def mailbox_inv_def)
  moreover have "fst (os_poll os (cw_chans w r)) = map_option Ok (map_of (cw_answers hf init w) (Some r))"
    if "r \<notin> cw_given_up w" for r
  proof -
    have "osview (cw_chans w r) = (case map_of (cw_answers hf init w) (Some r) of
        Some res \<Rightarrow> answered (op_new tokio_oneshot) (Ok res) | None \<Rightarrow> op_new tokio_oneshot)"
      using resp that unfolding response_inv_def by metis
    then show ?thesis by (simp add: os_view_fst(3) [OF assms(2)] answered_polls split: option.split)
  qed
  ultimately show ?thesis
    using mb resp over len acc(1) unfolding Let_def w_def [symmetric] w'_def [symmetric]
    by (auto simp: mailbox_inv_def response_inv_def cw_answers_def)
qed

text \<open>A summing actor: two callers, the second gives up before its turn.\<close>

theorem local_calls_linearized_witness:
  "let c = (context_new (\<lambda>_. True) no_drain (actor_id_new 1) undefined ''sum'')\<lparr>c_state := Running\<rparr> :: (nat, string, unit, (unit, nat, nat) envelope chan) actor_ctx;
     w = fold (call_exec tokio_mpsc no_drain tokio_oneshot () (\<lambda>m a. (a + m, a + m)) (\<lambda>a c. (Ret (Ok Stop), a, c)))
       [CSend 0 5, CSend 1 6, CGiveUp 1, CTurn, CTurn, CDoSend 7]
       (call_start tokio_oneshot \<lparr>ch_queue = [], ch_reserved = 0, ch_max = 2, ch_closed = False, ch_senders = 1\<rparr> 0 c)
   in cw_turns w = [((Some 0, 5), True), ((Some 1, 6), False)] \<and> cw_actor w = 5 \<and>
     fst (os_poll tokio_oneshot (cw_chans w 0)) = Some (Ok 5)"
proof -
  let ?mb = "\<lparr>ch_queue = [], ch_reserved = 0, ch_max = 2, ch_closed = False, ch_senders = 1\<rparr> :: (unit, nat, nat) envelope chan"
  let ?c = "(context_new (\<lambda>_. True) no_drain (actor_id_new 1) undefined ''sum'')\<lparr>c_state := Running\<rparr> :: (nat, string, unit, (unit, nat, nat) envelope chan) actor_ctx"
  let ?w = "fold (call_exec tokio_mpsc no_drain tokio_oneshot () (\<lambda>m a. (a + m, a + m)) (\<lambda>a c. (Ret (Ok Stop), a, c)))
       [CSend 0 5, CSend 1 6, CGiveUp 1, CTurn, CTurn, CDoSend 7] (call_start tokio_oneshot ?mb 0 ?c)"
  have mb: "channel tokio_mpsc 2 = Ret ?mb" by (simp add: channel_def tokio_mpsc_def)
  have c: "quiet (\<lambda>_. False) ?c" by (simp add: quiet_def context_new_def)
  have turns: "cw_turns ?w = [((Some 0, 5), True), ((Some 1, 6), False)]" and up: "cw_given_up ?w = {1}"
    by (simp_all add: call_start_def cw_accept_def local_send_def local_do_send_def polled_def send_result_def cw_turn_def
        context_iter_def actor_loop_def mailbox_of_def rx_recv_def context_handle_one_def no_drain_def loop_handle_pack
        call_waits_def context_after_def context_new_def tokio_defs tokio_oneshot_def ch_free_def os_send_def Let_def)
  define w where "w = ?w"
  note calls = local_calls_linearized [OF tokio_mpsc.mpsc_axioms tokio_oneshot.oneshot_axioms nodrain.drain_policy_axioms mb c,
      where ty = "()" and hf = "\<lambda>m a. (a + m, a + m)" and stop = "\<lambda>a c. (Ret (Ok Stop), a, c)"
        and steps = "[CSend 0 5, CSend 1 6, CGiveUp 1, CTurn, CTurn, CDoSend 7]" and init = 0, unfolded Let_def, folded w_def]
  from calls show ?thesis unfolding Let_def w_def [symmetric]
    using turns up unfolding w_def [symmetric] by (auto simp: served_def)
qed

end
