(* ===== verification/Transport.thy ===== *)
theory Transport
  imports Errors
begin

text \<open>
  The two transports of the IPC crate (\<open>acktor-ipc/src/ipc_method/websocket.rs\<close> and \<open>pipe.rs\<close>) and the
  contract they keep (\<open>IpcConnection\<close> in \<open>acktor-ipc/src/ipc_method.rs\<close>): messages arrive whole and in order,
  and a \<open>recv\<close> that is dropped while it waits loses nothing. The streams and sinks of the libraries
  are parameters: \<open>None\<close> stands for waiting. A dropped call starts over, a polled one goes on where it waits.
\<close>

section \<open>The contract\<close>

locale ipc_connection =
  fixes poll_recv :: "'c \<Rightarrow> (bytes, io_error) result option \<times> 'c"
    and cancel_recv :: "'c \<Rightarrow> 'c"
    and arrive :: "'x \<Rightarrow> 'c \<Rightarrow> 'c"
    and payload :: "'x \<Rightarrow> bytes list"
    and unread :: "'c \<Rightarrow> bytes list"
  assumes recv_next: "poll_recv c = (Some (Ok p), c') \<Longrightarrow> unread c = p # unread c'"
    and recv_keeps: "poll_recv c = (r, c') \<Longrightarrow> \<forall>p. r \<noteq> Some (Ok p) \<Longrightarrow> unread c' = unread c"
    and cancel_keeps: "unread (cancel_recv c) = unread c"
    and arrive_unread: "unread (arrive x c) = unread c @ payload x"

text \<open>A run is any sequence of polls, dropped calls and arrivals from the peer, also between two polls of one call.
  It returns the payloads that \<open>recv\<close> returned.\<close>

datatype 'x recv_step = RecvPoll | RecvDrop | RecvArrive 'x

fun recv_run ::
  "('c \<Rightarrow> (bytes, io_error) result option \<times> 'c) \<Rightarrow> ('c \<Rightarrow> 'c) \<Rightarrow> ('x \<Rightarrow> 'c \<Rightarrow> 'c) \<Rightarrow> 'x recv_step list \<Rightarrow> 'c \<Rightarrow>
   bytes list \<times> 'c" where
  "recv_run poll cancel arrive [] c = ([], c)"
| "recv_run poll cancel arrive (RecvPoll # steps) c =
     (case poll c of
        (Some (Ok p), c') \<Rightarrow> (case recv_run poll cancel arrive steps c' of (ps, c'') \<Rightarrow> (p # ps, c''))
      | (_, c') \<Rightarrow> recv_run poll cancel arrive steps c')"
| "recv_run poll cancel arrive (RecvDrop # steps) c = recv_run poll cancel arrive steps (cancel c)"
| "recv_run poll cancel arrive (RecvArrive x # steps) c = recv_run poll cancel arrive steps (arrive x c)"

fun arrivals :: "'x recv_step list \<Rightarrow> 'x list" where
  "arrivals [] = []"
| "arrivals (RecvArrive x # steps) = x # arrivals steps"
| "arrivals (_ # steps) = arrivals steps"

context ipc_connection
begin

lemma recv_run_unread:
  "recv_run poll_recv cancel_recv arrive steps c = (ps, c') \<Longrightarrow>
   ps @ unread c' = unread c @ concat (map payload (arrivals steps))"
proof (induction steps arbitrary: c ps)
  case (Cons step steps)
  show ?case
  proof (cases step)
    case RecvPoll
    obtain r d where poll: "poll_recv c = (r, d)" by (cases "poll_recv c")
    show ?thesis
    proof (cases "\<exists>p. r = Some (Ok p)")
      case True
      then obtain p where r: "r = Some (Ok p)" by blast
      obtain qs where qs: "recv_run poll_recv cancel_recv arrive steps d = (qs, c')" and ps: "ps = p # qs"
        using Cons.prems RecvPoll poll r by (auto split: prod.splits)
      with Cons.IH [OF qs] recv_next [of c p d] poll r RecvPoll show ?thesis by simp
    next
      case False
      then have "recv_run poll_recv cancel_recv arrive steps d = (ps, c')"
        using Cons.prems RecvPoll poll by (auto split: option.splits result.splits)
      with Cons.IH recv_keeps [OF poll] False RecvPoll show ?thesis by simp
    qed
  qed (use Cons in \<open>simp_all add: cancel_keeps arrive_unread\<close>)
qed simp

end

section \<open>WebSocket\<close>

datatype ws_message =
  WsText bytes
| WsBinary bytes
| WsPing bytes
| WsPong bytes
| WsClose
| WsFrame

datatype ws_error = WsIo io_error | WsOther box_error

definition ws_error_to_io_error :: "ws_error \<Rightarrow> io_error" where
  "ws_error_to_io_error e = (case e of WsIo e' \<Rightarrow> e' | WsOther b \<Rightarrow> IoErr OtherKind b)"

text \<open>The sink and the stream. \<open>wo_send\<close> starts to send and \<open>wo_flush\<close> goes on with a send that had to wait.\<close>

record 'w ws_ops =
  wo_send :: "ws_message \<Rightarrow> 'w \<Rightarrow> (unit, ws_error) result option \<times> 'w"
  wo_flush :: "'w \<Rightarrow> (unit, ws_error) result option \<times> 'w"
  wo_next :: "'w \<Rightarrow> (ws_message, ws_error) result option option \<times> 'w"
  wo_close :: "'w \<Rightarrow> (unit, ws_error) result option \<times> 'w"

text \<open>\<open>wc_sending\<close> tells that the call waits for the pong to be sent; dropping the call resets it.\<close>

record 'w ws_connection =
  wc_peer_addr :: string
  wc_stream :: 'w
  wc_pending_pong :: "bytes option"
  wc_sending :: bool

definition ws_new :: "'w \<Rightarrow> string \<Rightarrow> 'w ws_connection" where
  "ws_new ws_stream peer_addr =
     \<lparr>wc_peer_addr = peer_addr, wc_stream = ws_stream, wc_pending_pong = None, wc_sending = False\<rparr>"

definition ws_connect ::
  "(string \<Rightarrow> ('w, ws_error) result) \<Rightarrow> string \<Rightarrow> ('w ws_connection, io_error) result" where
  "ws_connect connect_async peer_addr =
     (case connect_async peer_addr of
        Err e \<Rightarrow> Err (ws_error_to_io_error e)
      | Ok ws_stream \<Rightarrow> Ok (ws_new ws_stream peer_addr))"

definition ws_accept ::
  "('l \<Rightarrow> ('sock \<times> string, io_error) result) \<Rightarrow> ('sock \<Rightarrow> ('w, ws_error) result) \<Rightarrow> 'l \<Rightarrow>
   ('w ws_connection, io_error) result" where
  "ws_accept tcp_accept accept_async listener =
     (case tcp_accept listener of
        Err e \<Rightarrow> Err e
      | Ok (socket, peer_addr) \<Rightarrow>
          (case accept_async socket of
             Err e \<Rightarrow> Err (ws_error_to_io_error e)
           | Ok ws_stream \<Rightarrow> Ok (ws_new ws_stream peer_addr)))"

definition ws_send :: "'w ws_ops \<Rightarrow> bytes \<Rightarrow> 'w ws_connection \<Rightarrow> (unit, io_error) result option \<times> 'w ws_connection" where
  "ws_send ops buf c =
     (case wo_send ops (WsBinary buf) (wc_stream c) of
        (r, w) \<Rightarrow> (map_option (map_err ws_error_to_io_error) r, c\<lparr>wc_stream := w\<rparr>))"

definition ws_close :: "'w ws_ops \<Rightarrow> 'w ws_connection \<Rightarrow> (unit, io_error) result option \<times> 'w ws_connection" where
  "ws_close ops c =
     (case wo_close ops (wc_stream c) of
        (r, w) \<Rightarrow> (map_option (map_err ws_error_to_io_error) r, c\<lparr>wc_stream := w\<rparr>))"

text \<open>The inner \<open>recv\<close>: the next message of the stream.\<close>

definition ws_next ::
  "'w ws_ops \<Rightarrow> 'w ws_connection \<Rightarrow> (ws_message, io_error) result option \<times> 'w ws_connection" where
  "ws_next ops c =
     (case wo_next ops (wc_stream c) of
        (r, w) \<Rightarrow>
          (map_option (\<lambda>m. case m of
              None \<Rightarrow> Err (IoErr ConnectionAborted (box_str ''connection aborted''))
            | Some x \<Rightarrow> map_err ws_error_to_io_error x) r, c\<lparr>wc_stream := w\<rparr>))"

text \<open>The pong at the top of the loop: \<open>None\<close> means that the call waits for it.\<close>

definition ws_pong :: "'w ws_ops \<Rightarrow> 'w ws_connection \<Rightarrow> (unit, io_error) result option \<times> 'w ws_connection" where
  "ws_pong ops c =
     (case wc_pending_pong c of
        None \<Rightarrow> (Some (Ok ()), c)
      | Some payload \<Rightarrow>
          (case if wc_sending c then wo_flush ops (wc_stream c) else wo_send ops (WsPong payload) (wc_stream c) of
             (None, w) \<Rightarrow> (None, c\<lparr>wc_stream := w, wc_sending := True\<rparr>)
           | (Some (Err e), w) \<Rightarrow> (Some (Err (ws_error_to_io_error e)), c\<lparr>wc_stream := w, wc_sending := False\<rparr>)
           | (Some (Ok _), w) \<Rightarrow>
               (Some (Ok ()), c\<lparr>wc_stream := w, wc_sending := False, wc_pending_pong := None\<rparr>)))"

text \<open>A poll of \<open>recv\<close>, with fuel for the loop: the outer \<open>None\<close> says that the fuel ran out.\<close>

fun ws_recv ::
  "'w ws_ops \<Rightarrow> nat \<Rightarrow> 'w ws_connection \<Rightarrow> ((bytes, io_error) result option \<times> 'w ws_connection) option" where
  "ws_recv ops 0 c = None"
| "ws_recv ops (Suc n) c =
     (case ws_pong ops c of
        (None, c1) \<Rightarrow> Some (None, c1)
      | (Some (Err e), c1) \<Rightarrow> Some (Some (Err e), c1)
      | (Some (Ok _), c1) \<Rightarrow>
          (case ws_next ops c1 of
             (None, c2) \<Rightarrow> Some (None, c2)
           | (Some (Err e), c2) \<Rightarrow> Some (Some (Err e), c2)
           | (Some (Ok message), c2) \<Rightarrow>
               (case message of
                  WsBinary payload \<Rightarrow> Some (Some (Ok payload), c2)
                | WsPing payload \<Rightarrow> ws_recv ops n (c2\<lparr>wc_pending_pong := Some payload\<rparr>)
                | WsPong _ \<Rightarrow> ws_recv ops n c2
                | WsClose \<Rightarrow> Some (Some (Err (IoErr ConnectionAborted (box_str ''received close message''))), c2)
                | _ \<Rightarrow> Some (Some (Err (IoErr OtherKind (box_str ''received non-binary message''))), c2))))"

definition ws_cancel :: "'w ws_connection \<Rightarrow> 'w ws_connection" where
  "ws_cancel c = c\<lparr>wc_sending := False\<rparr>"

section \<open>Pipes\<close>

record 'w pipe_ops =
  po_send :: "bytes \<Rightarrow> 'w \<Rightarrow> (unit, io_error) result option \<times> 'w"
  po_next :: "'w \<Rightarrow> (bytes, io_error) result option option \<times> 'w"
  po_close :: "'w \<Rightarrow> (unit, io_error) result option \<times> 'w"

record 'w pipe_connection =
  pc_name :: string
  pc_stream :: 'w

record 'l pipe_listener =
  pl_name :: string
  pl_listener :: 'l
  pl_accept_counter :: u64

definition pipe_listener_new :: "(string \<Rightarrow> ('l, io_error) result) \<Rightarrow> string \<Rightarrow> ('l pipe_listener, io_error) result" where
  "pipe_listener_new create name =
     (case create name of
        Err e \<Rightarrow> Err e
      | Ok listener \<Rightarrow> Ok \<lparr>pl_name = name, pl_listener = listener, pl_accept_counter = 0\<rparr>)"

definition pipe_accept ::
  "('l \<Rightarrow> ('w, io_error) result) \<Rightarrow> (u64 \<Rightarrow> string) \<Rightarrow> 'l pipe_listener \<Rightarrow>
   ('w pipe_connection, io_error) result \<times> 'l pipe_listener" where
  "pipe_accept accept show_u64 self =
     (case accept (pl_listener self) of
        Err e \<Rightarrow> (Err e, self)
      | Ok stream \<Rightarrow>
          (let i = pl_accept_counter self
           in (Ok \<lparr>pc_name = pl_name self @ ''#'' @ show_u64 i, pc_stream = stream\<rparr>,
               self\<lparr>pl_accept_counter := i + 1\<rparr>)))"

definition pipe_connect :: "(string \<Rightarrow> ('w, io_error) result) \<Rightarrow> string \<Rightarrow> ('w pipe_connection, io_error) result" where
  "pipe_connect connect name = map_ok (\<lambda>stream. \<lparr>pc_name = name, pc_stream = stream\<rparr>) (connect name)"

definition pipe_send :: "'w pipe_ops \<Rightarrow> bytes \<Rightarrow> 'w pipe_connection \<Rightarrow> (unit, io_error) result option \<times> 'w pipe_connection" where
  "pipe_send ops buf c = (case po_send ops buf (pc_stream c) of (r, w) \<Rightarrow> (r, c\<lparr>pc_stream := w\<rparr>))"

definition pipe_close :: "'w pipe_ops \<Rightarrow> 'w pipe_connection \<Rightarrow> (unit, io_error) result option \<times> 'w pipe_connection" where
  "pipe_close ops c = (case po_close ops (pc_stream c) of (r, w) \<Rightarrow> (r, c\<lparr>pc_stream := w\<rparr>))"

definition pipe_recv :: "'w pipe_ops \<Rightarrow> 'w pipe_connection \<Rightarrow> (bytes, io_error) result option \<times> 'w pipe_connection" where
  "pipe_recv ops c =
     (case po_next ops (pc_stream c) of
        (r, w) \<Rightarrow>
          (map_option (\<lambda>frame. case frame of
              None \<Rightarrow> Err (IoErr ConnectionAborted (box_str ''connection aborted''))
            | Some f \<Rightarrow> f) r, c\<lparr>pc_stream := w\<rparr>))"

section \<open>What the libraries promise\<close>

text \<open>\<open>incoming\<close> are the messages that have arrived and were not read; \<open>ended\<close> tells that the stream is at its end when
  they are read, and \<open>arrives\<close> adds one message.\<close>

locale ws_duplex =
  fixes ops :: "'w ws_ops"
    and incoming :: "'w \<Rightarrow> (ws_message, ws_error) result list"
    and ended :: "'w \<Rightarrow> bool"
    and arrives :: "(ws_message, ws_error) result \<Rightarrow> 'w \<Rightarrow> 'w"
  assumes next_empty: "incoming w = [] \<Longrightarrow> \<exists>w'. wo_next ops w = (if ended w then Some None else None, w') \<and> incoming w' = []"
    and next_item: "incoming w = x # xs \<Longrightarrow> \<exists>w'. wo_next ops w = (Some (Some x), w') \<and> incoming w' = xs"
    and send_keeps: "wo_send ops m w = (r, w') \<Longrightarrow> incoming w' = incoming w"
    and flush_keeps: "wo_flush ops w = (r, w') \<Longrightarrow> incoming w' = incoming w"
    and incoming_arrives: "incoming (arrives x w) = incoming w @ [x]"

fun binary_payloads :: "(ws_message, ws_error) result list \<Rightarrow> bytes list" where
  "binary_payloads [] = []"
| "binary_payloads (Ok (WsBinary p) # xs) = p # binary_payloads xs"
| "binary_payloads (x # xs) = binary_payloads xs"

fun ping_payloads :: "(ws_message, ws_error) result list \<Rightarrow> bytes list" where
  "ping_payloads [] = []"
| "ping_payloads (Ok (WsPing p) # xs) = p # ping_payloads xs"
| "ping_payloads (x # xs) = ping_payloads xs"

definition ws_unread :: "('w \<Rightarrow> (ws_message, ws_error) result list) \<Rightarrow> 'w ws_connection \<Rightarrow> bytes list" where
  "ws_unread incoming c = binary_payloads (incoming (wc_stream c))"

definition ws_arrive ::
  "((ws_message, ws_error) result \<Rightarrow> 'w \<Rightarrow> 'w) \<Rightarrow> (ws_message, ws_error) result \<Rightarrow> 'w ws_connection \<Rightarrow> 'w ws_connection" where
  "ws_arrive arrives x c = c\<lparr>wc_stream := arrives x (wc_stream c)\<rparr>"

text \<open>A poll with fuel for every message that has arrived.\<close>

definition ws_poll ::
  "'w ws_ops \<Rightarrow> ('w \<Rightarrow> (ws_message, ws_error) result list) \<Rightarrow> 'w ws_connection \<Rightarrow>
   (bytes, io_error) result option \<times> 'w ws_connection" where
  "ws_poll ops incoming c =
     (case ws_recv ops (Suc (length (incoming (wc_stream c)))) c of Some r \<Rightarrow> r | None \<Rightarrow> (None, c))"

lemma payloads_Cons:
  "binary_payloads (x # xs) = (case x of Ok (WsBinary p) \<Rightarrow> [p] | _ \<Rightarrow> []) @ binary_payloads xs"
  "ping_payloads (x # xs) = (case x of Ok (WsPing p) \<Rightarrow> [p] | _ \<Rightarrow> []) @ ping_payloads xs"
  by (simp_all split: result.split ws_message.split)

lemma binary_payloads_append: "binary_payloads (xs @ ys) = binary_payloads xs @ binary_payloads ys"
  by (induction xs rule: binary_payloads.induct) simp_all

lemma binary_payloads_concat: "concat (map (\<lambda>x. binary_payloads [x]) xs) = binary_payloads xs"
  by (induction xs) (simp_all add: payloads_Cons)

lemma ping_payloads_append: "ping_payloads (xs @ ys) = ping_payloads xs @ ping_payloads ys"
  by (induction xs rule: ping_payloads.induct) simp_all

context ws_duplex
begin

lemma ws_pong_incoming: "ws_pong ops c = (r, c') \<Longrightarrow> incoming (wc_stream c') = incoming (wc_stream c)"
  by (auto simp: ws_pong_def split: option.splits prod.splits result.splits if_splits dest: send_keeps flush_keeps)

lemma ws_next_cases:
  obtains "incoming (wc_stream c) = []" "\<exists>r. fst (ws_next ops c) = r \<and> (r = None \<or> (\<exists>e. r = Some (Err e)))"
      "incoming (wc_stream (snd (ws_next ops c))) = []"
    | x xs where "incoming (wc_stream c) = x # xs" "fst (ws_next ops c) = Some (map_err ws_error_to_io_error x)"
      "incoming (wc_stream (snd (ws_next ops c))) = xs"
proof (cases "incoming (wc_stream c)")
  case Nil
  from next_empty [OF this] that(1) [OF Nil] show ?thesis by (auto simp: ws_next_def split: if_splits)
next
  case (Cons x xs)
  from next_item [OF this] that(2) [OF Cons] show ?thesis by (auto simp: ws_next_def)
qed

lemma ws_next_kept:
  "wc_pending_pong (snd (ws_next ops c)) = wc_pending_pong c" "wc_sending (snd (ws_next ops c)) = wc_sending c"
  by (simp_all add: ws_next_def split: prod.split)

lemma ws_recv_enough: "length (incoming (wc_stream c)) < n \<Longrightarrow> ws_recv ops n c \<noteq> None"
proof (induction n arbitrary: c)
  case (Suc n)
  obtain r1 c1 where p: "ws_pong ops c = (r1, c1)" by (cases "ws_pong ops c")
  obtain r2 c2 where q: "ws_next ops c1 = (r2, c2)" by (cases "ws_next ops c1")
  have i1: "incoming (wc_stream c1) = incoming (wc_stream c)" by (rule ws_pong_incoming [OF p])
  have "length (incoming (wc_stream c2)) < n" if "r2 = Some (Ok m)" for m
    using ws_next_cases [of c1] q that i1 Suc.prems by (metis Suc_less_eq fst_conv length_Cons option.distinct(1) option.inject result.distinct(1) snd_conv)
  then show ?case using Suc.IH by (simp add: p q split: option.split result.split ws_message.split)
qed simp

lemma ws_recv_unread:
  "ws_recv ops n c = Some (r, c') \<Longrightarrow>
   ws_unread incoming c = (case r of Some (Ok p) \<Rightarrow> [p] | _ \<Rightarrow> []) @ ws_unread incoming c'"
proof (induction n arbitrary: c)
  case (Suc n)
  obtain r1 c1 where p: "ws_pong ops c = (r1, c1)" by (cases "ws_pong ops c")
  obtain r2 c2 where q: "ws_next ops c1 = (r2, c2)" by (cases "ws_next ops c1")
  have i1: "ws_unread incoming c = ws_unread incoming c1" using ws_pong_incoming [OF p] by (simp add: ws_unread_def)
  have i2: "ws_unread incoming c1 = (case r2 of Some (Ok (WsBinary p)) \<Rightarrow> [p] | _ \<Rightarrow> []) @ ws_unread incoming c2"
    by (rule ws_next_cases [of c1])
      (use q in \<open>auto simp: ws_unread_def payloads_Cons map_err_case split: result.splits ws_message.splits\<close>)
  show ?case
    using Suc.prems i1 i2 Suc.IH [of c2] Suc.IH [of "c2\<lparr>wc_pending_pong := Some _\<rparr>"]
    by (auto simp: p q ws_unread_def split: option.splits result.splits ws_message.splits)
qed simp

end

sublocale ws_duplex \<subseteq> ws: ipc_connection "ws_poll ops incoming" ws_cancel "ws_arrive arrives" "\<lambda>x. binary_payloads [x]" "ws_unread incoming"
proof
  fix c p c' r x
  obtain r0 c0 where run: "ws_recv ops (Suc (length (incoming (wc_stream c)))) c = Some (r0, c0)"
    using ws_recv_enough [of c "Suc (length (incoming (wc_stream c)))"] by auto
  note keep = ws_recv_unread [OF run]
  show "ws_poll ops incoming c = (Some (Ok p), c') \<Longrightarrow> ws_unread incoming c = p # ws_unread incoming c'"
    using keep run by (simp add: ws_poll_def)
  show "ws_poll ops incoming c = (r, c') \<Longrightarrow> \<forall>p. r \<noteq> Some (Ok p) \<Longrightarrow> ws_unread incoming c' = ws_unread incoming c"
    using keep run by (auto simp: ws_poll_def split: option.splits result.splits)
  show "ws_unread incoming (ws_cancel c) = ws_unread incoming c"
    by (simp add: ws_unread_def ws_cancel_def)
  show "ws_unread incoming (ws_arrive arrives x c) = ws_unread incoming c @ binary_payloads [x]"
    by (simp add: ws_unread_def ws_arrive_def incoming_arrives binary_payloads_append)
qed

definition owed :: "'w ws_connection \<Rightarrow> ws_message list" where
  "owed c = (case wc_pending_pong c of Some p \<Rightarrow> [WsPong p] | None \<Rightarrow> [])"

text \<open>A sink that takes every message at once: \<open>sent\<close> is what it took.\<close>

locale ws_ready = ws_duplex +
  fixes sent :: "'w \<Rightarrow> ws_message list"
  assumes send_ready: "\<exists>w'. wo_send ops m w = (Some (Ok ()), w') \<and> sent w' = sent w @ [m]"
    and next_sent: "wo_next ops w = (r, w') \<Longrightarrow> sent w' = sent w"
    and arrives_sent: "sent (arrives x w) = sent w"
begin

lemma ws_pong_ready:
  assumes "\<not> wc_sending c"
  shows "\<exists>c'. ws_pong ops c = (Some (Ok ()), c') \<and> \<not> wc_sending c' \<and> wc_pending_pong c' = None \<and>
    sent (wc_stream c') = sent (wc_stream c) @ owed c \<and> incoming (wc_stream c') = incoming (wc_stream c)"
proof (cases "wc_pending_pong c")
  case None
  then show ?thesis using assms by (simp add: ws_pong_def owed_def)
next
  case (Some p)
  obtain w' where w': "wo_send ops (WsPong p) (wc_stream c) = (Some (Ok ()), w')" "sent w' = sent (wc_stream c) @ [WsPong p]"
    using send_ready by blast
  then show ?thesis using assms Some send_keeps [OF w'(1)] by (simp add: ws_pong_def owed_def)
qed

lemma ws_next_sent: "ws_next ops c = (r, c') \<Longrightarrow> sent (wc_stream c') = sent (wc_stream c)"
  by (auto simp: ws_next_def dest: next_sent split: prod.splits)

lemma ws_recv_pongs:
  "ws_recv ops n c = Some (r, c') \<Longrightarrow> \<not> wc_sending c \<Longrightarrow>
   \<not> wc_sending c' \<and> (\<exists>read. incoming (wc_stream c) = read @ incoming (wc_stream c') \<and>
     sent (wc_stream c') @ owed c' = sent (wc_stream c) @ owed c @ map WsPong (ping_payloads read))"
proof (induction n arbitrary: c)
  case (Suc n)
  obtain c1 where p: "ws_pong ops c = (Some (Ok ()), c1)" "\<not> wc_sending c1" "wc_pending_pong c1 = None"
    "sent (wc_stream c1) = sent (wc_stream c) @ owed c" "incoming (wc_stream c1) = incoming (wc_stream c)"
    using ws_pong_ready [OF Suc.prems(2)] by blast
  obtain r2 c2 where q: "ws_next ops c1 = (r2, c2)" by (cases "ws_next ops c1")
  have kept: "wc_pending_pong c2 = None" "\<not> wc_sending c2" "sent (wc_stream c2) = sent (wc_stream c) @ owed c"
    using ws_next_kept [of c1] ws_next_sent [OF q] p q by simp_all
  show ?case
  proof (rule ws_next_cases [of c1])
    assume none: "incoming (wc_stream c1) = []" "incoming (wc_stream (snd (ws_next ops c1))) = []"
      and "\<exists>r. fst (ws_next ops c1) = r \<and> (r = None \<or> (\<exists>e. r = Some (Err e)))"
    then have "c' = c2" using Suc.prems(1) p(1) q by auto
    then show ?thesis using none kept p q by (intro conjI exI [where x = "[]"]) (simp_all add: owed_def)
  next
    fix x xs
    assume x: "incoming (wc_stream c1) = x # xs" "fst (ws_next ops c1) = Some (map_err ws_error_to_io_error x)"
      "incoming (wc_stream (snd (ws_next ops c1))) = xs"
    let ?c3 = "case x of Ok (WsPing payload) \<Rightarrow> c2\<lparr>wc_pending_pong := Some payload\<rparr> | _ \<Rightarrow> c2"
    have c3: "\<not> wc_sending ?c3" "incoming (wc_stream ?c3) = xs" "sent (wc_stream ?c3) = sent (wc_stream c) @ owed c"
      "owed ?c3 = map WsPong (ping_payloads [x])"
      using kept x q by (auto simp: owed_def split: result.split ws_message.split)
    have "c' = ?c3 \<or> ws_recv ops n ?c3 = Some (r, c')"
      using Suc.prems(1) p(1) q x(2) by (cases x) (auto simp: map_err_case split: ws_message.splits)
    then show ?thesis
    proof
      assume "c' = ?c3"
      then show ?thesis using c3 x(1) p(5) by (intro conjI exI [where x = "[x]"]) simp_all
    next
      assume rest: "ws_recv ops n ?c3 = Some (r, c')"
      from Suc.IH [OF this c3(1)] obtain read where "\<not> wc_sending c'" and read: "xs = read @ incoming (wc_stream c')"
        "sent (wc_stream c') @ owed c' = sent (wc_stream ?c3) @ owed ?c3 @ map WsPong (ping_payloads read)"
        using c3(2) by auto
      moreover have "ping_payloads (x # read) = ping_payloads [x] @ ping_payloads read" by (simp add: payloads_Cons)
      ultimately show ?thesis using x(1) p(5) c3(3,4) by (intro conjI exI [where x = "x # read"]) simp_all
    qed
  qed
qed simp

lemma ws_run_pongs:
  "recv_run (ws_poll ops incoming) ws_cancel (ws_arrive arrives) steps c = (ps, c') \<Longrightarrow> \<not> wc_sending c \<Longrightarrow>
   \<exists>read. incoming (wc_stream c) @ arrivals steps = read @ incoming (wc_stream c') \<and>
     sent (wc_stream c') @ owed c' = sent (wc_stream c) @ owed c @ map WsPong (ping_payloads read)"
proof (induction steps arbitrary: c ps)
  case Nil
  then show ?case by simp
next
  case (Cons step steps)
  show ?case
  proof (cases step)
    case RecvDrop
    have "ws_cancel c = c" using Cons.prems(2) by (simp add: ws_cancel_def)
    with RecvDrop Cons show ?thesis by simp
  next
    case (RecvArrive x)
    with Cons show ?thesis
      using Cons.IH [of "ws_arrive arrives x c"] by (simp add: ws_arrive_def incoming_arrives arrives_sent owed_def)
  next
    case RecvPoll
    obtain r d where run: "ws_recv ops (Suc (length (incoming (wc_stream c)))) c = Some (r, d)"
      using ws_recv_enough [of c "Suc (length (incoming (wc_stream c)))"] by auto
    from ws_recv_pongs [OF run Cons.prems(2)] obtain read where d: "\<not> wc_sending d"
      "incoming (wc_stream c) = read @ incoming (wc_stream d)"
      "sent (wc_stream d) @ owed d = sent (wc_stream c) @ owed c @ map WsPong (ping_payloads read)" by blast
    have "ws_poll ops incoming c = (r, d)" unfolding ws_poll_def run by simp
    then obtain qs where rest: "recv_run (ws_poll ops incoming) ws_cancel (ws_arrive arrives) steps d = (qs, c')"
      using Cons.prems(1) RecvPoll by (auto split: option.splits result.splits prod.splits)
    from Cons.IH [OF rest d(1)] obtain read' where "incoming (wc_stream d) @ arrivals steps = read' @ incoming (wc_stream c')"
      "sent (wc_stream c') @ owed c' = sent (wc_stream d) @ owed d @ map WsPong (ping_payloads read')" by blast
    with d RecvPoll show ?thesis
      by (intro exI [where x = "read @ read'"] conjI) (simp, simp add: ping_payloads_append flip: append_assoc)
  qed
qed

end

text \<open>\<open>frames\<close> are the frames that have arrived and were not read.\<close>

locale pipe_duplex =
  fixes ops :: "'w pipe_ops"
    and frames :: "'w \<Rightarrow> (bytes, io_error) result list"
    and ended :: "'w \<Rightarrow> bool"
    and arrives :: "(bytes, io_error) result \<Rightarrow> 'w \<Rightarrow> 'w"
  assumes next_empty: "frames w = [] \<Longrightarrow> \<exists>w'. po_next ops w = (if ended w then Some None else None, w') \<and> frames w' = []"
    and next_frame: "frames w = x # xs \<Longrightarrow> \<exists>w'. po_next ops w = (Some (Some x), w') \<and> frames w' = xs"
    and frames_arrives: "frames (arrives x w) = frames w @ [x]"

fun ok_frames :: "(bytes, io_error) result list \<Rightarrow> bytes list" where
  "ok_frames [] = []"
| "ok_frames (Ok p # xs) = p # ok_frames xs"
| "ok_frames (Err e # xs) = ok_frames xs"

definition pipe_unread :: "('w \<Rightarrow> (bytes, io_error) result list) \<Rightarrow> 'w pipe_connection \<Rightarrow> bytes list" where
  "pipe_unread frames c = ok_frames (frames (pc_stream c))"

definition pipe_arrive ::
  "((bytes, io_error) result \<Rightarrow> 'w \<Rightarrow> 'w) \<Rightarrow> (bytes, io_error) result \<Rightarrow> 'w pipe_connection \<Rightarrow> 'w pipe_connection" where
  "pipe_arrive arrives x c = c\<lparr>pc_stream := arrives x (pc_stream c)\<rparr>"

lemma ok_frames_append: "ok_frames (xs @ ys) = ok_frames xs @ ok_frames ys"
  by (induction xs rule: ok_frames.induct) simp_all

lemma ok_frames_concat: "concat (map (\<lambda>x. ok_frames [x]) xs) = ok_frames xs"
  by (induction xs rule: ok_frames.induct) simp_all

sublocale pipe_duplex \<subseteq>
  pipe: ipc_connection "pipe_recv ops" "\<lambda>c. c" "pipe_arrive arrives" "\<lambda>x. ok_frames [x]" "pipe_unread frames"
proof
  fix c p c' r x
  have "pipe_recv ops c = (r, c') \<Longrightarrow> pipe_unread frames c = (case r of Some (Ok q) \<Rightarrow> [q] | _ \<Rightarrow> []) @ pipe_unread frames c'" for r
  proof (cases "frames (pc_stream c)")
    case Nil
    from next_empty [OF this] show "pipe_recv ops c = (r, c') \<Longrightarrow> ?thesis"
      by (auto simp: pipe_recv_def pipe_unread_def Nil split: if_splits)
  next
    case (Cons x xs)
    from next_frame [OF this] show "pipe_recv ops c = (r, c') \<Longrightarrow> ?thesis"
      by (cases x) (auto simp: pipe_recv_def pipe_unread_def Cons)
  qed
  note keep = this
  show "pipe_recv ops c = (Some (Ok p), c') \<Longrightarrow> pipe_unread frames c = p # pipe_unread frames c'" using keep by fastforce
  show "pipe_recv ops c = (r, c') \<Longrightarrow> \<forall>p. r \<noteq> Some (Ok p) \<Longrightarrow> pipe_unread frames c' = pipe_unread frames c"
    using keep [of r] by (auto split: option.splits result.splits)
  show "pipe_unread frames (pipe_arrive arrives x c) = pipe_unread frames c @ ok_frames [x]"
    by (simp add: pipe_unread_def pipe_arrive_def frames_arrives ok_frames_append)
qed simp

context ws_duplex
begin

lemma ws_in_order:
  "case recv_run (ws_poll ops incoming) ws_cancel (ws_arrive arrives) steps c of (ps, c') \<Rightarrow>
     ps @ ws_unread incoming c' = ws_unread incoming c @ binary_payloads (arrivals steps)"
  using ws.recv_run_unread by (simp add: binary_payloads_concat split: prod.split)

lemma ws_poll_total: "\<exists>r. ws_recv ops (Suc (length (incoming (wc_stream c)))) c = Some r \<and> ws_poll ops incoming c = r"
  using ws_recv_enough [of c "Suc (length (incoming (wc_stream c)))"] by (auto simp: ws_poll_def simp del: ws_recv.simps)

end

context pipe_duplex
begin

lemma pipe_in_order:
  "case recv_run (pipe_recv ops) (\<lambda>c. c) (pipe_arrive arrives) steps c of (ps, c') \<Rightarrow>
     ps @ pipe_unread frames c' = pipe_unread frames c @ ok_frames (arrivals steps)"
  using pipe.recv_run_unread by (simp add: ok_frames_concat split: prod.split)

end

section \<open>Machines\<close>

text \<open>A socket as two queues; the sink makes a call wait \<open>sk_busy\<close> times, with the message already taken.\<close>

record 'x socket =
  sk_in :: "'x list"
  sk_ended :: bool
  sk_out :: "ws_message list"
  sk_busy :: nat

definition sk_next :: "'x socket \<Rightarrow> 'x option option \<times> 'x socket" where
  "sk_next w =
     (case sk_in w of
        [] \<Rightarrow> (if sk_ended w then Some None else None, w)
      | x # xs \<Rightarrow> (Some (Some x), w\<lparr>sk_in := xs\<rparr>))"

definition sk_flush :: "'x socket \<Rightarrow> (unit, 'e) result option \<times> 'x socket" where
  "sk_flush w = (if sk_busy w = 0 then (Some (Ok ()), w) else (None, w\<lparr>sk_busy := sk_busy w - 1\<rparr>))"

definition slow_socket :: "(ws_message, ws_error) result socket ws_ops" where
  "slow_socket =
     \<lparr>wo_send = (\<lambda>m w. sk_flush (w\<lparr>sk_out := sk_out w @ [m]\<rparr>)), wo_flush = sk_flush, wo_next = sk_next,
      wo_close = (\<lambda>w. (Some (Ok ()), w\<lparr>sk_ended := True\<rparr>))\<rparr>"

definition fast_socket :: "(ws_message, ws_error) result socket ws_ops" where
  "fast_socket = slow_socket\<lparr>wo_send := (\<lambda>m w. (Some (Ok ()), w\<lparr>sk_out := sk_out w @ [m]\<rparr>))\<rparr>"

definition pipe_socket :: "(bytes, io_error) result socket pipe_ops" where
  "pipe_socket =
     \<lparr>po_send = (\<lambda>b w. (Some (Ok ()), w)), po_next = sk_next, po_close = (\<lambda>w. (Some (Ok ()), w\<lparr>sk_ended := True\<rparr>))\<rparr>"

definition sk_arrives :: "'x \<Rightarrow> 'x socket \<Rightarrow> 'x socket" where
  "sk_arrives x w = w\<lparr>sk_in := sk_in w @ [x]\<rparr>"

lemmas socket_defs = sk_arrives_def slow_socket_def fast_socket_def pipe_socket_def sk_next_def sk_flush_def

interpretation slow: ws_duplex slow_socket sk_in sk_ended sk_arrives
  by unfold_locales (auto simp: socket_defs split: if_splits)

interpretation fast: ws_ready fast_socket sk_in sk_ended sk_arrives sk_out
  by unfold_locales (auto simp: socket_defs split: if_splits list.splits)

interpretation pipe_sock: pipe_duplex pipe_socket sk_in sk_ended sk_arrives
  by unfold_locales (auto simp: socket_defs split: if_splits)

section \<open>Properties\<close>

text \<open>C19. Both transports keep the contract of a connection: whatever sequence of polls, dropped
  calls and arrivals from the peer, the payloads that \<open>recv\<close> returned, followed by those that wait to be read, are the
  payloads that had arrived followed by those that arrived meanwhile, in order: none is lost, duplicated or split, also when
  the session drops a \<open>recv\<close> that is sending a pong. Every poll ends: with the messages that have arrived the
  loop of the WebSocket needs at most one round more than there are messages.\<close>

theorem transports_deliver:
  assumes "ws_duplex wops incoming ended arrives" and "pipe_duplex pops frames pended parrives"
  shows "(case recv_run (ws_poll wops incoming) ws_cancel (ws_arrive arrives) steps c of (ps, c') \<Rightarrow>
      ps @ ws_unread incoming c' = ws_unread incoming c @ binary_payloads (arrivals steps)) \<and>
    (\<exists>r. ws_recv wops (Suc (length (incoming (wc_stream c)))) c = Some r \<and> ws_poll wops incoming c = r) \<and>
    (case recv_run (pipe_recv pops) (\<lambda>d. d) (pipe_arrive parrives) psteps d of (ps, d') \<Rightarrow>
      ps @ pipe_unread frames d' = pipe_unread frames d @ ok_frames (arrivals psteps))"
  using ws_duplex.ws_in_order [OF assms(1)] pipe_duplex.pipe_in_order [OF assms(2)] ws_duplex.ws_poll_total [OF assms(1)]
  by simp

theorem transports_deliver_witness:
  "let c = \<lparr>wc_peer_addr = [], wc_stream = \<lparr>sk_in = [Ok (WsPing [7])], sk_ended = False, sk_out = [], sk_busy = 1\<rparr>,
         wc_pending_pong = None, wc_sending = False\<rparr>;
       steps = [RecvPoll, RecvArrive (Ok (WsBinary [1])), RecvDrop, RecvPoll, RecvArrive (Ok (WsBinary [2]))]
   in case recv_run (ws_poll slow_socket sk_in) ws_cancel (ws_arrive sk_arrives) steps c of (ps, c') \<Rightarrow>
     ps = [[1]] \<and> sk_out (wc_stream c') = [WsPong [7], WsPong [7]] \<and>
     ps @ ws_unread sk_in c' = ws_unread sk_in c @ binary_payloads (arrivals steps)"
proof -
  let ?c = "\<lparr>wc_peer_addr = [], wc_stream = \<lparr>sk_in = [Ok (WsPing [7])], sk_ended = False, sk_out = [], sk_busy = 1\<rparr>,
         wc_pending_pong = None, wc_sending = False\<rparr>"
  let ?steps = "[RecvPoll, RecvArrive (Ok (WsBinary [1])), RecvDrop, RecvPoll, RecvArrive (Ok (WsBinary [2]))]"
  have "case recv_run (ws_poll slow_socket sk_in) ws_cancel (ws_arrive sk_arrives) ?steps ?c of (ps, c') \<Rightarrow>
     ps = [[1]] \<and> sk_out (wc_stream c') = [WsPong [7], WsPong [7]]"
    by (simp add: ws_poll_def ws_pong_def ws_next_def ws_cancel_def ws_arrive_def socket_defs)
  then show ?thesis
    using transports_deliver [OF slow.ws_duplex_axioms pipe_sock.pipe_duplex_axioms, where steps = ?steps and c = ?c]
    unfolding Let_def by (auto split: prod.splits)
qed

text \<open>Pings are answered in order: over a sink that takes messages at once, the pongs that were sent, together with
  the one that is still owed, are the answers to the pings that were read, one each and in their order, whatever
  sequence of polls, dropped calls and arrivals read them.\<close>

theorem pings_answered:
  assumes "ws_ready ops incoming ended arrives sent" and "\<not> wc_sending c"
  shows "case recv_run (ws_poll ops incoming) ws_cancel (ws_arrive arrives) steps c of (ps, c') \<Rightarrow>
    \<exists>read. incoming (wc_stream c) @ arrivals steps = read @ incoming (wc_stream c') \<and>
      sent (wc_stream c') @ owed c' = sent (wc_stream c) @ owed c @ map WsPong (ping_payloads read)"
  using ws_ready.ws_run_pongs [OF assms(1) _ assms(2)] by (simp split: prod.split)

theorem pings_answered_witness:
  "let c = \<lparr>wc_peer_addr = [], wc_stream = \<lparr>sk_in = [Ok (WsPing [7])], sk_ended = False, sk_out = [], sk_busy = 0\<rparr>,
         wc_pending_pong = None, wc_sending = False\<rparr>;
       steps = [RecvPoll, RecvArrive (Ok (WsPing [8])), RecvPoll]
   in case recv_run (ws_poll fast_socket sk_in) ws_cancel (ws_arrive sk_arrives) steps c of (ps, c') \<Rightarrow>
     sk_out (wc_stream c') = [WsPong [7], WsPong [8]] \<and>
     (\<exists>read. sk_in (wc_stream c) @ arrivals steps = read @ sk_in (wc_stream c') \<and>
        sk_out (wc_stream c') @ owed c' = sk_out (wc_stream c) @ owed c @ map WsPong (ping_payloads read))"
proof -
  let ?c = "\<lparr>wc_peer_addr = [], wc_stream = \<lparr>sk_in = [Ok (WsPing [7])], sk_ended = False, sk_out = [], sk_busy = 0\<rparr>,
         wc_pending_pong = None, wc_sending = False\<rparr>"
  let ?steps = "[RecvPoll, RecvArrive (Ok (WsPing [8])), RecvPoll]"
  have "case recv_run (ws_poll fast_socket sk_in) ws_cancel (ws_arrive sk_arrives) ?steps ?c of (ps, c') \<Rightarrow>
      sk_out (wc_stream c') = [WsPong [7], WsPong [8]]"
    by (simp add: ws_poll_def ws_pong_def ws_next_def ws_cancel_def ws_arrive_def socket_defs)
  then show ?thesis
    using pings_answered [OF fast.ws_ready_axioms, where steps = ?steps and c = ?c]
    unfolding Let_def by (auto split: prod.splits)
qed

end
