(* ===== verification/Remote_Handler.thy ===== *)
theory Remote_Handler
  imports Remote_Address Type_Id
begin

text \<open>
  The code that \<open>derive(RemoteAddressable)\<close> writes for an actor (\<open>acktor-derive/src/remote_addressable.rs\<close>): the
  codec table with which others encode messages for the actor, and the handler of \<open>BinaryMessage\<close>, which
  decodes an inbound message, runs the handler of its type and encodes the response. Messages and
  results of all types of the list \<open>#[message(..)]\<close> are values of \<open>'m\<close> and \<open>'res\<close>, as behind \<open>dyn Any\<close>.
\<close>

section \<open>The derived code\<close>

text \<open>A message type of the list: its \<open>TypeId\<close>, its \<open>MessageId\<close>, the codecs of the message and of its result, the
  actor's handler, which answers, unwinds or never ends, and the response its result makes. The derived code awaits the
  response before it answers, so a response that never completes counts as a handler that never ends.\<close>

record ('ty, 'm, 'h, 'res, 's, 'e, 'ctx) remote_message =
  rm_type :: 'ty
  rm_id :: u64
  rm_codec :: "('m, 'e option, 'ctx option) codec"
  rm_res_codec :: "('res, 'e option, 'ctx option) codec"
  rm_handle :: "'m \<Rightarrow> 's \<Rightarrow> ('h outcome \<times> 's) option"
  rm_respond :: "'h \<Rightarrow> unit option \<Rightarrow> (unit, 'res) reply list"

text \<open>The check that is evaluated when the actor is compiled.\<close>

fun ids_unique :: "u64 list \<Rightarrow> bool" where
  "ids_unique [] \<longleftrightarrow> True"
| "ids_unique (i # ids) \<longleftrightarrow> list_all (\<lambda>j. i \<noteq> j) ids \<and> ids_unique ids"

text \<open>The table is filled in the order of the list, under the type of the message, so the downcast in
  \<open>encode_msg\<close> meets the type it expects.\<close>

definition message_codec_of ::
  "('res \<Rightarrow> 'd) \<Rightarrow> ('ty, 'm, 'h, 'res, 's, 'e, 'ctx) remote_message \<Rightarrow> ('m, 'd, 'e option, 'ctx option) message_codec" where
  "message_codec_of boxed x =
     \<lparr>mc_message_id = rm_id x,
      mc_encode_msg = (\<lambda>m ctx. encode_to_bytes (rm_codec x) m ctx),
      mc_decode_res = (\<lambda>ctx bytes. map_ok boxed (cd_decode (rm_res_codec x) ctx bytes))\<rparr>"

definition derived_codec_table ::
  "('res \<Rightarrow> 'd) \<Rightarrow> ('ty, 'm, 'h, 'res, 's, 'e, 'ctx) remote_message list \<Rightarrow>
   ('ty, 'm, 'd, 'e option, 'ctx option) codec_table" where
  "derived_codec_table boxed messages = map_of (rev (map (\<lambda>x. (rm_type x, message_codec_of boxed x)) messages))"

text \<open>Awaiting the inner response channel: the value or the error that was sent on it, or a lost sender.\<close>

fun await_response :: "('tx, 'res) reply list \<Rightarrow> ('res, recv_error) result" where
  "await_response [] = Err RecvClosed"
| "await_response (Reply tx r # rs) = Ok r"
| "await_response (ReplyErr tx e # rs) = Err (RecvOther e)"
| "await_response (SpawnReply (Some tx) r # rs) = Ok r"
| "await_response (SpawnReply None r # rs) = await_response rs"
| "await_response (LogDropped e # rs) = await_response rs"

text \<open>A response without a channel answers nobody; its log lines and tasks remain.\<close>

fun silent :: "(unit, 'res) reply list \<Rightarrow> ('tx, bytes) reply list" where
  "silent [] = []"
| "silent (LogDropped e # rs) = LogDropped e # silent rs"
| "silent (SpawnReply None r # rs) = SpawnReply None [] # silent rs"
| "silent (_ # rs) = silent rs"

fun is_answer :: "('tx, 'r) reply \<Rightarrow> bool" where
  "is_answer (Reply tx r) \<longleftrightarrow> True"
| "is_answer (ReplyErr tx e) \<longleftrightarrow> True"
| "is_answer (SpawnReply tx r) \<longleftrightarrow> tx \<noteq> None"
| "is_answer (LogDropped e) \<longleftrightarrow> False"

text \<open>Encoding with the context of the message, whose state is \<open>'e\<close>.\<close>

definition encode_with ::
  "'ctx option \<Rightarrow> ('res, 'e option, 'ctx option) codec \<Rightarrow> 'res \<Rightarrow> 'e \<Rightarrow> (bytes, encode_error) result \<times> 'e" where
  "encode_with encode_ctx cd res e =
     (case encode_to_bytes cd res (case encode_ctx of Some _ \<Rightarrow> Some e | None \<Rightarrow> None) of
        (r, ec') \<Rightarrow> (r, case ec' of Some e' \<Rightarrow> e' | None \<Rightarrow> e))"

definition binary_send_result ::
  "('res, recv_error) result \<Rightarrow> 'tx \<Rightarrow> 'ctx option \<Rightarrow> ('res, 'e option, 'ctx option) codec \<Rightarrow> 'e \<Rightarrow>
   ('tx, bytes) reply list \<times> 'e" where
  "binary_send_result result tx encode_ctx cd e =
     (case result of
        Ok res \<Rightarrow>
          (case encode_with encode_ctx cd res e of
             (Ok bytes, e') \<Rightarrow> ([Reply tx bytes], e')
           | (Err err, e') \<Rightarrow> ([ReplyErr tx (encode_error_box err)], e'))
      | Err err \<Rightarrow> ([ReplyErr tx (recv_error_box err)], e))"

definition send_err :: "'tx option \<Rightarrow> decode_error \<Rightarrow> ('tx, bytes) reply list" where
  "send_err result_tx err = (case result_tx of Some tx \<Rightarrow> [ReplyErr tx (decode_error_box err)] | None \<Rightarrow> [])"

text \<open>The handler of \<open>BinaryMessage\<close>; \<open>addr\<close> is where the bytes of the message lie.\<close>

definition binary_handle ::
  "('ty, 'm, 'h, 'res, 's, 'e, 'ctx) remote_message list \<Rightarrow> nat \<Rightarrow> ('tx, 'ctx) binary_message \<Rightarrow> 's \<times> 'e \<Rightarrow>
   (('tx, bytes) reply list outcome \<times> 's \<times> 'e) option" where
  "binary_handle messages addr msg st =
     (case List.find (\<lambda>x. rm_id x = bm_message_id msg) messages of
        None \<Rightarrow> Some (Ret (send_err (bm_result_tx msg) (UnknownMessageId (bm_message_id msg))), st)
      | Some x \<Rightarrow>
          (case cd_decode (rm_codec x) (bm_decode_msg_ctx msg) \<lparr>b_addr = addr, b_bytes = bm_bytes msg\<rparr> of
             Err e \<Rightarrow> Some (Ret (send_err (bm_result_tx msg) e), st)
           | Ok m \<Rightarrow>
               (case rm_handle x m (fst st) of
                  None \<Rightarrow> None
                | Some (Panic p, s') \<Rightarrow> Some (Panic p, s', snd st)
                | Some (Ret result, s') \<Rightarrow>
                    (case bm_result_tx msg of
                       None \<Rightarrow> Some (Ret (silent (rm_respond x result None)), s', snd st)
                     | Some tx \<Rightarrow>
                         (case binary_send_result (await_response (rm_respond x result (Some ()))) tx
                             (bm_encode_res_ctx msg) (rm_res_codec x) (snd st) of
                            (replies, e') \<Rightarrow> Some (Ret replies, s', e'))))))"

section \<open>Properties\<close>

lemma ids_unique_distinct: "ids_unique ids \<longleftrightarrow> distinct ids"
  by (induction ids) (auto simp: list_all_iff)

lemma find_message:
  assumes "distinct (map rm_id messages)" and "x \<in> set messages"
  shows "List.find (\<lambda>y. rm_id y = rm_id x) messages = Some x"
  using assms by (induction messages) auto

lemma table_entry:
  assumes "distinct (map rm_type messages)" and "x \<in> set messages"
  shows "derived_codec_table boxed messages (rm_type x) = Some (message_codec_of boxed x)"
proof -
  have "distinct (map fst (rev (map (\<lambda>x. (rm_type x, message_codec_of boxed x)) messages)))"
    using assms(1) by (simp add: o_def flip: rev_map)
  moreover have "(rm_type x, message_codec_of boxed x) \<in> set (rev (map (\<lambda>x. (rm_type x, message_codec_of boxed x)) messages))"
    using assms(2) by simp
  ultimately show ?thesis unfolding derived_codec_table_def by (rule map_of_is_SomeI)
qed

lemma binary_send_result_once:
  "binary_send_result r tx ctx cd e = (replies, e') \<Longrightarrow> (\<exists>b. replies = [Reply tx b]) \<or> (\<exists>err. replies = [ReplyErr tx err])"
  by (auto simp: binary_send_result_def split: result.splits prod.splits)

lemma silent_answers: "filter is_answer (silent rs) = []"
  by (induction rs rule: silent.induct) simp_all

text \<open>C14. Every inbound message is answered once: whatever bytes arrive, the derived handler gives exactly
  one answer on the response channel if there is one, and answers nobody otherwise, unless the actor's own handler never
  ends or unwinds. A message with an unknown id or undecodable bytes gets an error and leaves the actor as it was;
  for any other the actor's handler ran once, on the decoded message.\<close>

theorem binary_message_answered_once:
  "let decoded = Option.bind (List.find (\<lambda>x. rm_id x = bm_message_id msg) messages) (\<lambda>x.
       case cd_decode (rm_codec x) (bm_decode_msg_ctx msg) \<lparr>b_addr = addr, b_bytes = bm_bytes msg\<rparr> of
         Ok m \<Rightarrow> Some (x, m) | Err _ \<Rightarrow> None)
   in case decoded of
        None \<Rightarrow> \<exists>e. binary_handle messages addr msg st =
          Some (Ret (case bm_result_tx msg of Some tx \<Rightarrow> [ReplyErr tx e] | None \<Rightarrow> []), st)
      | Some (x, m) \<Rightarrow>
          (case rm_handle x m (fst st) of
             None \<Rightarrow> binary_handle messages addr msg st = None
           | Some (Panic p, s') \<Rightarrow> binary_handle messages addr msg st = Some (Panic p, s', snd st)
           | Some (Ret h, s') \<Rightarrow> \<exists>replies e'. binary_handle messages addr msg st = Some (Ret replies, s', e') \<and>
               (case bm_result_tx msg of
                  None \<Rightarrow> replies = silent (rm_respond x h None) \<and> filter is_answer replies = []
                | Some tx \<Rightarrow> (\<exists>b. replies = [Reply tx b]) \<or> (\<exists>e. replies = [ReplyErr tx e])))"
  by (auto simp: Let_def binary_handle_def send_err_def silent_answers split: option.split result.split outcome.split prod.split
      dest: binary_send_result_once)

lemma binary_handle_decoded:
  assumes "List.find (\<lambda>y. rm_id y = bm_message_id msg) messages = Some x"
    and "cd_decode (rm_codec x) (bm_decode_msg_ctx msg) \<lparr>b_addr = addr, b_bytes = bm_bytes msg\<rparr> = Ok m"
    and "bm_result_tx msg = Some tx"
  shows "binary_handle messages addr msg (s, e) =
    (case rm_handle x m s of
       None \<Rightarrow> None
     | Some (Panic p, s') \<Rightarrow> Some (Panic p, s', e)
     | Some (Ret h, s') \<Rightarrow>
         (case binary_send_result (await_response (rm_respond x h (Some ()))) tx (bm_encode_res_ctx msg) (rm_res_codec x) e of
            (replies, e') \<Rightarrow> Some (Ret replies, s', e')))"
  using assms by (auto simp: binary_handle_def split: option.split outcome.split prod.split)

lemma response_decoded:
  assumes "codec_laws (rm_res_codec x) res_fits res_rel" and "\<And>v. downcast (boxed v) = Some v"
    and "encode_with ctx (rm_res_codec x) res e = (Ok res_bytes, e')"
    and "cd_len (rm_res_codec x) res < 2 ^ 64" and "res_fits dc res a"
  shows "\<exists>v. res_rel dc res v \<and>
    decode_res downcast (message_codec_of boxed x) dc caller (RawAnswer (Ok res_bytes) a) = [Reply caller v]"
proof -
  obtain ec0 ec1 where "encode_to_bytes (rm_res_codec x) res ec0 = (Ok res_bytes, ec1)"
    using assms(3) by (auto simp: encode_with_def split: prod.splits)
  from codec_laws.to_bytes(2) [OF assms(1) this assms(4,5)]
  show ?thesis using assms(2) by (auto simp: decode_res_def message_codec_of_def)
qed

text \<open>A call to an actor in another process does what the local call would do: what the caller
  encodes with the actor's codec table is decoded by the actor's derived handler to the message it
  stands for, and the actor's handler is run on it; the value it responds with is encoded, and the
  caller decodes it to the value it stands for. A handler without an answer, and an answer that cannot
  be encoded, reach the caller as an error.\<close>

theorem remote_call_end_to_end:
  assumes "ids_unique (map rm_id messages)" and "distinct (map rm_type messages)" and "x \<in> set messages"
    and "codec_laws (rm_codec x) fits rel" and "codec_laws (rm_res_codec x) res_fits res_rel"
    and "derived_codec_table boxed messages (rm_type x) = Some codec" and "\<And>v. downcast (boxed v) = Some v"
    and "mc_encode_msg codec m ec = (Ok bytes, ec')" and "cd_len (rm_codec x) m < 2 ^ 64"
    and "bm_message_id msg = mc_message_id codec" and "bm_bytes msg = bytes" and "bm_result_tx msg = Some tx"
    and "fits (bm_decode_msg_ctx msg) m addr"
  shows "\<exists>m'. rel (bm_decode_msg_ctx msg) m m' \<and>
    (case rm_handle x m' s of
       None \<Rightarrow> binary_handle messages addr msg (s, e) = None
     | Some (Panic p, s') \<Rightarrow> binary_handle messages addr msg (s, e) = Some (Panic p, s', e)
     | Some (Ret h, s') \<Rightarrow>
         (case await_response (rm_respond x h (Some ())) of
            Err err \<Rightarrow> binary_handle messages addr msg (s, e) = Some (Ret [ReplyErr tx (recv_error_box err)], s', e)
          | Ok res \<Rightarrow>
              (case encode_with (bm_encode_res_ctx msg) (rm_res_codec x) res e of
                 (Err err, e') \<Rightarrow>
                   binary_handle messages addr msg (s, e) = Some (Ret [ReplyErr tx (encode_error_box err)], s', e')
               | (Ok res_bytes, e') \<Rightarrow>
                   binary_handle messages addr msg (s, e) = Some (Ret [Reply tx res_bytes], s', e') \<and>
                   (\<forall>dc a. cd_len (rm_res_codec x) res < 2 ^ 64 \<and> res_fits dc res a \<longrightarrow> (\<exists>v. res_rel dc res v \<and>
                      decode_res downcast codec dc caller (RawAnswer (Ok res_bytes) a) = [Reply caller v])))))"
proof -
  have codec: "codec = message_codec_of boxed x" using table_entry [OF assms(2,3), of boxed] assms(6) by simp
  have find: "List.find (\<lambda>y. rm_id y = bm_message_id msg) messages = Some x"
    using find_message [OF _ assms(3)] assms(1,10) by (simp add: ids_unique_distinct codec message_codec_of_def)
  have "encode_to_bytes (rm_codec x) m ec = (Ok bytes, ec')" using assms(8) by (simp add: codec message_codec_of_def)
  then obtain m' where dec: "cd_decode (rm_codec x) (bm_decode_msg_ctx msg) \<lparr>b_addr = addr, b_bytes = bm_bytes msg\<rparr> = Ok m'"
    and m': "rel (bm_decode_msg_ctx msg) m m'"
    using codec_laws.to_bytes(2) [OF assms(4) _ assms(9,13)] assms(11) by blast
  note answer = response_decoded [where downcast = downcast and boxed = boxed, OF assms(5,7), folded codec]
  show ?thesis
    using m' by (intro exI [where x = m'])
      (auto simp: binary_handle_decoded [OF find dec assms(12)] binary_send_result_def answer
        split: option.split outcome.split prod.split result.split)
qed

theorem remote_call_end_to_end_witness:
  "let x = \<lparr>rm_type = (), rm_id = 7, rm_codec = word_codec zc_std, rm_res_codec = word_codec zc_std,
         rm_handle = (\<lambda>m s. Some (Ret (m + s), s + 1)), rm_respond = respond\<rparr> ::
         (unit, 16 word, 16 word, 16 word, 16 word, unit, unit) remote_message;
       codec = message_codec_of (\<lambda>v. v) x
   in mc_encode_msg codec 258 None = (Ok [2, 1], None) \<and>
     binary_handle [x] 0 (binary_send 3 7 [2, 1] (9 :: nat)) (1, ()) = Some (Ret [Reply 9 [3, 1]], 2, ()) \<and>
     decode_res Some codec None (4 :: nat) (RawAnswer (Ok [3, 1]) 0) = [Reply 4 259]"
proof -
  let ?cd = "word_codec zc_std :: (16 word, unit option, unit option) codec"
  let ?x = "\<lparr>rm_type = (), rm_id = 7, rm_codec = ?cd, rm_res_codec = ?cd,
      rm_handle = (\<lambda>m s. Some (Ret (m + s), s + 1)), rm_respond = respond\<rparr> ::
      (unit, 16 word, 16 word, 16 word, 16 word, unit, unit) remote_message"
  let ?codec = "message_codec_of (\<lambda>v. v) ?x" and ?msg = "binary_send 3 7 [2, 1] (9 :: nat) :: (nat, unit) binary_message"
  have laws: "codec_laws ?cd always same" by (rule zc_std.word_laws) simp
  have enc: "mc_encode_msg ?codec 258 None = (Ok [2, 1], None)"
    and enc2: "encode_to_bytes ?cd 259 None = (Ok [3, 1], None)"
    by (simp_all add: message_codec_of_def encode_to_bytes_def word_codec_def Let_def le_bytes_numeral)
  have len: "cd_len ?cd v < 2 ^ 64" for v by (simp add: word_codec_def Let_def)
  have table: "derived_codec_table (\<lambda>v. v) [?x] (rm_type ?x) = Some ?codec" by (rule table_entry) simp_all
  have "\<exists>v. v = 259 \<and> binary_handle [?x] 0 ?msg (1, ()) = Some (Ret [Reply 9 [3, 1]], 2, ()) \<and>
      decode_res Some ?codec None (4 :: nat) (RawAnswer (Ok [3, 1]) 0) = [Reply 4 v]"
    using remote_call_end_to_end [where messages = "[?x]" and x = ?x and boxed = "\<lambda>v. v" and downcast = Some and codec = ?codec
        and m = 258 and ec = None and bytes = "[2, 1]" and ec' = None and msg = ?msg and tx = 9 and addr = 0 and s = 1 and e = "()"
        and caller = "4 :: nat" and fits = always and rel = same and res_fits = always and res_rel = same]
      laws enc enc2 len table
    by (simp add: binary_send_def message_codec_of_def respond_def encode_with_def)
  then show ?thesis using enc by (simp add: Let_def)
qed

end
