(* ===== verification/Ipc_Link.thy ===== *)
theory Ipc_Link
  imports Session_Run Ipc_Wire Transport Remote_Handler
begin

text \<open>
  Two sessions joined by a connection: the frames of a session are the encodings of
  \<open>acktor/src/codec/ipc_message.rs\<close>, a transport of \<open>acktor-ipc/src/ipc_method\<close> carries them, the other session
  decodes them. On this, a call to an actor of the other process from the message to its decoded answer,
  through both sessions (\<open>acktor-ipc/src/session.rs\<close>) and the derived handler of the actor.
\<close>

section \<open>Frames\<close>

definition wire_encode :: "ipc_message pm_ops \<Rightarrow> ipc_message \<Rightarrow> (bytes, encode_error) result" where
  "wire_encode pm m = fst (encode_to_bytes (ipc_message_codec pm :: (ipc_message, unit, unit) codec) m ())"

definition wire_decode :: "ipc_message pm_ops \<Rightarrow> bytes \<Rightarrow> (ipc_message, decode_error) result" where
  "wire_decode pm b = cd_decode (ipc_message_codec pm :: (ipc_message, unit, unit) codec) () \<lparr>b_addr = 0, b_bytes = b\<rparr>"

definition on_wire :: "ipc_message pm_ops \<Rightarrow> ('m, 'mb, 'tx) sess_env \<Rightarrow> bool" where
  "on_wire pm env \<longleftrightarrow> e_encode env = wire_encode pm \<and> e_decode env = wire_decode pm"

fun frames :: "('mb, 'tx) sess_out list \<Rightarrow> (ipc_message \<times> bytes) list" where
  "frames [] = []"
| "frames (OutFrame m b # outs) = (m, b) # frames outs"
| "frames (x # outs) = frames outs"

text \<open>What a session does with a message it has decoded.\<close>

definition handle_decoded ::
  "('m, 'mb, 'tx) sess_env \<Rightarrow> ipc_message \<Rightarrow> ('m, 'tx) session \<Rightarrow> ('m, 'mb, 'tx) Session.handled" where
  "handle_decoded env ipc_message s =
     (case im_message ipc_message of
        Some (ITNodeMessage m) \<Rightarrow> handle_node_message env m s
      | Some (ITActorMessage m) \<Rightarrow> handle_actor_message env m s
      | Some (ITMessageResponse r) \<Rightarrow> Ret (handle_message_response env r s)
      | None \<Rightarrow> Ret (Err (SDecodeError (decode_error_from_str ''missing field `message` in `IpcMessage`'')), s, []))"

lemma wire_roundtrip:
  assumes "proto_message pm" and "wire_encode pm m = Ok b"
  shows "wire_decode pm b = Ok m"
proof -
  have "pm_encode pm m = Ok b"
    using assms(2) by (auto simp: wire_encode_def encode_to_bytes_def ipc_message_codec_def pm_append_def split: result.splits)
  then have "pm_decode pm b = Ok m" using proto_message.roundtrip [OF assms(1)] by blast
  then show ?thesis by (simp add: wire_decode_def ipc_message_codec_def)
qed

lemma on_wire_carries:
  assumes "proto_message pm" and "on_wire pm envA" and "on_wire pm envB" and "wire_encode pm m = Ok b" and "e_conn_send envA b = Ok ()"
  shows "carries envA envB m b"
  using assms wire_roundtrip by (simp add: carries_def on_wire_def)

lemma handle_ipc_decoded: "e_decode env b = Ok m \<Longrightarrow> handle_ipc_message env b s = handle_decoded env m s"
  by (simp add: handle_ipc_message_def handle_decoded_def)

lemma frames_append [simp]: "frames (xs @ ys) = frames xs @ frames ys"
proof (induction xs)
  case (Cons x xs)
  then show ?case by (cases x) simp_all
qed simp

text \<open>Every frame a session writes is the encoding of a message.\<close>

definition encoded :: "('m, 'mb, 'tx) sess_env \<Rightarrow> ('mb, 'tx) sess_out list \<Rightarrow> bool" where
  "encoded env outs \<longleftrightarrow> list_all (\<lambda>(m, b). e_encode env m = Ok b) (frames outs)"

lemma encoded_append [simp]: "encoded env (xs @ ys) \<longleftrightarrow> encoded env xs \<and> encoded env ys"
  by (simp add: encoded_def)

lemma encoded_basic [simp]:
  "encoded env []" "encoded env (snd (tx_send env tx p))" "encoded env (snd (send_ipc_message env m))"
  "encoded env [OutScheduleCleanup n]" "encoded env [OutForward mb bm]"
  "encoded env [OutSpawnForward r bm tag]" "encoded env [OutSpawnCreate a l c tag]"
  by (simp_all add: encoded_def tx_send_def send_ipc_message_def split: result.split)

lemma encoded_concat: "(\<And>x. x \<in> set xs \<Longrightarrow> encoded env x) \<Longrightarrow> encoded env (concat xs)"
  by (induction xs) simp_all

lemma encoded_cleanup: "encoded env (snd (cleanup_message_res_tx_map env s))"
  by (auto simp: cleanup_message_res_tx_map_def Let_def intro!: encoded_concat)

lemma encoded_tracked: "send_tracked env tx mk s = (s', out) \<Longrightarrow> encoded env out"
  by (auto simp: send_tracked_def next_tag_def Let_def split_beta split: result.splits)

lemma encoded_cmd: "sess_handle_cmd env cmd s c = Ret (s', c', out) \<Longrightarrow> encoded env out"
  by (cases "(env, cmd, s, c)" rule: sess_handle_cmd.cases)
    (auto simp: handle_remote_create_actor_def handle_remote_get_actor_def handle_binary_message_def
      handle_response_command_def Let_def dest: encoded_tracked split: outcome.splits option.splits prod.splits)

lemma encoded_ipc: "handle_ipc_message env b s = Ret (r, s', out) \<Longrightarrow> encoded env out"
  by (auto simp: handle_ipc_message_def handle_node_message_def handle_actor_message_def handle_message_response_def
      Let_def split_beta split: result.splits option.splits ipc_message_type.splits node_message_type.splits outcome.splits)

lemma encoded_select: "sess_select env i s c = (r, s', c', out) \<Longrightarrow> encoded env out"
  by (cases "(env, i, s, c)" rule: sess_select.cases)
    (auto simp: Let_def dest: encoded_cmd encoded_ipc split: outcome.splits if_splits)

definition frames_on_wire :: "ipc_message pm_ops \<Rightarrow> ('mb, 'tx) sess_out list \<Rightarrow> bool" where
  "frames_on_wire pm outs \<longleftrightarrow> list_all (\<lambda>(m, b). wire_encode pm m = Ok b) (frames outs)"

lemma frames_on_wire_append: "frames_on_wire pm (xs @ ys) \<longleftrightarrow> frames_on_wire pm xs \<and> frames_on_wire pm ys"
  by (simp add: frames_on_wire_def)

lemma frames_on_wire_nil: "frames_on_wire pm []"
  by (simp add: frames_on_wire_def)

lemma encoded_on_wire: "on_wire pm env \<Longrightarrow> encoded env out \<Longrightarrow> frames_on_wire pm out"
  by (simp add: on_wire_def encoded_def frames_on_wire_def)

lemma run_frames_encoded:
  assumes "list_all (\<lambda>(env1, env2, i). on_wire pm env1 \<and> on_wire pm env2) evs"
    and "sess_run_loop evs s c = (r, s', c', out)"
  shows "frames_on_wire pm out"
  using assms
proof (induction evs arbitrary: s c r s' c' out)
  case Nil
  then show ?case by (simp add: frames_on_wire_nil split: if_splits)
next
  case (Cons ev evs)
  obtain env1 env2 i where ev: "ev = (env1, env2, i)" by (cases ev)
  have wire: "on_wire pm env1" "on_wire pm env2" and rest: "list_all (\<lambda>(env1, env2, i). on_wire pm env1 \<and> on_wire pm env2) evs"
    using Cons.prems(1) by (simp_all add: ev)
  obtain s1 c1 out1 where p1: "sess_cleanup_phase env1 s c = (s1, c1, out1)" by (cases "sess_cleanup_phase env1 s c")
  obtain q s2 c2 out2 where p2: "sess_select env2 i s1 c1 = (q, s2, c2, out2)" by (cases "sess_select env2 i s1 c1")
  obtain r3 s3 c3 out3 where p3: "sess_run_loop evs s2 c2 = (r3, s3, c3, out3)" by (cases "sess_run_loop evs s2 c2")
  have "encoded env1 out1"
    using p1 encoded_cleanup [of env1 s] by (auto simp: sess_cleanup_phase_def Let_def split_beta split: if_splits)
  then have "frames_on_wire pm out1" "frames_on_wire pm out2" "frames_on_wire pm out3"
    using encoded_on_wire wire encoded_select [OF p2] Cons.IH [OF rest p3] by blast+
  then show ?case
    using Cons.prems(2) by (auto simp: ev p1 p2 p3 frames_on_wire_nil frames_on_wire_append split: if_splits option.splits)
qed


section \<open>The parts of a remote call\<close>

text \<open>The request: a message for an actor leaves one session under a fresh tag, and the other hands it to
  the mailbox registered under the index, with its proxy as context.\<close>

lemma request_forwarded:
  assumes "request = ipc_actor_message (actor_message_send actor mid bytes (sess_tag sa))" and "carries envA envB request b"
    and "sess_proxy sb = Some px" and "reg_live (e_ops envB) (e_closed envB) (sess_registry sb) actor = Some mb"
  shows "\<exists>sa' sb'. handle_binary_message envA (binary_send actor mid bytes tx) sa = (sa', [OutFrame request b]) \<and>
    hm_get (message_res_tx_map sa') (sess_tag sa) = Some (tx, e_now envA) \<and>
    handle_ipc_message envB b sb = Ret (Ok (), sb',
      [OutSpawnForward (Ok mb) (with_decode_context (with_encode_context (binary_send actor mid bytes (e_new_tx envB)) px) px) (sess_tag sa)])"
proof -
  have "fst (find_mailbox envB actor sb) = Ok mb" "sess_proxy (snd (find_mailbox envB actor sb)) = Some px"
    using assms(3,4) by (auto simp: find_mailbox_def reg_get_def reg_live_def Let_def case_prod_beta split: option.splits if_splits)
  then have "handle_ipc_message envB b sb = Ret (Ok (), snd (find_mailbox envB actor sb),
      [OutSpawnForward (Ok mb) (with_decode_context (with_encode_context (binary_send actor mid bytes (e_new_tx envB)) px) px) (sess_tag sa)])"
    using assms(1,2) by (simp add: carries_def handle_ipc_message_def ipc_actor_message_def handle_actor_message_def
        actor_message_send_def Let_def case_prod_beta sess_context_def)
  moreover have "\<exists>sa'. handle_binary_message envA (binary_send actor mid bytes tx) sa = (sa', [OutFrame request b]) \<and>
      hm_get (message_res_tx_map sa') (sess_tag sa) = Some (tx, e_now envA)"
    using assms(1,2) by (simp add: handle_binary_message_def binary_send_def send_tracked_def next_tag_def send_ipc_message_def
        carries_def Let_def hm_insert_def)
  ultimately show ?thesis by blast
qed

text \<open>The response: it resolves the waiter that is pending under its tag, and removes it.\<close>

definition response_payload :: "(bytes, string) result \<Rightarrow> (bytes, box_error) result" where
  "response_payload r = map_err (\<lambda>e. session_error_box (RemoteNodeError e)) r"

lemma response_resolves:
  assumes "response = ipc_message_response (message_response_new tag result)" and "carries envB envA response b"
    and "hm_get (message_res_tx_map sa) tag = Some (tx, t)" and "\<not> e_tx_closed envA tx"
  shows "handle_response_command envB tag result sb = (sb, [OutFrame response b]) \<and>
    (\<exists>sa'. handle_ipc_message envA b sa = Ret (Ok (), sa', [OutResolve tx (response_payload result)]) \<and>
       hm_get (message_res_tx_map sa') tag = None)"
proof
  show "handle_response_command envB tag result sb = (sb, [OutFrame response b])"
    using assms(1,2) by (simp add: handle_response_command_def send_ipc_message_def carries_def)
  have "map_err session_error_box (response_result (mr_response (message_response_new tag result))) = response_payload result"
    by (cases result) (simp_all add: message_response_new_def response_result_def response_payload_def)
  then show "\<exists>sa'. handle_ipc_message envA b sa = Ret (Ok (), sa', [OutResolve tx (response_payload result)]) \<and>
      hm_get (message_res_tx_map sa') tag = None"
    using assms by (simp add: handle_ipc_message_def carries_def ipc_message_response_def handle_message_response_def
        hm_remove_def tx_send_def message_response_new_def)
qed

section \<open>Properties\<close>

text \<open>C11. What one session writes the other handles, in order and nothing else: over any run of a session, any transport that
  keeps the contract of a connection and any sequence of polls, dropped calls and arrivals on the receiving side,
  the frames that come out are the first frames that went in, each is handled as the message
  it was made from, and the rest is still unread or under way.\<close>

theorem session_link_faithful:
  assumes "proto_message pm" and "list_all (\<lambda>(env1, env2, i). on_wire pm env1 \<and> on_wire pm env2) evs"
    and "sess_run_loop evs sa c = (r, sa', c', out)"
    and "ipc_connection poll cancel arrive payload unread"
    and "map snd (frames out) = unread conn @ concat (map payload (arrivals steps)) @ underway"
    and "recv_run poll cancel arrive steps conn = (received, conn')" and "on_wire pm envB"
  shows "received = map snd (take (length received) (frames out)) \<and>
    map snd (drop (length received) (frames out)) = unread conn' @ underway \<and>
    (\<forall>i < length received. \<forall>sb. handle_ipc_message envB (received ! i) sb = handle_decoded envB (fst (frames out ! i)) sb)"
proof -
  have split: "map snd (frames out) = received @ unread conn' @ underway"
    using ipc_connection.recv_run_unread [OF assms(4,6)] assms(5) by simp
  then have first: "received = map snd (take (length received) (frames out))"
    and rest: "map snd (drop (length received) (frames out)) = unread conn' @ underway"
    by (simp_all flip: take_map drop_map)
  have len: "length received \<le> length (frames out)" using arg_cong [OF split, of length] by simp
  have "handle_ipc_message envB (received ! i) sb = handle_decoded envB (fst (frames out ! i)) sb" if i: "i < length received" for i sb
  proof (rule handle_ipc_decoded)
    have "received ! i = snd (frames out ! i)" using i len by (subst first) simp
    moreover have "frames out ! i \<in> set (frames out)" using i len by simp
    then have "wire_encode pm (fst (frames out ! i)) = Ok (snd (frames out ! i))"
      using run_frames_encoded [OF assms(2,3)] unfolding frames_on_wire_def list_all_iff by (auto simp: split_beta)
    ultimately show "e_decode envB (received ! i) = Ok (fst (frames out ! i))"
      using wire_roundtrip [OF assms(1)] assms(7) by (simp add: on_wire_def)
  qed
  with first rest show ?thesis by blast
qed

text \<open>Environments over the protobuf wire format.\<close>

definition wire_env :: "nat \<Rightarrow> ((u64, nat) hash_map, nat, nat) sess_env" where
  "wire_env tx = (ex_env tx)\<lparr>e_encode := wire_encode ipc_message_wire, e_decode := wire_decode ipc_message_wire\<rparr>"

lemma wire_env_on_wire: "on_wire ipc_message_wire (wire_env tx)"
  by (simp add: on_wire_def wire_env_def)

lemma wire_encode_total: "wire_encode ipc_message_wire m = Ok (wire_print (ipc_message_to_fields m))"
  by (simp add: wire_encode_def encode_to_bytes_def ipc_message_codec_def pm_append_def ipc_message_wire_def wire_message_def)

theorem session_link_faithful_witness:
  "\<exists>r s' c' out conn'.
     sess_run_loop [(wire_env 0, wire_env 7, InEnvelope (CmdGetActor (RefIndex (actor_id_new 5))))]
       (sess_post_start (actor_id_new 3) (sess_new hm_new)) (sc_set_state Running (session_ctx_new (\<lambda>_. True) (actor_id_new 3) ''s'')) = (r, s', c', out) \<and>
     recv_run (ws_poll fast_socket sk_in) ws_cancel (ws_arrive sk_arrives)
       [RecvPoll, RecvArrive (Ok (WsBinary (wire_print (ipc_message_to_fields ex_request)))), RecvPoll]
       \<lparr>wc_peer_addr = [], wc_stream = \<lparr>sk_in = [Ok (WsPing [7])],
          sk_ended = False, sk_out = [], sk_busy = 0\<rparr>, wc_pending_pong = None, wc_sending = False\<rparr> =
       ([wire_print (ipc_message_to_fields ex_request)], conn') \<and>
     handle_ipc_message (wire_env 0) (wire_print (ipc_message_to_fields ex_request)) (sess_new hm_new) =
       handle_decoded (wire_env 0) ex_request (sess_new hm_new)"
proof -
  let ?b = "wire_print (ipc_message_to_fields ex_request)"
  let ?evs = "[(wire_env 0, wire_env 7, InEnvelope (CmdGetActor (RefIndex (actor_id_new 5))))]"
  let ?s = "sess_post_start (actor_id_new 3) (sess_new hm_new) :: ((u64, nat) hash_map, nat) session"
  let ?c = "sc_set_state Running (session_ctx_new (\<lambda>_. True) (actor_id_new 3) ''s'')"
  let ?conn = "\<lparr>wc_peer_addr = [], wc_stream = \<lparr>sk_in = [Ok (WsPing [7])], sk_ended = False, sk_out = [], sk_busy = 0\<rparr>,
      wc_pending_pong = None, wc_sending = False\<rparr>"
  obtain r s' c' out where run: "sess_run_loop ?evs ?s ?c = (r, s', c', out)" by (cases "sess_run_loop ?evs ?s ?c")
  then have out: "frames out = [(ex_request, ?b)]"
    by (auto simp: sess_cleanup_phase_def session_ctx_new_def sc_set_state_def sess_post_start_def sess_new_def hm_new_def
        cleanup_message_res_tx_map_def hm_filter_def handle_remote_get_actor_def send_tracked_def next_tag_def send_ipc_message_def
        wire_env_def ex_env_def wire_encode_total ex_request_def sess_context_def hm_insert_def Let_def)
  obtain conn' where rcv: "recv_run (ws_poll fast_socket sk_in) ws_cancel (ws_arrive sk_arrives)
      [RecvPoll, RecvArrive (Ok (WsBinary ?b)), RecvPoll] ?conn = ([?b], conn')"
    by (simp add: ws_poll_def ws_pong_def ws_next_def ws_cancel_def ws_arrive_def socket_defs)
  have "handle_ipc_message (wire_env 0) ([?b] ! 0) (sess_new hm_new) = handle_decoded (wire_env 0) (fst (frames out ! 0)) (sess_new hm_new)"
    using session_link_faithful [OF ipc_message_wire.proto_message_axioms _ run fast.ws.ipc_connection_axioms _ rcv wire_env_on_wire]
    by (simp add: wire_env_on_wire out ws_unread_def)
  then show ?thesis using run rcv out by auto
qed

text \<open>The answer of a request travels back: the session that served it writes one frame, and the one that asked
  resolves the waiter pending under the tag with it, once.\<close>

definition answer_returns ::
  "ipc_message pm_ops \<Rightarrow> ('m, 'mb, 'tx) sess_env \<Rightarrow> ('m2, 'mb2, 'tx2) sess_env \<Rightarrow> u64 \<Rightarrow> 'tx2 \<Rightarrow> (bytes, string) result \<Rightarrow> bool" where
  "answer_returns pm envB envA tag tx answer \<longleftrightarrow>
     (\<forall>sa sb t response b. response = ipc_message_response (message_response_new tag answer) \<and> wire_encode pm response = Ok b \<and>
        e_conn_send envB b = Ok () \<and> hm_get (message_res_tx_map sa) tag = Some (tx, t) \<and> \<not> e_tx_closed envA tx \<longrightarrow>
        handle_response_command envB tag answer sb = (sb, [OutFrame response b]) \<and>
        (\<exists>sa'. handle_ipc_message envA b sa = Ret (Ok (), sa', [OutResolve tx (response_payload answer)]) \<and>
           hm_get (message_res_tx_map sa') tag = None))"

lemma wire_answer_returns:
  "proto_message pm \<Longrightarrow> on_wire pm envB \<Longrightarrow> on_wire pm envA \<Longrightarrow> answer_returns pm envB envA tag tx answer"
  unfolding answer_returns_def
  by (intro allI impI, elim conjE, rule response_resolves) (simp_all add: on_wire_carries)

text \<open>What the forwarding task makes of the replies of a handler.\<close>

lemma forwarded_answer:
  assumes "binary_send_result r tx ctx cd e = (replies, e')"
  shows "\<exists>answer. forward_task (Ok mb) (\<lambda>_. Ok ()) (await_response replies) tag = (tag, answer) \<and>
    (case r of
       Err err \<Rightarrow> \<exists>txt. answer = Err txt
     | Ok res \<Rightarrow> (case fst (encode_with ctx cd res e) of Err err \<Rightarrow> \<exists>txt. answer = Err txt | Ok res_bytes \<Rightarrow> answer = Ok res_bytes))"
  using assms by (auto simp: binary_send_result_def forward_task_def split: result.splits prod.splits)

lemma call_served:
  assumes "List.find (\<lambda>y. rm_id y = bm_message_id msg) messages = Some x"
    and "cd_decode (rm_codec x) (bm_decode_msg_ctx msg) \<lparr>b_addr = addr, b_bytes = bm_bytes msg\<rparr> = Ok m"
    and "bm_result_tx msg = Some rtx" and "codec_laws (rm_res_codec x) res_fits res_rel" and "\<And>v. downcast (boxed v) = Some v"
    and "rm_handle x m s = Some (Ret h, s')"
  shows "\<exists>replies e' answer. binary_handle messages addr msg (s, e) = Some (Ret replies, s', e') \<and>
    forward_task (Ok mb) (\<lambda>_. Ok ()) (await_response replies) tag = (tag, answer) \<and>
    (case await_response (rm_respond x h (Some ())) of
       Err err \<Rightarrow> \<exists>txt. answer = Err txt
     | Ok res \<Rightarrow>
         (case fst (encode_with (bm_encode_res_ctx msg) (rm_res_codec x) res e) of
            Err err \<Rightarrow> \<exists>txt. answer = Err txt
          | Ok res_bytes \<Rightarrow> answer = Ok res_bytes \<and>
              (cd_len (rm_res_codec x) res < 2 ^ 64 \<and> res_fits dc res a \<longrightarrow> (\<exists>v. res_rel dc res v \<and>
                 decode_res downcast (message_codec_of boxed x) dc caller (RawAnswer (oneshot_recv (Some (response_payload answer))) a) =
                   [Reply caller v]))))"
proof -
  obtain replies e' where sent: "binary_send_result (await_response (rm_respond x h (Some ()))) rtx (bm_encode_res_ctx msg) (rm_res_codec x) e = (replies, e')"
    by fastforce
  have "binary_handle messages addr msg (s, e) = Some (Ret replies, s', e')"
    by (simp add: binary_handle_decoded [OF assms(1-3)] assms(6) sent)
  with forwarded_answer [OF sent, of mb tag] response_decoded [where downcast = downcast and boxed = boxed, OF assms(4,5)]
  show ?thesis
    by (intro exI [of _ replies] exI [of _ e'])
      (auto simp: response_payload_def oneshot_recv_def prod_eq_iff split: result.splits)
qed

text \<open>C2. A call to an actor in another process, from the message to the decoded answer. The caller's session
  sends what the derived table encodes under a fresh tag; the other session hands it to the actor's
  mailbox; the derived handler runs the actor on the message the bytes stand for. Whatever it
  answers travels back under that tag to whoever is still pending there, and an answer with a value
  reaches the caller as the value it stands for.\<close>

theorem remote_send_end_to_end:
  assumes "proto_message pm" and "on_wire pm envA" and "on_wire pm envB" and "on_wire pm envA2" and "on_wire pm envB2"
    and "ids_unique (map rm_id messages)" and "distinct (map rm_type messages)" and "x \<in> set messages"
    and "codec_laws (rm_codec x) fits rel" and "codec_laws (rm_res_codec x) res_fits res_rel" and "\<And>v. downcast (boxed v) = Some v"
    and "derived_codec_table boxed messages (rm_type x) = Some codec"
    and "mc_encode_msg codec m ec = (Ok bytes, ec')" and "cd_len (rm_codec x) m < 2 ^ 64"
    and "request = ipc_actor_message (actor_message_send actor (mc_message_id codec) bytes (sess_tag sa))"
    and "wire_encode pm request = Ok b" and "e_conn_send envA b = Ok ()"
    and "sess_proxy sb = Some px" and "reg_live (e_ops envB) (e_closed envB) (sess_registry sb) actor = Some mb"
    and "fits (Some px) m addr"
  shows "\<exists>sa' sb' msg m'. rel (Some px) m m' \<and>
    handle_binary_message envA (binary_send actor (mc_message_id codec) bytes tx) sa = (sa', [OutFrame request b]) \<and>
    hm_get (message_res_tx_map sa') (sess_tag sa) = Some (tx, e_now envA) \<and>
    handle_ipc_message envB b sb = Ret (Ok (), sb', [OutSpawnForward (Ok mb) msg (sess_tag sa)]) \<and>
    (\<forall>s e h s' dc a. rm_handle x m' s = Some (Ret h, s') \<longrightarrow>
       (\<exists>replies e' answer. binary_handle messages addr msg (s, e) = Some (Ret replies, s', e') \<and>
          forward_task (Ok mb) (\<lambda>_. Ok ()) (await_response replies) (sess_tag sa) = (sess_tag sa, answer) \<and>
          answer_returns pm envB2 envA2 (sess_tag sa) tx answer \<and>
          (case await_response (rm_respond x h (Some ())) of
             Err err \<Rightarrow> \<exists>txt. answer = Err txt
           | Ok res \<Rightarrow>
               (case fst (encode_with (Some px) (rm_res_codec x) res e) of
                  Err err \<Rightarrow> \<exists>txt. answer = Err txt
                | Ok res_bytes \<Rightarrow> answer = Ok res_bytes \<and>
                    (cd_len (rm_res_codec x) res < 2 ^ 64 \<and> res_fits dc res a \<longrightarrow> (\<exists>v. res_rel dc res v \<and>
                       decode_res downcast codec dc caller (RawAnswer (oneshot_recv (Some (response_payload answer))) a) = [Reply caller v]))))))"
proof -
  have codec: "codec = message_codec_of boxed x" using table_entry [OF assms(7,8), of boxed] assms(12) by simp
  let ?msg = "with_decode_context (with_encode_context (binary_send actor (mc_message_id codec) bytes (e_new_tx envB)) px) px"
  have msg: "bm_message_id ?msg = rm_id x" "bm_bytes ?msg = bytes" "bm_result_tx ?msg = Some (e_new_tx envB)"
    "bm_decode_msg_ctx ?msg = Some px" "bm_encode_res_ctx ?msg = Some px"
    by (simp_all add: binary_send_def with_encode_context_def with_decode_context_def codec message_codec_of_def)
  have find: "List.find (\<lambda>y. rm_id y = bm_message_id ?msg) messages = Some x"
    using find_message [OF _ assms(8)] assms(6) by (simp add: ids_unique_distinct msg)
  have "encode_to_bytes (rm_codec x) m ec = (Ok bytes, ec')" using assms(13) by (simp add: codec message_codec_of_def)
  then obtain m' where dec: "cd_decode (rm_codec x) (Some px) \<lparr>b_addr = addr, b_bytes = bytes\<rparr> = Ok m'" and m': "rel (Some px) m m'"
    using codec_laws.to_bytes(2) [OF assms(9) _ assms(14,20)] by blast
  then have "cd_decode (rm_codec x) (bm_decode_msg_ctx ?msg) \<lparr>b_addr = addr, b_bytes = bm_bytes ?msg\<rparr> = Ok m'"
    by (simp only: msg)
  note served = call_served [where downcast = downcast and boxed = boxed and caller = caller and mb = mb and tag = "sess_tag sa",
      OF find this msg(3) assms(10,11), unfolded msg(5), folded codec]
  from request_forwarded [OF assms(15) on_wire_carries [OF assms(1-3,16,17)] assms(18,19), of tx]
  obtain sa' sb' where req: "handle_binary_message envA (binary_send actor (mc_message_id codec) bytes tx) sa = (sa', [OutFrame request b])"
      "hm_get (message_res_tx_map sa') (sess_tag sa) = Some (tx, e_now envA)"
      "handle_ipc_message envB b sb = Ret (Ok (), sb', [OutSpawnForward (Ok mb) ?msg (sess_tag sa)])"
    by blast
  have returns: "answer_returns pm envB2 envA2 (sess_tag sa) tx answer \<longleftrightarrow> True" for answer
    using wire_answer_returns [OF assms(1,5,4)] by simp
  show ?thesis
    unfolding returns simp_thms
    by (rule exI [of _ sa'], rule exI [of _ sb'], rule exI [of _ ?msg], rule exI [of _ m'], intro conjI m' req allI impI)
      (erule served)
qed

text \<open>An actor under the index 5 that adds the message to its state.\<close>

definition ex_adder :: "(unit, 16 word, 16 word, 16 word, 16 word, unit, session_proxy) remote_message" where
  "ex_adder = \<lparr>rm_type = (), rm_id = 9, rm_codec = word_codec zc_std, rm_res_codec = word_codec zc_std,
     rm_handle = (\<lambda>m s. Some (Ret (m + s), s + 1)), rm_respond = respond\<rparr>"

theorem remote_send_end_to_end_witness:
  "\<exists>b sa' sb' msg replies. handle_binary_message (wire_env 7) (binary_send 5 9 [2, 1] 7) (sess_new hm_new) = (sa', [OutFrame
       (ipc_actor_message (actor_message_send 5 9 [2, 1] 0)) b]) \<and>
     handle_ipc_message (wire_env 8) b (sess_post_start (actor_id_new 4) (sess_new [(5, 6)])) =
       Ret (Ok (), sb', [OutSpawnForward (Ok 6) msg 0]) \<and>
     binary_handle [ex_adder] 0 msg (1, ()) = Some (Ret replies, 2, ()) \<and>
     forward_task (Ok (6 :: nat)) (\<lambda>_. Ok ()) (await_response replies) 0 = (0, Ok [3, 1]) \<and>
     answer_returns ipc_message_wire (wire_env 8) (wire_env 7) 0 7 (Ok [3, 1]) \<and>
     decode_res Some (message_codec_of (\<lambda>v. v) ex_adder) None (4 :: nat)
       (RawAnswer (oneshot_recv (Some (response_payload (Ok [3, 1])))) 0) = [Reply 4 259]"
proof -
  let ?cd = "word_codec zc_std :: (16 word, unit option, session_proxy option) codec"
  let ?codec = "message_codec_of (\<lambda>v. v) ex_adder" and ?px = "\<lparr>px_session = actor_id_new 4\<rparr>"
  let ?req = "ipc_actor_message (actor_message_send 5 9 [2, 1] 0)"
  let ?sa = "sess_new hm_new :: ((u64, nat) hash_map, nat) session"
  let ?sb = "sess_post_start (actor_id_new 4) (sess_new [(5, 6)]) :: ((u64, nat) hash_map, nat) session"
  have cds: "rm_codec ex_adder = ?cd" "rm_res_codec ex_adder = ?cd" "rm_respond ex_adder = respond" "mc_message_id ?codec = 9" "rm_id ex_adder = 9"
    "rm_handle ex_adder m s = Some (Ret (m + s), s + 1)" for m s
    by (simp_all add: ex_adder_def message_codec_of_def)
  have laws: "codec_laws ?cd always same" by (rule zc_std.word_laws) simp
  have enc: "mc_encode_msg ?codec 258 None = (Ok [2, 1], None)" and enc2: "encode_to_bytes ?cd 259 (Some ()) = (Ok [3, 1], Some ())"
    by (simp_all add: message_codec_of_def cds encode_to_bytes_def word_codec_def Let_def le_bytes_numeral)
  have len: "cd_len ?cd v < 2 ^ 64" for v by (simp add: word_codec_def Let_def)
  have table: "derived_codec_table (\<lambda>v. v) [ex_adder] (rm_type ex_adder) = Some ?codec" by (rule table_entry) simp_all
  have env: "e_conn_send (wire_env 7) b = Ok ()" "sess_tag ?sa = 0" "sess_proxy ?sb = Some ?px"
    "reg_live (e_ops (wire_env 8)) (e_closed (wire_env 8)) (sess_registry ?sb) 5 = Some 6" for b
    by (simp_all add: wire_env_def ex_env_def sess_post_start_def sess_new_def reg_live_def hm_ops_def hm_get_def)
  have ids: "ids_unique (map rm_id [ex_adder])" "distinct (map rm_type [ex_adder])" "ex_adder \<in> set [ex_adder]" by simp_all
  have req: "?req = ipc_actor_message (actor_message_send 5 (mc_message_id ?codec) [2, 1] (sess_tag ?sa))" by (simp add: cds env)
  note call = remote_send_end_to_end [where downcast = Some and caller = "4 :: nat" and tx = 7 and addr = 0 and fits = always and rel = same
      and res_fits = always and res_rel = same, OF ipc_message_wire.proto_message_axioms wire_env_on_wire [of 7] wire_env_on_wire [of 8]
      wire_env_on_wire [of 7] wire_env_on_wire [of 8] ids laws [folded cds(1)] laws [folded cds(2)] _ table enc len [folded cds(1)] req
      wire_encode_total env(1) env(3,4), OF _ TrueI, OF refl, unfolded env(2) cds(4)]
  then obtain sa' sb' msg where fwd: "handle_binary_message (wire_env 7) (binary_send 5 9 [2, 1] 7) ?sa =
        (sa', [OutFrame ?req (wire_print (ipc_message_to_fields ?req))])"
      "handle_ipc_message (wire_env 8) (wire_print (ipc_message_to_fields ?req)) ?sb = Ret (Ok (), sb', [OutSpawnForward (Ok 6) msg 0])"
    and "\<exists>replies e' answer. binary_handle [ex_adder] 0 msg (1, ()) = Some (Ret replies, 2, e') \<and>
        forward_task (Ok (6 :: nat)) (\<lambda>_. Ok ()) (await_response replies) 0 = (0, answer) \<and>
        answer_returns ipc_message_wire (wire_env 8) (wire_env 7) 0 7 answer \<and> answer = Ok [3, 1] \<and>
        decode_res Some ?codec None (4 :: nat) (RawAnswer (oneshot_recv (Some (response_payload answer))) 0) = [Reply 4 259]"
    by - (elim exE conjE, drule spec [of _ "1 :: 16 word"], drule spec [of _ "()"], drule spec [of _ "259 :: 16 word"],
        drule spec [of _ "2 :: 16 word"], drule spec [of _ "None :: session_proxy option"], drule spec [of _ "0 :: nat"],
        simp add: cds enc2 encode_with_def respond_def len [of 259, simplified])
  then show ?thesis by auto
qed

end
