(* ===== verification/Spec2Isabelle.thy ===== *)
theory Spec2Isabelle
  imports Double_Map_Iter Node_Actor Mgr_Actor Control_Codec Control_Ids Derive_Attr Adaptor Proto_Containers Receiver Address_Keys
    Local_Call Ipc_Link
begin

text \<open>
  Verification of acktor, an actor library on tokio (\<open>src/acktor\<close>) with an inter-process layer
  (\<open>src/acktor-ipc\<close>, messages in \<open>src/acktor-ipc-proto\<close>).

  \<^bold>\<open>The program.\<close> An actor is a task that owns a mailbox. A context (\<open>Context\<close>, \<open>CronContext\<close>,
  \<open>SessionContext\<close>, \<open>NodeContext\<close>) takes envelopes from the mailbox and hands them to the actor's
  handlers, one at a time, while the actor is \<open>Running\<close>; \<open>ActorContext::spawn\<close> and \<open>run\<close> call the
  user's hooks around that loop and report the end to a supervisor. Between processes, a \<open>Node\<close> accepts
  and opens connections and gives each to a \<open>Session\<close> actor. A session turns requests of local actors
  into tagged frames, files a waiter under the tag and answers it from the response frame; it serves
  the requests of the other side through the \<open>ActorMgr\<close>, which keeps labels and factories, and the
  \<open>RemoteMailboxRegistry\<close>, which the node, the manager and all sessions share. The node keeps its
  sessions in a \<open>DoubleMap\<close>, found by index and by label.

  \<^bold>\<open>Theories and sources.\<close>
  \<^item> \<open>Prelude\<close>: \<open>Result\<close>, panics (\<open>outcome\<close>), the integer widths, generic facts, the collections
    \<open>hm_simps\<close>, \<open>refine\<close>, \<open>inv_intros\<close>.
  \<^item> \<open>Hash_Map\<close>: the std \<open>HashMap\<close> and \<open>HashSet\<close> operations in use; the locale \<open>kv_store\<close>, the contract of
    a key-value store, interpreted on the map and assumed of \<open>DashMap\<close>.
  \<^item> \<open>Double_Map\<close>, \<open>Double_Map_Entry\<close>, \<open>Double_Map_Iter\<close>: \<open>acktor-ipc/src/double_map.rs\<close>,
    \<open>double_map/entry.rs\<close>, \<open>errors.rs\<close>, \<open>iter.rs\<close>. The record has the two internal maps; \<open>dm_triples\<close> is
    the abstract set of triples, \<open>dm_inv\<close> says that the maps mirror each other.
  \<^item> \<open>Errors\<close>: the error enums with their texts and chains (\<open>acktor/src/error.rs\<close>, \<open>codec/error.rs\<close>,
    \<open>acktor-ipc/src/error.rs\<close>), actor indices and references.
  \<^item> \<open>Registry\<close>: \<open>acktor-ipc/src/remote/registry.rs\<close>, over any key-value store.
  \<^item> \<open>Actor_Mgr\<close>: \<open>acktor-ipc/src/node/actor_mgr.rs\<close>: the periodic sweep, the four handlers, and runs in
    which sessions touch the shared registry between handlers. \<open>Mgr_Actor\<close>: the manager as an actor under the loop
    of \<open>Cron\<close>.
  \<^item> \<open>Lifecycle\<close>: \<open>acktor/src/actor.rs\<close>, \<open>signal.rs\<close>, \<open>supervisor.rs\<close>: states, signals, \<open>spawn\<close>, \<open>run\<close>,
    \<open>create\<close>, \<open>start\<close> over a record of context operations; the locale \<open>actor_context\<close> is what they need. The
    asynchronous hooks may never return (\<open>None\<close>). A notification of a supervisor is one attempt: its mailbox accepts it or
    refuses it, and then it is dropped, as \<open>try_notify_supervisor\<close> does; \<open>delivered\<close> is what arrived.
  \<^item> \<open>Default_Context\<close>: \<open>acktor/src/context.rs\<close>, \<open>drain.rs\<close>: the message loop, error saving, both drain
    policies; locales \<open>fifo_mailbox\<close> (the channel) and \<open>drain_policy\<close>.
  \<^item> \<open>Cron\<close>: \<open>acktor/src/cron.rs\<close>: the repeated task, its timer, pause and resume.
  \<^item> \<open>Observer\<close>: \<open>acktor/src/observer.rs\<close>.
  \<^item> \<open>Proto\<close>: the message types of \<open>acktor-ipc-proto\<close> and \<open>BinaryMessage\<close>.
  \<^item> \<open>Session\<close>, \<open>Session_Run\<close>: \<open>acktor-ipc/src/session.rs\<close>, \<open>session/proxy.rs\<close>, \<open>session/context.rs\<close>:
    every handler, the sweep of expired waiters, and the loop that selects between mailbox and
    connection.
  \<^item> \<open>Node\<close>: \<open>acktor-ipc/src/node.rs\<close>, \<open>node/context.rs\<close>, \<open>node/command.rs\<close>, \<open>node/event.rs\<close>: builder,
    hooks, handlers, and the loop that selects between the mailbox and one accept task per listener.
  \<^item> \<open>Session_Actor\<close>: a session as an actor of a node: \<open>Lifecycle\<close> with the hooks and the loop of a session, and
    the node that supervises it. \<open>Node_Actor\<close>: the node as an actor, and \<open>terminate_actor\<close> of
    \<open>acktor/src/utils.rs\<close>, with which it ends and awaits its children; the join handle of tokio is the locale \<open>join_handle\<close>.
    A child is its bounded mailbox and the turns it takes: a send to a full mailbox waits for them, and the task has
    finished when the loop of the manager or of the session, run on what it selected, has ended.
  \<^item> \<open>Channel\<close>, \<open>Envelope\<close>: \<open>acktor/src/channel\<close>, \<open>envelope\<close>, \<open>message\<close>: the bounded channel and the response
    channel over those of tokio (locales \<open>mpsc\<close>, \<open>oneshot\<close>, the first a sublocale of \<open>fifo_mailbox\<close>), the two
    envelope proxies and the responses. A handler is the sequence of polls of its future, so that a time budget can be
    checked between polls only. \<open>Receiver\<close>: the remaining operations of the receiving halves.
  \<^item> \<open>Address\<close>, \<open>Remote_Address\<close>: \<open>acktor/src/address.rs\<close>, \<open>address/\<close>, \<open>acktor-ipc/src/session/proxy.rs\<close>:
    local and remote addresses, permits, recipients, the decoding of answers and the
    relay of a remote mailbox next to the other senders of its channel. The trait \<open>Sender\<close> is the record \<open>sender_ops\<close> with the contract \<open>sender\<close>; the
    side of a session is the contract \<open>proxy\<close>. \<open>Address_Keys\<close>: constructors, equality and hash of addresses.
  \<^item> \<open>Local_Call\<close>: a call from the address through mailbox, loop, envelope and response channel back to the caller,
    with callers and actor interleaved; the locale \<open>local_calls\<close> joins the contracts of the parts.
  \<^item> \<open>Codec\<close>, \<open>Wire\<close>, \<open>Control_Codec\<close>, \<open>Prost_Codec\<close>, \<open>Ipc_Wire\<close>, \<open>Derived_Codec\<close>: \<open>acktor/src/codec\<close>,
    \<open>acktor-ipc-proto\<close> and the code \<open>acktor-derive\<close> writes for \<open>Encode\<close> and \<open>Decode\<close>. The contract of a codec is
    \<open>codec_laws\<close>. The crates \<open>zerocopy\<close>, \<open>prost\<close>, \<open>serde_json\<close> and \<open>rkyv\<close> are parameters under the locales
    \<open>zerocopy\<close>, \<open>protobuf\<close>, \<open>proto_message\<close>, \<open>prost_packed\<close>, \<open>prost_tuple\<close>, \<open>prost_len\<close> and \<open>zerocopy_len\<close>; \<open>Derived_Codec\<close> has the
    eight templates of the macros, and of \<open>serde_json\<close> and \<open>rkyv\<close> it assumes nothing. \<open>Wire\<close> has the protobuf wire format, with which those of \<open>prost\<close> are interpreted. \<open>Proto_Containers\<close>: the container messages and
    enumerations of the protocol crate.
  \<^item> \<open>Adaptor\<close>: \<open>acktor-ipc-proto/src/adaptor.rs\<close>, over the contract \<open>ipc_wire\<close>.
  \<^item> \<open>Type_Id\<close>: \<open>acktor/src/stable_type_id.rs\<close>, \<open>utils/type_map.rs\<close>, \<open>acktor-derive/src/stable_id.rs\<close>,
    \<open>message_id.rs\<close>; the digest is a parameter under the locale \<open>digest\<close>, interpreted with SHA-256.
    \<open>Control_Ids\<close>: the identifiers of the control messages, in the files of those and in \<open>acktor/src/message/index.rs\<close>.
  \<^item> \<open>Derive_Attr\<close>: the front end of the macros, \<open>acktor-derive/src\<close>: attributes, compile errors, and the impls that are
    generated, over the syntax trees of \<open>syn\<close>, whose parsers are parameters (locale \<open>syn_printer\<close>).
  \<^item> \<open>Remote_Handler\<close>: the codec table and the handler of binary messages that
    \<open>acktor-derive/src/remote_addressable.rs\<close> writes.
  \<^item> \<open>Transport\<close>: \<open>acktor-ipc/src/ipc_method\<close>: WebSocket and pipe connections over the sockets of the
    libraries (locales \<open>ws_duplex\<close>, \<open>ws_ready\<close>, \<open>pipe_duplex\<close>), both of the contract \<open>ipc_connection\<close>.
  \<^item> \<open>Ipc_Link\<close>: two sessions joined by a connection, with the frames of \<open>acktor/src/codec/ipc_message.rs\<close>, and a
    call through both of them to the derived handler of an actor.

  \<^bold>\<open>How code becomes definitions.\<close> A struct is a record, an enum a datatype, a method a function from
  the old state to the result and the new state; each handler is one function because an actor runs
  one handler at a time. A panic is \<open>Panic\<close>, an error \<open>Err\<close>. What happens outside an actor during a
  handler (clock, connection, other actors' answers, user code) is a record of functions given to
  that step, and what the handler does outside is a list of effects, so runs with any timing and any
  failures are covered by quantifying over the records. Addresses and recipients are their indices,
  as their \<open>PartialEq\<close> and \<open>Hash\<close> are. Logging is left out, except where a provided method logs in
  place of notifying.

  \<^bold>\<open>What is proved.\<close>
  \<^item> Sessions: every waiter is pending, resolved exactly once, or had its receiver closed, over all
    runs; a response reaches the waiter of its request; the sweep resolves exactly the expired ones;
    each inbound request with a tag gets one answer with that tag; a lookup of a remote actor gives
    its address end to end through two sessions and the manager. A session created by a node never panics and
    tries exactly once to report its end to the node, which forgets it if the report is accepted.
  \<^item> Node: replaying the node's events gives its sessions; sessions are created exactly when possible
    and ended cleanly; accept tasks are accounted for; building before the start equals commanding
    after it; a node that is stopped ends and awaits its manager and all open sessions, and stops when they do.
  \<^item> Manager and registry: a label keeps resolving to its open mailbox until a removal names its
    actor, whatever is interleaved; the functional behaviour of each handler; under its loop the manager runs as the
    sequence of its handlers and sweeps.
  \<^item> Contexts: FIFO handling up to the first message that ends the actor, with termination of the
    loop; every error used exactly once; the final report, attempted once; hooks run in the documented
    states; the cron task waits for its resume and never blocks when it asks for no delay.
  \<^item> \<open>DoubleMap\<close>: every operation refines the specification on sets of triples, no operation
    sequence from the empty map breaks the invariant or panics, except by indexing an absent key, the entry API agrees with the direct
    operations, iterators yield every entry once.
  \<^item> Addresses: a mailbox never holds more than its capacity and hands out what was sent, in order and
    without loss; every sender delivers a message or returns it; a remote address puts what it encodes
    before the session and an answer is decoded for the caller it belongs to; the relay of a remote
    mailbox forwards faithfully and ends; an envelope is handled and answered once, and a time budget ends a
    handler that yields. Addresses are equal when their
    indices are, and indices differ; every way of receiving keeps the order and loses nothing.
  \<^item> Local calls: under any interleaving of callers and actor, the run refines the sequential one that
    serves the accepted calls in order, and each caller gets the result of its own call.
  \<^item> Codecs: what is written has the announced length and is read back as a related value, for the
    scalars, containers, tuples, addresses, control messages and IPC messages, on hosts of either
    pointer width. Derived codecs append as many bytes as they announce and write the same bytes in both ways of encoding. The containers written
    by hand are the messages of the protocol crate.
  \<^item> Remote calls: what the caller encodes with the derived table is handled as the message it stands for
    and the answer comes back as the response it stands for; every binary message is answered once. Over two
    sessions and the wire, the other side handles exactly the messages that were sent, and a call returns what
    the handler computed.
  \<^item> Adaptor, transports, identifiers: each response is offered to one caller; connections deliver what
    arrived in order under any cancellation; types that differ have different identifiers unless the digest
    collides; the derived identifiers are those, under the right trait bounds.

  \<^bold>\<open>Bounds.\<close> Message tags are 64-bit words and wrap; the accounting of waiters assumes fewer than
  \<open>2^64\<close> requests in a session's life. The loops of \<open>Context\<close> and \<open>CronContext\<close> are
  \<open>partial_function (option)\<close>: \<open>None\<close> is a loop that waits forever, and the liveness theorems show
  \<open>Some\<close>. The loops of sessions and nodes run on the list of inputs they select, so they need no fuel:
  a list that ends while the actor is running is an actor that still waits.

  Polling a WebSocket uses as fuel one more than the number of messages that have arrived, and every
  round but the last consumes one. Lengths of encoded values are assumed below \<open>2^64\<close>, where the code
  would exhaust the memory first.

  \<^bold>\<open>Not modelled.\<close> Of the derive macros, tokens inside types and predicates. The handlers of sessions, node and manager, the
  hook \<open>stopping\<close> and the task of \<open>CronActor\<close> are functions that return; a handler under an envelope may also wait for ever. A
  closure given to \<open>retain\<close> is a function: each entry is visited once. Overflow checks of debug builds are left out:
  counters wrap as in release builds. Vectors are read in place with the alignment of 64-bit targets. The protocol generator runs the protobuf
  compiler at build time. Crate roots hold re-exports and documentation. Logging, \<open>Debug\<close> output and the
  capacity of hash maps have no effect on results. Sockets, tokio channels, the serialization
  crates, the digest and \<open>DashMap\<close> are other crates: parameters, with what the code relies on as the
  laws of locales, each interpreted on a concrete machine.
\<close>

end
